(* ===== verification/SolTrace_Prelude.thy ===== *)
theory SolTrace_Prelude
  imports Complex_Main "HOL-Library.AList" "HOL-Library.Multiset"
begin

text \<open>
  What the component theories share: the model's names for time and results, the Python
  string operations the code uses, dictionaries, and generic facts on lists and multisets.

  Strings are \<^typ>\<open>string\<close>: one \<^typ>\<open>char\<close> per code point up to U+00FF. On these,
  \<open>is_space\<close> and \<open>is_digit\<close> are exactly the classes that \<open>str.strip\<close>, \<open>str.split\<close>
  and the regular expression classes for space and digit use; code points above U+00FF are
  outside the model. Times are integers in microseconds, and Python floats are \<^typ>\<open>real\<close>.
\<close>

named_theorems conserve \<open>conservation laws: nothing is lost by an operation\<close>
named_theorems keeps \<open>an operation keeps its component's invariant\<close>
named_theorems pystr \<open>rewriting of the Python string operations\<close>

type_synonym time = int

abbreviation sec :: "int \<Rightarrow> time" where
  "sec n \<equiv> n * 1000000"

abbreviation minutes :: "int \<Rightarrow> time" where
  "minutes n \<equiv> sec (60 * n)"

text \<open>An HTTP handler ends in an exception (status code and detail) or in a result.\<close>

datatype http_error = HTTPException (code: nat) (detail: string)

type_synonym 'a http = "http_error + 'a"

section \<open>Characters and strings\<close>

definition is_space :: "char \<Rightarrow> bool" where
  "is_space c = (let n = (of_char c :: nat) in
     (9 \<le> n \<and> n \<le> 13) \<or> (28 \<le> n \<and> n \<le> 32) \<or> n = 133 \<or> n = 160)"

definition is_digit :: "char \<Rightarrow> bool" where
  "is_digit c = (let n = (of_char c :: nat) in 48 \<le> n \<and> n \<le> 57)"

abbreviation LF :: char where "LF \<equiv> CHR 0x0A"
abbreviation CR :: char where "CR \<equiv> CHR 0x0D"
abbreviation DQ :: char where "DQ \<equiv> CHR 0x22"

definition lstrip :: "string \<Rightarrow> string" where
  "lstrip s = dropWhile is_space s"

definition strip :: "string \<Rightarrow> string" where
  "strip s = rev (dropWhile is_space (rev (lstrip s)))"

definition strip_char :: "char \<Rightarrow> string \<Rightarrow> string" where
  "strip_char c s = rev (dropWhile ((=) c) (rev (dropWhile ((=) c) s)))"

function split_ws :: "string \<Rightarrow> string list" where
  "split_ws s = (let t = dropWhile is_space s in
     if t = [] then []
     else takeWhile (\<lambda>c. \<not> is_space c) t # split_ws (dropWhile (\<lambda>c. \<not> is_space c) t))"
  by pat_completeness auto
termination
proof (relation "measure length", goal_cases)
  case 1
  show ?case by simp
next
  case (2 s t)
  have ne: "dropWhile is_space s \<noteq> []" using 2 by simp
  then have hd: "\<not> is_space (hd (dropWhile is_space s))" by (rule hd_dropWhile)
  obtain c cs where c: "dropWhile is_space s = c # cs"
    using ne by (cases "dropWhile is_space s") auto
  have "length (dropWhile (\<lambda>c. \<not> is_space c) (c # cs)) \<le> length cs"
    using hd c by (simp add: length_dropWhile_le)
  moreover have "Suc (length cs) \<le> length s"
    using length_dropWhile_le [of is_space s] c by simp
  ultimately show ?case using 2 c by simp
qed

declare split_ws.simps [simp del]

fun split_on :: "char \<Rightarrow> string \<Rightarrow> string list" where
  "split_on c [] = [[]]"
| "split_on c (x # xs) =
     (if x = c then [] # split_on c xs
      else (case split_on c xs of p # ps \<Rightarrow> (x # p) # ps | [] \<Rightarrow> [[x]]))"

definition starts_with :: "string \<Rightarrow> string \<Rightarrow> bool" where
  "starts_with p s = (take (length p) s = p)"

definition ends_with :: "string \<Rightarrow> string \<Rightarrow> bool" where
  "ends_with p s = starts_with (rev p) (rev s)"

fun has_substring :: "string \<Rightarrow> string \<Rightarrow> bool" where
  "has_substring p [] = (p = [])"
| "has_substring p (x # xs) = (starts_with p (x # xs) \<or> has_substring p xs)"

definition replace_char :: "char \<Rightarrow> string \<Rightarrow> string \<Rightarrow> string" where
  "replace_char c r s = concat (map (\<lambda>x. if x = c then r else [x]) s)"

fun join_with :: "char \<Rightarrow> string list \<Rightarrow> string" where
  "join_with c [] = []"
| "join_with c [x] = x"
| "join_with c (x # y # xs) = x @ [c] @ join_with c (y # xs)"

text \<open>\<open>str.splitlines\<close> up to empty lines, which the loop skips.\<close>

definition is_line_end :: "char \<Rightarrow> bool" where
  "is_line_end c = (let n = (of_char c :: nat) in (10 \<le> n \<and> n \<le> 13) \<or> (28 \<le> n \<and> n \<le> 30) \<or> n = 133)"

fun split_lines :: "string \<Rightarrow> string list" where
  "split_lines [] = [[]]"
| "split_lines (x # xs) =
     (if is_line_end x then [] # split_lines xs
      else (case split_lines xs of p # ps \<Rightarrow> (x # p) # ps | [] \<Rightarrow> [[x]]))"

text \<open>Decimal numbers: \<open>str\<close> of an integer and the formats of floats.\<close>

fun show_nat :: "nat \<Rightarrow> string" where
  "show_nat n = (if n < 10 then [char_of (48 + n)] else show_nat (n div 10) @ [char_of (48 + n mod 10)])"

declare show_nat.simps [simp del]

definition show_int :: "int \<Rightarrow> string" where
  "show_int i = (if i < 0 then CHR ''-'' # show_nat (nat (- i)) else show_nat (nat i))"

text \<open>\<open>f"{x:.df}"\<close>: the nearest decimal with \<open>d\<close> digits, the even one of two that are as near.\<close>

definition nearest :: "real \<Rightarrow> int" where
  "nearest y = (let f = \<lfloor>y\<rfloor>; r = y - of_int f in
     if r < 1 / 2 then f else if r > 1 / 2 then f + 1 else if even f then f else f + 1)"

definition pad_zeros :: "nat \<Rightarrow> string \<Rightarrow> string" where
  "pad_zeros d s = replicate (d - length s) (CHR ''0'') @ s"

definition fixed :: "nat \<Rightarrow> real \<Rightarrow> string" where
  "fixed d x = (let n = nearest (\<bar>x\<bar> * 10 ^ d) in
     (if x < 0 then ''-'' else []) @ show_int (n div 10 ^ d) @
     (if d = 0 then [] else CHR ''.'' # pad_zeros d (show_int (n mod 10 ^ d))))"

text \<open>Python's truthiness of an optional string: \<open>None\<close> and the empty string are false.\<close>

fun truthy :: "string option \<Rightarrow> bool" where
  "truthy None = False"
| "truthy (Some s) = (s \<noteq> [])"

text \<open>\<open>x or d\<close> for an optional string.\<close>

fun or_else :: "string option \<Rightarrow> string \<Rightarrow> string" where
  "or_else None d = d"
| "or_else (Some s) d = (if s = [] then d else s)"

lemma split_on_nonempty [simp]: "split_on c s \<noteq> []"
  by (induction s) (auto split: list.splits)

lemma starts_with_append [simp]: "starts_with p (p @ s)"
  by (simp add: starts_with_def)

lemma starts_with_iff: "starts_with p s \<longleftrightarrow> (\<exists>t. s = p @ t)"
  by (metis append_eq_conv_conj append_take_drop_id starts_with_def)

lemma ends_with_iff: "ends_with p s \<longleftrightarrow> (\<exists>t. s = t @ p)"
  by (metis ends_with_def rev_append rev_rev_ident starts_with_iff)

lemma replace_char_Nil [simp]: "replace_char c r [] = []"
  by (simp add: replace_char_def)

lemma replace_char_Cons [simp]:
  "replace_char c r (x # xs) = (if x = c then r @ replace_char c r xs else x # replace_char c r xs)"
  by (simp add: replace_char_def)

lemma replace_char_append [simp]: "replace_char c r (xs @ ys) = replace_char c r xs @ replace_char c r ys"
  by (simp add: replace_char_def)

lemma split_on_sep_free: "c \<notin> set x \<Longrightarrow> split_on c x = [x]"
  by (induction x) auto

lemma split_on_sep: "c \<notin> set x \<Longrightarrow> split_on c (x @ c # y) = x # split_on c y"
  by (induction x) auto

lemma split_join: "xs \<noteq> [] \<Longrightarrow> \<forall>x \<in> set xs. c \<notin> set x \<Longrightarrow> split_on c (join_with c xs) = xs"
  by (induction c xs rule: join_with.induct) (simp_all add: split_on_sep_free split_on_sep)

lemma truthy_iff: "truthy s \<longleftrightarrow> (\<exists>t. s = Some t \<and> t \<noteq> [])"
  by (cases s) auto

lemma split_ws_blank [simp]: "dropWhile is_space s = [] \<Longrightarrow> split_ws s = []"
  by (subst split_ws.simps) (simp add: Let_def)

lemma split_ws_word:
  "dropWhile is_space s \<noteq> [] \<Longrightarrow>
   split_ws s = takeWhile (\<lambda>c. \<not> is_space c) (dropWhile is_space s)
     # split_ws (dropWhile (\<lambda>c. \<not> is_space c) (dropWhile is_space s))"
  by (subst split_ws.simps) (simp add: Let_def del: dropWhile_eq_Nil_conv)

lemma split_ws_words_nonempty: "w \<in> set (split_ws s) \<Longrightarrow> w \<noteq> []"
proof (induction s rule: split_ws.induct)
  case (1 s)
  let ?t = "dropWhile is_space s"
  show ?case
  proof (cases "?t = []")
    case True
    then have "split_ws s = []" by (rule split_ws_blank)
    then show ?thesis using "1.prems" by simp
  next
    case False
    then have "\<not> is_space (hd ?t)" by (rule hd_dropWhile)
    then have word: "takeWhile (\<lambda>c. \<not> is_space c) ?t \<noteq> []"
      using False by (cases ?t) auto
    have "w = takeWhile (\<lambda>c. \<not> is_space c) ?t
        \<or> w \<in> set (split_ws (dropWhile (\<lambda>c. \<not> is_space c) ?t))"
      using "1.prems" split_ws_word [OF False] by (metis set_ConsD)
    then show ?thesis using word "1.IH" [OF refl False] by (elim disjE) simp_all
  qed
qed

section \<open>Dictionaries in insertion order\<close>

text \<open>
  A Python \<open>dict\<close> keeps insertion order: assigning an existing key keeps its place. That is
  \<^const>\<open>AList.update\<close>; \<open>pop\<close> and \<open>del\<close> are \<^const>\<open>AList.delete\<close>.
\<close>

type_synonym ('k, 'v) dict = "('k \<times> 'v) list"

lemma map_of_alist_update [simp]: "map_of (AList.update k v d) k = Some v"
  by (simp add: update_conv')

lemma map_of_alist_update_other [simp]: "k' \<noteq> k \<Longrightarrow> map_of (AList.update k v d) k' = map_of d k'"
  by (simp add: update_conv')

lemma map_of_alist_delete [simp]: "map_of (AList.delete k d) k = None"
  by (simp add: delete_conv')

lemma map_of_alist_delete_other [simp]: "k' \<noteq> k \<Longrightarrow> map_of (AList.delete k d) k' = map_of d k'"
  by (simp add: delete_conv')

section \<open>Lists and multisets\<close>

text \<open>\<open>takelast n xs\<close> is the last \<open>n\<close> elements (\<open>xs[len(xs)-n:]\<close> for \<open>n\<close> within bounds).\<close>

definition takelast :: "nat \<Rightarrow> 'a list \<Rightarrow> 'a list" where
  "takelast n xs = drop (length xs - n) xs"

lemma length_takelast [simp]: "length (takelast n xs) = min n (length xs)"
  by (simp add: takelast_def)

lemma takelast_all [simp]: "length xs \<le> n \<Longrightarrow> takelast n xs = xs"
  by (simp add: takelast_def)

lemma mset_take_drop: "mset (take n xs) + mset (drop n xs) = mset xs"
  by (metis append_take_drop_id mset_append)

lemma mset_take_drop_takelast: "mset (take (length xs - n) xs) + mset (takelast n xs) = mset xs"
  by (simp add: takelast_def mset_take_drop)

lemma mset_filter_partition: "mset (filter P xs) + mset (filter (\<lambda>x. \<not> P x) xs) = mset xs"
  by (induction xs) auto

fun update_first :: "('a \<Rightarrow> bool) \<Rightarrow> ('a \<Rightarrow> 'a) \<Rightarrow> 'a list \<Rightarrow> 'a list" where
  "update_first P f [] = []"
| "update_first P f (x # xs) = (if P x then f x # xs else x # update_first P f xs)"

lemma update_first_find:
  "(\<And>x. P x \<Longrightarrow> P (f x)) \<Longrightarrow> List.find P (update_first P f xs) = map_option f (List.find P xs)"
  by (induction xs) auto

lemma update_first_other:
  "(\<And>x. P x \<Longrightarrow> \<not> Q x \<and> \<not> Q (f x)) \<Longrightarrow> List.find Q (update_first P f xs) = List.find Q xs"
  by (induction xs) auto

lemma update_first_keys: "(\<And>x. P x \<Longrightarrow> g (f x) = g x) \<Longrightarrow> map g (update_first P f xs) = map g xs"
  by (induction xs) auto

lemma last_in_filter: "last (x # List.map_filter f rs) = x \<or> (\<exists>r \<in> set rs. f r = Some (last (x # List.map_filter f rs)))"
proof (cases "List.map_filter f rs = []")
  case False
  then have "last (List.map_filter f rs) \<in> set (List.map_filter f rs)" by simp
  then show ?thesis using False by (auto simp: map_filter_def)
qed simp

fun opt_list :: "'a option \<Rightarrow> 'a list" where
  "opt_list None = []"
| "opt_list (Some x) = [x]"

lemma digit_not_space: "is_digit c \<Longrightarrow> \<not> is_space c"
  by (auto simp: is_space_def is_digit_def Let_def)

lemma strip_last: "strip s \<noteq> [] \<Longrightarrow> \<not> is_space (last (strip s))"
  using hd_dropWhile [of is_space "rev (lstrip s)"] by (simp add: strip_def last_rev)

end
