(* ===== verification/Tailer.thy ===== *)
theory Tailer
  imports SolTrace_Prelude
begin

text \<open>
  \<open>FileTailer\<close> of \<open>ftp-daemon/soltrace_daemon.py\<close>: following a growing log file by position,
  with the position kept on disk only after the lines read were sent (or buffered).

  A file is its inode and its bytes; \<open>os.stat\<close> and the read that follows are one snapshot.
  Reading is in text mode with universal newlines, so CR and CR LF end a line as LF does. The parser is a function of the line and of the parser's own memory (the session
  dictionaries), which it returns updated. Writing the state file can fail, which the code
  logs and ignores: the flag \<open>ok\<close> says whether the write succeeded.
\<close>

section \<open>State\<close>

record tailer =
  t_pos :: nat
  t_inode :: "nat option"
  t_pending :: "nat option"
  t_saved :: "(nat \<times> nat option) option"

datatype fobs =
    NoFile
  | NoOpen nat nat
  | File nat string

type_synonym ('p, 'e) parser = "'p \<Rightarrow> string \<Rightarrow> 'e option \<times> 'p"

definition MAX_LINES_PER_POLL :: nat where
  "MAX_LINES_PER_POLL = 5000"

section \<open>Operations\<close>

definition save_state :: "bool \<Rightarrow> tailer \<Rightarrow> tailer" where
  "save_state ok t = (if ok then t\<lparr>t_saved := Some (t_pos t, t_inode t)\<rparr> else t)"

definition load_state :: "(nat \<times> nat option) option \<Rightarrow> fobs \<Rightarrow> nat \<times> nat option" where
  "load_state saved obs =
     (case saved of
        Some (p, i) \<Rightarrow> (p, i)
      | None \<Rightarrow>
          (case obs of
             NoFile \<Rightarrow> (0, None)
           | NoOpen i n \<Rightarrow> (n, Some i)
           | File i s \<Rightarrow> (length s, Some i)))"

definition new_tailer :: "(nat \<times> nat option) option \<Rightarrow> fobs \<Rightarrow> tailer" where
  "new_tailer saved obs =
     (let (p, i) = load_state saved obs
      in \<lparr>t_pos = p, t_inode = i, t_pending = None, t_saved = saved\<rparr>)"

text \<open>
  One \<open>readline\<close>: the line, ending in LF when it is complete, and the rest of the file. At
  the end of the file a trailing CR already ends its line.
\<close>

fun read_line :: "string \<Rightarrow> string \<times> string" where
  "read_line [] = ([], [])"
| "read_line (c # cs) =
     (if c = LF then ([LF], cs)
      else if c = CR then ([LF], if cs \<noteq> [] \<and> hd cs = LF then tl cs else cs)
      else (let (l, r) = read_line cs in (c # l, r)))"

text \<open>
  The reading loop of \<open>poll\<close>, at most \<open>n\<close> lines: it stops at the end of the file and before
  a last line that is not complete yet, and returns the entries, the position reached
  (\<open>f.tell()\<close>) and the parser's memory.
\<close>

fun read_loop :: "nat \<Rightarrow> ('p, 'e) parser \<Rightarrow> 'p \<Rightarrow> string \<Rightarrow> nat \<Rightarrow> 'e list \<times> nat \<times> 'p" where
  "read_loop 0 f p s pos = ([], pos, p)"
| "read_loop (Suc n) f p s pos =
     (let (l, r) = read_line s in
      if l = [] then ([], pos, p)
      else if last l \<noteq> LF then ([], pos, p)
      else let (e, p') = f p l;
               (es, pos', p'') = read_loop n f p' r (pos + (length s - length r))
           in (opt_list e @ es, pos', p''))"

text \<open>Rotation: another inode, or a file shorter than the position. The reset is saved at once.\<close>

definition detect_rotation :: "bool \<Rightarrow> nat \<Rightarrow> nat \<Rightarrow> tailer \<Rightarrow> tailer" where
  "detect_rotation ok i sz t =
     (if Some i \<noteq> t_inode t \<or> sz < t_pos t
      then save_state ok (t\<lparr>t_pos := 0, t_inode := Some i\<rparr>) else t)"

fun poll :: "('p, 'e) parser \<Rightarrow> bool \<Rightarrow> fobs \<Rightarrow> tailer \<Rightarrow> 'p \<Rightarrow> 'e list \<times> tailer \<times> 'p" where
  "poll f ok NoFile t p = ([], t, p)"
| "poll f ok (NoOpen i n) t p = ([], detect_rotation ok i n t, p)"
| "poll f ok (File i s) t p =
     (let t1 = detect_rotation ok i (length s) t in
      if length s \<le> t_pos t1 then ([], t1, p)
      else let (es, pos', p') = read_loop MAX_LINES_PER_POLL f p (drop (t_pos t1) s) (t_pos t1)
           in (es, t1\<lparr>t_pending := Some pos'\<rparr>, p'))"

definition commit :: "bool \<Rightarrow> tailer \<Rightarrow> tailer" where
  "commit ok t =
     (case t_pending t of
        None \<Rightarrow> t
      | Some q \<Rightarrow> save_state ok (t\<lparr>t_pos := q, t_pending := None\<rparr>))"

definition rollback :: "tailer \<Rightarrow> tailer" where
  "rollback t = t\<lparr>t_pending := None\<rparr>"

text \<open>\<open>advance\<close> has the same body as \<open>commit\<close>; the code calls it after a failed send was buffered.\<close>

definition advance :: "bool \<Rightarrow> tailer \<Rightarrow> tailer" where
  "advance ok t =
     (case t_pending t of
        None \<Rightarrow> t
      | Some q \<Rightarrow> save_state ok (t\<lparr>t_pos := q, t_pending := None\<rparr>))"

section \<open>Reading lines\<close>

lemma read_line_rest_le: "read_line s = (l, r) \<Longrightarrow> length r \<le> length s"
proof (induction s arbitrary: l r)
  case Nil
  then show ?case by simp
next
  case (Cons c cs)
  then show ?case
    by (auto split: if_splits prod.splits intro: le_SucI)
qed

lemma read_line_Nil_iff: "read_line s = (l, r) \<Longrightarrow> l = [] \<longleftrightarrow> s = []"
  by (cases s) (auto split: if_splits prod.splits)

lemma read_line_progress:
  "read_line s = (l, r) \<Longrightarrow> l \<noteq> [] \<Longrightarrow> length r < length s"
proof (induction s arbitrary: l r)
  case Nil
  then show ?case by simp
next
  case (Cons c cs)
  then show ?case
    by (auto split: if_splits prod.splits dest: read_line_rest_le)
qed

lemma read_line_complete_suffix:
  "read_line s = (l, r) \<Longrightarrow> r = drop (length s - length r) s"
proof (induction s arbitrary: l r)
  case Nil
  then show ?case by simp
next
  case (Cons c cs)
  show ?case
  proof (cases "c = LF \<or> c = CR")
    case True
    with Cons.prems show ?thesis
      by (cases cs) (auto split: if_splits)
  next
    case False
    with Cons.prems obtain l' where l': "read_line cs = (l', r)"
      by (auto split: prod.splits)
    then have "length r \<le> length cs" by (rule read_line_rest_le)
    with Cons.IH [OF l'] show ?thesis by (simp add: Suc_diff_le)
  qed
qed

text \<open>
  Text appended to the file does not change a line that was complete, unless the file ended
  in a bare CR (whose LF may still come).
\<close>

lemma read_line_append:
  assumes "read_line s = (l, r)" and "l \<noteq> []" and "last l = LF" and "s \<noteq> []" and "last s \<noteq> CR"
  shows "read_line (s @ t) = (l, r @ t)"
  using assms
proof (induction s arbitrary: l r)
  case Nil
  then show ?case by simp
next
  case (Cons c cs)
  show ?case
  proof (cases "c = LF \<or> c = CR")
    case True
    with Cons.prems show ?thesis
      by (cases cs) (auto split: if_splits)
  next
    case False
    with Cons.prems(1) obtain l' where l': "read_line cs = (l', r)" "l = c # l'"
      by (auto split: prod.splits)
    with False Cons.prems(3) have ne: "l' \<noteq> []" "last l' = LF" by (auto split: if_splits)
    then have "cs \<noteq> []" using l' by auto
    with Cons.prems(5) l' ne Cons.IH [of l' r] have "read_line (cs @ t) = (l', r @ t)" by simp
    with False l' show ?thesis by simp
  qed
qed

section \<open>The reading loop\<close>

text \<open>
  Reading \<open>n\<close> lines and then \<open>m\<close> more from where it stopped is reading \<open>n + m\<close> lines: the
  cut at \<^const>\<open>MAX_LINES_PER_POLL\<close> loses and repeats nothing.
\<close>

lemma read_loop_bounds:
  "read_loop n f p s pos = (es, pos', p') \<Longrightarrow> pos \<le> pos' \<and> pos' \<le> pos + length s"
proof (induction n arbitrary: p s pos es pos' p')
  case 0
  then show ?case by simp
next
  case (Suc n)
  obtain l r where lr: "read_line s = (l, r)" by (cases "read_line s")
  show ?case
  proof (cases "l = [] \<or> last l \<noteq> LF")
    case True
    with Suc.prems lr show ?thesis by (auto split: if_splits)
  next
    case False
    obtain e p1 where e: "f p l = (e, p1)" by (cases "f p l")
    obtain es1 q p2 where
      rec: "read_loop n f p1 r (pos + (length s - length r)) = (es1, q, p2)"
      by (cases "read_loop n f p1 r (pos + (length s - length r))") auto
    from Suc.prems lr e rec False have "pos' = q" by simp
    with Suc.IH [OF rec] read_line_rest_le [OF lr] show ?thesis by linarith
  qed
qed

lemma read_loop_add:
  assumes "read_loop n f p s pos = (es, pos', p')"
  shows "read_loop (n + m) f p s pos =
    (let (es2, pos2, p2) = read_loop m f p' (drop (pos' - pos) s) pos' in (es @ es2, pos2, p2))"
  using assms
proof (induction n arbitrary: p s pos es pos' p')
  case 0
  then show ?case by (simp split: prod.splits)
next
  case (Suc n)
  obtain l r where lr: "read_line s = (l, r)" by (cases "read_line s")
  show ?case
  proof (cases "l = [] \<or> last l \<noteq> LF")
    case True
    with Suc.prems lr have "es = []" "pos' = pos" "p' = p" by (auto split: if_splits)
    with True lr show ?thesis by (cases m) (auto split: if_splits)
  next
    case False
    obtain e p1 where e: "f p l = (e, p1)" by (cases "f p l")
    define c where "c = length s - length r"
    obtain es1 q p2 where rec: "read_loop n f p1 r (pos + c) = (es1, q, p2)"
      by (cases "read_loop n f p1 r (pos + c)") auto
    from Suc.prems lr e rec False have res: "es = opt_list e @ es1" "pos' = q" "p' = p2"
      by (simp_all add: c_def)
    have "pos + c \<le> q" using read_loop_bounds [OF rec] by simp
    moreover have "r = drop c s" using read_line_complete_suffix [OF lr] by (simp add: c_def)
    ultimately have "drop (q - (pos + c)) r = drop (q - pos) s"
      by (simp add: add.commute)
    with Suc.IH [OF rec] res lr e False show ?thesis
      by (simp add: c_def [symmetric] split: prod.splits)
  qed
qed

text \<open>What was read stays read when the file grows.\<close>

lemma read_loop_append:
  assumes "read_loop n f p s pos = (es, pos', p')" and "s = [] \<or> last s \<noteq> CR"
  shows "\<exists>k\<le>n. read_loop k f p (s @ t) pos = (es, pos', p')"
  using assms
proof (induction n arbitrary: p s pos es pos' p')
  case 0
  then show ?case by simp
next
  case (Suc n)
  obtain l r where lr: "read_line s = (l, r)" by (cases "read_line s")
  show ?case
  proof (cases "l = [] \<or> last l \<noteq> LF")
    case True
    with Suc.prems(1) lr have "es = []" "pos' = pos" "p' = p" by (auto split: if_splits)
    then have "read_loop 0 f p (s @ t) pos = (es, pos', p')" by simp
    then show ?thesis by blast
  next
    case False
    then have ne: "s \<noteq> []" using lr by auto
    with Suc.prems(2) False lr have app: "read_line (s @ t) = (l, r @ t)"
      by (intro read_line_append) auto
    obtain e p1 where e: "f p l = (e, p1)" by (cases "f p l")
    define c where "c = length s - length r"
    obtain es1 q p2 where rec: "read_loop n f p1 r (pos + c) = (es1, q, p2)"
      by (cases "read_loop n f p1 r (pos + c)") auto
    from Suc.prems(1) lr e rec False have res: "es = opt_list e @ es1" "pos' = q" "p' = p2"
      by (simp_all add: c_def)
    have r: "r = drop c s" using read_line_complete_suffix [OF lr] by (simp add: c_def)
    have "r = [] \<or> last r \<noteq> CR"
      using Suc.prems(2) ne unfolding r by (cases "c < length s") auto
    from Suc.IH [OF rec this] obtain k
      where k: "k \<le> n" "read_loop k f p1 (r @ t) (pos + c) = (es1, q, p2)" by blast
    have "length (s @ t) - length (r @ t) = c"
      using read_line_rest_le [OF lr] by (simp add: c_def)
    with k app e False res have "read_loop (Suc k) f p (s @ t) pos = (es, pos', p')"
      by simp
    with k(1) show ?thesis by (meson Suc_le_mono)
  qed
qed

section \<open>Positions\<close>

lemmas position_defs = commit_def advance_def rollback_def save_state_def detect_rotation_def

lemma advance_eq_commit: "advance ok t = commit ok t"
  by (simp add: advance_def commit_def)

lemma rollback_pos [simp]:
  "t_pos (rollback t) = t_pos t" "t_saved (rollback t) = t_saved t"
  "t_inode (rollback t) = t_inode t" "t_pending (rollback t) = None"
  by (simp_all add: rollback_def)

lemma commit_inode [simp]: "t_inode (commit ok t) = t_inode t"
  by (simp add: commit_def save_state_def split: option.splits)

lemma commit_pending [simp]: "t_pending (commit ok t) = None"
  by (simp add: commit_def save_state_def split: option.splits)

lemma commit_pos: "t_pos (commit ok t) = (case t_pending t of None \<Rightarrow> t_pos t | Some q \<Rightarrow> q)"
  by (simp add: commit_def save_state_def split: option.splits)

lemma new_tailer_saved [simp]:
  "new_tailer (Some (q, i)) obs = \<lparr>t_pos = q, t_inode = i, t_pending = None, t_saved = Some (q, i)\<rparr>"
  by (simp add: new_tailer_def load_state_def)

lemma detect_rotation_same:
  "t_inode t = Some i \<Longrightarrow> t_pos t \<le> sz \<Longrightarrow> detect_rotation ok i sz t = t"
  by (simp add: detect_rotation_def)

text \<open>A poll of the same file starts at the position and leaves it where it was.\<close>

lemma poll_same_file:
  assumes "t_inode t = Some i" and "t_pos t < length s"
  shows "poll f ok (File i s) t p = (es, t', p') \<longleftrightarrow>
    (\<exists>q. read_loop MAX_LINES_PER_POLL f p (drop (t_pos t) s) (t_pos t) = (es, q, p')
       \<and> t' = t\<lparr>t_pending := Some q\<rparr>)"
  using assms by (auto simp: detect_rotation_same Let_def split: prod.splits)

lemma poll_pos_unchanged:
  "t_inode t = Some i \<Longrightarrow> t_pos t \<le> length s \<Longrightarrow> poll f ok (File i s) t p = (es, t', p') \<Longrightarrow>
   t_pos t' = t_pos t \<and> t_saved t' = t_saved t \<and> t_inode t' = Some i"
  by (auto simp: detect_rotation_same Let_def split: if_splits prod.splits)

text \<open>Reading on after a commit: the new entries are exactly those of the following lines.\<close>

lemma poll_commit_poll:
  assumes same: "t_inode t = Some i" "t_pos t < length s" "last s \<noteq> CR"
    and first: "poll f ok (File i s) t p = (es, t1, p1)"
    and second: "poll f ok' (File i (s @ u)) (commit okc t1) p1 = (es', t2, p2)"
    and more: "t_pos (commit okc t1) < length (s @ u)"
  shows "\<exists>k \<le> MAX_LINES_PER_POLL. \<exists>q. t_pending t2 = Some q \<and>
    read_loop (k + MAX_LINES_PER_POLL) f p (drop (t_pos t) (s @ u)) (t_pos t) = (es @ es', q, p2)"
proof -
  let ?n = MAX_LINES_PER_POLL
  let ?s = "drop (t_pos t) s"
  obtain q1 where rd: "read_loop ?n f p ?s (t_pos t) = (es, q1, p1)"
    and t1: "t1 = t\<lparr>t_pending := Some q1\<rparr>"
    using iffD1 [OF poll_same_file [OF same(1,2)] first] by (elim exE conjE)
  let ?c = "commit okc t1"
  have pos: "t_pos ?c = q1" and ino: "t_inode ?c = Some i"
    using t1 same(1) by (simp_all add: commit_pos)
  have "?s = [] \<or> last ?s \<noteq> CR" using same(2,3) by simp
  then obtain k where k: "k \<le> ?n" "read_loop k f p (?s @ u) (t_pos t) = (es, q1, p1)"
    using read_loop_append [OF rd] by blast
  have su: "?s @ u = drop (t_pos t) (s @ u)" using same(2) by simp
  have le: "t_pos t \<le> q1" using read_loop_bounds [OF rd] by simp
  obtain q2 where rd2: "read_loop ?n f p1 (drop q1 (s @ u)) q1 = (es', q2, p2)"
    and t2: "t2 = ?c\<lparr>t_pending := Some q2\<rparr>"
    using iffD1 [OF poll_same_file [OF ino more] second] unfolding pos by (elim exE conjE)
  have "drop (q1 - t_pos t) (?s @ u) = drop q1 (s @ u)"
    unfolding su drop_drop using le by simp
  with read_loop_add [OF k(2), of ?n] rd2
  have "read_loop (k + ?n) f p (?s @ u) (t_pos t) = (es @ es', q2, p2)"
    by (simp only: Let_def prod.case)
  moreover have "t_pending t2 = Some q2" using t2 by simp
  ultimately show ?thesis using k(1) unfolding su by blast
qed

section \<open>Complete lines\<close>

text \<open>
  The specification of reading: the complete lines of a text are what \<open>split\<close> at LF gives
  without its last piece. It describes the loop for text without CR.
\<close>

definition complete_lines :: "string \<Rightarrow> string list" where
  "complete_lines s = map (\<lambda>l. l @ [LF]) (butlast (split_on LF s))"

fun run_parser :: "('p, 'e) parser \<Rightarrow> 'p \<Rightarrow> string list \<Rightarrow> 'e list \<times> 'p" where
  "run_parser f p [] = ([], p)"
| "run_parser f p (l # ls) =
     (let (e, p') = f p l; (es, p'') = run_parser f p' ls in (opt_list e @ es, p''))"

definition to_LF :: "string \<Rightarrow> string" where
  "to_LF s = takeWhile (\<lambda>c. c \<noteq> LF) s @ [LF]"

definition after_LF :: "string \<Rightarrow> string" where
  "after_LF s = tl (dropWhile (\<lambda>c. c \<noteq> LF) s)"

lemma read_line_LF:
  "CR \<notin> set s \<Longrightarrow> read_line s = (if LF \<in> set s then (to_LF s, after_LF s) else (s, []))"
  by (induction s) (auto simp: to_LF_def after_LF_def)

lemma split_on_LF:
  "LF \<in> set s \<Longrightarrow> split_on LF s = takeWhile (\<lambda>c. c \<noteq> LF) s # split_on LF (after_LF s)"
  by (induction s) (auto simp: after_LF_def split: list.splits)

lemma split_on_none: "LF \<notin> set s \<Longrightarrow> split_on LF s = [s]"
  by (induction s) auto

lemma complete_lines_more: "LF \<in> set s \<Longrightarrow> complete_lines s = to_LF s # complete_lines (after_LF s)"
  by (simp add: complete_lines_def split_on_LF to_LF_def)

lemma complete_lines_end: "LF \<notin> set s \<Longrightarrow> complete_lines s = []"
  by (simp add: complete_lines_def split_on_none)

lemma complete_lines_Nil [simp]: "complete_lines [] = []"
  by (simp add: complete_lines_end)

lemma split_at_LF: "LF \<in> set s \<Longrightarrow> s = to_LF s @ after_LF s"
  by (induction s) (auto simp: to_LF_def after_LF_def)

lemma length_after_LF: "LF \<in> set s \<Longrightarrow> length (after_LF s) < length s"
  by (induction s) (auto simp: to_LF_def after_LF_def)

lemma after_LF_subset: "set (after_LF s) \<subseteq> set s"
  by (induction s) (auto simp: to_LF_def after_LF_def)

lemma after_LF_append: "LF \<in> set s \<Longrightarrow> after_LF (s @ t) = after_LF s @ t"
  by (induction s) (auto simp: to_LF_def after_LF_def)

lemma to_LF_append: "LF \<in> set s \<Longrightarrow> to_LF (s @ t) = to_LF s"
  by (induction s) (auto simp: to_LF_def after_LF_def)

lemma to_LF_line: "LF \<in> set (to_LF s)" "to_LF (to_LF s) = to_LF s" "after_LF (to_LF s) = []"
  by (induction s) (auto simp: to_LF_def after_LF_def)

lemma complete_lines_to_LF [simp]: "complete_lines (to_LF s) = [to_LF s]"
  by (simp only: complete_lines_more [OF to_LF_line(1)] to_LF_line complete_lines_Nil)

lemma complete_lines_induct [case_names line rest]:
  assumes "\<And>s. LF \<in> set s \<Longrightarrow> P (after_LF s) \<Longrightarrow> P s" and "\<And>s. LF \<notin> set s \<Longrightarrow> P s"
  shows "P s"
proof (induction "length s" arbitrary: s rule: less_induct)
  case less
  show ?case
  proof (cases "LF \<in> set s")
    case True
    then show ?thesis using less [OF length_after_LF [OF True]] assms(1) by blast
  qed (rule assms(2))
qed

lemma read_loop_lines:
  assumes "CR \<notin> set s"
  shows "read_loop n f p s pos =
    (let ls = take n (complete_lines s); (es, p') = run_parser f p ls
     in (es, pos + length (concat ls), p'))"
  using assms
proof (induction n arbitrary: p s pos)
  case 0
  then show ?case by simp
next
  case (Suc n)
  show ?case
  proof (cases "LF \<in> set s")
    case False
    then have "read_line s = (s, [])" using Suc.prems by (simp add: read_line_LF)
    moreover have "s \<noteq> [] \<Longrightarrow> last s \<noteq> LF" using False last_in_set by metis
    ultimately show ?thesis using False by (auto simp: complete_lines_end)
  next
    case True
    let ?r = "after_LF s"
    have rl: "read_line s = (to_LF s, ?r)" using True Suc.prems by (simp add: read_line_LF)
    have "CR \<notin> set ?r" using Suc.prems after_LF_subset by blast
    note IH = Suc.IH [OF this]
    have "length s = length (to_LF s @ ?r)" using split_at_LF [OF True] by (rule arg_cong)
    then have len: "length s - length ?r = length (to_LF s)" by simp
    have "to_LF s \<noteq> []" "last (to_LF s) = LF" by (simp_all add: to_LF_def)
    then show ?thesis
      by (simp add: rl IH len complete_lines_more [OF True] Let_def split: prod.splits)
  qed
qed

lemma complete_lines_append:
  "x = [] \<or> last x = LF \<Longrightarrow> complete_lines (x @ y) = complete_lines x @ complete_lines y"
proof (induction x rule: complete_lines_induct)
  case (line x)
  have "after_LF x = [] \<or> last (after_LF x) = LF"
    using line.prems line.hyps split_at_LF [OF line.hyps] by (metis last_append list.set(1) empty_iff)
  then have "complete_lines (after_LF x @ y) = complete_lines (after_LF x) @ complete_lines y"
    by (rule line.IH)
  with line.hyps show ?case
    by (simp add: complete_lines_more after_LF_append to_LF_append)
next
  case (rest x)
  then have "x = []" using last_in_set by metis
  then show ?case by simp
qed

lemma last_complete_lines: "l \<in> set (complete_lines s) \<Longrightarrow> l \<noteq> [] \<and> last l = LF"
  by (auto simp: complete_lines_def)

lemma last_concat_lines:
  "\<forall>l \<in> set ls. l \<noteq> [] \<and> last l = LF \<Longrightarrow> concat ls = [] \<or> last (concat ls) = LF"
  by (induction ls) (auto simp: last_append)

lemma take_lines:
  "concat (take n (complete_lines s)) = take (length (concat (take n (complete_lines s)))) s \<and>
   complete_lines (concat (take n (complete_lines s))) = take n (complete_lines s)"
proof (induction n arbitrary: s)
  case 0
  then show ?case by simp
next
  case (Suc n)
  show ?case
  proof (cases "LF \<in> set s")
    case False
    then show ?thesis by (simp add: complete_lines_end)
  next
    case True
    let ?ls = "take n (complete_lines (after_LF s))"
    have IH: "concat ?ls = take (length (concat ?ls)) (after_LF s)" "complete_lines (concat ?ls) = ?ls"
      using Suc.IH [of "after_LF s"] by auto
    have "take (length (to_LF s @ concat ?ls)) (to_LF s @ after_LF s)
        = to_LF s @ take (length (concat ?ls)) (after_LF s)" by simp
    then have tk: "take (length (to_LF s @ concat ?ls)) s = to_LF s @ concat ?ls"
      unfolding split_at_LF [OF True, symmetric] IH(1) [symmetric] .
    have "last (to_LF s) = LF" by (simp add: to_LF_def)
    then have "complete_lines (to_LF s @ concat ?ls) = to_LF s # ?ls"
      using complete_lines_append [of "to_LF s" "concat ?ls"] IH(2) by simp
    with tk show ?thesis by (simp add: complete_lines_more [OF True])
  qed
qed

section \<open>What a poll reads\<close>

lemma poll_reads_lines:
  assumes "CR \<notin> set s" and "t_inode t = Some i" and "t_pos t < length s"
  shows "poll f ok (File i s) t p =
    (let ls = take MAX_LINES_PER_POLL (complete_lines (drop (t_pos t) s));
         (es, p') = run_parser f p ls
     in (es, t\<lparr>t_pending := Some (t_pos t + length (concat ls))\<rparr>, p'))"
proof -
  have "CR \<notin> set (drop (t_pos t) s)" using assms(1) in_set_dropD by fast
  note rd = read_loop_lines [OF this]
  show ?thesis using assms(2,3) by (simp add: detect_rotation_same Let_def rd split: prod.split)
qed

text \<open>A parser without memory, the entries of a text, and the text between two positions.\<close>

definition plain :: "(string \<Rightarrow> 'e option) \<Rightarrow> (unit, 'e) parser" where
  "plain g = (\<lambda>u l. (g l, u))"

definition entries_of :: "(string \<Rightarrow> 'e option) \<Rightarrow> string \<Rightarrow> 'e list" where
  "entries_of g s = List.map_filter g (complete_lines s)"

definition slice :: "nat \<Rightarrow> nat \<Rightarrow> string \<Rightarrow> string" where
  "slice a b s = take (b - a) (drop a s)"

definition whole :: "string \<Rightarrow> bool" where
  "whole x \<longleftrightarrow> x = [] \<or> last x = LF"

lemma run_plain [simp]: "run_parser (plain g) u ls = (List.map_filter g ls, u)"
  by (induction ls) (auto simp: plain_def List.map_filter_simps split: option.splits)

lemma map_filter_append [simp]: "List.map_filter g (xs @ ys) = List.map_filter g xs @ List.map_filter g ys"
  by (simp add: List.map_filter_def)

lemma entries_of_mem: "e \<in> set (entries_of g x) \<Longrightarrow> \<exists>l. g l = Some e"
  by (auto simp: entries_of_def List.map_filter_def)

lemma slice_same [simp]: "slice a a s = []"
  by (simp add: slice_def)

lemma slice_append: "a \<le> b \<Longrightarrow> b \<le> c \<Longrightarrow> slice a c s = slice a b s @ slice b c s"
proof -
  assume ab: "a \<le> b" and bc: "b \<le> c"
  then have "c - a = (b - a) + (c - b)" "drop b s = drop (b - a) (drop a s)" by simp_all
  then show ?thesis by (simp only: slice_def take_add)
qed

lemma slice_take: "b \<le> n \<Longrightarrow> slice a b (take n s) = slice a b s"
  by (simp add: slice_def drop_take)

lemma entries_append: "whole x \<Longrightarrow> entries_of g (x @ y) = entries_of g x @ entries_of g y"
  by (simp add: entries_of_def whole_def complete_lines_append)

lemma whole_append: "whole x \<Longrightarrow> whole y \<Longrightarrow> whole (x @ y)"
  by (auto simp: whole_def last_append)

lemma poll_plain:
  assumes "CR \<notin> set s" and "t_inode t = Some i" and "t_pos t \<le> length s"
    and "poll (plain g) ok (File i s) t u = (es, t', u')"
  shows "\<exists>q. t_pos t \<le> q \<and> q \<le> length s \<and> whole (slice (t_pos t) q s)
    \<and> es = entries_of g (slice (t_pos t) q s)
    \<and> (t' = t\<lparr>t_pending := Some q\<rparr> \<or> t' = t \<and> q = t_pos t \<and> length s = q)"
proof (cases "t_pos t < length s")
  case False
  with assms have "es = [] \<and> t' = t" by (simp add: detect_rotation_same)
  with assms(3) False show ?thesis
    by (intro exI [of _ "t_pos t"]) (simp add: whole_def entries_of_def List.map_filter_simps)
next
  case True
  let ?d = "drop (t_pos t) s"
  let ?ls = "take MAX_LINES_PER_POLL (complete_lines ?d)"
  let ?q = "t_pos t + length (concat ?ls)"
  have p: "es = List.map_filter g ?ls" "t' = t\<lparr>t_pending := Some ?q\<rparr>"
    using assms(4) unfolding poll_reads_lines [OF assms(1,2) True] by (simp_all add: Let_def)
  have cat: "concat ?ls = take (length (concat ?ls)) ?d" and cl: "complete_lines (concat ?ls) = ?ls"
    using take_lines [of MAX_LINES_PER_POLL ?d] by auto
  have sl: "slice (t_pos t) ?q s = concat ?ls" using cat by (simp add: slice_def)
  have "length (concat ?ls) \<le> length ?d" using cat by (metis length_take min.cobounded1)
  then have "?q \<le> length s" using True by simp
  moreover have "whole (concat ?ls)"
    unfolding whole_def by (intro last_concat_lines) (auto dest: in_set_takeD last_complete_lines)
  ultimately show ?thesis using p sl cl
    by (intro exI [of _ ?q]) (simp add: entries_of_def)
qed

section \<open>Exactly once across restarts\<close>

text \<open>
  What happens to a tailer on a log that is only appended to: the daemon polls and the entries
  are delivered (and committed), it polls and must roll back, or it is restarted from its
  state file. Each poll sees the file as it is then.
\<close>

datatype tail_step = Deliver string | Revert string | Restart

fun tail_run :: "(string \<Rightarrow> 'e option) \<Rightarrow> nat \<Rightarrow> tail_step list \<Rightarrow> tailer \<Rightarrow> 'e list \<times> tailer" where
  "tail_run g i [] t = ([], t)"
| "tail_run g i (Deliver s # steps) t =
     (let (es, t1, _) = poll (plain g) True (File i s) t ();
          (es', t') = tail_run g i steps (commit True t1) in (es @ es', t'))"
| "tail_run g i (Revert s # steps) t =
     (let (_, t1, _) = poll (plain g) True (File i s) t () in tail_run g i steps (rollback t1))"
| "tail_run g i (Restart # steps) t = tail_run g i steps (new_tailer (t_saved t) NoFile)"

text \<open>The snapshots grow towards the final content \<open>s\<close>; \<open>n\<close> bytes were there before.\<close>

fun growing :: "nat \<Rightarrow> string \<Rightarrow> tail_step list \<Rightarrow> bool" where
  "growing n s [] = True"
| "growing n s (Deliver x # r) = (x = take (length x) s \<and> n \<le> length x \<and> growing (length x) s r)"
| "growing n s (Revert x # r) = (x = take (length x) s \<and> n \<le> length x \<and> growing (length x) s r)"
| "growing n s (Restart # r) = growing n s r"

lemma tail_run_slice:
  assumes "CR \<notin> set s" and "growing n s steps" and "t_pos t \<le> n"
    and "t_inode t = Some i" and "t_saved t = Some (t_pos t, Some i)" and "t_pending t = None"
    and "tail_run g i steps t = (es, t')"
  shows "t_pos t \<le> t_pos t' \<and> es = entries_of g (slice (t_pos t) (t_pos t') s)"
  using assms(2-)
proof (induction steps arbitrary: n t es)
  case Nil
  then show ?case by (simp add: entries_of_def List.map_filter_simps)
next
  case (Cons st steps)
  show ?case
  proof (cases st)
    case Restart
    have "new_tailer (t_saved t) NoFile = t"
      using Cons.prems by (cases t) (simp)
    then have "tail_run g i steps t = (es, t')"
      using Cons.prems(6) unfolding Restart tail_run.simps by simp
    with Cons.prems Cons.IH [of n t es] Restart show ?thesis by simp
  next
    case (Revert x)
    have x: "x = take (length x) s" "t_pos t \<le> length x" "growing (length x) s steps"
      using Cons.prems Revert by auto
    have "CR \<notin> set x" using assms(1) x(1) in_set_takeD by metis
    obtain e1 t1 where p: "poll (plain g) True (File i x) t () = (e1, t1, ())"
      by (cases "poll (plain g) True (File i x) t ()") auto
    obtain q where "t1 = t\<lparr>t_pending := Some q\<rparr> \<or> t1 = t"
      using poll_plain [OF \<open>CR \<notin> set x\<close> _ x(2) p] Cons.prems by blast
    then have "rollback t1 = t" using Cons.prems(5) by (auto simp: rollback_def)
    with Cons.prems Cons.IH [OF x(3,2)] Revert p show ?thesis by simp
  next
    case (Deliver x)
    have x: "x = take (length x) s" "t_pos t \<le> length x" "growing (length x) s steps"
      using Cons.prems Deliver by auto
    have cr: "CR \<notin> set x" using assms(1) x(1) in_set_takeD by metis
    obtain e1 t1 where p: "poll (plain g) True (File i x) t () = (e1, t1, ())"
      by (cases "poll (plain g) True (File i x) t ()") auto
    obtain q where q: "t_pos t \<le> q" "q \<le> length x" "whole (slice (t_pos t) q x)"
        "e1 = entries_of g (slice (t_pos t) q x)"
        "t1 = t\<lparr>t_pending := Some q\<rparr> \<or> t1 = t \<and> q = t_pos t"
      using poll_plain [OF cr _ x(2) p] Cons.prems by blast
    let ?c = "commit True t1"
    have sl: "slice (t_pos t) q x = slice (t_pos t) q s"
      using x(1) q(2) slice_take by metis
    have c: "t_pos ?c = q" "t_inode ?c = Some i" "t_saved ?c = Some (q, Some i)" "t_pending ?c = None"
      using q(5) Cons.prems by (auto simp: commit_def save_state_def)
    obtain es2 where r: "tail_run g i steps ?c = (es2, t')" and es: "es = e1 @ es2"
      using Cons.prems(6) Deliver p by (auto split: prod.splits)
    have IH: "q \<le> t_pos t'" "es2 = entries_of g (slice q (t_pos t') s)"
      using Cons.IH [OF x(3) _ _ _ _ r] c q(2) by auto
    have "entries_of g (slice (t_pos t) (t_pos t') s) = e1 @ es2"
      using slice_append [OF q(1) IH(1), of s] entries_append q(3,4) IH(2) sl by metis
    with es q(1) IH(1) show ?thesis by simp
  qed
qed

text \<open>
  C9: following one log that is only appended to and holds no carriage return, with a parser that looks
  at each line alone and with positions that are written when they are committed: through any
  sequence of deliveries, rollbacks and restarts, the entries delivered are those of the complete
  lines between the first and the last committed position, each exactly once and in their order.
  (A rotation can skip lines, see below, and the parser of the other log remembers sessions.)
\<close>

theorem tail_exactly_once:
  assumes "CR \<notin> set s" and "growing p s steps"
    and "tail_run g i steps \<lparr>t_pos = p, t_inode = Some i, t_pending = None,
           t_saved = Some (p, Some i)\<rparr> = (es, t')"
  shows "p \<le> t_pos t' \<and> es = entries_of g (slice p (t_pos t') s)"
  using tail_run_slice [OF assms(1,2) _ _ _ _ assms(3)] by simp

theorem tail_exactly_once_witness:
  "let g = (\<lambda>l. if l = [] then None else Some (length l)); s = ''ab'' @ [LF] @ ''cde'' @ [LF];
       (es, t) = tail_run g 7 [Revert ''ab'', Deliver (''ab'' @ [LF] @ ''cd''), Restart, Deliver s]
         \<lparr>t_pos = 0, t_inode = Some 7, t_pending = None, t_saved = Some (0, Some 7)\<rparr>
   in es = [3, 4] \<and> es = entries_of g (slice 0 (t_pos t) s)"
proof -
  let ?g = "\<lambda>l :: string. if l = [] then None else Some (length l)"
  let ?s = "''ab'' @ [LF] @ ''cde'' @ [LF]"
  let ?steps = "[Revert ''ab'', Deliver (''ab'' @ [LF] @ ''cd''), Restart, Deliver ?s]"
  let ?t = "\<lparr>t_pos = 0, t_inode = Some 7, t_pending = None, t_saved = Some (0, Some 7)\<rparr>"
  have run: "tail_run ?g 7 ?steps ?t = ([3, 4],
    \<lparr>t_pos = 7, t_inode = Some 7, t_pending = None, t_saved = Some (7, Some 7)\<rparr>)"
    by (simp add: MAX_LINES_PER_POLL_def Let_def plain_def detect_rotation_def commit_def
        rollback_def save_state_def numeral_eq_Suc)
  from tail_exactly_once [OF _ _ run, of ?s] run show ?thesis by simp
qed

text \<open>
  A position that was read but not committed survives a rotation of the log. If the log is
  replaced while such a position is pending and the new file is still empty at the next poll,
  the commit that follows (because of the other log's entries) moves the position of the new
  file to the old pending position: when the file has grown past it, its first bytes are
  never read.
\<close>

theorem stale_pending_skips_new_file:
  assumes "t_pending t = Some q" and "t_inode t \<noteq> Some j" and "CR \<notin> set s" and "q < length s"
  shows "let (es0, t1, _) = poll (plain g) ok (File j []) t ();
             t2 = commit ok t1;
             (es, t3, _) = poll (plain g) ok (File j s) t2 ()
         in es0 = [] \<and> t_pos t2 = q
          \<and> es = List.map_filter g (take 5000 (complete_lines (drop q s)))
          \<and> (case t_pending t3 of None \<Rightarrow> False | Some q' \<Rightarrow> q \<le> q')"
proof -
  define t1 where "t1 = save_state ok (t\<lparr>t_pos := 0, t_inode := Some j\<rparr>)"
  have p1: "poll (plain g) ok (File j []) t () = ([], t1, ())"
    using assms(2) by (simp add: detect_rotation_def t1_def Let_def save_state_def)
  have t1: "t_pending t1 = Some q" "t_inode t1 = Some j"
    using assms(1) by (simp_all add: t1_def save_state_def)
  let ?t2 = "commit ok t1"
  have t2: "t_pos ?t2 = q" "t_inode ?t2 = Some j" using t1 by (simp_all add: commit_pos)
  show ?thesis
    using poll_reads_lines [OF assms(3) t2(2), of "plain g" ok "()"] t2(1) assms(4)
    by (simp add: p1 Let_def MAX_LINES_PER_POLL_def del: poll.simps)
qed

theorem stale_pending_skips_new_file_witness:
  "let t = \<lparr>t_pos = 0, t_inode = Some 1, t_pending = Some 2, t_saved = None\<rparr>;
       (es0, t1, _) = poll (plain Some) True (File 2 []) t ();
       (es, _, _) = poll (plain Some) True (File 2 (''a'' @ [LF] @ ''b'' @ [LF])) (commit True t1) ()
   in es0 = [] \<and> es = [''b'' @ [LF]]"
proof -
  let ?t = "\<lparr>t_pos = 0, t_inode = Some 1, t_pending = Some 2, t_saved = None\<rparr>"
  have "CR \<notin> set (''a'' @ [LF] @ ''b'' @ [LF])" by simp
  from stale_pending_skips_new_file [OF _ _ this, of ?t 2 2 Some True] show ?thesis
    by (simp add: split_beta Let_def complete_lines_def List.map_filter_simps del: poll.simps)
qed

end
