(* ===== verification/PyParse.thy ===== *)
theory PyParse
  imports SolTrace_Prelude
begin

text \<open>
  The parsing primitives of the Python standard library that the log parsers of
  \<open>ftp-daemon/soltrace_daemon.py\<close> use: a backtracking matcher for the regular expression
  pieces (greedy, longest first, as \<open>re\<close> tries them), \<open>int()\<close> and \<open>float()\<close> on a string, and
  the two \<open>strptime\<close> formats. A matcher takes the rest of the match as a continuation, so
  a failure later in the line makes an earlier piece give characters back.
\<close>

section \<open>Regular expression pieces\<close>

fun upto :: "nat \<Rightarrow> (nat \<Rightarrow> 'r option) \<Rightarrow> 'r option" where
  "upto 0 g = None"
| "upto (Suc n) g = (case g (Suc n) of Some r \<Rightarrow> Some r | None \<Rightarrow> upto n g)"

definition re_plus :: "(char \<Rightarrow> bool) \<Rightarrow> string \<Rightarrow> (string \<Rightarrow> string \<Rightarrow> 'r option) \<Rightarrow> 'r option" where
  "re_plus P s k = upto (length (takeWhile P s)) (\<lambda>n. k (take n s) (drop n s))"

definition re_star :: "(char \<Rightarrow> bool) \<Rightarrow> string \<Rightarrow> (string \<Rightarrow> string \<Rightarrow> 'r option) \<Rightarrow> 'r option" where
  "re_star P s k = (case re_plus P s k of Some r \<Rightarrow> Some r | None \<Rightarrow> k [] s)"

fun re_lit :: "char \<Rightarrow> string \<Rightarrow> (string \<Rightarrow> 'r option) \<Rightarrow> 'r option" where
  "re_lit c [] k = None"
| "re_lit c (x # xs) k = (if x = c then k xs else None)"

abbreviation not_space :: "char \<Rightarrow> bool" where "not_space c \<equiv> \<not> is_space c"
abbreviation not_quote :: "char \<Rightarrow> bool" where "not_quote c \<equiv> c \<noteq> DQ"

text \<open>\<open>("[^"]*"|\<setminus>S+)\<close>: the quoted alternative first.\<close>

definition re_quoted_or_bare :: "string \<Rightarrow> (string \<Rightarrow> string \<Rightarrow> 'r option) \<Rightarrow> 'r option" where
  "re_quoted_or_bare s k =
     (case re_lit DQ s (\<lambda>s1. re_star not_quote s1 (\<lambda>body s2. re_lit DQ s2 (\<lambda>s3. k (DQ # body @ [DQ]) s3)))
      of Some r \<Rightarrow> Some r
       | None \<Rightarrow> re_plus not_space s k)"

text \<open>A fixed shape: \<open>d\<close> stands for a digit, any other character for itself.\<close>

fun shape_ok :: "string \<Rightarrow> string \<Rightarrow> bool" where
  "shape_ok [] s = (s = [])"
| "shape_ok (p # ps) [] = False"
| "shape_ok (p # ps) (c # cs) =
     ((if p = CHR ''d'' then is_digit c else c = p) \<and> shape_ok ps cs)"

definition re_shape :: "string \<Rightarrow> string \<Rightarrow> (string \<Rightarrow> string \<Rightarrow> 'r option) \<Rightarrow> 'r option" where
  "re_shape p s k =
     (if shape_ok p (take (length p) s) then k (take (length p) s) (drop (length p) s) else None)"

text \<open>
  Maximal munch: where the continuation cannot start inside a run, backtracking is idle and
  a piece takes its whole run.
\<close>

lemma upto_None: "(\<And>i. 0 < i \<Longrightarrow> i \<le> n \<Longrightarrow> g i = None) \<Longrightarrow> upto n g = None"
  by (induction n) auto

lemma upto_top: "0 < n \<Longrightarrow> g n = Some r \<Longrightarrow> upto n g = Some r"
  by (cases n) auto

lemma upto_Some: "upto n g = Some r \<Longrightarrow> \<exists>i. 0 < i \<and> i \<le> n \<and> g i = Some r"
proof (induction n)
  case 0
  then show ?case by simp
next
  case (Suc n)
  then show ?case
    by (cases "g (Suc n)") (auto intro: le_SucI)
qed

lemma re_plus_run:
  assumes "w \<noteq> []" and "\<forall>c \<in> set w. P c" and "rest = [] \<or> \<not> P (hd rest)" and "k w rest = Some r"
  shows "re_plus P (w @ rest) k = Some r"
proof -
  have tw: "takeWhile P (w @ rest) = w"
    using assms(2,3) by (cases rest) auto
  show ?thesis
    unfolding re_plus_def tw using assms(1,4) by (intro upto_top) auto
qed

lemma re_star_run:
  assumes "\<forall>c \<in> set w. P c" and "rest = [] \<or> \<not> P (hd rest)" and "k w rest = Some r"
  shows "re_star P (w @ rest) k = Some r"
proof (cases "w = []")
  case True
  then have "takeWhile P rest = []" using assms(2) by (cases rest) auto
  then have "re_plus P rest k = None" by (simp add: re_plus_def)
  with True assms(3) show ?thesis by (simp add: re_star_def)
next
  case False
  from re_plus_run [where k = k, OF False assms(1,2,3)] show ?thesis
    by (simp add: re_star_def)
qed

lemma re_quoted_run:
  assumes "\<forall>c \<in> set w. c \<noteq> DQ" and "k (DQ # w @ [DQ]) rest = Some r"
  shows "re_quoted_or_bare ((DQ # w @ [DQ]) @ rest) k = Some r"
proof -
  have "re_star not_quote (w @ DQ # rest)
      (\<lambda>body s2. re_lit DQ s2 (\<lambda>s3. k (DQ # body @ [DQ]) s3)) = Some r"
    by (rule re_star_run) (use assms in auto)
  then show ?thesis by (simp add: re_quoted_or_bare_def)
qed

lemma re_plus_SomeD:
  "re_plus P s k = Some r \<Longrightarrow>
   \<exists>w rest. s = w @ rest \<and> w \<noteq> [] \<and> (\<forall>c \<in> set w. P c) \<and> k w rest = Some r"
proof -
  assume "re_plus P s k = Some r"
  then obtain i where i: "0 < i" "i \<le> length (takeWhile P s)" "k (take i s) (drop i s) = Some r"
    unfolding re_plus_def by (blast dest: upto_Some)
  have "take i s = take i (takeWhile P s)"
    using i(2) by (metis append_take_drop_id takeWhile_dropWhile_id take_append
        diff_is_0_eq' take0 append_Nil2)
  then have "set (take i s) \<subseteq> set (takeWhile P s)" by (metis set_take_subset)
  then have "\<forall>c \<in> set (take i s). P c" by (auto dest: set_takeWhileD)
  moreover have "take i s \<noteq> []" using i length_takeWhile_le [of P s] by auto
  ultimately show ?thesis using i(3) by (metis append_take_drop_id)
qed

section \<open>Numbers\<close>

definition digit_val :: "char \<Rightarrow> nat" where
  "digit_val c = of_char c - 48"

text \<open>Digits with single underscores between them, as \<open>int()\<close> and \<open>float()\<close> accept.\<close>

fun num_us :: "bool \<Rightarrow> nat \<Rightarrow> string \<Rightarrow> nat option" where
  "num_us pd acc [] = (if pd then Some acc else None)"
| "num_us pd acc (c # cs) =
     (if is_digit c then num_us True (10 * acc + digit_val c) cs
      else if c = CHR ''_'' \<and> pd then num_us False acc cs
      else None)"

fun split_sign :: "string \<Rightarrow> bool \<times> string" where
  "split_sign [] = (False, [])"
| "split_sign (c # cs) =
     (if c = CHR ''-'' then (True, cs) else if c = CHR ''+'' then (False, cs) else (False, c # cs))"

definition py_int :: "string \<Rightarrow> int option" where
  "py_int s = (let (neg, ds) = split_sign (strip s) in
     map_option (\<lambda>n. if neg then - int n else int n) (num_us False 0 ds))"

datatype pyfloat = Finite real | Infinity bool | NaN

definition to_lower :: "char \<Rightarrow> char" where
  "to_lower c = (let n = (of_char c :: nat) in if 65 \<le> n \<and> n \<le> 90 then char_of (n + 32) else c)"

definition count_digits :: "string \<Rightarrow> nat" where
  "count_digits s = length (filter is_digit s)"

definition py_mantissa :: "string \<Rightarrow> real option" where
  "py_mantissa s =
     (case split_on (CHR ''.'') s of
        [ip] \<Rightarrow> map_option real (num_us False 0 ip)
      | [ip, fp] \<Rightarrow>
          (if ip = [] \<and> fp = [] then None
           else (case (if ip = [] then Some 0 else num_us False 0 ip,
                       if fp = [] then Some 0 else num_us False 0 fp) of
                   (Some i, Some f) \<Rightarrow> Some (real i + real f / 10 ^ count_digits fp)
                 | _ \<Rightarrow> None))
      | _ \<Rightarrow> None)"

definition py_exponent :: "string \<Rightarrow> int option" where
  "py_exponent s = (let (neg, ds) = split_sign s in
     map_option (\<lambda>n. if neg then - int n else int n) (num_us False 0 ds))"

definition pow10 :: "int \<Rightarrow> real" where
  "pow10 e = (if 0 \<le> e then 10 ^ nat e else 1 / 10 ^ nat (- e))"

definition py_float :: "string \<Rightarrow> pyfloat option" where
  "py_float s =
     (let (neg, t) = split_sign (strip s); l = map to_lower t in
      if l = ''inf'' \<or> l = ''infinity'' then Some (Infinity neg)
      else if l = ''nan'' then Some NaN
      else map_option (\<lambda>x. Finite (if neg then - x else x))
        (case split_on (CHR ''e'') l of
           [m] \<Rightarrow> py_mantissa m
         | [m, e] \<Rightarrow>
             (case (py_mantissa m, py_exponent e) of
                (Some x, Some k) \<Rightarrow> Some (x * pow10 k)
              | _ \<Rightarrow> None)
         | _ \<Rightarrow> None))"

section \<open>strptime\<close>

record civil =
  c_year :: nat
  c_month :: nat
  c_day :: nat
  c_hour :: nat
  c_minute :: nat
  c_second :: nat

definition is_leap :: "nat \<Rightarrow> bool" where
  "is_leap y \<longleftrightarrow> y mod 4 = 0 \<and> (y mod 100 \<noteq> 0 \<or> y mod 400 = 0)"

definition days_in_month :: "nat \<Rightarrow> nat \<Rightarrow> nat" where
  "days_in_month y m =
     (if m = 2 then (if is_leap y then 29 else 28)
      else if m \<in> {4, 6, 9, 11} then 30 else 31)"

text \<open>The values the \<open>datetime\<close> constructor accepts; it raises \<open>ValueError\<close> on any other.\<close>

definition civil_ok :: "civil \<Rightarrow> bool" where
  "civil_ok c \<longleftrightarrow> 1 \<le> c_year c \<and> c_year c \<le> 9999 \<and> 1 \<le> c_month c \<and> c_month c \<le> 12
     \<and> 1 \<le> c_day c \<and> c_day c \<le> days_in_month (c_year c) (c_month c)
     \<and> c_hour c \<le> 23 \<and> c_minute c \<le> 59 \<and> c_second c \<le> 59"

definition make_civil :: "nat \<Rightarrow> nat \<Rightarrow> nat \<Rightarrow> nat \<Rightarrow> nat \<Rightarrow> nat \<Rightarrow> civil option" where
  "make_civil y mo d h mi s =
     (let c = \<lparr>c_year = y, c_month = mo, c_day = d, c_hour = h, c_minute = mi, c_second = s\<rparr>
      in if civil_ok c then Some c else None)"

fun dec_val :: "nat \<Rightarrow> string \<Rightarrow> nat" where
  "dec_val acc [] = acc"
| "dec_val acc (c # cs) = dec_val (10 * acc + digit_val c) cs"

text \<open>One or two digits (\<open>%d %H %M %S\<close> without padding), or exactly \<open>n\<close> digits.\<close>

definition num12 :: "string \<Rightarrow> nat option" where
  "num12 s = (if (length s = 1 \<or> length s = 2) \<and> list_all is_digit s then Some (dec_val 0 s) else None)"

definition num4 :: "string \<Rightarrow> nat option" where
  "num4 s = (if length s = 4 \<and> list_all is_digit s then Some (dec_val 0 s) else None)"

definition month_names :: "string list" where
  "month_names = [''jan'', ''feb'', ''mar'', ''apr'', ''may'', ''jun'',
                  ''jul'', ''aug'', ''sep'', ''oct'', ''nov'', ''dec'']"

fun index_of :: "'a \<Rightarrow> 'a list \<Rightarrow> nat option" where
  "index_of x [] = None"
| "index_of x (y # ys) = (if x = y then Some 0 else map_option Suc (index_of x ys))"

text \<open>\<open>strptime(f"{mon} {day} {hms} {year}", "%b %d %H:%M:%S %Y")\<close> on words without spaces.\<close>

definition strptime_words :: "string \<Rightarrow> string \<Rightarrow> string \<Rightarrow> string \<Rightarrow> civil option" where
  "strptime_words mon day hms year =
     (case (index_of (map to_lower mon) month_names, num12 day,
            map num12 (split_on (CHR '':'') hms), num4 year) of
        (Some mo, Some d, [Some h, Some mi, Some s], Some y) \<Rightarrow> make_civil y (Suc mo) d h mi s
      | _ \<Rightarrow> None)"

text \<open>\<open>strptime(s, "%Y-%m-%d %H:%M:%S")\<close> on a string of the shape \<open>dddd-dd-dd dd:dd:dd\<close>.\<close>

definition strptime_fixed :: "string \<Rightarrow> civil option" where
  "strptime_fixed s =
     make_civil (dec_val 0 (take 4 s)) (dec_val 0 (take 2 (drop 5 s)))
       (dec_val 0 (take 2 (drop 8 s))) (dec_val 0 (take 2 (drop 11 s)))
       (dec_val 0 (take 2 (drop 14 s))) (dec_val 0 (take 2 (drop 17 s)))"

end
