(* ===== verification/LogParse.thy ===== *)
theory LogParse
  imports PyParse
begin

text \<open>
  The log parsers of \<open>ftp-daemon/soltrace_daemon.py\<close>: \<open>parse_transfer_log\<close> (xferlog lines),
  \<open>parse_extended_log\<close> (one line per FTP command) with its two session dictionaries, and
  \<open>_norm_path\<close>, \<open>_is_client_error\<close>, \<open>_remember\<close>, \<open>_flush_stale_sessions\<close>.

  The daemon's time zone is a parameter: \<open>zone\<close> gives the UTC time of a local clock reading,
  which \<open>datetime.astimezone(timezone.utc)\<close> computes from the host's settings.
  \<open>parse_extended_log\<close> is the matching of the line (\<open>ext_match\<close>) followed by the handling of
  the matched fields (\<open>handle_ext\<close>), in the order the code has them.
\<close>

section \<open>Log entries\<close>

record log_entry =
  e_log_time :: time
  e_client_ip :: string
  e_username :: "string option"
  e_action :: string
  e_file_path :: "string option"
  e_file_size :: int
  e_transfer_time :: pyfloat
  e_transfer_type :: "string option"
  e_status :: string
  e_session_id :: "string option"

type_synonym zone = "civil \<Rightarrow> time"

section \<open>Paths\<close>

text \<open>\<open>re.sub("/{2,}", "/", path)\<close>: every run of slashes becomes one.\<close>

fun squeeze_slashes :: "string \<Rightarrow> string" where
  "squeeze_slashes (x # y # s) =
     (if x = CHR ''/'' \<and> y = CHR ''/'' then squeeze_slashes (y # s)
      else x # squeeze_slashes (y # s))"
| "squeeze_slashes s = s"

definition norm_path :: "string option \<Rightarrow> string option" where
  "norm_path p = map_option squeeze_slashes p"

definition CLIENT_ERROR_CODES :: "nat list" where
  "CLIENT_ERROR_CODES = [500, 501, 502, 504]"

definition is_client_error :: "nat \<Rightarrow> string option \<Rightarrow> bool" where
  "is_client_error status_code path =
     (if List.member CLIENT_ERROR_CODES status_code then True
      else (case path of None \<Rightarrow> False | Some p \<Rightarrow> ends_with ''/'' p))"

section \<open>TransferLog\<close>

definition action_of_direction :: "string \<Rightarrow> string option" where
  "action_of_direction d =
     map_of [(''i'', ''upload''), (''o'', ''download''), (''d'', ''delete'')] d"

definition parse_transfer_log :: "zone \<Rightarrow> string \<Rightarrow> log_entry option" where
  "parse_transfer_log zone raw =
     (let line = strip raw; parts = split_ws line in
      if line = [] then None
      else if length parts < 14 then None
      else
        (case (strptime_words (parts ! 1) (parts ! 2) (parts ! 3) (parts ! 4),
               py_float (parts ! 5), py_int (parts ! 7)) of
           (Some c, Some tt, Some fsize) \<Rightarrow>
             (let completion = (if length parts > 17 then parts ! 17 else ''c'') in
              case action_of_direction (parts ! 11) of
                None \<Rightarrow> None
              | Some action \<Rightarrow>
                  Some \<lparr>e_log_time = zone c, e_client_ip = parts ! 6, e_username = Some (parts ! 13),
                        e_action = action,
                        e_file_path = norm_path (Some (strip_char DQ (parts ! 8))),
                        e_file_size = fsize, e_transfer_time = tt,
                        e_transfer_type = Some (if parts ! 9 = ''a'' then ''ascii'' else ''binary''),
                        e_status = (if completion = ''c'' then ''success'' else ''fail''),
                        e_session_id = None\<rparr>)
         | _ \<Rightarrow> None))"

section \<open>Session memory\<close>

type_synonym session_store = "(string, string option \<times> time) dict"

record sessions =
  rnfr_sessions :: session_store
  user_sessions :: session_store

definition no_sessions :: sessions where
  "no_sessions = \<lparr>rnfr_sessions = [], user_sessions = []\<rparr>"

definition SESSION_TTL :: time where
  "SESSION_TTL = sec 300"

definition MAX_SESSIONS :: nat where
  "MAX_SESSIONS = 20000"

text \<open>Over the limit the oldest keys go, so that half the limit is left.\<close>

definition remember :: "time \<Rightarrow> string \<Rightarrow> string option \<Rightarrow> session_store \<Rightarrow> session_store" where
  "remember now pid v store =
     (let store' = AList.update pid (v, now) store in
      if length store' > MAX_SESSIONS
      then drop (length store' - MAX_SESSIONS div 2) store' else store')"

definition flush_stale_store :: "time \<Rightarrow> session_store \<Rightarrow> session_store" where
  "flush_stale_store now store = filter (\<lambda>(k, _, ts). \<not> (now - ts > SESSION_TTL)) store"

definition flush_stale_sessions :: "time \<Rightarrow> sessions \<Rightarrow> sessions" where
  "flush_stale_sessions now s =
     s\<lparr>rnfr_sessions := flush_stale_store now (rnfr_sessions s),
       user_sessions := flush_stale_store now (user_sessions s)\<rparr>"

section \<open>ExtendedAllLog\<close>

record ext_fields =
  x_dt :: string
  x_client_ip :: string
  x_username :: string
  x_pid :: string
  x_status :: nat
  x_command :: string
  x_path :: string
  x_cmd_str :: string
  x_err_msg :: string

definition DT_SHAPE :: string where
  "DT_SHAPE = ''dddd-dd-dd dd:dd:dd''"

definition re_tail :: "string \<Rightarrow> (string \<Rightarrow> string \<Rightarrow> 'r option) \<Rightarrow> 'r option" where
  "re_tail s k =
     re_lit DQ s (\<lambda>s1. re_plus not_quote s1 (\<lambda>cmd s2. re_lit DQ s2 (\<lambda>s3.
     re_plus is_space s3 (\<lambda>_ s4. re_lit DQ s4 (\<lambda>s5. re_star not_quote s5 (\<lambda>err s6.
     re_lit DQ s6 (\<lambda>_. k cmd err)))))))"

definition ext_match :: "string \<Rightarrow> ext_fields option" where
  "ext_match line =
     re_shape DT_SHAPE line (\<lambda>dt s0. re_plus is_space s0 (\<lambda>_ s1.
     re_plus not_space s1 (\<lambda>ip s2. re_plus is_space s2 (\<lambda>_ s3.
     re_plus not_space s3 (\<lambda>user s4. re_plus is_space s4 (\<lambda>_ s5.
     re_plus is_digit s5 (\<lambda>pid s6. re_plus is_space s6 (\<lambda>_ s7.
     re_plus is_digit s7 (\<lambda>st s8. re_plus is_space s8 (\<lambda>_ s9.
     re_plus not_space s9 (\<lambda>command s10. re_plus is_space s10 (\<lambda>_ s11.
     re_quoted_or_bare s11 (\<lambda>path s12. re_plus is_space s12 (\<lambda>_ s13.
     re_quoted_or_bare s13 (\<lambda>_ s14. re_plus is_space s14 (\<lambda>_ s15.
     re_quoted_or_bare s15 (\<lambda>_ s16. re_plus is_space s16 (\<lambda>_ s17.
     re_tail s17 (\<lambda>cmd err.
       Some \<lparr>x_dt = dt, x_client_ip = ip, x_username = user, x_pid = pid,
             x_status = dec_val 0 st, x_command = command, x_path = path,
             x_cmd_str = cmd, x_err_msg = err\<rparr>)))))))))))))))))))"

text \<open>\<open>s.split(" ", 1)\<close>: what follows the first space, if there is one.\<close>

definition arg_after_space :: "string \<Rightarrow> string option" where
  "arg_after_space s =
     (case dropWhile (\<lambda>c. c \<noteq> CHR '' '') s of [] \<Rightarrow> None | _ # rest \<Rightarrow> Some rest)"

definition resolve_path :: "ext_fields \<Rightarrow> string option" where
  "resolve_path x =
     (let path = strip_char DQ (x_path x) in
      norm_path (if path = ''-'' then
                   (case arg_after_space (x_cmd_str x) of
                      None \<Rightarrow> None
                    | Some a \<Rightarrow> if strip a \<noteq> [] then Some (strip a) else None)
                 else Some path))"

definition base_entry :: "zone \<Rightarrow> civil \<Rightarrow> ext_fields \<Rightarrow> log_entry" where
  "base_entry zone c x =
     \<lparr>e_log_time = zone c, e_client_ip = x_client_ip x,
      e_username = (if x_username x = ''-'' then None else Some (x_username x)),
      e_action = '''', e_file_path = None, e_file_size = 0, e_transfer_time = Finite 0,
      e_transfer_type = None, e_status = ''success'', e_session_id = Some (x_pid x)\<rparr>"

definition show_path :: "string option \<Rightarrow> string" where
  "show_path p = (case p of None \<Rightarrow> ''None'' | Some s \<Rightarrow> s)"

definition handle_transfer_reject :: "ext_fields \<Rightarrow> string option \<Rightarrow> log_entry \<Rightarrow> log_entry option" where
  "handle_transfer_reject x path entry =
     (if x_status x = 426 then None
      else if e_username entry = None then None
      else if x_command x = ''RETR'' \<and> has_substring ''No such file'' (x_err_msg x) then None
      else if is_client_error (x_status x) path
      then Some (entry\<lparr>e_action := ''client_error'', e_status := ''fail'', e_file_path := path\<rparr>)
      else Some (entry\<lparr>e_action := (if x_command x = ''RETR'' then ''download'' else ''upload''),
                       e_status := ''fail'', e_file_path := path\<rparr>))"

definition handle_ext ::
  "time \<Rightarrow> log_entry \<Rightarrow> string option \<Rightarrow> ext_fields \<Rightarrow> sessions \<Rightarrow> log_entry option \<times> sessions" where
  "handle_ext now entry path x s =
     (let command = x_command x; pid = x_pid x; status_code = x_status x in
      if command = ''USER'' then
        (let attempted = (case arg_after_space (x_cmd_str x) of None \<Rightarrow> [] | Some a \<Rightarrow> strip a) in
         (None, if attempted \<noteq> []
                then s\<lparr>user_sessions := remember now pid (Some attempted) (user_sessions s)\<rparr> else s))
      else if command = ''PASS'' then
        (let val = map_of (user_sessions s) pid;
             s' = s\<lparr>user_sessions := AList.delete pid (user_sessions s)\<rparr>;
             user = (if truthy (e_username entry) then e_username entry
                     else (case val of Some (u, _) \<Rightarrow> u | None \<Rightarrow> None)) in
         if status_code = 230 then (Some (entry\<lparr>e_action := ''login''\<rparr>), s')
         else if truthy user
         then (Some (entry\<lparr>e_username := user, e_action := ''login'', e_status := ''fail''\<rparr>), s')
         else (None, s'))
      else if command = ''QUIT'' then
        (Some (entry\<lparr>e_action := ''logout''\<rparr>),
         s\<lparr>user_sessions := AList.delete pid (user_sessions s)\<rparr>)
      else if command = ''RNFR'' then
        (None, s\<lparr>rnfr_sessions := remember now pid path (rnfr_sessions s)\<rparr>)
      else if command = ''RNTO'' \<and> status_code = 250 then
        (let from_path = (case map_of (rnfr_sessions s) pid of Some (p, _) \<Rightarrow> p | None \<Rightarrow> None) in
         (Some (entry\<lparr>e_action := ''rename'',
                      e_file_path := (if truthy from_path
                                      then Some (the from_path @ '' -> '' @ show_path path) else path)\<rparr>),
          s\<lparr>rnfr_sessions := AList.delete pid (rnfr_sessions s)\<rparr>))
      else if command = ''MKD'' \<and> status_code = 257 then
        (Some (entry\<lparr>e_action := ''mkdir'', e_file_path := path\<rparr>), s)
      else if command = ''RMD'' \<and> status_code = 250 then
        (Some (entry\<lparr>e_action := ''rmdir'', e_file_path := path\<rparr>), s)
      else if command = ''CWD'' \<and> status_code = 550 then
        (Some (entry\<lparr>e_action := ''cwd_fail'', e_status := ''fail'', e_file_path := path\<rparr>), s)
      else if (command = ''RETR'' \<or> command = ''STOR'') \<and> status_code \<ge> 400 then
        (handle_transfer_reject x path entry, s)
      else (None, s))"

definition parse_extended_log ::
  "zone \<Rightarrow> time \<Rightarrow> sessions \<Rightarrow> string \<Rightarrow> log_entry option \<times> sessions" where
  "parse_extended_log zone now s raw =
     (let line = strip raw in
      if line = [] then (None, s)
      else (case ext_match line of
              None \<Rightarrow> (None, s)
            | Some x \<Rightarrow>
                (case strptime_fixed (x_dt x) of
                   None \<Rightarrow> (None, s)
                 | Some c \<Rightarrow> handle_ext now (base_entry zone c x) (resolve_path x) x s)))"

section \<open>Paths: lemmas\<close>

lemma squeeze_hd: "s \<noteq> [] \<Longrightarrow> squeeze_slashes s \<noteq> [] \<and> hd (squeeze_slashes s) = hd s"
  by (induction s rule: squeeze_slashes.induct) auto

lemma squeeze_last: "s \<noteq> [] \<Longrightarrow> last (squeeze_slashes s) = last s"
proof (induction s rule: squeeze_slashes.induct)
  case (1 x y s)
  then show ?case using squeeze_hd [of "y # s"] by simp
qed auto

lemma squeeze_no_double: "\<not> has_substring ''//'' (squeeze_slashes s)"
proof (induction s rule: squeeze_slashes.induct)
  case (1 x y s)
  show ?case
  proof (cases "x = CHR ''/'' \<and> y = CHR ''/''")
    case True
    with "1" show ?thesis by simp
  next
    case False
    obtain t where t: "squeeze_slashes (y # s) = y # t"
      using squeeze_hd [of "y # s"] by (cases "squeeze_slashes (y # s)") auto
    with "1" False show ?thesis by (auto simp: starts_with_def)
  qed
qed (auto simp: starts_with_def)

lemma squeeze_id: "\<not> has_substring ''//'' s \<Longrightarrow> squeeze_slashes s = s"
  by (induction s rule: squeeze_slashes.induct) (auto simp: starts_with_def)

abbreviation components :: "string \<Rightarrow> string list" where
  "components s \<equiv> filter (\<lambda>p. p \<noteq> []) (split_on (CHR ''/'') s)"

lemma squeeze_split:
  "components (squeeze_slashes s) = components s
   \<and> hd (split_on (CHR ''/'') (squeeze_slashes s)) = hd (split_on (CHR ''/'') s)"
proof (induction s rule: squeeze_slashes.induct)
  case (1 x y s)
  then show ?case
    by (cases "split_on (CHR ''/'') s"; cases "split_on (CHR ''/'') (squeeze_slashes (y # s))")
       (auto split: list.splits)
qed auto

section \<open>Session memory: lemmas\<close>

definition store_ok :: "session_store \<Rightarrow> bool" where
  "store_ok st \<longleftrightarrow> length st \<le> MAX_SESSIONS \<and> distinct (map fst st)"

definition sessions_ok :: "sessions \<Rightarrow> bool" where
  "sessions_ok s \<longleftrightarrow> store_ok (rnfr_sessions s) \<and> store_ok (user_sessions s)"

lemma length_alist_update_le: "length (AList.update k v d) \<le> Suc (length d)"
  by (induction d) auto

lemma length_alist_delete_le: "length (AList.delete k d) \<le> length d"
  by (simp add: AList.delete_eq)

lemma remember_ok [keeps]: "store_ok st \<Longrightarrow> store_ok (remember now pid v st)"
  using length_alist_update_le [of pid "(v, now)" st]
  by (auto simp: store_ok_def remember_def Let_def MAX_SESSIONS_def drop_map [symmetric]
      intro: distinct_update distinct_drop)

lemma forget_ok [keeps]: "store_ok st \<Longrightarrow> store_ok (AList.delete pid st)"
  using length_alist_delete_le [of pid st] by (auto simp: store_ok_def intro: distinct_delete)

lemma flush_stale_ok [keeps]: "store_ok st \<Longrightarrow> store_ok (flush_stale_store now st)"
  by (auto simp: store_ok_def flush_stale_store_def distinct_map_filter
      intro: le_trans [OF length_filter_le])

text \<open>What one line does to the two dictionaries.\<close>

definition attempted_user :: "ext_fields \<Rightarrow> string" where
  "attempted_user x = (case arg_after_space (x_cmd_str x) of None \<Rightarrow> [] | Some a \<Rightarrow> strip a)"

lemma handle_ext_users:
  "user_sessions (snd (handle_ext now e path x s)) =
     (if x_command x = ''USER'' \<and> attempted_user x \<noteq> []
      then remember now (x_pid x) (Some (attempted_user x)) (user_sessions s)
      else if x_command x = ''PASS'' \<or> x_command x = ''QUIT''
      then AList.delete (x_pid x) (user_sessions s)
      else user_sessions s)"
  by (simp add: handle_ext_def Let_def attempted_user_def)

lemma handle_ext_rnfr:
  "rnfr_sessions (snd (handle_ext now e path x s)) =
     (if x_command x = ''RNFR'' then remember now (x_pid x) path (rnfr_sessions s)
      else if x_command x = ''RNTO'' \<and> x_status x = 250
      then AList.delete (x_pid x) (rnfr_sessions s)
      else rnfr_sessions s)"
  by (simp add: handle_ext_def Let_def)

lemma handle_ext_ok [keeps]: "sessions_ok s \<Longrightarrow> sessions_ok (snd (handle_ext now e path x s))"
  by (simp add: sessions_ok_def handle_ext_users handle_ext_rnfr remember_ok forget_ok)

lemma parse_extended_log_ok [keeps]:
  "sessions_ok s \<Longrightarrow> sessions_ok (snd (parse_extended_log zone now s raw))"
  by (auto simp: parse_extended_log_def Let_def intro: keeps split: option.splits)

text \<open>Below the limit, remembering a session leaves every other session alone.\<close>

lemma remember_other:
  "length st < MAX_SESSIONS \<Longrightarrow> q \<noteq> pid \<Longrightarrow> map_of (remember now pid v st) q = map_of st q"
  using length_alist_update_le [of pid "(v, now)" st] by (simp add: remember_def Let_def)

lemma remember_same:
  "length st < MAX_SESSIONS \<Longrightarrow> map_of (remember now pid v st) pid = Some (v, now)"
  using length_alist_update_le [of pid "(v, now)" st] by (simp add: remember_def Let_def)

lemma length_remember: "length (remember now pid v st) \<le> Suc (length st)"
  using length_alist_update_le [of pid "(v, now)" st] by (auto simp: remember_def Let_def MAX_SESSIONS_def)

section \<open>Following a session through interleaved lines\<close>

text \<open>One matched line of the extended log, with the clock reading and what was computed from it.\<close>

type_synonym ext_event = "time \<times> log_entry \<times> string option \<times> ext_fields"

fun run_ext :: "ext_event list \<Rightarrow> sessions \<Rightarrow> log_entry option list \<times> sessions" where
  "run_ext [] s = ([], s)"
| "run_ext ((now, entry, path, x) # evs) s =
     (let (e, s1) = handle_ext now entry path x s; (es, s2) = run_ext evs s1 in (e # es, s2))"

definition touches_user :: "string \<Rightarrow> ext_fields \<Rightarrow> bool" where
  "touches_user pid x \<longleftrightarrow> x_pid x = pid \<and> x_command x \<in> {''USER'', ''PASS'', ''QUIT''}"

lemma length_user_sessions:
  "length (user_sessions (snd (handle_ext now e path x s))) \<le> Suc (length (user_sessions s))"
  using length_remember length_alist_delete_le [of "x_pid x" "user_sessions s"]
  by (auto simp: handle_ext_users intro: le_SucI)

lemma handle_ext_other_user:
  assumes "\<not> touches_user pid x" and "length (user_sessions s) < MAX_SESSIONS"
  shows "map_of (user_sessions (snd (handle_ext now e path x s))) pid = map_of (user_sessions s) pid"
  using assms by (auto simp: handle_ext_users touches_user_def remember_other)

lemma run_ext_other_user:
  assumes "\<forall>ev \<in> set evs. \<not> touches_user pid (snd (snd (snd ev)))"
    and "length (user_sessions s) + length evs \<le> MAX_SESSIONS"
  shows "map_of (user_sessions (snd (run_ext evs s))) pid = map_of (user_sessions s) pid"
  using assms
proof (induction evs arbitrary: s)
  case Nil
  then show ?case by simp
next
  case (Cons ev evs)
  obtain now entry path x where ev: "ev = (now, entry, path, x)" by (cases ev)
  let ?s1 = "snd (handle_ext now entry path x s)"
  have len: "length (user_sessions ?s1) + length evs \<le> MAX_SESSIONS"
    using length_user_sessions [of now entry path x s] Cons.prems(2) by simp
  have "map_of (user_sessions (snd (run_ext evs ?s1))) pid = map_of (user_sessions ?s1) pid"
    using Cons.prems(1) len by (intro Cons.IH) auto
  also have "\<dots> = map_of (user_sessions s) pid"
    using Cons.prems ev by (intro handle_ext_other_user) auto
  finally show ?case by (simp add: ev split_beta)
qed

section \<open>Printing a line and matching it\<close>

text \<open>
  \<open>ext_line\<close> lays the fields out as proftpd writes them: the path, the command string and
  the error message in double quotes, the two fields the daemon ignores bare.
\<close>

lemma is_space_blank [simp]: "is_space (CHR '' '')" "\<not> is_digit (CHR '' '')" "\<not> is_space DQ"
  by (simp_all add: is_space_def is_digit_def Let_def)

lemma re_shape_run:
  "shape_ok p w \<Longrightarrow> length w = length p \<Longrightarrow> k w rest = Some r \<Longrightarrow> re_shape p (w @ rest) k = Some r"
  by (simp add: re_shape_def)

lemma shape_ok_length: "shape_ok p w \<Longrightarrow> length w = length p"
  by (induction p w rule: shape_ok.induct) auto

lemma re_bare_run:
  assumes "w \<noteq> []" and "hd w \<noteq> DQ" and "\<forall>c \<in> set w. not_space c"
    and "k w ('' '' @ t) = Some r"
  shows "re_quoted_or_bare (w @ '' '' @ t) k = Some r"
proof -
  have "re_plus not_space (w @ '' '' @ t) k = Some r"
    by (rule re_plus_run [where k = k]) (use assms in auto)
  moreover have "re_lit DQ (w @ '' '' @ t) k' = None" for k' :: "string \<Rightarrow> 'a option"
    using assms(1,2) by (cases w) auto
  ultimately show ?thesis by (simp add: re_quoted_or_bare_def)
qed

definition ext_line :: "ext_fields \<Rightarrow> string \<Rightarrow> string \<Rightarrow> string \<Rightarrow> string \<Rightarrow> string" where
  "ext_line x st u1 u2 rest =
     x_dt x @ '' '' @ x_client_ip x @ '' '' @ x_username x @ '' '' @ x_pid x @ '' '' @ st @ '' ''
     @ x_command x @ '' '' @ x_path x @ '' '' @ u1 @ '' '' @ u2 @ '' ''
     @ [DQ] @ x_cmd_str x @ [DQ] @ '' '' @ [DQ] @ x_err_msg x @ [DQ] @ rest"

definition word_ok :: "string \<Rightarrow> bool" where
  "word_ok w \<longleftrightarrow> w \<noteq> [] \<and> list_all not_space w"

definition ext_fields_ok :: "ext_fields \<Rightarrow> bool" where
  "ext_fields_ok x \<longleftrightarrow> shape_ok DT_SHAPE (x_dt x) \<and> word_ok (x_client_ip x) \<and> word_ok (x_username x)
     \<and> x_pid x \<noteq> [] \<and> list_all is_digit (x_pid x) \<and> word_ok (x_command x)
     \<and> (\<exists>p. x_path x = DQ # p @ [DQ] \<and> list_all not_quote p)
     \<and> x_cmd_str x \<noteq> [] \<and> list_all not_quote (x_cmd_str x) \<and> list_all not_quote (x_err_msg x)"

definition bare_ok :: "string \<Rightarrow> bool" where
  "bare_ok w \<longleftrightarrow> word_ok w \<and> hd w \<noteq> DQ"

lemma digits_hd: "w \<noteq> [] \<Longrightarrow> list_all is_digit w \<Longrightarrow> not_space (hd w)"
  by (cases w) (auto simp: digit_not_space)

lemma word_okD: "word_ok w \<Longrightarrow> w \<noteq> []" "word_ok w \<Longrightarrow> \<forall>c\<in>set w. not_space c" "word_ok w \<Longrightarrow> hd (w @ t) = hd w"
  "word_ok w \<Longrightarrow> not_space (hd w)"
  by (auto simp: word_ok_def list_all_iff)

lemma re_blank_run:
  assumes "t \<noteq> []" "not_space (hd t)" "k '' '' t = Some r"
  shows "re_plus is_space ('' '' @ t) k = Some r"
  by (rule re_plus_run [where k = k]) (use assms in auto)

lemma re_word_run:
  assumes "word_ok w" "k w ('' '' @ t) = Some r"
  shows "re_plus not_space (w @ '' '' @ t) k = Some r"
  by (rule re_plus_run [where k = k]) (use assms in \<open>auto simp: word_ok_def list_all_iff\<close>)

lemma re_digits_run:
  assumes "w \<noteq> []" "list_all is_digit w" "k w ('' '' @ t) = Some r"
  shows "re_plus is_digit (w @ '' '' @ t) k = Some r"
  by (rule re_plus_run [where k = k]) (use assms in \<open>auto simp: list_all_iff\<close>)

lemma re_tail_run:
  assumes "cmd \<noteq> []" "list_all not_quote cmd" "list_all not_quote err" "k cmd err = Some r"
  shows "re_tail ([DQ] @ cmd @ [DQ] @ '' '' @ [DQ] @ err @ [DQ] @ rest) k = Some r"
proof -
  have e: "re_star not_quote (err @ DQ # rest) (\<lambda>err s6. re_lit DQ s6 (\<lambda>_. k cmd err)) = Some r"
    by (rule re_star_run) (use assms in \<open>auto simp: list_all_iff\<close>)
  have b: "re_plus is_space ('' '' @ (DQ # err @ DQ # rest)) (\<lambda>_ s4. re_lit DQ s4 (\<lambda>s5. re_star not_quote s5 (\<lambda>err s6.
     re_lit DQ s6 (\<lambda>_. k cmd err)))) = Some r"
    by (rule re_blank_run) (use e in auto)
  have "re_plus not_quote (cmd @ DQ # '' '' @ (DQ # err @ DQ # rest)) (\<lambda>cmd s2. re_lit DQ s2 (\<lambda>s3.
     re_plus is_space s3 (\<lambda>_ s4. re_lit DQ s4 (\<lambda>s5. re_star not_quote s5 (\<lambda>err s6.
     re_lit DQ s6 (\<lambda>_. k cmd err)))))) = Some r"
    by (rule re_plus_run) (use assms b in \<open>auto simp: list_all_iff\<close>)
  then show ?thesis by (simp add: re_tail_def)
qed

lemma ext_match_line:
  assumes "ext_fields_ok x" and "bare_ok u1" and "bare_ok u2"
    and "st \<noteq> []" and "list_all is_digit st" and "dec_val 0 st = x_status x"
  shows "ext_match (ext_line x st u1 u2 rest) = Some x"
proof -
  obtain p where p: "x_path x = DQ # p @ [DQ]" "\<forall>c\<in>set p. c \<noteq> DQ"
    using assms(1) by (auto simp: ext_fields_ok_def list_all_iff)
  note ok = assms(1) [unfolded ext_fields_ok_def] and bare = assms(2,3) [unfolded bare_ok_def]
  have "\<forall>c\<in>set u1. not_space c" "\<forall>c\<in>set u2. not_space c"
    using bare word_okD by blast+
  moreover have "not_space (hd (x_pid x))" "not_space (hd st)"
    using ok assms(4,5) digits_hd by blast+
  ultimately show ?thesis
    unfolding ext_match_def ext_line_def p(1)
    using ok bare assms(4-6) p
    by (intro re_shape_run re_blank_run re_word_run re_digits_run re_quoted_run re_bare_run re_tail_run)
      (simp_all add: shape_ok_length word_okD)
qed

lemma strip_framed:
  "w \<noteq> [] \<Longrightarrow> not_space (hd w) \<Longrightarrow> not_space (last w) \<Longrightarrow> strip (w @ [LF]) = w"
proof -
  assume a: "w \<noteq> []" "not_space (hd w)" "not_space (last w)"
  have "dropWhile is_space (w @ [LF]) = w @ [LF]" using a(1,2) by (cases w) auto
  moreover have "is_space LF" by (simp add: is_space_def Let_def)
  moreover have "dropWhile is_space (rev w) = rev w"
    using a(1,3) by (cases "rev w") (auto simp: last_rev [symmetric])
  ultimately show ?thesis by (simp add: strip_def lstrip_def)
qed

lemma strip_ext_line:
  assumes "ext_fields_ok x"
  shows "strip (ext_line x st u1 u2 [] @ [LF]) = ext_line x st u1 u2 []"
proof (rule strip_framed)
  show "ext_line x st u1 u2 [] \<noteq> []" by (simp add: ext_line_def)
  show "not_space (last (ext_line x st u1 u2 []))" by (simp add: ext_line_def)
  obtain c cs where "x_dt x = c # cs" "is_digit c"
    using assms by (cases "x_dt x") (auto simp: ext_fields_ok_def DT_SHAPE_def)
  then show "not_space (hd (ext_line x st u1 u2 []))"
    by (simp add: ext_line_def digit_not_space)
qed

section \<open>Properties\<close>

text \<open>
  \<open>_norm_path\<close> leaves no doubled slash, keeps the sequence of path components and a
  leading or trailing slash, and is idempotent. So paths that differ only in doubled slashes
  are counted as one file, and a missing file name stays visible as a trailing slash.
\<close>

theorem norm_path_canonical:
  "\<not> has_substring ''//'' (squeeze_slashes s)
   \<and> components (squeeze_slashes s) = components s
   \<and> starts_with ''/'' (squeeze_slashes s) = starts_with ''/'' s
   \<and> ends_with ''/'' (squeeze_slashes s) = ends_with ''/'' s
   \<and> norm_path (norm_path p) = norm_path p"
proof -
  have ne: "s \<noteq> [] \<Longrightarrow> squeeze_slashes s \<noteq> []" using squeeze_hd by blast
  have "starts_with ''/'' (squeeze_slashes s) = starts_with ''/'' s"
    using squeeze_hd [of s] by (cases s; cases "squeeze_slashes s") (auto simp: starts_with_def)
  moreover have "ends_with ''/'' t \<longleftrightarrow> t \<noteq> [] \<and> last t = CHR ''/''" for t
    by (cases t rule: rev_cases) (auto simp: ends_with_def starts_with_def)
  ultimately show ?thesis
    using squeeze_no_double squeeze_split squeeze_last [of s] ne
    by (cases s; cases p) (auto simp: norm_path_def squeeze_id)
qed

lemma parse_ext_line:
  assumes "ext_fields_ok x" and "bare_ok u1" and "bare_ok u2"
    and "st \<noteq> []" and "list_all is_digit st" and "dec_val 0 st = x_status x"
    and "strptime_fixed (x_dt x) = Some c"
  shows "parse_extended_log zone now s (ext_line x st u1 u2 [] @ [LF]) =
    handle_ext now (base_entry zone c x) (resolve_path x) x s"
proof -
  have "ext_line x st u1 u2 [] \<noteq> []" by (simp add: ext_line_def)
  with ext_match_line [OF assms(1-6)] strip_ext_line [OF assms(1)] assms(7) show ?thesis
    by (simp add: parse_extended_log_def)
qed

text \<open>
  Printing the fields of an ExtendedAllLog line and parsing the line gives the fields
  back: \<open>parse_extended_log\<close> handles exactly the printed fields, also when the quoted path
  holds spaces, for any two bare fields in the places the daemon ignores.
\<close>

theorem ext_line_roundtrip:
  assumes "ext_fields_ok x" and "bare_ok u1" and "bare_ok u2"
    and "st \<noteq> []" and "list_all is_digit st" and "dec_val 0 st = x_status x"
    and "strptime_fixed (x_dt x) = Some c"
  shows "parse_extended_log zone now s (ext_line x st u1 u2 [] @ [LF]) =
    handle_ext now (base_entry zone c x) (resolve_path x) x s"
  by (rule parse_ext_line [OF assms])

definition sample_fields :: ext_fields where
  "sample_fields = \<lparr>x_dt = ''2026-09-01 10:11:12'', x_client_ip = ''10.0.0.7'', x_username = ''bob'',
     x_pid = ''77'', x_status = 257, x_command = ''MKD'', x_path = DQ # ''/vod/my dir'' @ [DQ],
     x_cmd_str = ''MKD my dir'', x_err_msg = ''-''\<rparr>"

lemma sample_fields_ok: "ext_fields_ok sample_fields"
proof -
  have "x_path sample_fields = DQ # ''/vod/my dir'' @ [DQ] \<and> list_all not_quote ''/vod/my dir''"
    by (simp add: sample_fields_def)
  then have "\<exists>p. x_path sample_fields = DQ # p @ [DQ] \<and> list_all not_quote p" by blast
  then show ?thesis
    by (simp add: ext_fields_ok_def sample_fields_def DT_SHAPE_def word_ok_def is_digit_def
        is_space_def Let_def)
qed

theorem ext_line_roundtrip_witness:
  "map_option e_file_path (fst (parse_extended_log (\<lambda>_. 0) 0 no_sessions
     (ext_line sample_fields ''257'' ''-'' ''-'' [] @ [LF]))) = Some (Some ''/vod/my dir'')"
proof -
  have "strptime_fixed (x_dt sample_fields) = Some \<lparr>c_year = 2026, c_month = 9, c_day = 1,
      c_hour = 10, c_minute = 11, c_second = 12\<rparr>"
    by (simp add: strptime_fixed_def sample_fields_def make_civil_def civil_ok_def digit_val_def
        days_in_month_def Let_def)
  from ext_line_roundtrip [OF sample_fields_ok _ _ _ _ _ this, of "''-''" "''-''" "''257''"]
  show ?thesis
    by (simp add: bare_ok_def word_ok_def is_space_def is_digit_def Let_def digit_val_def
        sample_fields_def handle_ext_def resolve_path_def norm_path_def strip_char_def)
qed

text \<open>
  A rejected password is attributed to the account of the \<open>USER\<close> command of the same
  session, however many lines of other sessions come between the two (below the memory
  limit), and the session is then forgotten.
\<close>

theorem failed_login_attributed:
  assumes "x_command u = ''USER''" and "x_pid u = pid" and "attempted_user u \<noteq> []"
    and "\<forall>ev \<in> set evs. \<not> touches_user pid (snd (snd (snd ev)))"
    and "length (user_sessions s) + length evs < MAX_SESSIONS"
    and "x_command f = ''PASS''" and "x_pid f = pid" and "x_status f \<noteq> 230"
    and "e_username entry = None"
  shows "let (_, s1) = run_ext ((t0, e0, p0, u) # evs) s;
             (out, s2) = handle_ext t1 entry p1 f s1
         in out = Some (entry\<lparr>e_username := Some (attempted_user u), e_action := ''login'',
                              e_status := ''fail''\<rparr>)
            \<and> map_of (user_sessions s2) pid = None"
proof -
  define sU where "sU = snd (handle_ext t0 e0 p0 u s)"
  define s1 where "s1 = snd (run_ext evs sU)"
  have U: "user_sessions sU = remember t0 pid (Some (attempted_user u)) (user_sessions s)"
    using assms(1-3) by (simp add: sU_def handle_ext_users)
  then have "length (user_sessions sU) + length evs \<le> MAX_SESSIONS"
    using length_remember [of t0 pid "Some (attempted_user u)" "user_sessions s"] assms(5) by simp
  then have "map_of (user_sessions s1) pid = map_of (user_sessions sU) pid"
    unfolding s1_def by (intro run_ext_other_user assms(4))
  also have "\<dots> = Some (Some (attempted_user u), t0)"
    using assms(5) by (simp add: U remember_same)
  finally have known: "map_of (user_sessions s1) pid = Some (Some (attempted_user u), t0)" .
  have run: "snd (run_ext ((t0, e0, p0, u) # evs) s) = s1"
    by (simp add: s1_def sU_def split_beta)
  have "map_of (user_sessions (snd (handle_ext t1 entry p1 f s1))) pid = None"
    using assms(6,7) by (simp add: handle_ext_users)
  moreover have "fst (handle_ext t1 entry p1 f s1) =
      Some (entry\<lparr>e_username := Some (attempted_user u), e_action := ''login'', e_status := ''fail''\<rparr>)"
    using assms(3,6-9) known by (simp add: handle_ext_def Let_def)
  ultimately show ?thesis unfolding split_beta Let_def run by blast
qed

definition sample_user :: ext_fields where
  "sample_user = sample_fields\<lparr>x_command := ''USER'', x_username := ''-'', x_status := 331,
     x_cmd_str := ''USER bob''\<rparr>"

definition sample_pass :: ext_fields where
  "sample_pass = sample_fields\<lparr>x_command := ''PASS'', x_username := ''-'', x_status := 530\<rparr>"

definition sample_entry :: log_entry where
  "sample_entry = base_entry (\<lambda>_. 0) \<lparr>c_year = 2026, c_month = 9, c_day = 1, c_hour = 10,
     c_minute = 11, c_second = 12\<rparr> sample_pass"

theorem failed_login_attributed_witness:
  "let (_, s1) = run_ext ((0, sample_entry, None, sample_user)
                          # [(1, sample_entry, None, sample_fields)]) no_sessions;
       (out, s2) = handle_ext 2 sample_entry None sample_pass s1
   in out = Some (sample_entry\<lparr>e_username := Some (attempted_user sample_user),
        e_action := ''login'', e_status := ''fail''\<rparr>) \<and> map_of (user_sessions s2) ''77'' = None"
  by (rule failed_login_attributed)
    (simp_all add: sample_user_def sample_pass_def sample_fields_def sample_entry_def base_entry_def
      touches_user_def attempted_user_def arg_after_space_def strip_def lstrip_def is_space_def
      Let_def no_sessions_def MAX_SESSIONS_def)

definition feed_lines :: "zone \<Rightarrow> (time \<times> string) list \<Rightarrow> sessions" where
  "feed_lines zone ls = foldl (\<lambda>s (now, raw). snd (parse_extended_log zone now
     (flush_stale_sessions now s) raw)) no_sessions ls"

text \<open>
  The two session dictionaries stay within the limit and keep one entry per session,
  whatever lines are parsed at whatever times and however rarely sessions end.
\<close>

theorem session_memory_bounded: "sessions_ok (feed_lines zone ls)"
proof (induction ls rule: rev_induct)
  case Nil
  show ?case by (simp add: feed_lines_def no_sessions_def sessions_ok_def store_ok_def)
next
  case (snoc l ls)
  obtain now raw where l: "l = (now, raw)" by (cases l)
  have "sessions_ok (flush_stale_sessions now (feed_lines zone ls))"
    using snoc by (simp add: sessions_ok_def flush_stale_sessions_def keeps)
  then show ?case by (simp add: feed_lines_def l parse_extended_log_ok)
qed

text \<open>
  Parsing a line of a failed login a second time, with the session memory the first parse
  left, finds nothing: the name was taken out of the memory. The sender does that when it
  rolls the position back while the device is disabled, so the entry is lost.
\<close>

theorem failed_login_parsed_once:
  assumes "parse_extended_log zone now s raw = (Some e, s')"
    and "ext_match (strip raw) = Some x" and "x_command x = ''PASS''" and "x_status x \<noteq> 230"
    and "x_username x = ''-''"
  shows "parse_extended_log zone later s' raw = (None, s')"
proof -
  have ne: "strip raw \<noteq> []" using assms(1) by (auto simp: parse_extended_log_def Let_def)
  obtain c where c: "strptime_fixed (x_dt x) = Some c"
    using assms(1,2) ne by (auto simp: parse_extended_log_def Let_def split: option.splits)
  have s': "user_sessions s' = AList.delete (x_pid x) (user_sessions s)"
    using assms ne c by (auto simp: parse_extended_log_def Let_def handle_ext_def split: if_splits)
  have "AList.delete (x_pid x) (user_sessions s') = user_sessions s'"
      "map_of (user_sessions s') (x_pid x) = None"
    by (simp_all add: s' delete_idem)
  then have "handle_ext later (base_entry zone c x) (resolve_path x) x s' = (None, s')"
    using assms(3-5) by (cases s') (simp add: handle_ext_def Let_def base_entry_def s')
  with assms(2) ne c show ?thesis by (simp add: parse_extended_log_def Let_def)
qed

lemma sample_time:
  "strptime_fixed ''2026-09-01 10:11:12'' = Some \<lparr>c_year = 2026, c_month = 9, c_day = 1,
      c_hour = 10, c_minute = 11, c_second = 12\<rparr>"
  by (simp add: strptime_fixed_def make_civil_def civil_ok_def digit_val_def days_in_month_def Let_def)

lemma sample_pass_ok: "ext_fields_ok sample_pass"
  using sample_fields_ok
  by (simp add: ext_fields_ok_def sample_pass_def word_ok_def is_digit_def is_space_def Let_def)

theorem failed_login_parsed_once_witness:
  "let raw = ext_line sample_pass ''530'' ''-'' ''-'' [] @ [LF];
       (e, s) = parse_extended_log (\<lambda>_. 0) 0 \<lparr>rnfr_sessions = [], user_sessions = [(''77'', Some ''bob'', 0)]\<rparr> raw
   in map_option e_username e = Some (Some ''bob'') \<and> fst (parse_extended_log (\<lambda>_. 0) 1 s raw) = None"
proof -
  let ?s = "\<lparr>rnfr_sessions = [], user_sessions = [(''77'', Some ''bob'', 0)]\<rparr>"
  let ?l = "ext_line sample_pass ''530'' ''-'' ''-'' []"
  let ?raw = "?l @ [LF]"
  have f: "bare_ok ''-''" "''530'' \<noteq> []" "list_all is_digit ''530''"
      "dec_val 0 ''530'' = x_status sample_pass" "x_dt sample_pass = ''2026-09-01 10:11:12''"
    by (simp_all add: bare_ok_def word_ok_def is_space_def is_digit_def digit_val_def sample_pass_def
        sample_fields_def Let_def)
  note p = parse_ext_line [OF sample_pass_ok f(1) f(1) f(2-4), unfolded f(5), OF sample_time]
  have m: "ext_match (strip ?raw) = Some sample_pass"
    using ext_match_line [OF sample_pass_ok f(1) f(1) f(2-4)] strip_ext_line [OF sample_pass_ok] by simp
  have "\<exists>e s'. parse_extended_log (\<lambda>_. 0) 0 ?s ?raw = (Some e, s') \<and> e_username e = Some ''bob''"
    unfolding p by (simp add: handle_ext_def Let_def sample_pass_def sample_fields_def base_entry_def)
  then obtain e s' where run: "parse_extended_log (\<lambda>_. 0) 0 ?s ?raw = (Some e, s')"
    and e: "e_username e = Some ''bob''" by blast
  have "parse_extended_log (\<lambda>_. 0) 1 s' ?raw = (None, s')"
    by (rule failed_login_parsed_once [OF run m]) (simp_all add: sample_pass_def)
  with run e show ?thesis by (simp add: Let_def)
qed

end
