(* ===== verification/DiskBuf.thy ===== *)
theory DiskBuf
  imports SolTrace_Prelude
begin

text \<open>
  \<open>DiskBuffer\<close> of \<open>ftp-daemon/soltrace_daemon.py\<close>: entries that could not be sent, kept in a
  JSON-lines file with at most \<open>max_lines\<close> lines, and the contract \<open>entry_buffer\<close> that the
  sender relies on.

  The file is \<^const>\<open>None\<close> when it does not exist, else its lines: an entry, a blank line or a
  line that is not JSON (\<open>_read_raw\<close> skips the last two). Writing an entry with \<open>json.dumps\<close>
  and reading it with \<open>json.loads\<close> gives the entry back. \<open>write\<close> replaces the file
  atomically, so it is one step.
\<close>

section \<open>State and operations\<close>

datatype 'e bline = Entry 'e | Blank | Garbage

record 'e disk_buffer =
  b_lines :: "'e bline list option"
  b_max_lines :: int

fun parse_bline :: "'e bline \<Rightarrow> 'e option" where
  "parse_bline (Entry e) = Some e"
| "parse_bline Blank = None"
| "parse_bline Garbage = None"

definition read_raw :: "'e disk_buffer \<Rightarrow> 'e list" where
  "read_raw b = (case b_lines b of None \<Rightarrow> [] | Some ls \<Rightarrow> List.map_filter parse_bline ls)"

definition buffer_exists :: "'e disk_buffer \<Rightarrow> bool" where
  "buffer_exists b = (case b_lines b of None \<Rightarrow> False | Some ls \<Rightarrow> ls \<noteq> [])"

definition buffer_write :: "'e list \<Rightarrow> 'e disk_buffer \<Rightarrow> 'e disk_buffer" where
  "buffer_write entries b =
     (let combined = read_raw b @ entries;
          kept = (if b_max_lines b > 0 \<and> int (length combined) > b_max_lines b
                  then drop (length combined - nat (b_max_lines b)) combined else combined)
      in b\<lparr>b_lines := Some (map Entry kept)\<rparr>)"

text \<open>What \<open>write\<close> drops (and logs) over the limit: the oldest entries.\<close>

definition buffer_dropped :: "'e list \<Rightarrow> 'e disk_buffer \<Rightarrow> 'e list" where
  "buffer_dropped entries b =
     (let combined = read_raw b @ entries in
      if b_max_lines b > 0 \<and> int (length combined) > b_max_lines b
      then take (length combined - nat (b_max_lines b)) combined else [])"

definition read_and_clear :: "'e disk_buffer \<Rightarrow> 'e list \<times> 'e disk_buffer" where
  "read_and_clear b =
     (let entries = read_raw b
      in (entries, if entries \<noteq> [] \<and> b_lines b \<noteq> None then b\<lparr>b_lines := None\<rparr> else b))"

section \<open>The contract\<close>

fun capped :: "nat option \<Rightarrow> 'a list \<Rightarrow> 'a list" where
  "capped None xs = xs"
| "capped (Some n) xs = takelast n xs"

lemma takelast_takelast_append: "takelast n (takelast n xs @ ys) = takelast n (xs @ ys)"
proof (cases "n \<le> length xs")
  case True
  have *: "n + length ys - n = length ys" "length xs - n + length ys = length xs + length ys - n"
    using True by simp_all
  show ?thesis
    using True
    by (cases "length ys \<le> n")
       (simp_all add: takelast_def * add.commute)
next
  case False
  then show ?thesis by simp
qed

lemma capped_capped_append [simp]: "capped c (capped c xs @ ys) = capped c (xs @ ys)"
  by (cases c) (simp_all add: takelast_takelast_append)

lemma capped_idem [simp]: "capped c (capped c xs) = capped c xs"
  using capped_capped_append [of c xs "[]"] by simp

lemma length_capped: "c = Some n \<Longrightarrow> length (capped c xs) \<le> n"
  by simp

locale entry_buffer =
  fixes put :: "'e list \<Rightarrow> 'b \<Rightarrow> 'b"
    and take_all :: "'b \<Rightarrow> 'e list \<times> 'b"
    and occupied :: "'b \<Rightarrow> bool"
    and contents :: "'b \<Rightarrow> 'e list"
    and capacity :: "'b \<Rightarrow> nat option"
  assumes contents_put: "contents (put es b) = capped (capacity b) (contents b @ es)"
    and capacity_put: "capacity (put es b) = capacity b"
    and take_all_fst: "fst (take_all b) = contents b"
    and take_all_snd: "contents (snd (take_all b)) = []"
    and capacity_take: "capacity (snd (take_all b)) = capacity b"
    and occupied_contents: "contents b \<noteq> [] \<Longrightarrow> occupied b"
begin

text \<open>A buffer \<open>fits\<close> its bound when capping changes nothing.\<close>

definition fits :: "'b \<Rightarrow> bool" where
  "fits b \<longleftrightarrow> capped (capacity b) (contents b) = contents b"

lemma fits_put: "fits (put es b)"
  by (simp add: fits_def contents_put capacity_put)

lemma fits_take: "fits (snd (take_all b))"
  by (cases "capacity b") (simp_all add: fits_def take_all_snd capacity_take)

text \<open>Putting back what was taken restores the buffer.\<close>

lemma put_back: "fits b \<Longrightarrow> contents (put (fst (take_all b)) (snd (take_all b))) = contents b"
  by (simp add: contents_put take_all_fst take_all_snd capacity_take fits_def)

text \<open>A series of writes keeps the newest entries of everything written.\<close>

lemma capacity_puts: "capacity (foldl (\<lambda>b es. put es b) b ess) = capacity b"
  by (induction ess arbitrary: b) (simp_all add: capacity_put)

lemma contents_puts:
  "fits b \<Longrightarrow>
   contents (foldl (\<lambda>b es. put es b) b ess) = capped (capacity b) (contents b @ concat ess)"
proof (induction ess arbitrary: b)
  case Nil
  then show ?case by (simp add: fits_def)
next
  case (Cons es ess)
  have "contents (foldl (\<lambda>b es. put es b) (put es b) ess)
      = capped (capacity b) (contents (put es b) @ concat ess)"
    using Cons.IH [OF fits_put] by (simp add: capacity_put)
  then show ?case by (simp add: contents_put)
qed

end

definition buffer_capacity :: "'e disk_buffer \<Rightarrow> nat option" where
  "buffer_capacity b = (if b_max_lines b > 0 then Some (nat (b_max_lines b)) else None)"

lemma map_filter_Entry [simp]: "List.map_filter parse_bline (map Entry es) = es"
  by (induction es) (simp_all add: List.map_filter_simps)

lemma read_raw_write:
  "read_raw (buffer_write es b) = capped (buffer_capacity b) (read_raw b @ es)"
  by (auto simp: read_raw_def buffer_write_def buffer_capacity_def Let_def takelast_def)

interpretation spool: entry_buffer buffer_write read_and_clear buffer_exists read_raw buffer_capacity
proof unfold_locales
  fix es :: "'a list" and b :: "'a disk_buffer"
  show "read_raw (buffer_write es b) = capped (buffer_capacity b) (read_raw b @ es)"
    by (rule read_raw_write)
  show "buffer_capacity (buffer_write es b) = buffer_capacity b"
    by (simp add: buffer_capacity_def buffer_write_def Let_def)
  show "fst (read_and_clear b) = read_raw b"
    by (simp add: read_and_clear_def Let_def)
  show "read_raw (snd (read_and_clear b)) = []"
    by (auto simp: read_and_clear_def read_raw_def Let_def split: option.splits)
  show "buffer_capacity (snd (read_and_clear b)) = buffer_capacity b"
    by (simp add: read_and_clear_def buffer_capacity_def Let_def)
  show "buffer_exists b" if "read_raw b \<noteq> []"
    using that by (auto simp: read_raw_def buffer_exists_def List.map_filter_simps split: option.splits)
qed

lemma dropped_conserve [conserve]:
  "mset (buffer_dropped es b) + mset (read_raw (buffer_write es b)) = mset (read_raw b) + mset es"
proof -
  let ?all = "read_raw b @ es"
  have "mset (buffer_dropped es b) + mset (capped (buffer_capacity b) ?all) = mset ?all"
    by (simp add: buffer_dropped_def buffer_capacity_def Let_def takelast_def
        mset_take_drop del: mset_append take_append drop_append length_append)
  then show ?thesis by (simp add: read_raw_write)
qed

lemma dropped_none:
  "b_max_lines b \<le> 0 \<or> int (length (read_raw b) + length es) \<le> b_max_lines b \<Longrightarrow>
   buffer_dropped es b = []"
  by (auto simp: buffer_dropped_def Let_def)

text \<open>
  After any series of failed sends, written to the buffer one after the other, the buffer
  holds exactly the newest \<open>max_lines\<close> entries of its old content and all the writes, in
  their order; with \<open>max_lines = 0\<close> it holds them all.
\<close>

theorem buffer_keeps_newest:
  assumes "spool.fits b"
  shows "read_raw (foldl (\<lambda>b es. buffer_write es b) b ess) =
    (if b_max_lines b > 0 then takelast (nat (b_max_lines b)) (read_raw b @ concat ess)
     else read_raw b @ concat ess)"
  using spool.contents_puts [OF assms, of ess] by (simp add: buffer_capacity_def)

theorem buffer_keeps_newest_witness:
  "read_raw (foldl (\<lambda>b es. buffer_write es b) \<lparr>b_lines = None, b_max_lines = 3\<rparr> [[1, 2], [3 :: nat, 4]])
   = [2, 3, 4]"
proof -
  have "spool.fits \<lparr>b_lines = None, b_max_lines = 3\<rparr>"
    by (simp add: spool.fits_def read_raw_def buffer_capacity_def)
  from buffer_keeps_newest [OF this, of "[[1, 2], [3 :: nat, 4]]"] show ?thesis
    by (simp add: read_raw_def takelast_def)
qed

end
