(* ===== verification/WasLink.thy ===== *)
theory WasLink
  imports DiskBuf
begin

text \<open>
  \<open>WasClient\<close> of \<open>ftp-daemon/soltrace_daemon.py\<close>: posting to the server with retries, sending
  log entries in batches, and the contracts \<open>transport\<close> (what a send promises) and
  \<open>resender\<close> (a buffer in front of a transport).

  The server and the network are a parameter: \<open>net k\<close> is the outcome of the \<open>k\<close>-th HTTP
  attempt of the process, and every operation returns the number of the next attempt. So a
  theorem for all \<open>net\<close> holds however the answers come. Of an answer the model has the status
  code and the body; \<open>requests\<close> raises a \<open>RequestException\<close> on connection errors and timeouts,
  in \<open>raise_for_status\<close> for the codes 400 to 599, and in \<open>json\<close> on a body that is not JSON
  (from the version 2.27 on, which \<open>requirements.txt\<close> asks for).
\<close>

section \<open>Answers\<close>

datatype jval = JInt int | JStr string | JBool bool | JNull

type_synonym reply = "(string, jval) dict"

datatype body = NoText | BadJson | JsonNull | JsonObj reply

datatype attempt = Status nat body | RequestException

type_synonym net = "nat \<Rightarrow> attempt"

text \<open>What a call gives: a result, \<open>None\<close>, or one of the two exceptions.\<close>

datatype 'a post = Posted 'a | Failed | Disabled | Removed

definition reply_int :: "string \<Rightarrow> reply \<Rightarrow> int" where
  "reply_int k r = (case map_of r k of Some (JInt i) \<Rightarrow> i | _ \<Rightarrow> 0)"

definition reply_flag :: "string \<Rightarrow> reply \<Rightarrow> bool" where
  "reply_flag k r = (case map_of r k of Some (JBool b) \<Rightarrow> b | _ \<Rightarrow> False)"

section \<open>Posting\<close>

definition RETRY_MAX :: int where "RETRY_MAX = 3"
definition MAX_BATCH :: int where "MAX_BATCH = 500"

text \<open>The attempts \<open>range(1, retry_max + 1)\<close>, where \<open>__init__\<close> stores \<open>max(1, retry_max)\<close>.\<close>

definition client_attempts :: "int \<Rightarrow> nat" where
  "client_attempts retry_max = nat (max 1 retry_max)"

fun post_loop :: "nat \<Rightarrow> net \<Rightarrow> nat \<Rightarrow> reply post \<times> nat" where
  "post_loop 0 net n = (Failed, n)"
| "post_loop (Suc k) net n =
     (case net n of
        RequestException \<Rightarrow> post_loop k net (Suc n)
      | Status c b \<Rightarrow>
          if c = 403 then (Disabled, Suc n)
          else if c = 401 \<or> c = 404 then (Removed, Suc n)
          else if 400 \<le> c \<and> c < 600 then post_loop k net (Suc n)
          else (case b of
                  NoText \<Rightarrow> (Posted [], Suc n)
                | JsonObj r \<Rightarrow> (Posted r, Suc n)
                | JsonNull \<Rightarrow> (Failed, Suc n)
                | BadJson \<Rightarrow> post_loop k net (Suc n)))"

definition post :: "int \<Rightarrow> net \<Rightarrow> nat \<Rightarrow> reply post \<times> nat" where
  "post retry_max net n = post_loop (client_attempts retry_max) net n"

section \<open>Sending log entries\<close>

text \<open>\<open>min(batch_size or self.MAX_BATCH, self.MAX_BATCH)\<close>\<close>

definition chunk_size :: "int option \<Rightarrow> int" where
  "chunk_size batch_size =
     min (case batch_size of None \<Rightarrow> MAX_BATCH | Some b \<Rightarrow> if b = 0 then MAX_BATCH else b) MAX_BATCH"

text \<open>The slices \<open>entries[i:i + size]\<close> for \<open>i in range(0, len(entries), size)\<close>.\<close>

definition py_range :: "nat \<Rightarrow> int \<Rightarrow> nat list" where
  "py_range len step =
     (if step \<le> 0 then [] else map (\<lambda>k. k * nat step) [0..<(len + nat step - 1) div nat step])"

definition batches :: "int \<Rightarrow> 'e list \<Rightarrow> 'e list list" where
  "batches sz entries = map (\<lambda>i. take (nat sz) (drop i entries)) (py_range (length entries) sz)"

record totals =
  accepted :: int
  rejected :: int

text \<open>The loop over the batches. Besides the result it gives the batches the server accepted.\<close>

fun send_batches :: "int \<Rightarrow> net \<Rightarrow> nat \<Rightarrow> totals \<Rightarrow> 'e list list \<Rightarrow> totals post \<times> 'e list \<times> nat" where
  "send_batches retry_max net n tot [] = (Posted tot, [], n)"
| "send_batches retry_max net n tot (c # cs) =
     (case post retry_max net n of
        (Posted r, n') \<Rightarrow>
          (let (res, acked, n'') = send_batches retry_max net n'
                 (tot\<lparr>accepted := accepted tot + reply_int ''accepted'' r,
                      rejected := rejected tot + reply_int ''rejected'' r\<rparr>) cs
           in (res, c @ acked, n''))
      | (Failed, n') \<Rightarrow> (Failed, [], n')
      | (Disabled, n') \<Rightarrow> (Disabled, [], n')
      | (Removed, n') \<Rightarrow> (Removed, [], n'))"

definition send_logs ::
  "int \<Rightarrow> net \<Rightarrow> int option \<Rightarrow> 'e list \<Rightarrow> nat \<Rightarrow> totals post \<times> 'e list \<times> nat" where
  "send_logs retry_max net batch_size entries n =
     send_batches retry_max net n \<lparr>accepted = 0, rejected = 0\<rparr>
       (batches (chunk_size batch_size) entries)"

section \<open>The batches\<close>

lemma concat_slices:
  assumes "0 < m"
  shows "concat (map (\<lambda>k. take m (drop (k * m) xs)) [0..<j]) = take (j * m) xs"
proof (induction j)
  case 0
  then show ?case by simp
next
  case (Suc j)
  have "take (Suc j * m) xs = take (j * m) xs @ take m (drop (j * m) xs)"
    by (simp add: take_add [symmetric] add.commute)
  with Suc show ?case by simp
qed

lemma ceil_div_covers:
  assumes "0 < m"
  shows "len \<le> ((len + m - 1) div m) * (m :: nat)"
proof -
  have "len + m - 1 = ((len + m - 1) div m) * m + (len + m - 1) mod m" by simp
  moreover have "(len + m - 1) mod m < m" using assms by simp
  ultimately show ?thesis by linarith
qed

lemma concat_batches: "0 < sz \<Longrightarrow> concat (batches sz es) = es"
  using concat_slices [of "nat sz" es] ceil_div_covers [of "nat sz" "length es"]
  by (simp add: batches_def py_range_def comp_def)

lemma batch_length: "c \<in> set (batches sz es) \<Longrightarrow> int (length c) \<le> sz"
  by (auto simp: batches_def py_range_def split: if_splits)

lemma batches_nonpos: "sz \<le> 0 \<Longrightarrow> batches sz es = []"
  by (simp add: batches_def py_range_def)

lemma batches_Nil [simp]: "batches sz [] = []"
  by (cases "sz \<le> 0") (simp_all add: batches_def py_range_def)

lemma chunk_size_le: "chunk_size b \<le> MAX_BATCH"
  by (simp add: chunk_size_def)

lemma chunk_size_pos: "chunk_size (Some (int b)) > 0" "chunk_size None > 0"
  by (auto simp: chunk_size_def MAX_BATCH_def)

section \<open>Posting, all cases\<close>

lemma post_loop_counts: "post_loop k net n = (r, n') \<Longrightarrow> n \<le> n' \<and> n' \<le> n + k"
  by (induction k net n arbitrary: r n' rule: post_loop.induct)
     (fastforce split: attempt.splits body.splits if_splits)+

text \<open>The attempt that answers: the first one that is not an error to be retried.\<close>

definition retried :: "attempt \<Rightarrow> bool" where
  "retried a = (case a of
     RequestException \<Rightarrow> True
   | Status c b \<Rightarrow> 400 \<le> c \<and> c < 600 \<and> c \<noteq> 401 \<and> c \<noteq> 403 \<and> c \<noteq> 404
       \<or> (c < 400 \<or> 600 \<le> c) \<and> b = BadJson)"

fun verdict :: "attempt \<Rightarrow> reply post" where
  "verdict RequestException = Failed"
| "verdict (Status c b) =
     (if c = 403 then Disabled else if c = 401 \<or> c = 404 then Removed
      else if 400 \<le> c \<and> c < 600 then Failed
      else (case b of NoText \<Rightarrow> Posted [] | JsonObj r \<Rightarrow> Posted r | _ \<Rightarrow> Failed))"

lemma post_loop_step:
  "post_loop (Suc k) net n =
     (if retried (net n) then post_loop k net (Suc n) else (verdict (net n), Suc n))"
  by (auto simp: retried_def split: attempt.splits body.splits)

lemma post_loop_answer:
  "i < k \<Longrightarrow> \<forall>j<i. retried (net (n + j)) \<Longrightarrow> \<not> retried (net (n + i)) \<Longrightarrow>
   post_loop k net n = (verdict (net (n + i)), Suc (n + i))"
proof (induction k arbitrary: n i)
  case 0
  then show ?case by simp
next
  case (Suc k)
  show ?case
  proof (cases i)
    case 0
    with Suc.prems show ?thesis by (simp add: post_loop_step del: post_loop.simps)
  next
    case (Suc m)
    have "retried (net n)" using Suc.prems(2) Suc by force
    moreover have "post_loop k net (Suc n) = (verdict (net (Suc n + m)), Suc (Suc n + m))"
      using Suc.prems Suc by (intro Suc.IH) auto
    ultimately show ?thesis using Suc by (simp add: post_loop_step del: post_loop.simps)
  qed
qed

lemma post_loop_fails:
  "\<forall>j<k. retried (net (n + j)) \<Longrightarrow> post_loop k net n = (Failed, n + k)"
proof (induction k arbitrary: n)
  case 0
  then show ?case by simp
next
  case (Suc k)
  have "retried (net n)" using Suc.prems by force
  moreover have "post_loop k net (Suc n) = (Failed, Suc n + k)"
    using Suc.prems by (intro Suc.IH) auto
  ultimately show ?case by (simp add: post_loop_step del: post_loop.simps)
qed

section \<open>The contract of a send\<close>

locale transport =
  fixes send :: "'e list \<Rightarrow> nat \<Rightarrow> 'r post \<times> 'e list \<times> nat"
  assumes sent_all: "send es n = (Posted r, acked, n') \<Longrightarrow> acked = es"
    and acked_prefix: "send es n = (res, acked, n') \<Longrightarrow> \<exists>rest. es = acked @ rest"
begin

lemma acked_subset: "send es n = (res, acked, n') \<Longrightarrow> mset acked \<subseteq># mset es"
  using acked_prefix by fastforce

end

lemma send_batches_prefix:
  "send_batches rm net n tot cs = (res, acked, n') \<Longrightarrow>
   \<exists>rest. concat cs = acked @ rest \<and> ((\<exists>r. res = Posted r) \<longrightarrow> rest = [])"
proof (induction cs arbitrary: n tot res acked n')
  case Nil
  then show ?case by simp
next
  case (Cons c cs)
  obtain p n1 where p: "post rm net n = (p, n1)" by (cases "post rm net n")
  show ?case
  proof (cases p)
    case (Posted r)
    let ?tot = "tot\<lparr>accepted := accepted tot + reply_int ''accepted'' r,
                    rejected := rejected tot + reply_int ''rejected'' r\<rparr>"
    obtain res2 a2 n2 where rec: "send_batches rm net n1 ?tot cs = (res2, a2, n2)"
      by (cases "send_batches rm net n1 ?tot cs") auto
    obtain rest where "concat cs = a2 @ rest \<and> ((\<exists>r. res2 = Posted r) \<longrightarrow> rest = [])"
      using Cons.IH [OF rec] by blast
    with Cons.prems p Posted rec show ?thesis by auto
  qed (use Cons.prems p in auto)
qed

interpretation link: transport "send_logs rm net (Some (int b))"
  for rm net b
proof unfold_locales
  have cat: "concat (batches (chunk_size (Some (int b))) es) = es" for es :: "'a list"
    by (rule concat_batches) (rule chunk_size_pos)
  show "acked = es" if "send_logs rm net (Some (int b)) es n = (Posted r, acked, n')"
    for es acked :: "'a list" and n n' r
    using send_batches_prefix [OF that [unfolded send_logs_def]] cat [of es] by auto
  show "\<exists>rest. es = acked @ rest" if "send_logs rm net (Some (int b)) es n = (res, acked, n')"
    for es acked :: "'a list" and n n' res
    using send_batches_prefix [OF that [unfolded send_logs_def]] cat [of es] by auto
qed

section \<open>A buffer in front of a transport\<close>

text \<open>
  Both places that resend the disk buffer take everything out, send it, and put it back when
  the send did not succeed. The client lemmas say what that keeps.
\<close>

locale resender = entry_buffer put take_all occupied contents capacity + transport send
  for put :: "'e list \<Rightarrow> 'b \<Rightarrow> 'b"
    and take_all :: "'b \<Rightarrow> 'e list \<times> 'b"
    and occupied :: "'b \<Rightarrow> bool"
    and contents :: "'b \<Rightarrow> 'e list"
    and capacity :: "'b \<Rightarrow> nat option"
    and send :: "'e list \<Rightarrow> nat \<Rightarrow> 'r post \<times> 'e list \<times> nat"
begin

lemma resend_sent:
  "take_all b = (es, b') \<Longrightarrow> send es n = (Posted r, acked, n') \<Longrightarrow>
   acked = contents b \<and> contents b' = [] \<and> fits b'"
  using take_all_fst [of b] take_all_snd [of b] fits_take [of b] sent_all [of es n r acked n'] by simp

lemma resend_kept:
  "fits b \<Longrightarrow> take_all b = (es, b') \<Longrightarrow> contents (put es b') = contents b \<and> fits (put es b')"
  using put_back [of b] fits_put by simp

lemma resend_gone: "take_all b = (es, b') \<Longrightarrow> es = contents b \<and> contents b' = [] \<and> fits b'"
  using take_all_fst [of b] take_all_snd [of b] fits_take [of b] by simp

end

interpretation relay: resender buffer_write read_and_clear buffer_exists read_raw buffer_capacity
  "send_logs rm net (Some (int b))" for rm net b
  by unfold_locales

section \<open>Properties\<close>

lemma post_loop_find:
  "post_loop k net n =
     (case List.find (\<lambda>i. \<not> retried (net i)) [n..<n + k] of
        Some i \<Rightarrow> (verdict (net i), Suc i) | None \<Rightarrow> (Failed, n + k))"
proof (induction k arbitrary: n)
  case 0
  then show ?case by simp
next
  case (Suc k)
  have "[n..<n + Suc k] = n # [Suc n..<Suc n + k]" by (simp add: upt_conv_Cons)
  then show ?case by (simp add: post_loop_step Suc.IH del: post_loop.simps upt_Suc split: option.split)
qed

text \<open>
  C11: \<open>_post\<close> gives what the first attempt says that is not to be retried: 403 is "disabled"
  and 401 or 404 is "removed" at once, any other code from 400 to 599, a connection error
  and an unreadable body are tried again. It makes at least one and at most \<open>retry_max\<close>
  attempts, and fails only when they were all used up (or the answer was \<open>null\<close>).
\<close>

theorem post_first_answer:
  "post retry_max net n =
     (let k = nat (max 1 retry_max) in
      case List.find (\<lambda>i. \<not> retried (net i)) [n..<n + k] of
        Some i \<Rightarrow> (verdict (net i), Suc i) | None \<Rightarrow> (Failed, n + k))"
  by (simp add: post_def client_attempts_def Let_def post_loop_find)

text \<open>
  C10: \<open>send_logs\<close> posts batches of at most 500 entries, and the accepted entries are a prefix of the
  given ones, so putting the others back into the buffer loses nothing. With a batch size that is
  not negative the batches together are exactly the entries in their order, and success is only
  reported when the server accepted every one of them. With a negative size there are no batches:
  nothing is posted, and it reports success all the same.
\<close>

theorem send_logs_delivers:
  assumes "send_logs rm net (Some b) es n = (res, acked, n')"
  shows "list_all (\<lambda>c. length c \<le> 500) (batches (chunk_size (Some b)) es)
    \<and> take (length acked) es = acked
    \<and> (if 0 \<le> b then concat (batches (chunk_size (Some b)) es) = es \<and> (if \<exists>r. res = Posted r then acked = es else True)
       else batches (chunk_size (Some b)) es = [] \<and> acked = [] \<and> n' = n \<and> res = Posted \<lparr>accepted = 0, rejected = 0\<rparr>)"
proof (cases "0 \<le> b")
  case True
  then obtain m where m: "b = int m" by (auto dest: nonneg_int_cases)
  have "concat (batches (chunk_size (Some b)) es) = es"
    unfolding m by (rule concat_batches) (rule chunk_size_pos)
  moreover have "list_all (\<lambda>c. length c \<le> 500) (batches (chunk_size (Some b)) es)"
  proof (unfold list_all_iff, intro ballI)
    fix c
    assume "c \<in> set (batches (chunk_size (Some b)) es)"
    then have "int (length c) \<le> MAX_BATCH"
      using batch_length chunk_size_le order_trans by blast
    then show "length c \<le> 500" by (simp add: MAX_BATCH_def)
  qed
  moreover have "take (length acked) es = acked"
    using link.acked_prefix [OF assms [unfolded m]] by auto
  moreover have "acked = es" if "\<exists>r. res = Posted r"
    using that link.sent_all assms unfolding m by blast
  ultimately show ?thesis using True by simp
next
  case False
  then have none: "batches (chunk_size (Some b)) es = []" by (simp add: batches_nonpos chunk_size_def)
  then show ?thesis using assms False by (simp add: send_logs_def)
qed

definition ok_then_down :: net where
  "ok_then_down n = (if n = 0 then Status 200 (JsonObj [(''accepted'', JInt 2)]) else Status 503 NoText)"

theorem send_logs_delivers_witness:
  "send_logs 1 ok_then_down (Some 2) [1, 2, 3 :: nat] 0 = (Failed, [1, 2], 2)
   \<and> take (length [1, 2 :: nat]) [1, 2, 3] = [1, 2 :: nat]"
proof -
  have "py_range 3 2 = [0, 2]"
    by (simp add: py_range_def upt_rec [of 0 2] upt_rec [of "Suc 0" 2])
  then have run: "send_logs 1 ok_then_down (Some 2) [1, 2, 3 :: nat] 0 = (Failed, [1, 2], 2)"
    by (simp add: send_logs_def batches_def chunk_size_def MAX_BATCH_def post_def
        client_attempts_def ok_then_down_def reply_int_def eval_nat_numeral)
  with send_logs_delivers [OF run] show ?thesis by simp
qed

text \<open>
  A negative \<open>batch_size\<close> makes \<open>send_logs\<close> report success without sending anything: the
  loop over the batches is empty.
\<close>

theorem negative_batch_sends_nothing:
  assumes "b < 0"
  shows "send_logs rm net (Some b) es n = (Posted \<lparr>accepted = 0, rejected = 0\<rparr>, [], n)"
  using assms by (simp add: send_logs_def batches_nonpos chunk_size_def)

theorem negative_batch_sends_nothing_witness:
  "send_logs 3 ok_then_down (Some (- 1)) [1, 2, 3 :: nat] 0
   = (Posted \<lparr>accepted = 0, rejected = 0\<rparr>, [], 0)"
  by (rule negative_batch_sends_nothing) simp

end
