(* ===== verification/DaemonStatus.thy ===== *)
theory DaemonStatus
  imports SolTrace_Prelude
begin

text \<open>
  \<open>_collect_status\<close> of \<open>ftp-daemon/soltrace_daemon.py\<close>: the status fields of the daemon, and
  the choice of those that go into the next heartbeat. A field is sent when it changed enough
  since it was last put into a heartbeat, which \<open>_prev_status_sent\<close> remembers.

  A field's value is \<open>VNone\<close> for \<open>None\<close>, a number, a string, a time or one of the two
  messages the sender sets. The readings of \<open>psutil\<close> and of the clock are inputs, already
  rounded the way \<open>round\<close> does it; a reading that failed is \<^const>\<open>None\<close>.
\<close>

datatype message = MsgDisabled | MsgSendFailed nat int

datatype sval = VNone | VNum real | VStr string | VTime time | VMsg message

type_synonym status_dict = "(string, sval) dict"

record readings =
  cpu :: "real option"
  mem_mb :: "real option"
  disk_free_gb :: "real option"
  uptime :: int

section \<open>The current values\<close>

definition DAEMON_VERSION :: string where
  "DAEMON_VERSION = ''1.1.7''"

definition opt_num :: "real option \<Rightarrow> sval" where
  "opt_num r = (case r of None \<Rightarrow> VNone | Some x \<Rightarrow> VNum x)"

definition current_status ::
  "string \<Rightarrow> time option \<Rightarrow> nat \<Rightarrow> nat \<Rightarrow> nat \<Rightarrow> message option \<Rightarrow> readings \<Rightarrow> status_dict" where
  "current_status daemon_status last_send buffer_lines queue_size failures err m =
     [(''daemon_version'', VStr DAEMON_VERSION),
      (''daemon_status'', VStr daemon_status),
      (''last_send_time'', case last_send of None \<Rightarrow> VNone | Some t \<Rightarrow> VTime t),
      (''buffer_lines'', VNum (real buffer_lines)),
      (''queue_size'', VNum (real queue_size)),
      (''consecutive_failures'', VNum (real failures)),
      (''error_message'', case err of None \<Rightarrow> VNone | Some e \<Rightarrow> VMsg e),
      (''cpu_percent'', opt_num (cpu m)),
      (''mem_mb'', opt_num (mem_mb m)),
      (''disk_free_gb'', opt_num (disk_free_gb m)),
      (''daemon_uptime'', VNum (real_of_int (uptime m)))]"

section \<open>What is sent\<close>

definition thresholds :: "(string, real) dict" where
  "thresholds =
     [(''cpu_percent'', 5), (''mem_mb'', 20), (''disk_free_gb'', 1 / 2), (''buffer_lines'', 10),
      (''queue_size'', 5), (''daemon_uptime'', 60), (''consecutive_failures'', 0)]"

definition clear_on_zero :: "string list" where
  "clear_on_zero = [''buffer_lines'', ''queue_size'']"

definition dict_get :: "status_dict \<Rightarrow> string \<Rightarrow> sval" where
  "dict_get d k = (case map_of d k of None \<Rightarrow> VNone | Some v \<Rightarrow> v)"

fun num_of :: "sval \<Rightarrow> real" where
  "num_of (VNum x) = x"
| "num_of _ = 0"

definition is_dirty :: "string \<Rightarrow> sval \<Rightarrow> sval \<Rightarrow> bool" where
  "is_dirty key v prev_val =
     (case map_of thresholds key of
        None \<Rightarrow> v \<noteq> prev_val
      | Some threshold \<Rightarrow>
          if v = VNone then prev_val \<noteq> VNone
          else if prev_val = VNone \<or> \<bar>num_of v - num_of prev_val\<bar> \<ge> threshold then True
          else List.member clear_on_zero key \<and> (num_of v = 0) \<noteq> (num_of prev_val = 0))"

text \<open>\<open>d.update(e)\<close>\<close>

definition dict_update :: "status_dict \<Rightarrow> status_dict \<Rightarrow> status_dict" where
  "dict_update d e = foldl (\<lambda>d (k, v). AList.update k v d) d e"

definition collect_status :: "bool \<Rightarrow> status_dict \<Rightarrow> status_dict \<Rightarrow> status_dict \<times> status_dict" where
  "collect_status force cur prev =
     (if force then (cur, cur)
      else let dirty = filter (\<lambda>(k, v). is_dirty k v (dict_get prev k)) cur
           in (dirty, if dirty \<noteq> [] then dict_update prev dirty else prev))"

section \<open>Dictionaries\<close>

lemma dict_update_Cons [simp]: "dict_update d ((k, v) # e) = dict_update (AList.update k v d) e"
  by (simp add: dict_update_def)

lemma dict_update_Nil [simp]: "dict_update d [] = d"
  by (simp add: dict_update_def)

lemma dict_update_notin: "k \<notin> fst ` set e \<Longrightarrow> map_of (dict_update d e) k = map_of d k"
proof (induction e arbitrary: d)
  case Nil
  then show ?case by simp
next
  case (Cons p e)
  obtain k' v' where p: "p = (k', v')" by (cases p)
  with Cons.prems have "k \<noteq> k'" "k \<notin> fst ` set e" by auto
  with Cons.IH show ?case by (simp add: p)
qed

lemma dict_update_in:
  "distinct (map fst e) \<Longrightarrow> (k, v) \<in> set e \<Longrightarrow> map_of (dict_update d e) k = Some v"
proof (induction e arbitrary: d)
  case Nil
  then show ?case by simp
next
  case (Cons p e)
  obtain k' v' where p: "p = (k', v')" by (cases p)
  show ?case
  proof (cases "(k, v) \<in> set e")
    case True
    with Cons p show ?thesis by simp
  next
    case False
    with Cons.prems p have "k = k'" "v = v'" "k' \<notin> fst ` set e" by auto
    with p show ?thesis by (simp add: dict_update_notin)
  qed
qed

lemma dict_get_update:
  assumes "distinct (map fst e)"
  shows "dict_get (dict_update d e) k = (case map_of e k of Some v \<Rightarrow> v | None \<Rightarrow> dict_get d k)"
proof (cases "map_of e k")
  case None
  then have "k \<notin> fst ` set e" by (simp add: map_of_eq_None_iff)
  with None show ?thesis by (simp add: dict_get_def dict_update_notin)
next
  case (Some v)
  then have "map_of (dict_update d e) k = Some v"
    by (intro dict_update_in [OF assms] map_of_SomeD)
  with Some show ?thesis by (simp add: dict_get_def)
qed

lemma dict_get_notin: "k \<notin> fst ` set d \<Longrightarrow> dict_get d k = VNone"
  by (metis dict_get_def map_of_eq_None_iff option.simps(4))

lemma distinct_keys_filter: "distinct (map fst d) \<Longrightarrow> distinct (map fst (filter P d))"
  by (induction d) auto

lemma current_status_distinct [simp]: "distinct (map fst (current_status st ls bl qs fl err m))"
  by (simp add: current_status_def)

section \<open>The receiver's view\<close>

text \<open>
  \<open>close_to k v w\<close>: a receiver that shows \<open>w\<close> for the field \<open>k\<close> is right up to the field's
  threshold when the value is \<open>v\<close>.
\<close>

definition close_to :: "string \<Rightarrow> sval \<Rightarrow> sval \<Rightarrow> bool" where
  "close_to k v w =
     (v = w \<or>
      (case map_of thresholds k of
         None \<Rightarrow> False
       | Some th \<Rightarrow> v \<noteq> VNone \<and> w \<noteq> VNone \<and> \<bar>num_of v - num_of w\<bar> < th
           \<and> (List.member clear_on_zero k \<longrightarrow> (num_of v = 0) = (num_of w = 0))))"

lemma clean_close: "\<not> is_dirty k v w \<Longrightarrow> close_to k v w"
  by (auto simp: is_dirty_def close_to_def split: option.splits if_splits)

lemma collect_prev:
  "collect_status force cur prev = (payload, prev') \<Longrightarrow> distinct (map fst cur) \<Longrightarrow>
   (k, v) \<in> set cur \<Longrightarrow> close_to k v (dict_get prev' k)"
proof (cases force)
  case True
  assume "collect_status force cur prev = (payload, prev')" "distinct (map fst cur)" "(k, v) \<in> set cur"
  with True show ?thesis by (auto simp: collect_status_def dict_get_def close_to_def)
next
  case False
  assume a: "collect_status force cur prev = (payload, prev')" "distinct (map fst cur)" "(k, v) \<in> set cur"
  let ?d = "filter (\<lambda>(k, v). is_dirty k v (dict_get prev k)) cur"
  have prev': "prev' = dict_update prev ?d" and dis: "distinct (map fst ?d)"
    using a False distinct_keys_filter by (auto simp: collect_status_def Let_def split: if_splits)
  show ?thesis
  proof (cases "is_dirty k v (dict_get prev k)")
    case True
    with a have "(k, v) \<in> set ?d" by simp
    with dis have "map_of (dict_update prev ?d) k = Some v" by (rule dict_update_in)
    then show ?thesis by (simp add: prev' dict_get_def close_to_def)
  next
    case clean: False
    have "k \<notin> fst ` set ?d"
    proof
      assume "k \<in> fst ` set ?d"
      then obtain w where "(k, w) \<in> set cur" "is_dirty k w (dict_get prev k)" by auto
      with a(2,3) clean show False by (metis eq_key_imp_eq_value)
    qed
    then have "dict_get prev' k = dict_get prev k"
      by (simp add: prev' dict_get_def dict_update_notin)
    with clean_close [OF clean] show ?thesis by simp
  qed
qed

lemma collect_tracks:
  "collect_status force cur prev = (payload, prev') \<Longrightarrow> distinct (map fst cur) \<Longrightarrow>
   \<forall>k. dict_get view k = dict_get prev k \<Longrightarrow>
   (force \<Longrightarrow> fst ` set prev \<subseteq> fst ` set cur) \<Longrightarrow>
   dict_get (dict_update view payload) k = dict_get prev' k"
proof (cases force)
  case True
  assume a: "collect_status force cur prev = (payload, prev')" "distinct (map fst cur)"
    "\<forall>k. dict_get view k = dict_get prev k" "force \<Longrightarrow> fst ` set prev \<subseteq> fst ` set cur"
  from a(1) True have p: "payload = cur" "prev' = cur" by (auto simp: collect_status_def)
  show ?thesis
  proof (cases "map_of cur k")
    case None
    then have "k \<notin> fst ` set prev" using a(4) True by (auto simp: map_of_eq_None_iff)
    then have "dict_get prev k = VNone" by (rule dict_get_notin)
    with None p a show ?thesis by (simp add: dict_get_update) (simp add: dict_get_def)
  qed (use a p in \<open>simp add: dict_get_update, simp add: dict_get_def\<close>)
next
  case False
  assume a: "collect_status force cur prev = (payload, prev')" "distinct (map fst cur)"
    "\<forall>k. dict_get view k = dict_get prev k"
  let ?d = "filter (\<lambda>(k, v). is_dirty k v (dict_get prev k)) cur"
  have p: "payload = ?d" "prev' = dict_update prev ?d" and dis: "distinct (map fst ?d)"
    using a False distinct_keys_filter by (auto simp: collect_status_def Let_def split: if_splits)
  show ?thesis using a(3) by (simp add: p dict_get_update [OF dis] split: option.split)
qed

text \<open>
  A series of heartbeats that all arrive at a receiver which stores every field it is sent.
\<close>

fun heartbeats :: "status_dict list \<Rightarrow> status_dict \<times> status_dict \<Rightarrow> status_dict \<times> status_dict" where
  "heartbeats [] (view, prev) = (view, prev)"
| "heartbeats (cur # cs) (view, prev) =
     (let (payload, prev') = collect_status False cur prev
      in heartbeats cs (dict_update view payload, prev'))"

lemma heartbeats_track:
  "\<forall>cur \<in> set cs. distinct (map fst cur) \<Longrightarrow> \<forall>k. dict_get view k = dict_get prev k \<Longrightarrow>
   heartbeats cs (view, prev) = (view', prev') \<Longrightarrow> dict_get view' k = dict_get prev' k"
proof (induction cs arbitrary: view prev)
  case Nil
  then show ?case by simp
next
  case (Cons cur cs)
  obtain payload p1 where c: "collect_status False cur prev = (payload, p1)"
    by (cases "collect_status False cur prev")
  have "\<forall>k. dict_get (dict_update view payload) k = dict_get p1 k"
    using collect_tracks [OF c] Cons.prems(1,2) by simp
  with Cons.IH [of "dict_update view payload" p1] Cons.prems(1,3) c show ?case by simp
qed

lemma heartbeats_append:
  "heartbeats (cs @ [cur]) s =
     (let (view, prev) = heartbeats cs s; (payload, prev') = collect_status False cur prev
      in (dict_update view payload, prev'))"
  by (induction cs s rule: heartbeats.induct) (simp_all split: prod.splits)

text \<open>
  When the heartbeats arrive at a receiver that stores what it is sent, its view of every
  status field is right up to the field's threshold after each of them, however the values
  moved before; and the counters whose normal value is 0 show 0 exactly when they are 0.
\<close>

theorem heartbeat_view_close:
  assumes "\<forall>cur \<in> set (cs @ [now]). distinct (map fst cur)"
    and "heartbeats (cs @ [now]) ([], []) = (view, prev)" and "(k, v) \<in> set now"
  shows "close_to k v (dict_get view k)"
proof -
  obtain v0 p0 where h: "heartbeats cs ([], []) = (v0, p0)" by (cases "heartbeats cs ([], [])")
  obtain payload where c: "collect_status False now p0 = (payload, prev)"
    using assms(2) by (auto simp: heartbeats_append h split: prod.splits)
  have "close_to k v (dict_get prev k)" using collect_prev [OF c _ assms(3)] assms(1) by simp
  moreover have "dict_get view k = dict_get prev k"
    by (rule heartbeats_track [OF assms(1) _ assms(2)]) simp
  ultimately show ?thesis by simp
qed

definition sample_readings :: readings where
  "sample_readings = \<lparr>cpu = Some 3, mem_mb = None, disk_free_gb = Some 10, uptime = 5\<rparr>"

theorem heartbeat_view_close_witness:
  "let cur = (\<lambda>q. current_status ''running'' None 0 q 0 None sample_readings);
       view = fst (heartbeats [cur 2, cur 0] ([], []))
   in close_to ''queue_size'' (VNum 0) (dict_get view ''queue_size'')"
proof -
  define cur where "cur = (\<lambda>q. current_status ''running'' None 0 q 0 None sample_readings)"
  have "close_to ''queue_size'' (VNum 0) (dict_get (fst (heartbeats [cur 2, cur 0] ([], []))) ''queue_size'')"
    by (rule heartbeat_view_close [of "[cur 2]" "cur 0" _ "snd (heartbeats [cur 2, cur 0] ([], []))"])
       (simp_all add: cur_def, simp add: current_status_def)
  then show ?thesis by (simp add: cur_def Let_def)
qed

text \<open>
  The threshold 0 of \<open>consecutive_failures\<close> makes the field part of every heartbeat that
  follows another, changed or not (the comparison is \<open>>=\<close>).
\<close>

theorem zero_threshold_always_sent:
  "is_dirty ''consecutive_failures'' (VNum x) w"
  by (simp add: is_dirty_def thresholds_def)

end
