(* ===== verification/Daemon.thy ===== *)
theory Daemon
  imports Tailer LogParse WasLink DaemonStatus
begin

text \<open>
  \<open>SolTraceDaemon\<close> of \<open>ftp-daemon/soltrace_daemon.py\<close>: the sender loop with its disk buffer,
  back-off and two tailers, the start-up flush, the heartbeat and the safe shutdown.

  One iteration of a loop is one step. What the environment gives an iteration is a \<open>world\<close>:
  what the two log files look like, the clocks, the psutil readings and whether the tailers'
  state files can be written; the server is the parameter \<open>net\<close> of \<open>WasLink\<close>. A step returns
  the new state and its events in order: the entries the server accepted, those dropped by the
  buffer's limit, those given up because the device was removed, the waits, the heartbeats.
  Steps of the two threads are interleaved at the granularity of iterations.
\<close>

section \<open>State\<close>

record config =
  cf_zone :: zone
  cf_batch :: int
  cf_retry :: int
  cf_poll :: int
  cf_skip_login_logout :: bool

record daemon =
  d_transfer :: tailer
  d_extended :: tailer
  d_sessions :: sessions
  d_buffer :: "log_entry disk_buffer"
  d_backoff :: int
  d_running :: bool
  d_exit_code :: int
  d_status :: string
  d_error :: "message option"
  d_failures :: nat
  d_queue_size :: nat
  d_last_send :: "time option"
  d_prev_status :: status_dict
  d_net :: nat

record world =
  w_transfer :: fobs
  w_extended :: fobs
  w_mono :: time
  w_utc :: time
  w_saved1 :: bool
  w_saved2 :: bool
  w_readings :: readings

datatype event =
    Acked "log_entry list"
  | Dropped "log_entry list"
  | Lost "log_entry list"
  | Wait int
  | Heartbeat status_dict
  | SelfUpdate

datatype flow = Proceed | Continue | Return

section \<open>Operations\<close>

definition BACKOFF_BASE :: int where "BACKOFF_BASE = 30"
definition BACKOFF_MAX :: int where "BACKOFF_MAX = 300"

definition next_backoff :: "int \<Rightarrow> int" where
  "next_backoff backoff = min (if backoff \<noteq> 0 then backoff * 2 else BACKOFF_BASE) BACKOFF_MAX"

definition daemon_collect :: "bool \<Rightarrow> world \<Rightarrow> daemon \<Rightarrow> status_dict \<times> daemon" where
  "daemon_collect force w d =
     (let cur = current_status (d_status d) (d_last_send d)
            (if buffer_exists (d_buffer d) then length (read_raw (d_buffer d)) else 0)
            (d_queue_size d) (d_failures d) (d_error d) (w_readings w);
          (payload, prev) = collect_status force cur (d_prev_status d)
      in (payload, d\<lparr>d_prev_status := prev\<rparr>))"

definition post_heartbeat :: "config \<Rightarrow> net \<Rightarrow> daemon \<Rightarrow> reply post \<times> daemon" where
  "post_heartbeat cfg net d =
     (let (r, n) = post (cf_retry cfg) net (d_net d) in (r, d\<lparr>d_net := n\<rparr>))"

definition advance_all :: "world \<Rightarrow> daemon \<Rightarrow> daemon" where
  "advance_all w d =
     d\<lparr>d_transfer := advance (w_saved1 w) (d_transfer d),
       d_extended := advance (w_saved2 w) (d_extended d)\<rparr>"

definition commit_all :: "world \<Rightarrow> daemon \<Rightarrow> daemon" where
  "commit_all w d =
     d\<lparr>d_transfer := commit (w_saved1 w) (d_transfer d),
       d_extended := commit (w_saved2 w) (d_extended d)\<rparr>"

definition rollback_all :: "daemon \<Rightarrow> daemon" where
  "rollback_all d = d\<lparr>d_transfer := rollback (d_transfer d), d_extended := rollback (d_extended d)\<rparr>"

definition write_buffer :: "log_entry list \<Rightarrow> daemon \<Rightarrow> daemon \<times> event" where
  "write_buffer es d = (d\<lparr>d_buffer := buffer_write es (d_buffer d)\<rparr>, Dropped (buffer_dropped es (d_buffer d)))"

definition safe_shutdown :: "config \<Rightarrow> net \<Rightarrow> world \<Rightarrow> log_entry list \<Rightarrow> daemon \<Rightarrow> daemon \<times> event list" where
  "safe_shutdown cfg net w unsent d =
     (let (d1, ev1) = (if unsent \<noteq> [] then (let (d1, ev) = write_buffer unsent d in (d1, [ev])) else (d, []));
          d2 = (advance_all w d1)\<lparr>d_status := ''stopping''\<rparr>;
          (payload, d3) = daemon_collect True w d2;
          (_, d4) = post_heartbeat cfg net d3
      in (d4\<lparr>d_exit_code := 1, d_running := False\<rparr>, ev1 @ [Heartbeat payload]))"

text \<open>The first part of an iteration: the disk buffer goes first.\<close>

definition resend_buffer :: "config \<Rightarrow> net \<Rightarrow> world \<Rightarrow> daemon \<Rightarrow> flow \<times> daemon \<times> event list" where
  "resend_buffer cfg net w d =
     (if \<not> buffer_exists (d_buffer d) then (Proceed, d, [])
      else let (buffered, b) = read_and_clear (d_buffer d); d0 = d\<lparr>d_buffer := b\<rparr> in
       if buffered = [] then (Proceed, d0, [])
       else let (res, acked, n) = send_logs (cf_retry cfg) net (Some (cf_batch cfg)) buffered (d_net d0);
                d1 = d0\<lparr>d_net := n\<rparr> in
        (case res of
           Removed \<Rightarrow>
             (let (d2, evs) = safe_shutdown cfg net w [] d1
              in (Return, d2, [Acked acked, Lost (drop (length acked) buffered)] @ evs))
         | Disabled \<Rightarrow>
             (let (d2, ev) = write_buffer buffered d1
              in (Continue, d2\<lparr>d_status := ''disabled'', d_error := Some MsgDisabled\<rparr>,
                  [Acked acked, ev, Wait BACKOFF_MAX]))
         | Posted _ \<Rightarrow>
             (Proceed, d1\<lparr>d_failures := 0, d_error := None, d_status := ''running'', d_backoff := 0\<rparr>,
              [Acked acked])
         | Failed \<Rightarrow>
             (let (d2, ev) = write_buffer buffered d1; bo = next_backoff (d_backoff d2)
              in (Continue, d2\<lparr>d_backoff := bo\<rparr>, [Acked acked, ev, Wait bo]))))"

text \<open>Polling both files. A tailer that cannot open its file raises, and gives no entries.\<close>

definition keep_entry :: "config \<Rightarrow> log_entry \<Rightarrow> bool" where
  "keep_entry cfg e =
     (if cf_skip_login_logout cfg then \<not> List.member [''login'', ''logout''] (e_action e) else True)"

definition poll_all :: "config \<Rightarrow> world \<Rightarrow> daemon \<Rightarrow> log_entry list \<times> daemon" where
  "poll_all cfg w d =
     (let s0 = flush_stale_sessions (w_mono w) (d_sessions d);
          (e1, t1, _) = poll (plain (parse_transfer_log (cf_zone cfg))) (w_saved1 w) (w_transfer w)
                          (d_transfer d) ();
          (e2, t2, s1) = poll (parse_extended_log (cf_zone cfg) (w_mono w)) (w_saved2 w) (w_extended w)
                          (d_extended d) s0
      in (filter (keep_entry cfg) (e1 @ e2),
          d\<lparr>d_transfer := t1, d_extended := t2, d_sessions := s1\<rparr>))"

text \<open>Sending what was polled.\<close>

definition ship :: "config \<Rightarrow> net \<Rightarrow> world \<Rightarrow> log_entry list \<Rightarrow> daemon \<Rightarrow> daemon \<times> event list" where
  "ship cfg net w entries d =
     (let (res, acked, n) = send_logs (cf_retry cfg) net (Some (cf_batch cfg)) entries (d_net d);
          d1 = d\<lparr>d_net := n\<rparr> in
      case res of
        Removed \<Rightarrow>
          (let (d2, evs) = safe_shutdown cfg net w [] d1
           in (d2, [Acked acked, Lost (drop (length acked) entries)] @ evs))
      | Disabled \<Rightarrow>
          ((rollback_all d1)\<lparr>d_status := ''disabled'', d_error := Some MsgDisabled\<rparr>,
           [Acked acked, Wait BACKOFF_MAX])
      | Posted _ \<Rightarrow>
          (commit_all w (d1\<lparr>d_last_send := Some (w_utc w), d_failures := 0, d_error := None,
                            d_status := ''running'', d_backoff := 0\<rparr>),
           [Acked acked])
      | Failed \<Rightarrow>
          (let bo = next_backoff (d_backoff d1);
               d2 = d1\<lparr>d_failures := d_failures d1 + 1, d_backoff := bo,
                       d_error := Some (MsgSendFailed (length entries) bo), d_status := ''degraded''\<rparr>;
               (d3, ev) = write_buffer entries d2
           in (advance_all w d3, [Acked acked, ev, Wait bo])))"

definition poll_and_ship :: "config \<Rightarrow> net \<Rightarrow> world \<Rightarrow> daemon \<Rightarrow> daemon \<times> event list" where
  "poll_and_ship cfg net w d =
     (let (entries, d1) = poll_all cfg w d; d2 = d1\<lparr>d_queue_size := length entries\<rparr>
      in if entries = [] then (d2\<lparr>d_queue_size := 0\<rparr>, [Wait (cf_poll cfg)])
         else ship cfg net w entries d2)"

definition sender_iter :: "config \<Rightarrow> net \<Rightarrow> world \<Rightarrow> daemon \<Rightarrow> daemon \<times> event list" where
  "sender_iter cfg net w d =
     (if \<not> d_running d then (d, [])
      else let (fl, d1, evs1) = resend_buffer cfg net w d in
        (case fl of
           Proceed \<Rightarrow> (let (d2, evs2) = poll_and_ship cfg net w d1 in (d2, evs1 @ evs2))
         | _ \<Rightarrow> (d1, evs1)))"

text \<open>One round of the heartbeat thread, after its sleep.\<close>

definition heartbeat_iter :: "config \<Rightarrow> net \<Rightarrow> world \<Rightarrow> daemon \<Rightarrow> daemon \<times> event list" where
  "heartbeat_iter cfg net w d =
     (if \<not> d_running d then (d, [])
      else let (payload, d1) = daemon_collect False w d;
               (res, d2) = post_heartbeat cfg net d1 in
        (case res of
           Removed \<Rightarrow> (let (d3, evs) = safe_shutdown cfg net w [] d2 in (d3, Heartbeat payload # evs))
         | Posted r \<Rightarrow>
             (d2, if r \<noteq> [] \<and> reply_flag ''update'' r then [Heartbeat payload, SelfUpdate]
                  else [Heartbeat payload])
         | _ \<Rightarrow> (d2, [Heartbeat payload])))"

text \<open>At start-up: \<^const>\<open>None\<close> is \<open>sys.exit(1)\<close>, else the daemon goes on.\<close>

definition flush_startup_buffer :: "config \<Rightarrow> net \<Rightarrow> daemon \<Rightarrow> daemon option \<times> event list" where
  "flush_startup_buffer cfg net d =
     (if \<not> buffer_exists (d_buffer d) then (Some d, [])
      else let (buffered, b) = read_and_clear (d_buffer d);
               (res, acked, n) = send_logs (cf_retry cfg) net (Some (cf_batch cfg)) buffered (d_net d);
               d1 = d\<lparr>d_buffer := b, d_net := n\<rparr> in
        (case res of
           Removed \<Rightarrow> (None, [Acked acked, Lost (drop (length acked) buffered)])
         | Posted _ \<Rightarrow> (Some d1, [Acked acked])
         | _ \<Rightarrow> (let (d2, ev) = write_buffer buffered d1 in (Some d2, [Acked acked, ev]))))"

section \<open>Runs\<close>

datatype turn = Sender world | Beat world

fun turn_world :: "turn \<Rightarrow> world" where
  "turn_world (Sender w) = w"
| "turn_world (Beat w) = w"

fun daemon_step :: "config \<Rightarrow> net \<Rightarrow> turn \<Rightarrow> daemon \<Rightarrow> daemon \<times> event list" where
  "daemon_step cfg net (Sender w) d = sender_iter cfg net w d"
| "daemon_step cfg net (Beat w) d = heartbeat_iter cfg net w d"

fun daemon_run :: "config \<Rightarrow> net \<Rightarrow> turn list \<Rightarrow> daemon \<Rightarrow> daemon \<times> event list" where
  "daemon_run cfg net [] d = (d, [])"
| "daemon_run cfg net (a # as) d =
     (let (d1, evs1) = daemon_step cfg net a d; (d2, evs2) = daemon_run cfg net as d1
      in (d2, evs1 @ evs2))"

fun acked_of :: "event \<Rightarrow> log_entry list" where
  "acked_of (Acked es) = es"
| "acked_of _ = []"

fun dropped_of :: "event \<Rightarrow> log_entry list" where
  "dropped_of (Dropped es) = es"
| "dropped_of _ = []"

fun lost_of :: "event \<Rightarrow> log_entry list" where
  "lost_of (Lost es) = es"
| "lost_of _ = []"

definition all_acked :: "event list \<Rightarrow> log_entry list" where
  "all_acked evs = concat (map acked_of evs)"

definition all_dropped :: "event list \<Rightarrow> log_entry list" where
  "all_dropped evs = concat (map dropped_of evs)"

definition all_lost :: "event list \<Rightarrow> log_entry list" where
  "all_lost evs = concat (map lost_of evs)"

text \<open>Where entries can be after some events: accepted, in the buffer, dropped or given up.\<close>

definition accounted :: "daemon \<Rightarrow> event list \<Rightarrow> log_entry multiset" where
  "accounted d evs = mset (all_acked evs) + mset (all_dropped evs) + mset (all_lost evs)
     + mset (read_raw (d_buffer d))"

section \<open>Accounting\<close>

lemma all_of_append [simp]:
  "all_acked (a @ b) = all_acked a @ all_acked b"
  "all_dropped (a @ b) = all_dropped a @ all_dropped b"
  "all_lost (a @ b) = all_lost a @ all_lost b"
  by (simp_all add: all_acked_def all_dropped_def all_lost_def)

lemma all_of_Cons [simp]:
  "all_acked (e # b) = acked_of e @ all_acked b"
  "all_dropped (e # b) = dropped_of e @ all_dropped b"
  "all_lost (e # b) = lost_of e @ all_lost b"
  by (simp_all add: all_acked_def all_dropped_def all_lost_def)

lemma all_of_Nil [simp]: "all_acked [] = []" "all_dropped [] = []" "all_lost [] = []"
  by (simp_all add: all_acked_def all_dropped_def all_lost_def)

lemma accounted_append:
  "accounted d (evs @ evs') = accounted d evs' + mset (all_acked evs) + mset (all_dropped evs) + mset (all_lost evs)"
  by (simp add: accounted_def)

lemma accounted_trans:
  assumes "X \<subseteq># accounted d1 evs1" and "mset (read_raw (d_buffer d1)) + Y \<subseteq># accounted d2 evs2"
  shows "X + Y \<subseteq># accounted d2 (evs1 @ evs2)"
proof -
  let ?out = "mset (all_acked evs1) + mset (all_dropped evs1) + mset (all_lost evs1)"
  have "X + Y \<subseteq># ?out + (mset (read_raw (d_buffer d1)) + Y)"
    using assms(1) by (simp add: accounted_def add.assoc [symmetric])
  also have "\<dots> \<subseteq># ?out + accounted d2 evs2" using assms(2) by simp
  also have "\<dots> = accounted d2 (evs1 @ evs2)" by (simp add: accounted_append add_ac)
  finally show ?thesis .
qed

lemma safe_shutdown_facts:
  "safe_shutdown cfg net w [] d = (d2, evs) \<Longrightarrow>
   d_buffer d2 = d_buffer d \<and> d_transfer d2 = commit (w_saved1 w) (d_transfer d) \<and>
   d_extended d2 = commit (w_saved2 w) (d_extended d) \<and> \<not> d_running d2 \<and> d_exit_code d2 = 1 \<and>
   all_acked evs = [] \<and> all_dropped evs = [] \<and> all_lost evs = []"
  by (auto simp: safe_shutdown_def daemon_collect_def post_heartbeat_def advance_all_def
      advance_eq_commit Let_def split: prod.splits)

lemma write_buffer_facts:
  "write_buffer es d = (d2, ev) \<Longrightarrow>
   d2 = d\<lparr>d_buffer := buffer_write es (d_buffer d)\<rparr> \<and> ev = Dropped (buffer_dropped es (d_buffer d))"
  by (auto simp: write_buffer_def)

lemma drop_acked:
  "send_logs rm net (Some (int b)) es n = (res, acked, n') \<Longrightarrow>
   mset acked + mset (drop (length acked) es) = mset es"
  using link.acked_prefix by fastforce

lemma resend_facts:
  assumes "0 \<le> cf_batch cfg" and "spool.fits (d_buffer d)"
    and "resend_buffer cfg net w d = (fl, d1, evs)"
  shows "mset (read_raw (d_buffer d)) \<subseteq># accounted d1 evs \<and> spool.fits (d_buffer d1) \<and>
    (d_transfer d1 = d_transfer d \<and> d_extended d1 = d_extended d
     \<or> fl = Return \<and> d_transfer d1 = commit (w_saved1 w) (d_transfer d)
       \<and> d_extended d1 = commit (w_saved2 w) (d_extended d))"
proof -
  obtain m where m: "cf_batch cfg = int m" using assms(1) by (auto dest: nonneg_int_cases)
  obtain es b where rc: "read_and_clear (d_buffer d) = (es, b)" by (cases "read_and_clear (d_buffer d)")
  note gone = relay.resend_gone [OF rc]
  note kept = relay.resend_kept [OF assms(2) rc]
  obtain res acked n where send: "send_logs (cf_retry cfg) net (Some (int m)) es (d_net d) = (res, acked, n)"
    by (cases "send_logs (cf_retry cfg) net (Some (int m)) es (d_net d)") auto
  show ?thesis
  proof (cases "buffer_exists (d_buffer d) \<and> es \<noteq> []")
    case False
    with assms gone rc show ?thesis
      by (auto simp: resend_buffer_def accounted_def split: if_splits)
  next
    case True
    show ?thesis
    proof (cases res)
      case (Posted r)
      with True assms(3) rc send m relay.resend_sent [OF rc send [unfolded Posted]] show ?thesis
        by (auto simp: resend_buffer_def accounted_def Let_def)
    next
      case Failed
      with True assms(3) rc send m kept show ?thesis
        by (auto simp: resend_buffer_def accounted_def Let_def write_buffer_def)
    next
      case Disabled
      with True assms(3) rc send m kept show ?thesis
        by (auto simp: resend_buffer_def accounted_def Let_def write_buffer_def)
    next
      case Removed
      let ?d = "d\<lparr>d_buffer := b, d_net := n\<rparr>"
      obtain d2 evs2 where sd: "safe_shutdown cfg net w [] ?d = (d2, evs2)"
        by (cases "safe_shutdown cfg net w [] ?d")
      have "fl = Return" "d1 = d2" "evs = [Acked acked, Lost (drop (length acked) es)] @ evs2"
        using True assms(3) rc send m Removed sd by (auto simp: resend_buffer_def Let_def)
      with safe_shutdown_facts [OF sd] drop_acked [OF send] gone show ?thesis
        by (simp add: accounted_def)
    qed
  qed
qed

lemma ship_facts:
  assumes "0 \<le> cf_batch cfg" and "spool.fits (d_buffer d)"
    and "ship cfg net w entries d = (d1, evs)"
  shows "spool.fits (d_buffer d1) \<and>
    (d_transfer d1 = rollback (d_transfer d) \<and> d_extended d1 = rollback (d_extended d)
      \<and> mset (read_raw (d_buffer d)) \<subseteq># accounted d1 evs
     \<or> d_transfer d1 = commit (w_saved1 w) (d_transfer d)
      \<and> d_extended d1 = commit (w_saved2 w) (d_extended d)
      \<and> mset (read_raw (d_buffer d)) + mset entries \<subseteq># accounted d1 evs)"
proof -
  obtain m where m: "cf_batch cfg = int m" using assms(1) by (auto dest: nonneg_int_cases)
  obtain res acked n where
    send: "send_logs (cf_retry cfg) net (Some (int m)) entries (d_net d) = (res, acked, n)"
    by (cases "send_logs (cf_retry cfg) net (Some (int m)) entries (d_net d)") auto
  show ?thesis
  proof (cases res)
    case (Posted r)
    with assms send m link.sent_all [OF send [unfolded Posted]] show ?thesis
      by (auto simp: ship_def commit_all_def accounted_def Let_def)
  next
    case Disabled
    with assms send m show ?thesis by (auto simp: ship_def rollback_all_def accounted_def Let_def)
  next
    case Failed
    let ?b = "d_buffer d"
    have d1: "d_buffer d1 = buffer_write entries ?b"
        "d_transfer d1 = commit (w_saved1 w) (d_transfer d)"
        "d_extended d1 = commit (w_saved2 w) (d_extended d)"
        "all_acked evs = acked" "all_dropped evs = buffer_dropped entries ?b" "all_lost evs = []"
      using assms(3) send m Failed
      by (auto simp: ship_def advance_all_def advance_eq_commit write_buffer_def Let_def)
    have "mset (read_raw ?b) + mset entries
        = mset (buffer_dropped entries ?b) + mset (read_raw (buffer_write entries ?b))"
      by (rule dropped_conserve [symmetric])
    with d1 show ?thesis by (simp add: accounted_def spool.fits_put add_ac)
  next
    case Removed
    let ?d = "d\<lparr>d_net := n\<rparr>"
    obtain d2 evs2 where sd: "safe_shutdown cfg net w [] ?d = (d2, evs2)"
      by (cases "safe_shutdown cfg net w [] ?d")
    have "d1 = d2" "evs = [Acked acked, Lost (drop (length acked) entries)] @ evs2"
      using assms(3) send m Removed sd by (auto simp: ship_def Let_def)
    with safe_shutdown_facts [OF sd] drop_acked [OF send] assms(2) show ?thesis
      by (simp add: accounted_def union_assoc [symmetric])
  qed
qed

section \<open>The transfer log\<close>

text \<open>
  The daemon sees the transfer log as a file \<open>i\<close> that is appended to until its content is \<open>s\<close>
  (\<open>n\<close> bytes were there before). At times the file may be missing or unreadable.
\<close>

fun appended :: "nat \<Rightarrow> string \<Rightarrow> nat \<Rightarrow> fobs \<Rightarrow> bool" where
  "appended i s n NoFile = True"
| "appended i s n (NoOpen j k) = (j = i \<and> n \<le> k \<and> k \<le> length s)"
| "appended i s n (File j x) = (j = i \<and> n \<le> length x \<and> x = take (length x) s)"

fun seen_length :: "nat \<Rightarrow> fobs \<Rightarrow> nat" where
  "seen_length n NoFile = n"
| "seen_length n (NoOpen j k) = k"
| "seen_length n (File j x) = length x"

fun log_grows :: "nat \<Rightarrow> string \<Rightarrow> nat \<Rightarrow> turn list \<Rightarrow> bool" where
  "log_grows i s n [] = True"
| "log_grows i s n (a # as) =
     (appended i s n (w_transfer (turn_world a)) \<and>
      log_grows i s (seen_length n (w_transfer (turn_world a))) as)"

abbreviation transfer_entries :: "config \<Rightarrow> string \<Rightarrow> log_entry list" where
  "transfer_entries cfg \<equiv> entries_of (parse_transfer_log (cf_zone cfg))"

text \<open>Between iterations, bytes that were read and not committed hold no entry.\<close>

definition between_iters :: "config \<Rightarrow> nat \<Rightarrow> string \<Rightarrow> nat \<Rightarrow> daemon \<Rightarrow> bool" where
  "between_iters cfg i s n d \<longleftrightarrow>
     t_inode (d_transfer d) = Some i \<and> t_pos (d_transfer d) \<le> n \<and> spool.fits (d_buffer d) \<and>
     (case t_pending (d_transfer d) of
        None \<Rightarrow> True
      | Some q \<Rightarrow> t_pos (d_transfer d) \<le> q \<and> q \<le> n \<and> whole (slice (t_pos (d_transfer d)) q s)
          \<and> transfer_entries cfg (slice (t_pos (d_transfer d)) q s) = [])"

lemma between_itersD:
  assumes "between_iters cfg i s n d"
  shows "t_inode (d_transfer d) = Some i" "t_pos (d_transfer d) \<le> n" "spool.fits (d_buffer d)"
    "t_pending (d_transfer d) = Some q \<Longrightarrow> t_pos (d_transfer d) \<le> q \<and> q \<le> n
       \<and> whole (slice (t_pos (d_transfer d)) q s) \<and> transfer_entries cfg (slice (t_pos (d_transfer d)) q s) = []"
  using assms by (auto simp: between_iters_def)

lemma action_of_direction_cases:
  "action_of_direction x = Some a \<Longrightarrow> a \<in> {''upload'', ''download'', ''delete''}"
  by (auto simp: action_of_direction_def split: if_splits)

lemma parse_transfer_action:
  "parse_transfer_log z raw = Some e \<Longrightarrow> e_action e \<in> {''upload'', ''download'', ''delete''}"
  by (auto simp: parse_transfer_log_def Let_def split: if_splits option.splits
      dest!: action_of_direction_cases)

lemma transfer_kept: "filter (keep_entry cfg) (transfer_entries cfg x) = transfer_entries cfg x"
proof -
  have "keep_entry cfg e" if mem: "e \<in> set (transfer_entries cfg x)" for e
  proof -
    obtain l where "parse_transfer_log (cf_zone cfg) l = Some e"
      using entries_of_mem [OF mem] by (elim exE)
    from parse_transfer_action [OF this] show ?thesis by (auto simp: keep_entry_def)
  qed
  then show ?thesis by (simp add: filter_id_conv)
qed

lemma poll_transfer:
  assumes inv: "between_iters cfg i s n d" and cr: "CR \<notin> set s"
    and app: "appended i s n (w_transfer w)" and poll: "poll_all cfg w d = (es, d1)"
  defines "n' \<equiv> seen_length n (w_transfer w)" and "p \<equiv> t_pos (d_transfer d)"
  shows "\<exists>q. p \<le> q \<and> q \<le> n' \<and> whole (slice p q s)
    \<and> mset (transfer_entries cfg (slice p q s)) \<subseteq># mset es
    \<and> t_pos (d_transfer d1) = p \<and> t_inode (d_transfer d1) = Some i
    \<and> d_buffer d1 = d_buffer d
    \<and> (t_pending (d_transfer d1) = Some q \<or> t_pending (d_transfer d1) = None \<and> q = p)"
proof -
  let ?g = "parse_transfer_log (cf_zone cfg)"
  obtain e1 t1 where p1: "poll (plain ?g) (w_saved1 w) (w_transfer w) (d_transfer d) () = (e1, t1, ())"
    by (cases "poll (plain ?g) (w_saved1 w) (w_transfer w) (d_transfer d) ()") auto
  obtain e2 where es: "es = filter (keep_entry cfg) (e1 @ e2)"
    and d1: "d_transfer d1 = t1" "d_buffer d1 = d_buffer d"
    using poll p1 by (auto simp: poll_all_def Let_def split: prod.splits)
  note I = between_itersD [OF inv]
  have old: ?thesis if t1: "t1 = d_transfer d" and le: "n \<le> n'"
  proof (cases "t_pending (d_transfer d)")
    case None
    with t1 d1 I le show ?thesis
      by (intro exI [of _ p]) (auto simp: p_def whole_def entries_of_def List.map_filter_simps)
  next
    case (Some q)
    with t1 d1 I le show ?thesis by (intro exI [of _ q]) (auto simp: p_def)
  qed
  show ?thesis
  proof (cases "w_transfer w")
    case NoFile
    with p1 show ?thesis by (intro old) (auto simp: n'_def)
  next
    case (NoOpen j k)
    with app I p1 show ?thesis
      by (intro old) (auto simp: n'_def detect_rotation_same)
  next
    case (File j x)
    with app have x: "j = i" "n \<le> length x" "x = take (length x) s" by auto
    have crx: "CR \<notin> set x" using cr x(3) in_set_takeD by metis
    have le: "p \<le> length x" using I(2) x(2) by (simp add: p_def)
    obtain q where q: "p \<le> q" "q \<le> length x" "whole (slice p q x)" "e1 = entries_of ?g (slice p q x)"
        "t1 = (d_transfer d)\<lparr>t_pending := Some q\<rparr> \<or> t1 = d_transfer d \<and> q = p"
      using poll_plain [OF crx I(1) le [unfolded p_def] p1 [unfolded File x(1)]]
      unfolding p_def by blast
    have "slice p q x = slice p q s" using x(3) q(2) slice_take by metis
    with q have e1: "e1 = transfer_entries cfg (slice p q s)" and wh: "whole (slice p q s)" by auto
    have sub: "mset e1 \<subseteq># mset es" using transfer_kept e1 by (simp add: es)
    show ?thesis
    proof (cases "t1 = (d_transfer d)\<lparr>t_pending := Some q\<rparr>")
      case True
      with q(1,2) wh sub e1 d1 I(1) File show ?thesis
        by (intro exI [of _ q]) (simp add: n'_def p_def)
    next
      case False
      with q(5) have "t1 = d_transfer d" by blast
      then show ?thesis using x(2) File by (intro old) (simp_all add: n'_def)
    qed
  qed
qed

text \<open>What a step keeps, with the part of the log it moves over accounted for.\<close>

definition step_ok :: "config \<Rightarrow> nat \<Rightarrow> string \<Rightarrow> nat \<Rightarrow> daemon \<Rightarrow> daemon \<Rightarrow> event list \<Rightarrow> bool" where
  "step_ok cfg i s n d d' evs \<longleftrightarrow>
     between_iters cfg i s n d' \<and> t_pos (d_transfer d) \<le> t_pos (d_transfer d') \<and>
     whole (slice (t_pos (d_transfer d)) (t_pos (d_transfer d')) s) \<and>
     mset (read_raw (d_buffer d))
       + mset (transfer_entries cfg (slice (t_pos (d_transfer d)) (t_pos (d_transfer d')) s))
       \<subseteq># accounted d' evs"

lemma entries_of_Nil [simp]: "entries_of g [] = []"
  by (simp add: entries_of_def List.map_filter_simps)

lemma step_ok_same:
  "between_iters cfg i s n d' \<Longrightarrow> t_pos (d_transfer d') = t_pos (d_transfer d) \<Longrightarrow>
   mset (read_raw (d_buffer d)) \<subseteq># accounted d' evs \<Longrightarrow> step_ok cfg i s n d d' evs"
  by (simp add: step_ok_def whole_def)

lemma step_ok_trans:
  assumes "step_ok cfg i s n d d1 evs1" and "step_ok cfg i s n' d1 d2 evs2"
  shows "step_ok cfg i s n' d d2 (evs1 @ evs2)"
proof -
  let ?a = "t_pos (d_transfer d)" and ?b = "t_pos (d_transfer d1)" and ?c = "t_pos (d_transfer d2)"
  have sl: "slice ?a ?c s = slice ?a ?b s @ slice ?b ?c s"
    using assms by (intro slice_append) (auto simp: step_ok_def)
  have w: "whole (slice ?a ?b s)" "whole (slice ?b ?c s)" using assms by (auto simp: step_ok_def)
  have "mset (read_raw (d_buffer d)) + mset (transfer_entries cfg (slice ?a ?b s))
      + mset (transfer_entries cfg (slice ?b ?c s)) \<subseteq># accounted d2 (evs1 @ evs2)"
    using assms by (intro accounted_trans) (auto simp: step_ok_def)
  with assms w sl show ?thesis
    by (simp add: step_ok_def whole_append entries_append add.assoc)
qed

lemma between_iters_cong:
  "between_iters cfg i s n d \<Longrightarrow> d_transfer d' = d_transfer d \<Longrightarrow> spool.fits (d_buffer d') \<Longrightarrow>
   between_iters cfg i s n d'"
  by (simp add: between_iters_def split: option.splits)

lemma between_iters_mono: "between_iters cfg i s n d \<Longrightarrow> n \<le> n' \<Longrightarrow> between_iters cfg i s n' d"
  by (auto simp: between_iters_def split: option.splits)

text \<open>Committing between iterations moves over bytes without entries.\<close>

lemma step_ok_commit:
  assumes inv: "between_iters cfg i s n d" and "d_transfer d' = commit ok (d_transfer d)"
    and "spool.fits (d_buffer d')" and "mset (read_raw (d_buffer d)) \<subseteq># accounted d' evs"
  shows "step_ok cfg i s n d d' evs"
proof (cases "t_pending (d_transfer d)")
  case None
  with assms between_itersD [OF inv] show ?thesis
    by (intro step_ok_same) (simp_all add: between_iters_def commit_pos)
next
  case (Some q)
  with assms between_itersD [OF inv] show ?thesis
    by (simp add: step_ok_def between_iters_def commit_pos)
qed

lemma poll_and_ship_ok:
  assumes bs: "0 \<le> cf_batch cfg" and inv: "between_iters cfg i s n d" and cr: "CR \<notin> set s"
    and app: "appended i s n (w_transfer w)" and run: "poll_and_ship cfg net w d = (d', evs)"
  shows "step_ok cfg i s (seen_length n (w_transfer w)) d d' evs"
proof -
  let ?n = "seen_length n (w_transfer w)" and ?p = "t_pos (d_transfer d)"
  obtain es d1 where poll: "poll_all cfg w d = (es, d1)" by (cases "poll_all cfg w d")
  obtain q where q: "?p \<le> q" "q \<le> ?n" "whole (slice ?p q s)"
      "mset (transfer_entries cfg (slice ?p q s)) \<subseteq># mset es"
      "t_pos (d_transfer d1) = ?p" "t_inode (d_transfer d1) = Some i" "d_buffer d1 = d_buffer d"
      "t_pending (d_transfer d1) = Some q \<or> t_pending (d_transfer d1) = None \<and> q = ?p"
    using poll_transfer [OF inv cr app poll] by blast
  have fits: "spool.fits (d_buffer d)" by (rule between_itersD [OF inv])
  show ?thesis
  proof (cases "es = []")
    case True
    with run poll have d': "d' = d1\<lparr>d_queue_size := 0\<rparr>" "evs = [Wait (cf_poll cfg)]"
      by (simp_all add: poll_and_ship_def)
    have "transfer_entries cfg (slice ?p q s) = []" using q(4) True by simp
    with q d' fits show ?thesis
      by (intro step_ok_same) (auto simp: between_iters_def accounted_def)
  next
    case False
    let ?d = "d1\<lparr>d_queue_size := length es\<rparr>"
    have ship: "ship cfg net w es ?d = (d', evs)" using run poll False by (simp add: poll_and_ship_def)
    note sf = ship_facts [OF bs _ ship]
    have fits': "spool.fits (d_buffer d')" using sf fits q(7) by simp
    from sf fits q(7) consider
        (undone) "d_transfer d' = rollback (d_transfer d1)" "mset (read_raw (d_buffer d)) \<subseteq># accounted d' evs"
      | (moved) "d_transfer d' = commit (w_saved1 w) (d_transfer d1)"
          "mset (read_raw (d_buffer d)) + mset es \<subseteq># accounted d' evs" by auto
    then show ?thesis
    proof cases
      case undone
      with q fits' show ?thesis by (intro step_ok_same) (simp_all add: between_iters_def)
    next
      case moved
      have pos: "t_pos (d_transfer d') = q" using q(5,8) moved(1) by (auto simp: commit_pos)
      have "mset (read_raw (d_buffer d)) + mset (transfer_entries cfg (slice ?p q s)) \<subseteq># accounted d' evs"
        using moved(2) q(4) by (meson subset_mset.add_left_mono subset_mset.order_trans)
      with moved pos q fits' show ?thesis by (simp add: step_ok_def between_iters_def)
    qed
  qed
qed

lemma sender_iter_ok:
  assumes bs: "0 \<le> cf_batch cfg" and inv: "between_iters cfg i s n d" and cr: "CR \<notin> set s"
    and app: "appended i s n (w_transfer w)" and run: "sender_iter cfg net w d = (d', evs)"
  shows "step_ok cfg i s (seen_length n (w_transfer w)) d d' evs"
proof -
  have le: "n \<le> seen_length n (w_transfer w)" using app by (cases "w_transfer w") auto
  note inv' = between_iters_mono [OF inv le]
  show ?thesis
  proof (cases "d_running d")
    case False
    with run have "d' = d" "evs = []" by (simp_all add: sender_iter_def)
    with inv' show ?thesis by (intro step_ok_same) (simp_all add: accounted_def)
  next
    case True
    obtain fl d1 evs1 where rs: "resend_buffer cfg net w d = (fl, d1, evs1)"
      by (cases "resend_buffer cfg net w d") auto
    note rf = resend_facts [OF bs between_itersD(3) [OF inv] rs]
    show ?thesis
    proof (cases "fl = Proceed")
      case True
      obtain d2 evs2 where ps: "poll_and_ship cfg net w d1 = (d2, evs2)"
        by (cases "poll_and_ship cfg net w d1")
      have d': "d' = d2" "evs = evs1 @ evs2"
        using run rs ps True \<open>d_running d\<close> by (simp_all add: sender_iter_def)
      have inv1: "between_iters cfg i s n d1" using between_iters_cong [OF inv] rf True by auto
      have "step_ok cfg i s n d d1 evs1" using rf True inv1 by (intro step_ok_same) auto
      with poll_and_ship_ok [OF bs inv1 cr app ps] show ?thesis
        unfolding d' by (rule step_ok_trans [rotated])
    next
      case False
      then have d': "d' = d1" "evs = evs1"
        using run rs \<open>d_running d\<close> by (cases fl; simp add: sender_iter_def)+
      from rf consider "d_transfer d1 = d_transfer d"
        | "d_transfer d1 = commit (w_saved1 w) (d_transfer d)" by auto
      then show ?thesis
      proof cases
        case 1
        with between_iters_cong [OF inv'] rf show ?thesis unfolding d' by (intro step_ok_same) auto
      next
        case 2
        with inv' rf show ?thesis unfolding d' by (intro step_ok_commit) auto
      qed
    qed
  qed
qed

lemma heartbeat_iter_facts:
  assumes "heartbeat_iter cfg net w d = (d', evs)"
  shows "d_buffer d' = d_buffer d \<and> all_acked evs = [] \<and> all_dropped evs = [] \<and> all_lost evs = [] \<and>
    (d_transfer d' = d_transfer d \<or> d_transfer d' = commit (w_saved1 w) (d_transfer d))"
proof (cases "d_running d")
  case False
  with assms show ?thesis by (simp add: heartbeat_iter_def)
next
  case True
  obtain payload d1 where c: "daemon_collect False w d = (payload, d1)" by (cases "daemon_collect False w d")
  obtain res d2 where p: "post_heartbeat cfg net d1 = (res, d2)" by (cases "post_heartbeat cfg net d1")
  have d2: "d_buffer d2 = d_buffer d" "d_transfer d2 = d_transfer d"
    using c p by (auto simp: daemon_collect_def post_heartbeat_def Let_def split: prod.splits)
  show ?thesis
  proof (cases "res = Removed")
    case False
    with assms True c p d2 show ?thesis
      by (cases res) (auto simp: heartbeat_iter_def split: if_splits)
  next
    case removed: True
    obtain d3 evs3 where s: "safe_shutdown cfg net w [] d2 = (d3, evs3)"
      by (cases "safe_shutdown cfg net w [] d2")
    have "d' = d3" "evs = Heartbeat payload # evs3"
      using assms True c p removed s by (simp_all add: heartbeat_iter_def)
    with safe_shutdown_facts [OF s] d2 show ?thesis by simp
  qed
qed

lemma daemon_step_ok:
  assumes bs: "0 \<le> cf_batch cfg" and inv: "between_iters cfg i s n d" and cr: "CR \<notin> set s"
    and app: "appended i s n (w_transfer (turn_world a))" and run: "daemon_step cfg net a d = (d', evs)"
  shows "step_ok cfg i s (seen_length n (w_transfer (turn_world a))) d d' evs"
proof (cases a)
  case (Sender w)
  with sender_iter_ok [OF bs inv cr] app run show ?thesis by simp
next
  case (Beat w)
  have le: "n \<le> seen_length n (w_transfer w)" using app Beat by (cases "w_transfer w") auto
  note inv' = between_iters_mono [OF inv le]
  have "heartbeat_iter cfg net w d = (d', evs)" using run Beat by simp
  from heartbeat_iter_facts [OF this] consider
      (same) "d_transfer d' = d_transfer d" "d_buffer d' = d_buffer d"
    | (moved) "d_transfer d' = commit (w_saved1 w) (d_transfer d)" "d_buffer d' = d_buffer d" by auto
  then show ?thesis
  proof cases
    case same
    with between_iters_cong [OF inv'] between_itersD(3) [OF inv] Beat show ?thesis
      by (intro step_ok_same) (simp_all add: accounted_def)
  next
    case moved
    with inv' Beat between_itersD(3) [OF inv] show ?thesis
      by (intro step_ok_commit) (simp_all add: accounted_def)
  qed
qed

lemma daemon_run_ok:
  "0 \<le> cf_batch cfg \<Longrightarrow> CR \<notin> set s \<Longrightarrow> between_iters cfg i s n d \<Longrightarrow> log_grows i s n as \<Longrightarrow>
   daemon_run cfg net as d = (d', evs) \<Longrightarrow> \<exists>n'. step_ok cfg i s n' d d' evs"
proof (induction as arbitrary: n d evs)
  case Nil
  then have "step_ok cfg i s n d d' evs"
    by (intro step_ok_same) (simp_all add: accounted_def)
  then show ?case by blast
next
  case (Cons a as)
  obtain d1 evs1 where st: "daemon_step cfg net a d = (d1, evs1)" by (cases "daemon_step cfg net a d")
  obtain evs2 where rest: "daemon_run cfg net as d1 = (d', evs2)" and evs: "evs = evs1 @ evs2"
    using Cons.prems(5) st by (auto split: prod.splits)
  have ok: "step_ok cfg i s (seen_length n (w_transfer (turn_world a))) d d1 evs1"
    using daemon_step_ok [OF Cons.prems(1,3,2) _ st] Cons.prems(4) by simp
  then have "between_iters cfg i s (seen_length n (w_transfer (turn_world a))) d1"
    by (simp add: step_ok_def)
  from Cons.IH [OF Cons.prems(1,2) this _ rest] Cons.prems(4)
  obtain n' where "step_ok cfg i s n' d1 d' evs2" by auto
  with step_ok_trans [OF ok] evs show ?case by blast
qed

section \<open>Answers of the server\<close>

lemma post_not_removed:
  assumes "\<forall>k. verdict (net k) \<noteq> Removed"
  shows "fst (post rm net n) \<noteq> Removed"
proof -
  have "fst (post_loop k net n) \<noteq> Removed" for k
    using assms by (simp add: post_loop_find split: option.split)
  then show ?thesis by (simp add: post_def)
qed

lemma send_batches_not_removed:
  assumes "\<forall>k. verdict (net k) \<noteq> Removed"
  shows "fst (send_batches rm net n tot cs) \<noteq> Removed"
proof (induction cs arbitrary: n tot)
  case Nil
  then show ?case by simp
next
  case (Cons c cs)
  have p: "fst (post rm net n) \<noteq> Removed" by (rule post_not_removed [OF assms])
  show ?case
  proof (cases "post rm net n")
    case (Pair res m)
    with p Cons.IH show ?thesis by (cases res) (auto split: prod.splits, (metis fst_conv)+)
  qed
qed

lemma send_not_removed:
  "\<forall>k. verdict (net k) \<noteq> Removed \<Longrightarrow> fst (send_logs rm net b es n) \<noteq> Removed"
  unfolding send_logs_def by (rule send_batches_not_removed)

lemma ship_not_removed:
  assumes "\<forall>k. verdict (net k) \<noteq> Removed" and "ship cfg net w es d = (d', evs)"
  shows "all_lost evs = [] \<and> d_running d' = d_running d"
  using assms(2) send_not_removed [OF assms(1), of "cf_retry cfg" "Some (cf_batch cfg)" es "d_net d"]
  by (auto simp: ship_def rollback_all_def commit_all_def advance_all_def write_buffer_def Let_def
      split: prod.splits post.splits)

lemma resend_not_removed:
  assumes "\<forall>k. verdict (net k) \<noteq> Removed" and "resend_buffer cfg net w d = (fl, d', evs)"
  shows "all_lost evs = [] \<and> d_running d' = d_running d"
  using assms(2) send_not_removed [OF assms(1), of "cf_retry cfg" "Some (cf_batch cfg)"
      "fst (read_and_clear (d_buffer d))" "d_net d"]
  by (auto simp: resend_buffer_def write_buffer_def Let_def split: prod.splits post.splits if_splits)

lemma daemon_step_not_removed:
  assumes net: "\<forall>k. verdict (net k) \<noteq> Removed" and run: "daemon_step cfg net a d = (d', evs)"
  shows "all_lost evs = [] \<and> d_running d' = d_running d"
proof (cases a)
  case (Beat w)
  have p: "fst (post (cf_retry cfg) net m) \<noteq> Removed" for m by (rule post_not_removed [OF net])
  show ?thesis
    using run Beat p [of "d_net (snd (daemon_collect False w d))"]
    by (auto simp: heartbeat_iter_def post_heartbeat_def daemon_collect_def Let_def
        split: prod.splits post.splits if_splits)
next
  case (Sender w)
  obtain fl d1 evs1 where rs: "resend_buffer cfg net w d = (fl, d1, evs1)"
    by (cases "resend_buffer cfg net w d") auto
  obtain es d2 where po: "poll_all cfg w d1 = (es, d2)" by (cases "poll_all cfg w d1")
  have r2: "d_running d2 = d_running d1" using po by (auto simp: poll_all_def Let_def split: prod.splits)
  have ps: "all_lost evs2 = [] \<and> d_running d3 = d_running d1"
    if "poll_and_ship cfg net w d1 = (d3, evs2)" for d3 evs2
    using that ship_not_removed [OF net] po r2
    by (auto simp: poll_and_ship_def Let_def split: if_splits)
  show ?thesis
    using run Sender rs resend_not_removed [OF net rs] ps
    by (auto simp: sender_iter_def split: if_splits flow.splits prod.splits)
qed

lemma daemon_run_not_removed:
  "\<forall>k. verdict (net k) \<noteq> Removed \<Longrightarrow> daemon_run cfg net as d = (d', evs) \<Longrightarrow>
   all_lost evs = [] \<and> d_running d' = d_running d"
proof (induction as arbitrary: d evs)
  case Nil
  then show ?case by simp
next
  case (Cons a as)
  obtain d1 evs1 where st: "daemon_step cfg net a d = (d1, evs1)" by (cases "daemon_step cfg net a d")
  obtain evs2 where rest: "daemon_run cfg net as d1 = (d', evs2)" and evs: "evs = evs1 @ evs2"
    using Cons.prems(2) st by (auto split: prod.splits)
  show ?case
    using daemon_step_not_removed [OF Cons.prems(1) st] Cons.IH [OF Cons.prems(1) rest] evs by simp
qed

text \<open>A server that accepts everything, and one that cannot be reached.\<close>

definition accepting :: "net \<Rightarrow> bool" where
  "accepting net \<longleftrightarrow> (\<forall>k. \<exists>c r. net k = Status c (JsonObj r) \<and> c < 400)"

lemma accepting_post: "accepting net \<Longrightarrow> \<exists>r n'. post rm net n = (Posted r, n')"
proof -
  assume "accepting net"
  then have "\<exists>c r. net n = Status c (JsonObj r) \<and> c < 400" by (simp add: accepting_def)
  then obtain c r where n: "net n = Status c (JsonObj r)" "c < 400" by blast
  then have "verdict (net n) = Posted r" "\<not> retried (net n)" by (simp_all add: retried_def)
  moreover have "client_attempts rm = Suc (client_attempts rm - 1)" by (simp add: client_attempts_def)
  ultimately show ?thesis
    unfolding post_def by (metis post_loop_step)
qed

lemma accepting_batches: "accepting net \<Longrightarrow> \<exists>r n'. send_batches rm net n tot cs = (Posted r, concat cs, n')"
proof (induction cs arbitrary: n tot)
  case Nil
  then show ?case by simp
next
  case (Cons c cs)
  obtain r n1 where p: "post rm net n = (Posted r, n1)" using accepting_post [OF Cons.prems] by blast
  let ?tot = "tot\<lparr>accepted := accepted tot + reply_int ''accepted'' r,
                  rejected := rejected tot + reply_int ''rejected'' r\<rparr>"
  obtain r2 n2 where "send_batches rm net n1 ?tot cs = (Posted r2, concat cs, n2)"
    using Cons.IH [OF Cons.prems] by blast
  with p show ?case by simp
qed

lemma accepting_send:
  assumes "accepting net" and "0 \<le> b"
  shows "\<exists>r n'. send_logs rm net (Some b) es n = (Posted r, es, n')"
proof -
  obtain m where m: "b = int m" using assms(2) by (auto dest: nonneg_int_cases)
  have "concat (batches (chunk_size (Some b)) es) = es"
    unfolding m by (rule concat_batches) (rule chunk_size_pos)
  with accepting_batches [OF assms(1)] show ?thesis unfolding send_logs_def by metis
qed

definition unreachable :: "net \<Rightarrow> bool" where
  "unreachable net \<longleftrightarrow> (\<forall>k. retried (net k))"

lemma unreachable_post: "unreachable net \<Longrightarrow> post rm net n = (Failed, n + client_attempts rm)"
  by (simp add: unreachable_def post_def post_loop_fails)

lemma unreachable_send:
  assumes "unreachable net" and "0 \<le> b" and "es \<noteq> []"
  shows "\<exists>n'. send_logs rm net (Some b) es n = (Failed, [], n')"
proof -
  obtain m where m: "b = int m" using assms(2) by (auto dest: nonneg_int_cases)
  have "concat (batches (chunk_size (Some b)) es) = es"
    unfolding m by (rule concat_batches) (rule chunk_size_pos)
  with assms(3) obtain c cs where "batches (chunk_size (Some b)) es = c # cs"
    by (cases "batches (chunk_size (Some b)) es") auto
  then show ?thesis by (simp add: send_logs_def unreachable_post [OF assms(1)])
qed

lemma next_backoff_doubles:
  "next_backoff (min (30 * 2 ^ k) 300) = min (30 * 2 ^ Suc k) 300" "next_backoff 0 = 30"
  by (auto simp: next_backoff_def BACKOFF_BASE_def BACKOFF_MAX_def min_def)

text \<open>One iteration while the server is unreachable and the buffer is not empty.\<close>

lemma outage_iter:
  assumes net: "unreachable net" and bs: "0 \<le> cf_batch cfg" and fits: "spool.fits (d_buffer d)"
    and ne: "read_raw (d_buffer d) \<noteq> []" and run: "d_running d"
  shows "\<exists>d'. sender_iter cfg net w d =
      (d', [Acked [], Dropped [], Wait (next_backoff (d_backoff d))])
    \<and> read_raw (d_buffer d') = read_raw (d_buffer d) \<and> spool.fits (d_buffer d')
    \<and> d_transfer d' = d_transfer d \<and> d_extended d' = d_extended d
    \<and> d_running d' \<and> d_backoff d' = next_backoff (d_backoff d)"
proof -
  obtain es b where rc: "read_and_clear (d_buffer d) = (es, b)" by (cases "read_and_clear (d_buffer d)")
  have es: "es = read_raw (d_buffer d)" and b: "read_raw b = []" "b_max_lines b = b_max_lines (d_buffer d)"
    using relay.resend_gone [OF rc] rc by (auto simp: read_and_clear_def Let_def split: if_splits)
  have kept: "read_raw (buffer_write es b) = read_raw (d_buffer d)" "spool.fits (buffer_write es b)"
    using relay.resend_kept [OF fits rc] by auto
  have "mset (buffer_dropped es b) + mset (read_raw (d_buffer d)) = mset es"
    using dropped_conserve [of es b] b kept by simp
  then have drop: "buffer_dropped es b = []" by (simp add: es)
  obtain n where "send_logs (cf_retry cfg) net (Some (cf_batch cfg)) es (d_net d) = (Failed, [], n)"
    using unreachable_send [OF net bs] ne es by blast
  moreover have "buffer_exists (d_buffer d)" using ne by (rule spool.occupied_contents)
  ultimately show ?thesis
    using run ne kept drop rc es
    by (simp add: sender_iter_def resend_buffer_def write_buffer_def Let_def)
qed

fun wait_of :: "event \<Rightarrow> int list" where
  "wait_of (Wait n) = [n]"
| "wait_of _ = []"

definition waits :: "event list \<Rightarrow> int list" where
  "waits evs = concat (map wait_of evs)"

lemma outage_run:
  assumes net: "unreachable net" and bs: "0 \<le> cf_batch cfg"
  shows "spool.fits (d_buffer d) \<Longrightarrow> read_raw (d_buffer d) \<noteq> [] \<Longrightarrow> d_running d \<Longrightarrow>
    d_backoff d = (if j = 0 then 0 else min (30 * 2 ^ (j - 1)) 300) \<Longrightarrow>
    daemon_run cfg net (map Sender ws) d = (d', evs) \<Longrightarrow>
    read_raw (d_buffer d') = read_raw (d_buffer d) \<and> d_running d'
    \<and> d_transfer d' = d_transfer d \<and> d_extended d' = d_extended d
    \<and> waits evs = map (\<lambda>k. min (30 * 2 ^ k) 300) [j..<j + length ws]"
proof (induction ws arbitrary: d j evs)
  case Nil
  then show ?case by (simp add: waits_def)
next
  case (Cons w ws)
  have bo: "next_backoff (d_backoff d) = min (30 * 2 ^ j) 300"
  proof (cases j)
    case 0
    with Cons.prems(4) show ?thesis by (simp add: next_backoff_doubles)
  next
    case (Suc m)
    with Cons.prems(4) next_backoff_doubles(1) [of m] show ?thesis by simp
  qed
  obtain d1 where it: "sender_iter cfg net w d = (d1, [Acked [], Dropped [], Wait (next_backoff (d_backoff d))])"
    and d1: "read_raw (d_buffer d1) = read_raw (d_buffer d)" "spool.fits (d_buffer d1)"
      "d_transfer d1 = d_transfer d" "d_extended d1 = d_extended d"
      "d_running d1" "d_backoff d1 = next_backoff (d_backoff d)"
    using outage_iter [OF net bs Cons.prems(1-3)] by blast
  obtain evs2 where rest: "daemon_run cfg net (map Sender ws) d1 = (d', evs2)"
    and evs: "evs = [Acked [], Dropped [], Wait (next_backoff (d_backoff d))] @ evs2"
    using Cons.prems(5) it by (auto split: prod.splits)
  have "d_backoff d1 = (if Suc j = 0 then 0 else min (30 * 2 ^ (Suc j - 1)) 300)"
    using d1(6) bo by simp
  from Cons.IH [OF d1(2) _ d1(5) this rest] Cons.prems(2) d1 evs bo
  show ?case by (simp add: waits_def upt_conv_Cons del: upt_Suc)
qed

section \<open>Properties\<close>

text \<open>
  C1: no line of a transfer log is lost that is only appended to and holds no carriage return, with a
  batch size that is not negative. In every run of the sender and the heartbeat over such a log, whatever the server answers, whenever the log cannot be read and
  whichever position writes fail: the entries the buffer held at first and those of all
  complete lines the position has moved over are among the entries the server accepted,
  those in the buffer, those its limit dropped, and those given up when the server said
  that the device was removed.
\<close>

theorem no_line_lost:
  assumes "0 \<le> cf_batch cfg" and "CR \<notin> set s" and "log_grows i s p turns"
    and "d_transfer d = \<lparr>t_pos = p, t_inode = Some i, t_pending = None, t_saved = sv\<rparr>"
    and "spool.fits (d_buffer d)" and "daemon_run cfg net turns d = (d', evs)"
  shows "p \<le> t_pos (d_transfer d') \<and>
    mset (read_raw (d_buffer d))
      + mset (entries_of (parse_transfer_log (cf_zone cfg)) (slice p (t_pos (d_transfer d')) s))
    \<subseteq># mset (all_acked evs) + mset (all_dropped evs) + mset (all_lost evs) + mset (read_raw (d_buffer d'))"
proof -
  have "between_iters cfg i s p d" using assms(4,5) by (simp add: between_iters_def)
  from daemon_run_ok [OF assms(1,2) this assms(3,6)]
  show ?thesis using assms(4) by (auto simp: step_ok_def accounted_def)
qed

definition sample_config :: config where
  "sample_config = \<lparr>cf_zone = (\<lambda>_. 0), cf_batch = 100, cf_retry = 3, cf_poll = 5,
     cf_skip_login_logout = False\<rparr>"

definition sample_daemon :: daemon where
  "sample_daemon = \<lparr>
     d_transfer = \<lparr>t_pos = 0, t_inode = Some 7, t_pending = None, t_saved = None\<rparr>,
     d_extended = \<lparr>t_pos = 0, t_inode = None, t_pending = None, t_saved = None\<rparr>,
     d_sessions = no_sessions, d_buffer = \<lparr>b_lines = None, b_max_lines = 50000\<rparr>,
     d_backoff = 0, d_running = True, d_exit_code = 0, d_status = ''running'', d_error = None,
     d_failures = 0, d_queue_size = 0, d_last_send = None, d_prev_status = [], d_net = 0\<rparr>"

definition sample_world :: "fobs \<Rightarrow> world" where
  "sample_world obs = \<lparr>w_transfer = obs, w_extended = NoFile, w_mono = 0, w_utc = 0,
     w_saved1 = True, w_saved2 = True, w_readings = sample_readings\<rparr>"

definition sample_xfer :: string where
  "sample_xfer = ''Mon Jan  5 10:00:00 2026 1 10.0.0.9 12 /a.txt b _ i r kim ftp 0 * c'' @ [LF]"

theorem no_line_lost_witness:
  "let (d', evs) = daemon_run sample_config ok_then_down
         [Sender (sample_world (File 7 (take 20 sample_xfer))), Beat (sample_world NoFile),
          Sender (sample_world (File 7 sample_xfer))] sample_daemon in
   mset (entries_of (parse_transfer_log (\<lambda>_. 0)) (slice 0 (t_pos (d_transfer d')) sample_xfer))
   \<subseteq># mset (all_acked evs) + mset (all_dropped evs) + mset (all_lost evs) + mset (read_raw (d_buffer d'))"
proof -
  let ?turns = "[Sender (sample_world (File 7 (take 20 sample_xfer))), Beat (sample_world NoFile),
          Sender (sample_world (File 7 sample_xfer))]"
  let ?r = "daemon_run sample_config ok_then_down ?turns sample_daemon"
  have 1: "CR \<notin> set sample_xfer" by (simp add: sample_xfer_def)
  have 2: "log_grows 7 sample_xfer 0 ?turns" by (simp add: sample_world_def sample_xfer_def)
  have 3: "spool.fits (d_buffer sample_daemon)"
    by (simp add: sample_daemon_def spool.fits_def read_raw_def buffer_capacity_def)
  have 4: "d_transfer sample_daemon = \<lparr>t_pos = 0, t_inode = Some 7, t_pending = None, t_saved = None\<rparr>"
    by (simp add: sample_daemon_def)
  have 5: "?r = (fst ?r, snd ?r)" by simp
  have 6: "0 \<le> cf_batch sample_config" by (simp add: sample_config_def)
  from no_line_lost [OF 6 1 2 4 3 5] show ?thesis
    by (simp only: split_beta Let_def)
       (simp add: sample_daemon_def read_raw_def sample_config_def del: daemon_run.simps)
qed

text \<open>
  As long as no answer is 401 or 404 the daemon gives up nothing and keeps running.
\<close>

theorem nothing_given_up:
  assumes "\<forall>k. verdict (net k) \<noteq> Removed" and "daemon_run cfg net turns d = (d', evs)"
  shows "all_lost evs = [] \<and> d_running d' = d_running d"
  by (rule daemon_run_not_removed [OF assms])

theorem nothing_given_up_witness:
  "all_lost (snd (daemon_run sample_config ok_then_down
     [Sender (sample_world (File 7 sample_xfer))] sample_daemon)) = []"
proof -
  let ?r = "daemon_run sample_config ok_then_down [Sender (sample_world (File 7 sample_xfer))] sample_daemon"
  have "\<forall>k. verdict (ok_then_down k) \<noteq> Removed" by (simp add: ok_then_down_def)
  from nothing_given_up [OF this, of sample_config "[Sender (sample_world (File 7 sample_xfer))]"
      sample_daemon "fst ?r" "snd ?r"] show ?thesis by simp
qed

text \<open>
  C39: during an outage, with entries waiting in the buffer, every iteration tries the buffer
  again, keeps it and both positions as they are, and waits 30, 60, 120, 240 and from then on
  300 seconds.
\<close>

theorem outage_backoff:
  assumes "\<forall>k. retried (net k)" and "0 \<le> cf_batch cfg" and "spool.fits (d_buffer d)"
    and "read_raw (d_buffer d) \<noteq> []" and "d_running d" and "d_backoff d = 0"
    and "daemon_run cfg net (map Sender ws) d = (d', evs)"
  shows "read_raw (d_buffer d') = read_raw (d_buffer d) \<and> d_running d'
    \<and> d_transfer d' = d_transfer d \<and> d_extended d' = d_extended d
    \<and> waits evs = map (\<lambda>k. min (30 * 2 ^ k) 300) [0..<length ws]"
proof -
  have "unreachable net" using assms(1) by (simp add: unreachable_def)
  from outage_run [OF this assms(2-5) _ assms(7), of 0] assms(6) show ?thesis by simp
qed

theorem outage_backoff_witness:
  "let d = sample_daemon\<lparr>d_buffer := \<lparr>b_lines = Some [Entry sample_entry], b_max_lines = 9\<rparr>\<rparr>;
       evs = snd (daemon_run sample_config (\<lambda>_. RequestException)
               (map Sender (replicate 6 (sample_world NoFile))) d)
   in waits evs = [30, 60, 120, 240, 300, 300]"
proof -
  let ?d = "sample_daemon\<lparr>d_buffer := \<lparr>b_lines = Some [Entry sample_entry], b_max_lines = 9\<rparr>\<rparr>"
  let ?ws = "replicate 6 (sample_world NoFile)"
  let ?r = "daemon_run sample_config (\<lambda>_. RequestException) (map Sender ?ws) ?d"
  have "waits (snd ?r) = map (\<lambda>k. min (30 * 2 ^ k) 300) [0..<length ?ws]"
    using outage_backoff [of "\<lambda>_. RequestException" sample_config ?d ?ws "fst ?r" "snd ?r"]
    by (simp add: retried_def sample_config_def sample_daemon_def spool.fits_def read_raw_def
        buffer_capacity_def List.map_filter_simps)
  also have "\<dots> = [30, 60, 120, 240, 300, 300]" by (simp add: upt_rec min_def)
  finally show ?thesis by (simp add: Let_def)
qed

text \<open>
  With a server that accepts, one iteration delivers the whole buffer and then everything
  that was polled, in that order; it empties the buffer, commits both positions and resets
  the failure state.
\<close>

theorem iteration_delivers:
  assumes "accepting net" and "0 \<le> cf_batch cfg" and "d_running d"
    and "poll_all cfg w d = (es, d1)" and "es \<noteq> []" and "sender_iter cfg net w d = (d', evs)"
  shows "all_acked evs = read_raw (d_buffer d) @ es \<and> all_dropped evs = [] \<and> all_lost evs = []
    \<and> read_raw (d_buffer d') = [] \<and> d_transfer d' = commit (w_saved1 w) (d_transfer d1)
    \<and> d_extended d' = commit (w_saved2 w) (d_extended d1)
    \<and> d_status d' = ''running'' \<and> d_error d' = None \<and> d_failures d' = 0 \<and> d_backoff d' = 0
    \<and> d_last_send d' = Some (w_utc w)"
proof -
  obtain bs b where rc: "read_and_clear (d_buffer d) = (bs, b)" by (cases "read_and_clear (d_buffer d)")
  have gone: "bs = read_raw (d_buffer d)" "read_raw b = []" using spool.take_all_fst [of "d_buffer d"]
      spool.take_all_snd [of "d_buffer d"] rc by auto
  have snd: "\<exists>r n'. send_logs (cf_retry cfg) net (Some (cf_batch cfg)) xs n = (Posted r, xs, n')" for xs n
    by (rule accepting_send [OF assms(1,2)])
  have rs: "\<exists>d0 evs0. resend_buffer cfg net w d = (Proceed, d0, evs0) \<and> read_raw (d_buffer d0) = []
      \<and> all_acked evs0 = read_raw (d_buffer d) \<and> all_dropped evs0 = [] \<and> all_lost evs0 = []
      \<and> d_transfer d0 = d_transfer d \<and> d_extended d0 = d_extended d \<and> d_sessions d0 = d_sessions d"
  proof (cases "buffer_exists (d_buffer d) \<and> bs \<noteq> []")
    case True
    obtain r n' where "send_logs (cf_retry cfg) net (Some (cf_batch cfg)) bs (d_net d) = (Posted r, bs, n')"
      using snd by blast
    with True rc gone show ?thesis by (simp add: resend_buffer_def Let_def)
  next
    case False
    then have "read_raw (d_buffer d) = []"
      using gone spool.occupied_contents [of "d_buffer d"]
      by (cases "read_raw (d_buffer d) = []") auto
    with False rc gone show ?thesis by (auto simp: resend_buffer_def)
  qed
  then obtain d0 evs0 where d0: "resend_buffer cfg net w d = (Proceed, d0, evs0)" "read_raw (d_buffer d0) = []"
      "all_acked evs0 = read_raw (d_buffer d)" "all_dropped evs0 = []" "all_lost evs0 = []"
      "d_transfer d0 = d_transfer d" "d_extended d0 = d_extended d" "d_sessions d0 = d_sessions d"
    by blast
  obtain es2 d2 where p2: "poll_all cfg w d0 = (es2, d2)" by (cases "poll_all cfg w d0")
  have same: "es2 = es" "d_transfer d2 = d_transfer d1" "d_extended d2 = d_extended d1"
      "d_buffer d2 = d_buffer d0"
    using p2 assms(4) d0(6-8) by (auto simp: poll_all_def Let_def split: prod.splits)
  obtain r n' where "send_logs (cf_retry cfg) net (Some (cf_batch cfg)) es (d_net d2) = (Posted r, es, n')"
    using snd by blast
  then have "ship cfg net w es (d2\<lparr>d_queue_size := length es\<rparr>)
      = (commit_all w (d2\<lparr>d_queue_size := length es, d_net := n', d_last_send := Some (w_utc w),
           d_failures := 0, d_error := None, d_status := ''running'', d_backoff := 0\<rparr>), [Acked es])"
    by (simp add: ship_def Let_def)
  with assms(3,5,6) d0 p2 same show ?thesis
    by (auto simp: sender_iter_def poll_and_ship_def Let_def commit_all_def)
qed

lemma sample_xfer_words:
  "split_ws (strip sample_xfer) = [''Mon'', ''Jan'', ''5'', ''10:00:00'', ''2026'', ''1'', ''10.0.0.9'',
   ''12'', ''/a.txt'', ''b'', ''_'', ''i'', ''r'', ''kim'', ''ftp'', ''0'', ''*'', ''c'']"
  "strip sample_xfer \<noteq> []"
proof -
  have strip: "strip sample_xfer = ''Mon Jan  5 10:00:00 2026 1 10.0.0.9 12 /a.txt b _ i r kim ftp 0 * c''"
    by (simp add: sample_xfer_def strip_def lstrip_def is_space_def)
  show "split_ws (strip sample_xfer) = [''Mon'', ''Jan'', ''5'', ''10:00:00'', ''2026'', ''1'', ''10.0.0.9'',
   ''12'', ''/a.txt'', ''b'', ''_'', ''i'', ''r'', ''kim'', ''ftp'', ''0'', ''*'', ''c'']"
    unfolding strip by (simp add: split_ws_word is_space_def)
  show "strip sample_xfer \<noteq> []" by (simp add: strip)
qed

lemma sample_xfer_parses: "parse_transfer_log zone sample_xfer \<noteq> None"
proof -
  have "strptime_words ''Jan'' ''5'' ''10:00:00'' ''2026'' \<noteq> None" by code_simp
  then obtain c where c: "strptime_words ''Jan'' ''5'' ''10:00:00'' ''2026'' = Some c" by blast
  have "py_int ''12'' = Some 12" by code_simp
  moreover have "py_float ''1'' \<noteq> None" 
    by (simp add: py_float_def py_mantissa_def Let_def strip_def lstrip_def is_space_def to_lower_def is_digit_def)
  then obtain tt where "py_float ''1'' = Some tt" by blast
  ultimately show ?thesis
    unfolding parse_transfer_log_def Let_def sample_xfer_words
    by (simp add: sample_xfer_words(2) c action_of_direction_def)
qed

lemma sample_polls:
  "fst (poll_all sample_config (sample_world (File 7 sample_xfer)) sample_daemon) \<noteq> []"
proof -
  let ?t = "d_transfer sample_daemon" and ?g = "parse_transfer_log (\<lambda>_. 0)"
  have t: "t_inode ?t = Some 7" "t_pos ?t = 0" by (simp_all add: sample_daemon_def)
  have cr: "CR \<notin> set sample_xfer" and len: "0 < length sample_xfer" by (simp_all add: sample_xfer_def)
  have "complete_lines sample_xfer = [sample_xfer]"
    by (simp add: sample_xfer_def complete_lines_def)
  then have ls: "List.map_filter ?g (take MAX_LINES_PER_POLL (complete_lines sample_xfer)) \<noteq> []"
    using sample_xfer_parses [of "\<lambda>_. 0"]
    by (auto simp: MAX_LINES_PER_POLL_def List.map_filter_simps split: option.splits)
  let ?p = "poll (plain ?g) True (File 7 sample_xfer) ?t ()"
  have "fst ?p = List.map_filter ?g (take MAX_LINES_PER_POLL (complete_lines sample_xfer))"
    using poll_reads_lines [OF cr t(1), of "plain ?g" True "()"] t(2) len by (simp add: Let_def)
  then have "fst ?p \<noteq> []" using ls by simp
  then show ?thesis
    by (auto simp: poll_all_def Let_def sample_world_def sample_config_def keep_entry_def
        split: prod.splits simp del: poll.simps)
qed

definition always_ok :: net where
  "always_ok n = Status 200 (JsonObj [(''accepted'', JInt 1)])"

theorem iteration_delivers_witness:
  "let w = sample_world (File 7 sample_xfer);
       (d', evs) = sender_iter sample_config always_ok w sample_daemon in
   all_acked evs = fst (poll_all sample_config w sample_daemon) \<and> all_acked evs \<noteq> []
   \<and> d_status d' = ''running''"
proof -
  let ?w = "sample_world (File 7 sample_xfer)"
  let ?p = "poll_all sample_config ?w sample_daemon"
  let ?r = "sender_iter sample_config always_ok ?w sample_daemon"
  have 1: "accepting always_ok" by (simp add: accepting_def always_ok_def)
  have 2: "0 \<le> cf_batch sample_config" "d_running sample_daemon"
    by (simp_all add: sample_config_def sample_daemon_def)
  have 3: "?p = (fst ?p, snd ?p)" "?r = (fst ?r, snd ?r)" by simp_all
  have 4: "read_raw (d_buffer sample_daemon) = []" by (simp add: sample_daemon_def read_raw_def)
  show ?thesis
    using iteration_delivers [OF 1 2 3(1) sample_polls 3(2)] sample_polls 4
    by (simp add: split_beta Let_def)
qed

text \<open>
  When the server answers that the device was removed, the entries just polled are given
  up: the positions move past them, and neither the server nor the disk buffer has them.
\<close>

theorem removed_gives_up_polled:
  assumes "net (d_net d) = Status c b" and "c = 401 \<or> c = 404" and "0 \<le> cf_batch cfg"
    and "entries \<noteq> []" and "ship cfg net w entries d = (d', evs)"
  shows "all_lost evs = entries \<and> all_acked evs = [] \<and> all_dropped evs = []
    \<and> d_buffer d' = d_buffer d \<and> d_transfer d' = commit (w_saved1 w) (d_transfer d)
    \<and> d_extended d' = commit (w_saved2 w) (d_extended d)
    \<and> \<not> d_running d' \<and> d_exit_code d' = 1"
proof -
  obtain m where m: "cf_batch cfg = int m" using assms(3) by (auto dest: nonneg_int_cases)
  have "concat (batches (chunk_size (Some (cf_batch cfg))) entries) = entries"
    unfolding m by (rule concat_batches) (rule chunk_size_pos)
  with assms(4) obtain x xs where bx: "batches (chunk_size (Some (cf_batch cfg))) entries = x # xs"
    by (cases "batches (chunk_size (Some (cf_batch cfg))) entries") auto
  have "client_attempts (cf_retry cfg) = Suc (client_attempts (cf_retry cfg) - 1)"
    by (simp add: client_attempts_def)
  moreover have "verdict (net (d_net d)) = Removed" "\<not> retried (net (d_net d))"
    using assms(1,2) by (auto simp: retried_def)
  ultimately have "post (cf_retry cfg) net (d_net d) = (Removed, Suc (d_net d))"
    unfolding post_def by (metis post_loop_step)
  then have send: "send_logs (cf_retry cfg) net (Some (cf_batch cfg)) entries (d_net d)
      = (Removed, [], Suc (d_net d))"
    by (simp add: send_logs_def bx)
  let ?d = "d\<lparr>d_net := Suc (d_net d)\<rparr>"
  obtain d2 evs2 where sd: "safe_shutdown cfg net w [] ?d = (d2, evs2)"
    by (cases "safe_shutdown cfg net w [] ?d")
  have "d' = d2" "evs = [Acked [], Lost entries] @ evs2"
    using assms(5) send sd by (auto simp: ship_def Let_def)
  with safe_shutdown_facts [OF sd] show ?thesis by simp
qed

theorem removed_gives_up_polled_witness:
  "all_lost (snd (ship sample_config (\<lambda>_. Status 401 NoText) (sample_world NoFile) [sample_entry] sample_daemon))
   = [sample_entry]"
proof -
  let ?r = "ship sample_config (\<lambda>_. Status 401 NoText) (sample_world NoFile) [sample_entry] sample_daemon"
  have "?r = (fst ?r, snd ?r)" by simp
  from removed_gives_up_polled [OF _ _ _ _ this] show ?thesis by (simp add: sample_config_def)
qed

text \<open>One iteration over a block of lines none of which is an entry.\<close>

lemma stalled_iter:
  assumes "b_lines (d_buffer d) = None" and "d_running d" and "CR \<notin> set s"
    and "t_inode (d_transfer d) = Some i" and "t_pos (d_transfer d) < length s"
    and "List.map_filter (parse_transfer_log (cf_zone cfg))
           (take MAX_LINES_PER_POLL (complete_lines (drop (t_pos (d_transfer d)) s))) = []"
    and "w_transfer w = File i s" and "w_extended w = NoFile"
  shows "\<exists>d' q. sender_iter cfg net w d = (d', [Wait (cf_poll cfg)])
    \<and> d_transfer d' = (d_transfer d)\<lparr>t_pending := Some q\<rparr>
    \<and> d_buffer d' = d_buffer d \<and> d_running d'"
proof -
  let ?ls = "take MAX_LINES_PER_POLL (complete_lines (drop (t_pos (d_transfer d)) s))"
  let ?q = "t_pos (d_transfer d) + length (concat ?ls)"
  have p: "poll (plain (parse_transfer_log (cf_zone cfg))) (w_saved1 w) (File i s) (d_transfer d) ()
      = ([], (d_transfer d)\<lparr>t_pending := Some ?q\<rparr>, ())"
    using poll_reads_lines [OF assms(3-5), of "plain (parse_transfer_log (cf_zone cfg))" "w_saved1 w" "()"]
      assms(6) by (simp add: Let_def)
  have "\<not> buffer_exists (d_buffer d)" using assms(1) by (simp add: buffer_exists_def)
  then show ?thesis
    using assms(2,7,8) p
    by (simp add: sender_iter_def resend_buffer_def poll_and_ship_def poll_all_def Let_def del: poll.simps(3))
       (intro exI [of _ ?q]; simp)
qed

text \<open>
  A block of 5000 complete lines without an entry stops the transfer log for good. While
  the other log gives nothing, every iteration reads the same block again: the position never
  moves, and the lines after the block are never read or sent.
\<close>

theorem block_without_entries_stalls:
  assumes "b_lines (d_buffer d) = None" and "d_running d" and "CR \<notin> set s"
    and "t_inode (d_transfer d) = Some i" and "t_pos (d_transfer d) < length s"
    and "List.map_filter (parse_transfer_log (cf_zone cfg))
           (take 5000 (complete_lines (drop (t_pos (d_transfer d)) s))) = []"
    and "list_all (\<lambda>w. w_transfer w = File i s \<and> w_extended w = NoFile) ws"
    and "daemon_run cfg net (map Sender ws) d = (d', evs)"
  shows "t_pos (d_transfer d') = t_pos (d_transfer d) \<and> t_saved (d_transfer d') = t_saved (d_transfer d)
    \<and> all_acked evs = [] \<and> waits evs = replicate (length ws) (cf_poll cfg)"
  using assms
proof (induction ws arbitrary: d evs)
  case Nil
  then show ?case by (simp add: waits_def)
next
  case (Cons w ws)
  have blk: "List.map_filter (parse_transfer_log (cf_zone cfg))
      (take MAX_LINES_PER_POLL (complete_lines (drop (t_pos (d_transfer d)) s))) = []"
    using Cons.prems(6) by (simp add: MAX_LINES_PER_POLL_def)
  have w: "w_transfer w = File i s" "w_extended w = NoFile" using Cons.prems(7) by auto
  obtain d1 q where it: "sender_iter cfg net w d = (d1, [Wait (cf_poll cfg)])"
    and d1: "d_transfer d1 = (d_transfer d)\<lparr>t_pending := Some q\<rparr>"
      "d_buffer d1 = d_buffer d" "d_running d1"
    using stalled_iter [OF Cons.prems(1-5) blk w] by blast
  obtain evs2 where rest: "daemon_run cfg net (map Sender ws) d1 = (d', evs2)"
    and evs: "evs = [Wait (cf_poll cfg)] @ evs2"
    using Cons.prems(8) it by (auto split: prod.splits)
  from Cons.IH [OF _ d1(3) Cons.prems(3) _ _ _ _ rest] Cons.prems d1(1,2) evs
  show ?case by (simp add: waits_def)
qed

theorem block_without_entries_stalls_witness:
  "t_pos (d_transfer (fst (daemon_run sample_config always_ok
     (map Sender (replicate 3 (sample_world (File 7 [LF])))) sample_daemon))) = 0"
proof -
  let ?ws = "replicate 3 (sample_world (File 7 [LF]))"
  let ?r = "daemon_run sample_config always_ok (map Sender ?ws) sample_daemon"
  have "parse_transfer_log z [LF] = None" for z
    by (simp add: parse_transfer_log_def Let_def strip_def lstrip_def is_space_def)
  then have blk: "List.map_filter (parse_transfer_log (cf_zone sample_config))
      (take 5000 (complete_lines (drop (t_pos (d_transfer sample_daemon)) [LF]))) = []"
    by (simp add: sample_daemon_def complete_lines_def List.map_filter_simps)
  have "list_all (\<lambda>w. w_transfer w = File 7 [LF] \<and> w_extended w = NoFile) ?ws"
    by (simp add: list_all_iff sample_world_def)
  from block_without_entries_stalls [OF _ _ _ _ _ blk this, of always_ok "fst ?r" "snd ?r"]
  show ?thesis by (simp add: sample_daemon_def)
qed

end
