(* ===== verification/WriteBuf.thy ===== *)
theory WriteBuf
  imports SolTrace_Prelude
begin

text \<open>
  \<open>WriteBuffer\<close> of \<open>was/app/write_buffer.py\<close>: rows are collected in memory and written in
  batches; a batch whose insert failed waits in a retry queue with an exponential back-off.

  Whether the \<open>k\<close>-th insert of the process succeeds with the rows \<open>rs\<close> is the parameter \<open>db k rs\<close>
  (\<open>on_conflict_do_nothing\<close>: a row that is already there counts as written). There is one
  model class, so a batch is its rows. \<open>wtrace\<close> adds to the buffer's own fields what
  happened to the rows so far; no operation reads these fields.

  Each operation has one clock reading. The operations are sequential here; the step relation
  \<open>wb_step\<close> has the lock-protected sections as its steps, with the batches that threads hold
  outside the lock, and the operations are shown to be runs of it.
\<close>

section \<open>State\<close>

record 'r batch =
  bt_rows :: "'r list"
  bt_attempts :: nat
  bt_next_at :: time

record 'r wbuf =
  wb_max_size :: nat
  wb_max_pending :: int
  wb_queue :: "'r list"
  wb_retry :: "'r batch list"
  wb_retry_rows :: int
  wb_dropped :: int

record 'r wtrace = "'r wbuf" +
  tr_accepted :: "'r list"
  tr_written :: "'r list"
  tr_lost :: "'r list"
  tr_calls :: nat

definition RETRY_BASE :: time where "RETRY_BASE = sec 2"
definition RETRY_CAP :: time where "RETRY_CAP = sec 60"
definition MAX_ATTEMPTS :: nat where "MAX_ATTEMPTS = 100"

definition new_batch :: "'r list \<Rightarrow> 'r batch" where
  "new_batch rows = \<lparr>bt_rows = rows, bt_attempts = 0, bt_next_at = 0\<rparr>"

section \<open>Operations\<close>

text \<open>\<open>_Batch.defer\<close>: \<^const>\<open>None\<close> when the attempts are used up.\<close>

definition defer_batch :: "time \<Rightarrow> 'r batch \<Rightarrow> 'r batch option" where
  "defer_batch now b =
     (let n = bt_attempts b + 1 in
      if n \<ge> MAX_ATTEMPTS then None
      else Some (b\<lparr>bt_attempts := n, bt_next_at := now + min (RETRY_BASE * 2 ^ (n - 1)) RETRY_CAP\<rparr>))"

definition rows_of :: "'r batch list \<Rightarrow> 'r list" where
  "rows_of bs = concat (map bt_rows bs)"

definition drop_batches :: "'r batch list \<Rightarrow> 'r wtrace \<Rightarrow> 'r wtrace" where
  "drop_batches bs w =
     w\<lparr>wb_dropped := wb_dropped w + int (length (rows_of bs)), tr_lost := tr_lost w @ rows_of bs\<rparr>"

text \<open>The loop that sheds the oldest batches: the rows left, the queue left and what was shed.\<close>

fun shed :: "int \<Rightarrow> int \<Rightarrow> 'r batch list \<Rightarrow> int \<times> 'r batch list \<times> 'r batch list" where
  "shed cap rows (b # c # bs) =
     (if rows > cap
      then (let (rows', keep, overflow) = shed cap (rows - int (length (bt_rows b))) (c # bs)
            in (rows', keep, b # overflow))
      else (rows, b # c # bs, []))"
| "shed cap rows bs = (rows, bs, [])"

definition requeue :: "time \<Rightarrow> 'r batch \<Rightarrow> 'r wtrace \<Rightarrow> 'r wtrace" where
  "requeue now batch w =
     (case defer_batch now batch of
        None \<Rightarrow> drop_batches [batch] w
      | Some b \<Rightarrow>
          (let (rows, keep, overflow) = shed (wb_max_pending w)
                 (wb_retry_rows w + int (length (bt_rows b))) (wb_retry w @ [b]);
               w1 = w\<lparr>wb_retry := keep, wb_retry_rows := rows\<rparr>
           in if overflow \<noteq> [] then drop_batches overflow w1 else w1))"

definition insert_rows :: "(nat \<Rightarrow> 'r list \<Rightarrow> bool) \<Rightarrow> 'r list \<Rightarrow> 'r wtrace \<Rightarrow> bool \<times> 'r wtrace" where
  "insert_rows db rows w =
     (let ok = db (tr_calls w) rows in
      (ok, w\<lparr>tr_calls := tr_calls w + 1, tr_written := tr_written w @ (if ok then rows else [])\<rparr>))"

definition write_rows :: "(nat \<Rightarrow> 'r list \<Rightarrow> bool) \<Rightarrow> time \<Rightarrow> 'r list \<Rightarrow> 'r wtrace \<Rightarrow> 'r wtrace" where
  "write_rows db now objects w =
     (if objects = [] then w
      else let (ok, w1) = insert_rows db objects w
           in if ok then w1 else requeue now (new_batch objects) w1)"

definition add :: "(nat \<Rightarrow> 'r list \<Rightarrow> bool) \<Rightarrow> time \<Rightarrow> 'r list \<Rightarrow> 'r wtrace \<Rightarrow> 'r wtrace" where
  "add db now objects w =
     (let q = wb_queue w @ objects; w1 = w\<lparr>tr_accepted := tr_accepted w @ objects\<rparr> in
      if length q \<ge> wb_max_size w then write_rows db now q (w1\<lparr>wb_queue := []\<rparr>)
      else w1\<lparr>wb_queue := q\<rparr>)"

definition due :: "bool \<Rightarrow> time \<Rightarrow> 'r batch \<Rightarrow> bool" where
  "due force now b = (force \<or> bt_next_at b \<le> now)"

definition retry_one :: "(nat \<Rightarrow> 'r list \<Rightarrow> bool) \<Rightarrow> time \<Rightarrow> 'r batch \<Rightarrow> 'r wtrace \<Rightarrow> 'r wtrace" where
  "retry_one db now b w =
     (let (ok, w1) = insert_rows db (bt_rows b) w in if ok then w1 else requeue now b w1)"

definition retry_due :: "(nat \<Rightarrow> 'r list \<Rightarrow> bool) \<Rightarrow> time \<Rightarrow> bool \<Rightarrow> 'r wtrace \<Rightarrow> 'r wtrace" where
  "retry_due db now force w =
     (if wb_retry w = [] then w
      else let ds = filter (due force now) (wb_retry w);
               w1 = w\<lparr>wb_retry := filter (\<lambda>b. \<not> due force now b) (wb_retry w),
                      wb_retry_rows := wb_retry_rows w - sum_list (map (\<lambda>b. int (length (bt_rows b))) ds)\<rparr>
           in fold (retry_one db now) ds w1)"

definition flush :: "(nat \<Rightarrow> 'r list \<Rightarrow> bool) \<Rightarrow> time \<Rightarrow> 'r wtrace \<Rightarrow> 'r wtrace" where
  "flush db now w =
     (let w1 = retry_due db now False w in
      if wb_queue w1 = [] then w1
      else write_rows db now (wb_queue w1) (w1\<lparr>wb_queue := []\<rparr>))"

definition stop :: "(nat \<Rightarrow> 'r list \<Rightarrow> bool) \<Rightarrow> time \<Rightarrow> 'r wtrace \<Rightarrow> 'r wtrace" where
  "stop db now w = retry_due db now True (flush db now w)"

definition pending_rows :: "('r, 'z) wbuf_scheme \<Rightarrow> int" where
  "pending_rows w = int (length (wb_queue w)) + wb_retry_rows w"

definition saturated :: "('r, 'z) wbuf_scheme \<Rightarrow> bool" where
  "saturated w = (pending_rows w \<ge> wb_max_pending w)"

definition new_buffer :: "nat \<Rightarrow> int \<Rightarrow> 'r wtrace" where
  "new_buffer max_size max_pending =
     \<lparr>wb_max_size = max_size, wb_max_pending = max_pending, wb_queue = [], wb_retry = [],
      wb_retry_rows = 0, wb_dropped = 0, tr_accepted = [], tr_written = [], tr_lost = [], tr_calls = 0\<rparr>"

section \<open>Concurrent steps\<close>

text \<open>
  The state and the batches that are in some thread's hands. A step is one lock-protected
  section, or the insert with the bookkeeping that follows it.
\<close>

type_synonym 'r wb_state = "'r wtrace \<times> 'r batch multiset"

inductive wb_step :: "'r wb_state \<Rightarrow> 'r wb_state \<Rightarrow> bool" where
  Accept: "length (wb_queue w @ objs) < wb_max_size w \<or> wb_queue w @ objs = [] \<Longrightarrow>
     wb_step (w, fl) (w\<lparr>tr_accepted := tr_accepted w @ objs, wb_queue := wb_queue w @ objs\<rparr>, fl)"
| AcceptFull: "length (wb_queue w @ objs) \<ge> wb_max_size w \<Longrightarrow> wb_queue w @ objs \<noteq> [] \<Longrightarrow>
     wb_step (w, fl) (w\<lparr>tr_accepted := tr_accepted w @ objs, wb_queue := []\<rparr>,
                      fl + {#new_batch (wb_queue w @ objs)#})"
| TakeQueue: "wb_queue w \<noteq> [] \<Longrightarrow>
     wb_step (w, fl) (w\<lparr>wb_queue := []\<rparr>, fl + {#new_batch (wb_queue w)#})"
| TakeDue: "ds = filter (due force now) (wb_retry w) \<Longrightarrow>
     wb_step (w, fl)
       (w\<lparr>wb_retry := filter (\<lambda>b. \<not> due force now b) (wb_retry w),
          wb_retry_rows := wb_retry_rows w - sum_list (map (\<lambda>b. int (length (bt_rows b))) ds)\<rparr>,
        fl + mset ds)"
| InsertOk:
     "wb_step (w, fl + {#b#})
        (w\<lparr>tr_calls := tr_calls w + 1, tr_written := tr_written w @ bt_rows b\<rparr>, fl)"
| InsertFail:
     "wb_step (w, fl + {#b#}) (requeue now b (w\<lparr>tr_calls := tr_calls w + 1\<rparr>), fl)"

inductive_cases wb_stepE: "wb_step s s'"

section \<open>Invariant\<close>

text \<open>
  Every accepted row is in exactly one place, the row counter of the retry queue is right, the
  drop counter counts the lost rows, and the retry queue keeps its bound up to one batch.
\<close>

definition places :: "'r wtrace \<Rightarrow> 'r batch multiset \<Rightarrow> 'r multiset" where
  "places w fl = mset (wb_queue w) + mset (rows_of (wb_retry w)) + mset (tr_written w)
     + mset (tr_lost w) + (\<Sum>b\<in>#fl. mset (bt_rows b))"

definition wb_ok :: "'r wb_state \<Rightarrow> bool" where
  "wb_ok s = (case s of (w, fl) \<Rightarrow>
     mset (tr_accepted w) = places w fl \<and>
     wb_retry_rows w = int (length (rows_of (wb_retry w))) \<and>
     wb_dropped w = int (length (tr_lost w)) \<and>
     (wb_retry_rows w \<le> wb_max_pending w \<or> length (wb_retry w) \<le> 1) \<and>
     (\<forall>b \<in> set (wb_retry w). 0 < bt_attempts b \<and> bt_attempts b < MAX_ATTEMPTS))"

lemma rows_of_simps [simp]:
  "rows_of [] = []" "rows_of (b # bs) = bt_rows b @ rows_of bs" "rows_of (bs @ cs) = rows_of bs @ rows_of cs"
  by (simp_all add: rows_of_def)

lemma bt_rows_new [simp]: "bt_rows (new_batch rows) = rows"
  by (simp add: new_batch_def)

lemma sum_rows: "sum_list (map (\<lambda>b. int (length (bt_rows b))) bs) = int (length (rows_of bs))"
  by (induction bs) auto

lemma rows_filter_mset:
  "mset (rows_of (filter (\<lambda>b. \<not> P b) bs)) + mset (rows_of (filter P bs)) = mset (rows_of bs)"
  by (induction bs) (auto simp: add_ac)

lemma rows_filter_length:
  "length (rows_of (filter (\<lambda>b. \<not> P b) bs)) + length (rows_of (filter P bs)) = length (rows_of bs)"
  by (induction bs) auto

lemma sum_mset_rows: "(\<Sum>b\<in>#mset bs. mset (bt_rows b)) = mset (rows_of bs)"
  by (induction bs) (auto simp: add_ac)

lemma shed_facts:
  "shed cap rows bs = (rows', keep, overflow) \<Longrightarrow> rows = int (length (rows_of bs)) \<Longrightarrow>
   overflow @ keep = bs \<and> rows' = int (length (rows_of keep)) \<and> (rows' \<le> cap \<or> length keep \<le> 1)"
proof (induction cap rows bs arbitrary: rows' keep overflow rule: shed.induct)
  case (1 cap rows b c bs)
  show ?case
  proof (cases "rows > cap")
    case True
    obtain r k ov where rec: "shed cap (rows - int (length (bt_rows b))) (c # bs) = (r, k, ov)"
      by (cases "shed cap (rows - int (length (bt_rows b))) (c # bs)") auto
    have "rows - int (length (bt_rows b)) = int (length (rows_of (c # bs)))" using "1.prems"(2) by simp
    note IH = "1.IH" [OF True rec this]
    have "rows' = r" "keep = k" "overflow = b # ov" using "1.prems"(1) True rec by simp_all
    with IH show ?thesis by auto
  next
    case False
    with "1.prems" have "rows' = rows" "keep = b # c # bs" "overflow = []" by simp_all
    with "1.prems"(2) False show ?thesis by simp
  qed
qed simp_all

lemma defer_batchD:
  "defer_batch now b = Some b' \<Longrightarrow> bt_rows b' = bt_rows b \<and> bt_attempts b' = bt_attempts b + 1
     \<and> bt_attempts b' < MAX_ATTEMPTS \<and> bt_next_at b' \<le> now + RETRY_CAP
     \<and> now + RETRY_BASE \<le> bt_next_at b'"
  by (auto simp: defer_batch_def Let_def RETRY_BASE_def RETRY_CAP_def split: if_splits)

lemma requeue_ok [keeps]:
  assumes "wb_ok (w, fl + {#b#})"
  shows "wb_ok (requeue now b w, fl)"
proof (cases "defer_batch now b")
  case None
  with assms show ?thesis
    by (auto simp: requeue_def drop_batches_def wb_ok_def places_def add_ac)
next
  case (Some b')
  note d = defer_batchD [OF Some]
  obtain rows keep overflow where
    sh: "shed (wb_max_pending w) (wb_retry_rows w + int (length (bt_rows b'))) (wb_retry w @ [b'])
      = (rows, keep, overflow)"
    by (cases "shed (wb_max_pending w) (wb_retry_rows w + int (length (bt_rows b'))) (wb_retry w @ [b'])") auto
  have r: "wb_retry_rows w + int (length (bt_rows b')) = int (length (rows_of (wb_retry w @ [b'])))"
    using assms by (simp add: wb_ok_def)
  note s = shed_facts [OF sh r]
  have split: "rows_of overflow @ rows_of keep = rows_of (wb_retry w) @ bt_rows b"
    using s d by (metis rows_of_simps append_Nil2)
  then have m: "mset (rows_of overflow) + mset (rows_of keep) = mset (rows_of (wb_retry w)) + mset (bt_rows b)"
    by (metis mset_append)
  have att: "\<forall>x \<in> set keep. 0 < bt_attempts x \<and> bt_attempts x < MAX_ATTEMPTS"
  proof
    fix x
    assume "x \<in> set keep"
    then have "x \<in> set (wb_retry w @ [b'])" using s by (metis Un_iff set_append)
    then show "0 < bt_attempts x \<and> bt_attempts x < MAX_ATTEMPTS"
      using assms d by (auto simp: wb_ok_def)
  qed
  have "requeue now b w = drop_batches overflow (w\<lparr>wb_retry := keep, wb_retry_rows := rows\<rparr>)"
    using Some sh by (simp add: requeue_def drop_batches_def Let_def)
  moreover have "mset (tr_accepted w) = mset (wb_queue w) + (mset (rows_of overflow) + mset (rows_of keep))
      + mset (tr_written w) + mset (tr_lost w) + (\<Sum>b\<in>#fl. mset (bt_rows b))"
    using assms m by (simp add: wb_ok_def places_def add_ac)
  moreover have "int (length (rows_of keep)) \<le> wb_max_pending w \<or> length keep \<le> 1" using s by auto
  ultimately show ?thesis
    using assms s(1) att by (auto simp: wb_ok_def drop_batches_def places_def add_ac)
qed

lemma wb_step_ok [keeps]: "wb_step s s' \<Longrightarrow> wb_ok s \<Longrightarrow> wb_ok s'"
proof (induction rule: wb_step.induct)
  case (TakeDue ds force now w fl)
  let ?P = "due force now"
  have "mset (rows_of (wb_retry w)) = mset (rows_of (filter (\<lambda>b. \<not> ?P b) (wb_retry w))) + mset (rows_of ds)"
    using rows_filter_mset [of ?P "wb_retry w"] TakeDue by simp
  moreover have "length (rows_of (wb_retry w)) = length (rows_of (filter (\<lambda>b. \<not> ?P b) (wb_retry w))) + length (rows_of ds)"
    using rows_filter_length [of ?P "wb_retry w"] TakeDue by simp
  moreover have "length (wb_retry w) \<le> 1 \<longrightarrow> length (filter (\<lambda>b. \<not> ?P b) (wb_retry w)) \<le> 1"
    using length_filter_le [of "\<lambda>b. \<not> ?P b" "wb_retry w"] by linarith
  ultimately show ?case
    using TakeDue by (auto simp: wb_ok_def places_def sum_rows sum_mset_rows add_ac simp del: mset_filter)
next
  case (InsertFail w fl b now)
  then have "wb_ok (w\<lparr>tr_calls := tr_calls w + 1\<rparr>, fl + {#b#})"
    by (auto simp: wb_ok_def places_def)
  then show ?case by (rule requeue_ok)
qed (auto simp: wb_ok_def places_def add_ac)

lemma wb_run_ok: "wb_step\<^sup>*\<^sup>* s s' \<Longrightarrow> wb_ok s \<Longrightarrow> wb_ok s'"
  by (induction rule: rtranclp_induct) (auto dest: wb_step_ok)

section \<open>The operations are runs\<close>

lemma retry_one_step: "wb_step (w, add_mset b fl) (retry_one db now b w, fl)"
proof (cases "db (tr_calls w) (bt_rows b)")
  case True
  then have "retry_one db now b w = w\<lparr>tr_calls := tr_calls w + 1, tr_written := tr_written w @ bt_rows b\<rparr>"
    by (simp add: retry_one_def insert_rows_def Let_def)
  then show ?thesis using InsertOk [of w fl b] by simp
next
  case False
  then have "retry_one db now b w = requeue now b (w\<lparr>tr_calls := tr_calls w + 1\<rparr>)"
    by (simp add: retry_one_def insert_rows_def Let_def)
  then show ?thesis using InsertFail [of w fl b now] by simp
qed

lemma retry_all_run: "wb_step\<^sup>*\<^sup>* (w, mset ds + fl) (fold (retry_one db now) ds w, fl)"
proof (induction ds arbitrary: w)
  case Nil
  then show ?case by simp
next
  case (Cons b ds)
  have "wb_step (w, mset (b # ds) + fl) (retry_one db now b w, mset ds + fl)"
    using retry_one_step [of w b "mset ds + fl"] by simp
  with Cons.IH [of "retry_one db now b w"] show ?case
    by (simp add: converse_rtranclp_into_rtranclp)
qed

lemma write_rows_retry: "objs \<noteq> [] \<Longrightarrow> write_rows db now objs w = retry_one db now (new_batch objs) w"
  by (simp add: write_rows_def retry_one_def)

lemma add_run: "wb_step\<^sup>*\<^sup>* (w, fl) (add db now objs w, fl)"
proof -
  let ?q = "wb_queue w @ objs"
  let ?w = "w\<lparr>tr_accepted := tr_accepted w @ objs, wb_queue := []\<rparr>"
  show ?thesis
  proof (cases "length ?q < wb_max_size w \<or> ?q = []")
    case True
    then have "add db now objs w = w\<lparr>tr_accepted := tr_accepted w @ objs, wb_queue := ?q\<rparr>"
      by (auto simp: add_def write_rows_def Let_def)
    with Accept [OF True, of fl] show ?thesis by simp
  next
    case False
    then have "add db now objs w = retry_one db now (new_batch ?q) ?w"
      using write_rows_retry [of ?q db now ?w] by (simp add: add_def Let_def)
    moreover have "wb_step (w, fl) (?w, add_mset (new_batch ?q) fl)"
      using AcceptFull [of w objs fl] False by simp
    ultimately show ?thesis
      using retry_one_step [of ?w "new_batch ?q" fl db now]
      by (metis (no_types, lifting) converse_rtranclp_into_rtranclp r_into_rtranclp)
  qed
qed

lemma retry_due_run: "wb_step\<^sup>*\<^sup>* (w, fl) (retry_due db now force w, fl)"
proof (cases "wb_retry w = []")
  case True
  then show ?thesis by (simp add: retry_due_def)
next
  case False
  let ?ds = "filter (due force now) (wb_retry w)"
  let ?w = "w\<lparr>wb_retry := filter (\<lambda>b. \<not> due force now b) (wb_retry w),
      wb_retry_rows := wb_retry_rows w - sum_list (map (\<lambda>b. int (length (bt_rows b))) ?ds)\<rparr>"
  have "wb_step (w, fl) (?w, fl + mset ?ds)" by (rule TakeDue) simp
  moreover have "wb_step\<^sup>*\<^sup>* (?w, mset ?ds + fl) (fold (retry_one db now) ?ds ?w, fl)"
    by (rule retry_all_run)
  moreover have "retry_due db now force w = fold (retry_one db now) ?ds ?w"
    using False by (simp add: retry_due_def Let_def)
  ultimately show ?thesis by (simp add: add.commute converse_rtranclp_into_rtranclp)
qed

lemma flush_run: "wb_step\<^sup>*\<^sup>* (w, fl) (flush db now w, fl)"
proof -
  let ?w1 = "retry_due db now False w"
  let ?w2 = "?w1\<lparr>wb_queue := []\<rparr>"
  have r: "wb_step\<^sup>*\<^sup>* (w, fl) (?w1, fl)" by (rule retry_due_run)
  show ?thesis
  proof (cases "wb_queue ?w1 = []")
    case True
    with r show ?thesis by (simp add: flush_def)
  next
    case False
    have "wb_step (?w1, fl) (?w2, add_mset (new_batch (wb_queue ?w1)) fl)"
      using TakeQueue [OF False, of fl] by simp
    moreover have "wb_step (?w2, add_mset (new_batch (wb_queue ?w1)) fl)
        (retry_one db now (new_batch (wb_queue ?w1)) ?w2, fl)"
      by (rule retry_one_step)
    moreover have "flush db now w = retry_one db now (new_batch (wb_queue ?w1)) ?w2"
      using False write_rows_retry [OF False] by (simp add: flush_def Let_def)
    ultimately show ?thesis using r by (metis (no_types, lifting) rtranclp.rtrancl_into_rtrancl)
  qed
qed

lemma stop_run: "wb_step\<^sup>*\<^sup>* (w, fl) (stop db now w, fl)"
  unfolding stop_def using flush_run retry_due_run by (rule rtranclp_trans)

section \<open>The contract of a row store\<close>

locale row_store =
  fixes put :: "'r list \<Rightarrow> 'w \<Rightarrow> 'w"
    and good :: "'w \<Rightarrow> bool"
    and rows :: "'w \<Rightarrow> 'r multiset"
  assumes put_good: "good w \<Longrightarrow> good (put rs w)"
    and put_rows: "good w \<Longrightarrow> rows (put rs w) = rows w + mset rs"
begin

lemma puts_good: "good w \<Longrightarrow> good (fold put rss w)"
  by (induction rss arbitrary: w) (simp_all add: put_good)

lemma puts_rows: "good w \<Longrightarrow> rows (fold put rss w) = rows w + mset (concat rss)"
  by (induction rss arbitrary: w) (simp_all add: put_good put_rows add_ac)

end

lemma accepted_insert [simp]: "tr_accepted (snd (insert_rows db rs w)) = tr_accepted w"
  by (simp add: insert_rows_def Let_def)

lemma accepted_requeue [simp]: "tr_accepted (requeue now b w) = tr_accepted w"
  by (simp add: requeue_def drop_batches_def Let_def split: option.split prod.split)

lemma accepted_write [simp]: "tr_accepted (write_rows db now rs w) = tr_accepted w"
  by (simp add: write_rows_def insert_rows_def Let_def)

lemma accepted_add [simp]: "tr_accepted (add db now rs w) = tr_accepted w @ rs"
  by (simp add: add_def Let_def)

abbreviation wb_good :: "'r wtrace \<Rightarrow> bool" where
  "wb_good w \<equiv> wb_ok (w, {#})"

text \<open>The rows the buffer has kept: queued, waiting for a retry, or written; and with them those counted as dropped.\<close>

definition wb_kept :: "'r wtrace \<Rightarrow> 'r multiset" where
  "wb_kept w = mset (wb_queue w) + mset (rows_of (wb_retry w)) + mset (tr_written w)"

definition wb_rows :: "'r wtrace \<Rightarrow> 'r multiset" where
  "wb_rows w = wb_kept w + mset (tr_lost w)"

lemma wb_rows_accepted: "wb_good w \<Longrightarrow> wb_rows w = mset (tr_accepted w)"
  by (simp add: wb_ok_def wb_rows_def wb_kept_def places_def)

interpretation buffered: row_store "add db now" wb_good wb_rows for db now
proof unfold_locales
  show good: "wb_good (add db now rs w)" if "wb_good w" for rs :: "'a list" and w
    using add_run that by (rule wb_run_ok)
  show "wb_rows (add db now rs w) = wb_rows w + mset rs" if "wb_good w" for rs :: "'a list" and w
    using that good [OF that, of rs] by (simp add: wb_rows_accepted)
qed

text \<open>
  What an addition drops: batches that were waiting before, from the oldest on, and never a row
  that it adds, as the batch with these rows is the last of the retry queue. It drops only when
  the queue was full and the insert failed.
\<close>

lemma shed_oldest: "shed cap rows (bs @ [c]) = (r, keep, ov) \<Longrightarrow> \<exists>k. ov = take k bs"
proof (induction bs arbitrary: rows r keep ov)
  case (Cons b bs)
  obtain x xs where x: "bs @ [c] = x # xs" by (cases "bs @ [c]") auto
  obtain r1 keep1 ov1 where s1: "shed cap (rows - int (length (bt_rows b))) (bs @ [c]) = (r1, keep1, ov1)" by (metis prod_cases3)
  obtain k where "ov1 = take k bs" using Cons.IH [OF s1] by blast
  then show ?case using Cons.prems s1 x
    by (cases "rows > cap") (auto intro: exI [of _ "Suc k"] exI [of _ 0])
qed simp

lemma add_drops_oldest:
  "\<exists>k. tr_lost (add db now objects w) = tr_lost w @ rows_of (take k (wb_retry w))
     \<and> (k = 0 \<or> wb_max_size w \<le> length (wb_queue w @ objects) \<and> \<not> db (tr_calls w) (wb_queue w @ objects))"
proof (cases "wb_max_size w \<le> length (wb_queue w @ objects) \<and> wb_queue w @ objects \<noteq> [] \<and> \<not> db (tr_calls w) (wb_queue w @ objects)")
  case True
  let ?q = "wb_queue w @ objects"
  let ?w1 = "w\<lparr>tr_accepted := tr_accepted w @ objects, wb_queue := [], tr_calls := tr_calls w + 1\<rparr>"
  obtain c where c: "defer_batch now (new_batch ?q) = Some c"
    by (simp add: defer_batch_def new_batch_def MAX_ATTEMPTS_def Let_def)
  obtain r keep ov where sh: "shed (wb_max_pending w) (wb_retry_rows w + int (length (bt_rows c))) (wb_retry w @ [c]) = (r, keep, ov)"
    by (metis prod_cases3)
  obtain k where k: "ov = take k (wb_retry w)" using shed_oldest [OF sh] by blast
  have "add db now objects w = requeue now (new_batch ?q) ?w1"
    using True by (auto simp: add_def write_rows_def insert_rows_def Let_def)
  then have "tr_lost (add db now objects w) = tr_lost w @ rows_of (take k (wb_retry w))"
    using c sh k by (auto simp: requeue_def drop_batches_def Let_def)
  then show ?thesis using True by blast
next
  case False
  then have "tr_lost (add db now objects w) = tr_lost w"
    by (auto simp: add_def write_rows_def insert_rows_def Let_def)
  then show ?thesis by (intro exI [of _ 0]) simp
qed

lemma rows_take: "mset (rows_of (take k bs)) \<subseteq># mset (rows_of bs)"
  by (metis append_take_drop_id mset_append mset_subset_eq_add_left rows_of_simps(3))

lemma add_keeps:
  assumes "wb_good w" and "tr_lost (add db now objects w) = tr_lost w @ rows_of (take k (wb_retry w))"
  shows "wb_kept (add db now objects w) + mset (rows_of (take k (wb_retry w))) = wb_kept w + mset objects"
    and "mset objects \<subseteq># wb_kept (add db now objects w)"
proof -
  let ?old = "mset (rows_of (take k (wb_retry w)))"
  show eq: "wb_kept (add db now objects w) + ?old = wb_kept w + mset objects"
    using buffered.put_rows [OF assms(1), of db now objects] assms(2) by (simp add: wb_rows_def add_ac)
  have "mset (rows_of (wb_retry w)) \<subseteq># wb_kept w"
    unfolding wb_kept_def by (simp add: add.assoc subset_mset.add_increasing)
  with rows_take have "?old \<subseteq># wb_kept w" by (rule subset_mset.order_trans)
  then obtain rest where rest: "wb_kept w = ?old + rest" by (auto simp: mset_subset_eq_exists_conv)
  have "wb_kept (add db now objects w) = rest + mset objects" using eq unfolding rest by (simp add: add_ac)
  then show "mset objects \<subseteq># wb_kept (add db now objects w)" by simp
qed

lemma new_buffer_ok: "wb_good (new_buffer a b)"
  by (simp add: new_buffer_def wb_ok_def places_def)

section \<open>Properties\<close>

text \<open>
  C2: in every interleaving of the threads that use the write buffer, every accepted row is in
  exactly one place: the queue, the retry queue, some thread's hands, the database, or among
  the rows counted as dropped; the two counters are right; and the retry queue stays within
  \<open>max_pending\<close> rows, except for a single batch that is larger.
\<close>

theorem rows_conserved:
  assumes "wb_step\<^sup>*\<^sup>* (new_buffer max_size max_pending, {#}) (w, fl)"
  shows "mset (tr_accepted w) = mset (wb_queue w) + mset (rows_of (wb_retry w)) + mset (tr_written w)
      + mset (tr_lost w) + (\<Sum>b\<in>#fl. mset (bt_rows b))
    \<and> wb_retry_rows w = int (length (rows_of (wb_retry w)))
    \<and> wb_dropped w = int (length (tr_lost w))
    \<and> (if length (wb_retry w) \<le> 1 then True else wb_retry_rows w \<le> wb_max_pending w)"
  using wb_run_ok [OF assms new_buffer_ok] by (auto simp: wb_ok_def places_def)

theorem rows_conserved_witness:
  "let w = add (\<lambda>k _. k = 1) 0 [3, 4 :: nat] (add (\<lambda>k _. k = 1) 0 [1, 2] (new_buffer 2 100)) in
   mset (tr_accepted w) = mset (wb_queue w) + mset (rows_of (wb_retry w)) + mset (tr_written w)
     + mset (tr_lost w) \<and> tr_accepted w = [1, 2, 3, 4] \<and> tr_written w = [3, 4] \<and> wb_retry_rows w = 2"
proof -
  let ?w1 = "add (\<lambda>k _. k = 1) 0 [1, 2 :: nat] (new_buffer 2 100)"
  let ?w = "add (\<lambda>k _. k = 1) 0 [3, 4] ?w1"
  have "wb_step\<^sup>*\<^sup>* (new_buffer 2 100, {#}) (?w, {#})"
    by (rule rtranclp_trans [OF add_run add_run])
  from rows_conserved [OF this] show ?thesis
    by (simp add: Let_def)
       (simp add: add_def new_buffer_def write_rows_def insert_rows_def requeue_def defer_batch_def
          new_batch_def MAX_ATTEMPTS_def Let_def)
qed

text \<open>
  C37: the operations \<open>add\<close>, \<open>_flush\<close>, \<open>_retry_due\<close> and \<open>stop\<close> are runs of the concurrent steps,
  whatever batches other threads hold meanwhile; so what holds in all interleavings holds
  of them.
\<close>

theorem operations_are_runs:
  "wb_step\<^sup>*\<^sup>* (w, fl) (add db now objects w, fl) \<and> wb_step\<^sup>*\<^sup>* (w, fl) (flush db now w, fl)
   \<and> wb_step\<^sup>*\<^sup>* (w, fl) (retry_due db now force w, fl) \<and> wb_step\<^sup>*\<^sup>* (w, fl) (stop db now w, fl)"
  by (intro conjI add_run flush_run retry_due_run stop_run)

text \<open>A batch whose insert fails at time \<open>t\<close> and then each time it is due, \<open>n\<close> times in all.\<close>

fun failing :: "time \<Rightarrow> 'r list \<Rightarrow> nat \<Rightarrow> 'r batch option" where
  "failing t rows 0 = Some ((new_batch rows)\<lparr>bt_next_at := t\<rparr>)"
| "failing t rows (Suc n) =
     (case failing t rows n of None \<Rightarrow> None | Some b \<Rightarrow> defer_batch (bt_next_at b) b)"

lemma failing_Some:
  "n < 100 \<Longrightarrow> failing t rows n = Some \<lparr>bt_rows = rows, bt_attempts = n,
     bt_next_at = t + (\<Sum>k<n. min (sec 2 * 2 ^ k) (sec 60))\<rparr>"
  by (induction n) (simp_all add: new_batch_def defer_batch_def MAX_ATTEMPTS_def RETRY_BASE_def RETRY_CAP_def Let_def)

lemma failing_None: "100 \<le> n \<Longrightarrow> failing t rows n = None"
proof (induction n)
  case (Suc n)
  show ?case
  proof (cases "n = 99")
    case True
    have f: "failing t rows 99 = Some \<lparr>bt_rows = rows, bt_attempts = 99,
        bt_next_at = t + (\<Sum>k<99. min (sec 2 * 2 ^ k) (sec 60))\<rparr>"
      by (rule failing_Some) simp
    have "failing t rows (Suc 99) = None"
      unfolding failing.simps f by (simp add: defer_batch_def MAX_ATTEMPTS_def Let_def)
    with True show ?thesis by simp
  qed (use Suc in simp)
qed simp

lemma backoff_sum: "(\<Sum>k<5 + m. min (sec 2 * 2 ^ k) (sec 60)) = sec (62 + 60 * int m)"
proof (induction m)
  case 0
  show ?case by (simp add: eval_nat_numeral)
next
  case (Suc m)
  have "(1 :: int) \<le> 2 ^ m" by simp
  moreover have "(2 :: int) ^ (5 + m) = 32 * 2 ^ m" by (simp add: power_add)
  ultimately have "(60 :: int) \<le> 2 * 2 ^ (5 + m)" by linarith
  then have "min (sec 2 * 2 ^ (5 + m)) (sec 60) = sec 60" by simp
  then show ?case unfolding add_Suc_right sum.lessThan_Suc Suc by simp
qed

text \<open>
  A batch is given up only at its 100th failed insert. Before that it waits 2, 4, 8, 16, 32
  and then 60 seconds after each failure, so it survives at least 5702 seconds of outage.
\<close>

theorem batch_survives_outage:
  "failing t rows n =
     (if n < 100 then Some \<lparr>bt_rows = rows, bt_attempts = n,
        bt_next_at = t + (\<Sum>k<n. min (sec 2 * 2 ^ k) (sec 60))\<rparr> else None)
   \<and> (\<Sum>k<99. min (sec 2 * 2 ^ k) (sec 60)) = sec 5702"
  using failing_Some [of n t rows] failing_None [of n t rows] backoff_sum [of 94] by simp

text \<open>With a database that works, retrying writes the batches and keeps the rest.\<close>

lemma retry_all_good:
  "\<forall>k \<ge> tr_calls w. \<forall>rs. db k rs \<Longrightarrow>
   fold (retry_one db now) ds w =
     w\<lparr>tr_calls := tr_calls w + length ds, tr_written := tr_written w @ rows_of ds\<rparr>"
proof (induction ds arbitrary: w)
  case Nil
  then show ?case by simp
next
  case (Cons b ds)
  let ?w = "w\<lparr>tr_calls := tr_calls w + 1, tr_written := tr_written w @ bt_rows b\<rparr>"
  have "retry_one db now b w = ?w"
    using Cons.prems by (simp add: retry_one_def insert_rows_def Let_def)
  moreover have "\<forall>k \<ge> tr_calls ?w. \<forall>rs. db k rs" using Cons.prems by simp
  ultimately show ?case using Cons.IH [of ?w] by simp
qed

lemma retry_due_good:
  assumes "\<forall>k \<ge> tr_calls w. \<forall>rs. db k rs"
  shows "wb_retry (retry_due db now force w) = filter (\<lambda>b. \<not> due force now b) (wb_retry w)
    \<and> wb_queue (retry_due db now force w) = wb_queue w
    \<and> tr_lost (retry_due db now force w) = tr_lost w
    \<and> tr_written (retry_due db now force w) = tr_written w @ rows_of (filter (due force now) (wb_retry w))
    \<and> tr_calls w \<le> tr_calls (retry_due db now force w)"
  using assms by (simp add: retry_due_def retry_all_good Let_def)

lemma flush_good:
  assumes "\<forall>k \<ge> tr_calls w. \<forall>rs. db k rs"
  shows "wb_retry (flush db now w) = filter (\<lambda>b. \<not> due False now b) (wb_retry w)
    \<and> wb_queue (flush db now w) = [] \<and> tr_lost (flush db now w) = tr_lost w
    \<and> tr_written (flush db now w)
      = tr_written w @ rows_of (filter (due False now) (wb_retry w)) @ wb_queue w
    \<and> tr_calls w \<le> tr_calls (flush db now w)"
proof -
  let ?w1 = "retry_due db now False w"
  have r: "wb_queue ?w1 = wb_queue w" "tr_lost ?w1 = tr_lost w" "tr_calls w \<le> tr_calls ?w1"
      "wb_retry ?w1 = filter (\<lambda>b. \<not> due False now b) (wb_retry w)"
      "tr_written ?w1 = tr_written w @ rows_of (filter (due False now) (wb_retry w))"
    using retry_due_good [OF assms, of now False] by auto
  then have "db (tr_calls ?w1) rs" for rs using assms by blast
  with r show ?thesis
    by (simp add: flush_def write_rows_def insert_rows_def Let_def)
qed

text \<open>
  Stopping the buffer while the database works writes every row that was queued or waiting
  for a retry, whatever its back-off, and loses none.
\<close>

theorem stop_writes_everything:
  assumes "\<forall>k \<ge> tr_calls w. \<forall>rs. db k rs"
  shows "let w' = stop db now w in
    wb_queue w' = [] \<and> wb_retry w' = [] \<and> tr_lost w' = tr_lost w
    \<and> mset (tr_written w') = mset (tr_written w) + mset (wb_queue w) + mset (rows_of (wb_retry w))"
proof -
  let ?w1 = "flush db now w"
  note f = flush_good [OF assms, of now]
  have "\<forall>k \<ge> tr_calls ?w1. \<forall>rs. db k rs" using assms f by (meson order_trans)
  note r = retry_due_good [OF this, of now True]
  have force: "due True now b" for b by (simp add: due_def)
  have "mset (rows_of (wb_retry w)) = mset (rows_of (filter (\<lambda>b. \<not> due False now b) (wb_retry w)))
      + mset (rows_of (filter (due False now) (wb_retry w)))"
    by (rule rows_filter_mset [symmetric])
  with f r show ?thesis by (simp add: stop_def Let_def force add_ac)
qed

theorem stop_writes_everything_witness:
  "let w = add (\<lambda>k _. 0 < k) 0 [1, 2 :: nat] (new_buffer 2 100); w' = stop (\<lambda>k _. 0 < k) 0 w in
   tr_written w = [] \<and> wb_retry w' = [] \<and> mset (tr_written w') = {#1, 2#}"
proof -
  let ?w = "add (\<lambda>k _. 0 < k) 0 [1, 2 :: nat] (new_buffer 2 100)"
  have w: "tr_calls ?w = 1" "tr_written ?w = []" "wb_queue ?w = []" "rows_of (wb_retry ?w) = [1, 2]"
    by (simp_all add: add_def new_buffer_def write_rows_def insert_rows_def requeue_def
        defer_batch_def new_batch_def MAX_ATTEMPTS_def Let_def)
  then have "\<forall>k \<ge> tr_calls ?w. \<forall>rs :: nat list. 0 < k" by simp
  from stop_writes_everything [OF this, of 0] w show ?thesis by (simp add: Let_def)
qed

text \<open>
  The check \<open>saturated\<close> before accepting does not by itself keep rows from being dropped.
  When a buffer that is not saturated takes a delivery that fills the queue, the insert fails,
  and the retry queue then exceeds \<open>max_pending\<close>, its oldest batch is dropped, though all of
  its rows had been reported as accepted.
\<close>

theorem unsaturated_add_can_drop:
  assumes "wb_ok (w, {#})" and "\<not> saturated w" and "wb_queue w = []" and "wb_retry w = b # bs"
    and "objects \<noteq> []" and "wb_max_size w \<le> length objects"
    and "wb_max_pending w < wb_retry_rows w + int (length objects)" and "\<not> db (tr_calls w) objects"
  shows "\<exists>more. tr_lost (add db now objects w) = tr_lost w @ bt_rows b @ more"
proof -
  let ?w1 = "w\<lparr>tr_accepted := tr_accepted w @ objects, wb_queue := [], tr_calls := tr_calls w + 1\<rparr>"
  obtain c where c: "defer_batch now (new_batch objects) = Some c"
    by (simp add: defer_batch_def new_batch_def MAX_ATTEMPTS_def Let_def)
  have rows: "bt_rows c = objects" using defer_batchD [OF c] by simp
  have "add db now objects w = requeue now (new_batch objects) ?w1"
    using assms(3,5,6,8) by (simp add: add_def write_rows_def insert_rows_def Let_def)
  moreover obtain rws keep overflow where
    sh: "shed (wb_max_pending w) (wb_retry_rows w + int (length objects)) (wb_retry w @ [c])
      = (rws, keep, overflow)"
    by (cases "shed (wb_max_pending w) (wb_retry_rows w + int (length objects)) (wb_retry w @ [c])") auto
  moreover have "\<exists>ov. overflow = b # ov"
    using sh assms(4,7) by (cases "bs @ [c]") (auto split: prod.splits)
  ultimately show ?thesis
    using c rows by (auto simp: requeue_def drop_batches_def Let_def)
qed

theorem unsaturated_add_can_drop_witness:
  "let w = add (\<lambda>_ _. False) 0 [1, 2 :: nat] (new_buffer 2 3) in
   \<not> saturated w \<and> (\<exists>more. tr_lost (add (\<lambda>_ _. False) 0 [3, 4] w) = [1, 2] @ more)"
proof -
  let ?w = "add (\<lambda>_ _. False) 0 [1, 2 :: nat] (new_buffer 2 3)"
  have ok: "wb_ok (?w, {#})" by (rule wb_run_ok [OF add_run new_buffer_ok])
  have w: "wb_retry ?w = [\<lparr>bt_rows = [1, 2], bt_attempts = 1, bt_next_at = 2000000\<rparr>]"
      "\<not> saturated ?w" "wb_queue ?w = []" "wb_max_size ?w = 2" "wb_max_pending ?w = 3"
      "wb_retry_rows ?w = 2" "tr_lost ?w = []"
    by (simp_all add: add_def new_buffer_def write_rows_def insert_rows_def requeue_def
        defer_batch_def new_batch_def MAX_ATTEMPTS_def Let_def saturated_def pending_rows_def
        RETRY_BASE_def RETRY_CAP_def)
  from unsaturated_add_can_drop [OF ok w(2,3,1), of "[3, 4]" "\<lambda>_ _. False" 0] w
  show ?thesis by (simp add: Let_def)
qed

section \<open>A row the database never takes\<close>

definition once_a_minute :: "(nat \<Rightarrow> 'r list \<Rightarrow> bool) \<Rightarrow> nat \<Rightarrow> 'r wtrace \<Rightarrow> 'r wtrace" where
  "once_a_minute db n w = fold (flush db) (map (\<lambda>i. sec (60 * int (Suc i))) [0..<n]) w"

lemma once_a_minute_simps [simp]:
  "once_a_minute db 0 w = w"
  "once_a_minute db (Suc n) w = flush db (sec (60 * int (Suc n))) (once_a_minute db n w)"
  by (simp_all add: once_a_minute_def)

lemma requeue_single:
  "wb_retry w = [] \<Longrightarrow> wb_retry_rows w = 0 \<Longrightarrow> defer_batch now b = Some b' \<Longrightarrow>
   requeue now b w = w\<lparr>wb_retry := [b'], wb_retry_rows := int (length (bt_rows b))\<rparr>"
  using defer_batchD [of now b b'] by (simp add: requeue_def)

lemma flush_single_fails:
  assumes "wb_queue w = []" and "wb_retry w = [b]" and "wb_retry_rows w = int (length (bt_rows b))"
    and "bt_next_at b \<le> now" and "\<not> db (tr_calls w) (bt_rows b)"
  shows "flush db now w = requeue now b (w\<lparr>wb_retry := [], wb_retry_rows := 0, tr_calls := tr_calls w + 1\<rparr>)"
proof -
  have "wb_queue (requeue now b (w\<lparr>wb_retry := [], wb_retry_rows := 0, tr_calls := tr_calls w + 1\<rparr>)) = []"
    using assms(1) by (auto simp: requeue_def drop_batches_def Let_def split: option.split prod.split)
  then show ?thesis
    using assms by (simp add: flush_def retry_due_def due_def retry_one_def insert_rows_def)
qed

definition holding :: "'r list \<Rightarrow> 'r wtrace \<Rightarrow> 'r wtrace" where
  "holding objs w = w\<lparr>wb_queue := objs, tr_accepted := objs\<rparr>"

lemma refused_batch_waits:
  assumes "\<forall>k. \<not> db k objs" and "objs \<noteq> []" and "n < 99"
  shows "\<exists>next calls. next \<le> sec (60 * int (Suc n)) \<and>
    once_a_minute db n (flush db 0 (holding objs (new_buffer max_size max_pending))) =
    (new_buffer max_size max_pending)\<lparr>wb_retry := [\<lparr>bt_rows = objs, bt_attempts = Suc n, bt_next_at = next\<rparr>],
      wb_retry_rows := int (length objs), tr_accepted := objs, tr_calls := calls\<rparr>"
  using assms(3)
proof (induction n)
  case 0
  let ?w = "(new_buffer max_size max_pending)\<lparr>tr_accepted := objs, tr_calls := 1\<rparr>"
  have "defer_batch 0 (new_batch objs) = Some \<lparr>bt_rows = objs, bt_attempts = Suc 0, bt_next_at = sec 2\<rparr>"
    by (simp add: defer_batch_def new_batch_def MAX_ATTEMPTS_def Let_def RETRY_BASE_def RETRY_CAP_def)
  from requeue_single [OF _ _ this, of ?w] have
    "requeue 0 (new_batch objs) ?w = ?w\<lparr>wb_retry := [\<lparr>bt_rows = objs, bt_attempts = Suc 0, bt_next_at = sec 2\<rparr>],
       wb_retry_rows := int (length objs)\<rparr>" by (simp add: new_buffer_def)
  moreover have "flush db 0 (holding objs (new_buffer max_size max_pending)) = requeue 0 (new_batch objs) ?w"
    using assms(1,2) by (simp add: flush_def retry_due_def holding_def new_buffer_def write_rows_def insert_rows_def Let_def)
  ultimately show ?case by (intro exI [of _ "sec 2"] exI [of _ 1]) (simp add: new_buffer_def)
next
  case (Suc n)
  let ?nb = "new_buffer max_size max_pending :: 'a wtrace"
  let ?w = "once_a_minute db n (flush db 0 (holding objs ?nb))" and ?t = "sec (60 * int (Suc n))"
  obtain nxt calls where nxt: "nxt \<le> ?t" and w: "?w =
     ?nb\<lparr>wb_retry := [\<lparr>bt_rows = objs, bt_attempts = Suc n, bt_next_at = nxt\<rparr>],
      wb_retry_rows := int (length objs), tr_accepted := objs, tr_calls := calls\<rparr>"
    using Suc.IH Suc.prems by (meson Suc_lessD)
  let ?b = "\<lparr>bt_rows = objs, bt_attempts = Suc n, bt_next_at = nxt\<rparr>"
  let ?wa = "?w\<lparr>wb_retry := [], wb_retry_rows := 0, tr_calls := tr_calls ?w + 1\<rparr>"
  obtain b' where b': "defer_batch ?t ?b = Some b'" "b' = \<lparr>bt_rows = objs, bt_attempts = Suc (Suc n), bt_next_at = bt_next_at b'\<rparr>"
    using Suc.prems by (simp add: defer_batch_def MAX_ATTEMPTS_def Let_def)
  have le: "bt_next_at b' \<le> sec (60 * int (Suc (Suc n)))"
    using defer_batchD [OF b'(1)] by (simp add: RETRY_CAP_def algebra_simps)
  have "flush db ?t ?w = requeue ?t ?b ?wa"
    by (rule flush_single_fails) (use w nxt assms(1) in \<open>simp_all add: new_buffer_def\<close>)
  also have "\<dots> = ?wa\<lparr>wb_retry := [b'], wb_retry_rows := int (length objs)\<rparr>"
    using requeue_single [OF _ _ b'(1), of ?wa] by simp
  finally have "once_a_minute db (Suc n) (flush db 0 (holding objs ?nb)) =
     ?nb\<lparr>wb_retry := [b'], wb_retry_rows := int (length objs), tr_accepted := objs, tr_calls := calls + 1\<rparr>"
    unfolding once_a_minute_simps by (simp add: w)
  with le b'(2) show ?case by metis
qed

text \<open>
  A batch that the database never takes as a whole is never split: after its hundredth attempt
  every one of its rows is lost and counted as dropped, and none is written.
\<close>

lemma refused_batch_is_lost:
  fixes max_size :: nat and max_pending :: int
  assumes "\<forall>k. \<not> db k objs" and "objs \<noteq> []"
  defines "w \<equiv> once_a_minute db 99 (flush db 0 (holding objs (new_buffer max_size max_pending)))"
  shows "tr_accepted w = objs \<and> tr_written w = [] \<and> tr_lost w = objs
    \<and> wb_dropped w = int (length objs) \<and> pending_rows w = 0"
proof -
  let ?nb = "new_buffer max_size max_pending :: 'a wtrace"
  let ?v = "once_a_minute db 98 (flush db 0 (holding objs ?nb))"
  obtain nxt calls where nxt: "nxt \<le> sec (60 * int (Suc 98))" and v: "?v =
     ?nb\<lparr>wb_retry := [\<lparr>bt_rows = objs, bt_attempts = Suc 98, bt_next_at = nxt\<rparr>],
      wb_retry_rows := int (length objs), tr_accepted := objs, tr_calls := calls\<rparr>"
    using refused_batch_waits [where db = db and objs = objs and n = 98 and max_size = max_size and max_pending = max_pending, OF assms(1,2)] by auto
  let ?b = "\<lparr>bt_rows = objs, bt_attempts = Suc 98, bt_next_at = nxt\<rparr>"
  have "once_a_minute db (Suc 98) (flush db 0 (holding objs ?nb)) = flush db (sec (60 * int (Suc 98))) ?v"
    by (rule once_a_minute_simps(2))
  also have "\<dots> = requeue (sec (60 * int (Suc 98))) ?b (?v\<lparr>wb_retry := [], wb_retry_rows := 0, tr_calls := tr_calls ?v + 1\<rparr>)"
    by (rule flush_single_fails) (use v nxt assms(1) in \<open>simp_all add: new_buffer_def\<close>)
  finally have "w = requeue (sec (60 * int (Suc 98))) ?b (?v\<lparr>wb_retry := [], wb_retry_rows := 0, tr_calls := tr_calls ?v + 1\<rparr>)"
    by (simp add: w_def)
  moreover have "defer_batch (sec (60 * int (Suc 98))) ?b = None" by (simp add: defer_batch_def MAX_ATTEMPTS_def)
  ultimately have "w = drop_batches [?b] (?v\<lparr>wb_retry := [], wb_retry_rows := 0, tr_calls := tr_calls ?v + 1\<rparr>)"
    by (simp add: requeue_def)
  then show ?thesis unfolding v by (simp add: drop_batches_def new_buffer_def pending_rows_def)
qed

lemma holding_nothing: "holding [] (new_buffer max_size max_pending) = new_buffer max_size max_pending"
  by (simp add: holding_def new_buffer_def)

lemma add_holding:
  "length (q @ objs) < max_size \<Longrightarrow>
   add db now objs (holding q (new_buffer max_size max_pending)) = holding (q @ objs) (new_buffer max_size max_pending)"
  by (simp add: add_def holding_def new_buffer_def Let_def)

lemma saturated_holding:
  "saturated (holding q (new_buffer max_size max_pending)) \<longleftrightarrow> max_pending \<le> int (length q)"
  by (simp add: saturated_def pending_rows_def holding_def new_buffer_def)

end
