(* ===== verification/Ingest.thy ===== *)
theory Ingest
  imports LogParse WasLink DaemonStatus WriteBuf
begin

text \<open>
  \<open>was/app/routers/ingest.py\<close>: registering a device, its heartbeat and its log entries.

  The device table is the list of its rows; \<open>query(...).first()\<close> is the first row that
  matches. A request that the schema refuses (\<open>LogBatch\<close> takes at most 500 entries) ends with
  422 before the handler. The digest MD5 and the formatting of a time are parameters.
\<close>

section \<open>Devices\<close>

record device =
  dv_id :: nat
  dv_key :: string
  dv_hostname :: string
  dv_ip :: "string option"
  dv_os :: "string option"
  dv_kernel :: "string option"
  dv_proftpd :: "string option"
  dv_state :: string
  dv_fields :: status_dict
  dv_last_heartbeat :: "time option"
  dv_update_requested :: bool

record registration =
  rg_key :: string
  rg_hostname :: string
  rg_ip :: "string option"
  rg_os :: "string option"
  rg_kernel :: "string option"
  rg_proftpd :: "string option"
  rg_version :: "string option"

definition with_key :: "string \<Rightarrow> device \<Rightarrow> bool" where
  "with_key k d = (dv_key d = k)"

definition find_device :: "string \<Rightarrow> device list \<Rightarrow> device option" where
  "find_device k db = List.find (with_key k) db"

text \<open>\<open>if req.x: device.x = req.x\<close>\<close>

definition if_given :: "string option \<Rightarrow> string option \<Rightarrow> string option" where
  "if_given new old = (if truthy new then new else old)"

definition refresh :: "registration \<Rightarrow> time \<Rightarrow> device \<Rightarrow> device" where
  "refresh req now d =
     d\<lparr>dv_hostname := rg_hostname req, dv_ip := if_given (rg_ip req) (dv_ip d),
       dv_os := if_given (rg_os req) (dv_os d), dv_kernel := if_given (rg_kernel req) (dv_kernel d),
       dv_proftpd := if_given (rg_proftpd req) (dv_proftpd d),
       dv_fields := (if truthy (rg_version req)
                     then AList.update ''daemon_version'' (VStr (the (rg_version req))) (dv_fields d)
                     else dv_fields d),
       dv_last_heartbeat := Some now\<rparr>"

definition new_device :: "nat \<Rightarrow> registration \<Rightarrow> time \<Rightarrow> device" where
  "new_device i req now =
     \<lparr>dv_id = i, dv_key = rg_key req, dv_hostname = rg_hostname req, dv_ip = rg_ip req,
      dv_os = rg_os req, dv_kernel = rg_kernel req, dv_proftpd = rg_proftpd req,
      dv_state = ''pending'',
      dv_fields = [(''daemon_version'', case rg_version req of None \<Rightarrow> VNone | Some v \<Rightarrow> VStr v),
                   (''daemon_status'', VStr ''unknown''), (''buffer_lines'', VNum 0),
                   (''queue_size'', VNum 0), (''consecutive_failures'', VNum 0)],
      dv_last_heartbeat = Some now, dv_update_requested = False\<rparr>"

record registered =
  rd_device_id :: nat
  rd_state :: string
  rd_registered :: bool

definition register_device :: "nat \<Rightarrow> registration \<Rightarrow> time \<Rightarrow> device list \<Rightarrow> registered \<times> device list" where
  "register_device next_id req now db =
     (case find_device (rg_key req) db of
        Some d \<Rightarrow>
          (\<lparr>rd_device_id = dv_id d, rd_state = dv_state d, rd_registered = False\<rparr>,
           update_first (with_key (rg_key req)) (refresh req now) db)
      | None \<Rightarrow>
          (\<lparr>rd_device_id = next_id, rd_state = ''pending'', rd_registered = True\<rparr>,
           db @ [new_device next_id req now]))"

section \<open>Heartbeat\<close>

record beat =
  hb_key :: string
  hb_hostname :: "string option"
  hb_ip :: "string option"
  hb_fields :: status_dict

definition STATUS_FIELDS :: "string list" where
  "STATUS_FIELDS = [''daemon_version'', ''daemon_status'', ''last_send_time'', ''buffer_lines'',
     ''queue_size'', ''consecutive_failures'', ''error_message'', ''cpu_percent'', ''mem_mb'',
     ''disk_free_gb'', ''daemon_uptime'']"

definition store_fields :: "status_dict \<Rightarrow> status_dict \<Rightarrow> status_dict" where
  "store_fields req stored =
     foldl (\<lambda>d k. if dict_get req k \<noteq> VNone then AList.update k (dict_get req k) d else d)
       stored STATUS_FIELDS"

definition beat_device :: "beat \<Rightarrow> time \<Rightarrow> device \<Rightarrow> device" where
  "beat_device req now d =
     d\<lparr>dv_last_heartbeat := Some now,
       dv_hostname := (if truthy (hb_hostname req) then the (hb_hostname req) else dv_hostname d),
       dv_ip := if_given (hb_ip req) (dv_ip d),
       dv_fields := store_fields (hb_fields req) (dv_fields d),
       dv_update_requested := False\<rparr>"

text \<open>The answer is the device's state and whether it carries the update request.\<close>

definition heartbeat :: "beat \<Rightarrow> time \<Rightarrow> device list \<Rightarrow> (string \<times> bool) http \<times> device list" where
  "heartbeat req now db =
     (case find_device (hb_key req) db of
        None \<Rightarrow> (Inl (HTTPException 404 ''Device not found''), db)
      | Some d \<Rightarrow> (Inr (dv_state d, dv_update_requested d),
                   update_first (with_key (hb_key req)) (beat_device req now) db))"

section \<open>Log entries\<close>

definition VALID_ACTIONS :: "string list" where
  "VALID_ACTIONS = [''upload'', ''download'', ''delete'', ''rename'', ''login'', ''logout'',
     ''mkdir'', ''rmdir'', ''cwd_fail'', ''client_error'']"

record log_row =
  lr_device :: nat
  lr_entry :: log_entry
  lr_hash :: string

abbreviation or_empty :: "string option \<Rightarrow> string" where
  "or_empty s \<equiv> or_else s []"

definition row_key :: "(time \<Rightarrow> string) \<Rightarrow> nat \<Rightarrow> log_entry \<Rightarrow> string" where
  "row_key fmt dev e =
     join_with (CHR ''|'') [show_nat dev, fmt (e_log_time e), or_empty (e_username e), e_action e,
       or_empty (e_file_path e), show_int (e_file_size e), or_empty (e_session_id e), e_client_ip e]"

definition row_hash :: "(string \<Rightarrow> string) \<Rightarrow> (time \<Rightarrow> string) \<Rightarrow> nat \<Rightarrow> log_entry \<Rightarrow> string" where
  "row_hash md5 fmt dev e = md5 (row_key fmt dev e)"

text \<open>The loop over the batch: accepted, rejected, and the rows to store.\<close>

fun sort_entries ::
  "(string \<Rightarrow> string) \<Rightarrow> (time \<Rightarrow> string) \<Rightarrow> nat \<Rightarrow> log_entry list \<Rightarrow> nat \<times> nat \<times> log_row list" where
  "sort_entries md5 fmt dev [] = (0, 0, [])"
| "sort_entries md5 fmt dev (e # es) =
     (let (acc, rej, rows) = sort_entries md5 fmt dev es in
      if \<not> List.member VALID_ACTIONS (e_action e) then (acc, rej + 1, rows)
      else if e_action e = ''cwd_fail'' \<and> List.member [Some ''/'', Some '''', None] (e_file_path e)
      then (acc, rej + 1, rows)
      else (acc + 1, rej, \<lparr>lr_device = dev, lr_entry = e, lr_hash = row_hash md5 fmt dev e\<rparr> # rows))"

definition ingest_logs ::
  "(string \<Rightarrow> string) \<Rightarrow> (time \<Rightarrow> string) \<Rightarrow> (nat \<Rightarrow> log_row list \<Rightarrow> bool) \<Rightarrow> time \<Rightarrow> string \<Rightarrow> log_entry list \<Rightarrow>
   device list \<Rightarrow> log_row wtrace \<Rightarrow> (nat \<times> nat) http \<times> log_row wtrace" where
  "ingest_logs md5 fmt dbok now key logs db w =
     (if 500 < length logs then (Inl (HTTPException 422 ''logs''), w)
      else case find_device key db of
        None \<Rightarrow> (Inl (HTTPException 401 ''Unknown device key''), w)
      | Some d \<Rightarrow>
          if dv_state d = ''disabled'' then (Inl (HTTPException 403 ''Device disabled''), w)
          else if saturated w then (Inl (HTTPException 503 ''write buffer saturated''), w)
          else let (acc, rej, rows) = sort_entries md5 fmt (dv_id d) logs in
            (Inr (acc, rej), if rows \<noteq> [] then add dbok now rows w else w))"

text \<open>The answer as the daemon's client sees it.\<close>

definition answer :: "(nat \<times> nat) http \<Rightarrow> attempt" where
  "answer r = (case r of
     Inl e \<Rightarrow> Status (code e) (JsonObj [(''detail'', JStr (detail e))])
   | Inr (acc, rej) \<Rightarrow> Status 200 (JsonObj [(''accepted'', JInt (int acc)), (''rejected'', JInt (int rej))]))"

section \<open>The device table\<close>

lemma find_refresh:
  "find_device k (update_first (with_key k) (refresh req now) db) = map_option (refresh req now) (find_device k db)"
  unfolding find_device_def by (rule update_first_find) (simp add: with_key_def refresh_def)

lemma find_device_Some: "find_device k db = Some d \<Longrightarrow> d \<in> set db \<and> dv_key d = k"
  by (auto simp: find_device_def with_key_def find_Some_iff)

lemma find_device_None: "find_device k db = None \<longleftrightarrow> k \<notin> dv_key ` set db"
  by (auto simp: find_device_def with_key_def find_None_iff)

lemma find_append: "List.find P (xs @ ys) = (case List.find P xs of None \<Rightarrow> List.find P ys | Some x \<Rightarrow> Some x)"
  by (induction xs) auto

definition table_ok :: "device list \<Rightarrow> bool" where
  "table_ok db \<longleftrightarrow> distinct (map dv_key db) \<and> distinct (map dv_id db)"

lemma register_device_ok [keeps]:
  "table_ok db \<Longrightarrow> \<forall>d \<in> set db. dv_id d < next_id \<Longrightarrow>
   table_ok (snd (register_device next_id req now db))"
  by (auto simp: table_ok_def register_device_def update_first_keys refresh_def with_key_def
      new_device_def find_device_None split: option.split)

lemma heartbeat_ok [keeps]: "table_ok db \<Longrightarrow> table_ok (snd (heartbeat req now db))"
  by (auto simp: table_ok_def heartbeat_def update_first_keys beat_device_def with_key_def
      split: option.split)

section \<open>Fields of a heartbeat\<close>

lemma dict_get_alist_update: "dict_get (AList.update k v d) k' = (if k' = k then v else dict_get d k')"
  by (simp add: dict_get_def update_conv')

lemma foldl_store:
  "distinct ks \<Longrightarrow>
   dict_get (foldl (\<lambda>d k. if dict_get req k \<noteq> VNone then AList.update k (dict_get req k) d else d) d0 ks) k
   = (if k \<in> set ks \<and> dict_get req k \<noteq> VNone then dict_get req k else dict_get d0 k)"
  by (induction ks arbitrary: d0) (auto simp: dict_get_alist_update)

lemma store_fields_get:
  "dict_get (store_fields req d) k =
     (if k \<in> set STATUS_FIELDS \<and> dict_get req k \<noteq> VNone then dict_get req k else dict_get d k)"
  unfolding store_fields_def by (rule foldl_store) (simp add: STATUS_FIELDS_def)

section \<open>Rows\<close>

lemma sort_entries_counts:
  "sort_entries md5 fmt dev es = (acc, rej, rows) \<Longrightarrow> acc = length rows \<and> acc + rej = length es"
  by (induction es arbitrary: acc rej rows) (auto split: prod.splits if_splits)

definition storable :: "log_entry \<Rightarrow> bool" where
  "storable e \<longleftrightarrow> List.member VALID_ACTIONS (e_action e) \<and>
     \<not> (e_action e = ''cwd_fail'' \<and> List.member [Some ''/'', Some '''', None] (e_file_path e))"

lemma sort_entries_rows:
  "snd (snd (sort_entries md5 fmt dev es)) =
     map (\<lambda>e. \<lparr>lr_device = dev, lr_entry = e, lr_hash = row_hash md5 fmt dev e\<rparr>) (filter storable es)"
  by (induction es) (auto simp: storable_def split: prod.splits)

section \<open>The row key can be read back\<close>

lemma dec_val_append: "dec_val a (s @ t) = dec_val (dec_val a s) t"
  by (induction s arbitrary: a) auto

lemma digit_val_of: "d < 10 \<Longrightarrow> digit_val (char_of (48 + d)) = d"
  by (simp add: digit_val_def)

lemma dec_val_show: "dec_val 0 (show_nat n) = n"
proof (induction n rule: show_nat.induct)
  case (1 n)
  show ?case
  proof (cases "n < 10")
    case True
    then show ?thesis by (simp add: show_nat.simps [of n] digit_val_of)
  next
    case False
    then have "dec_val 0 (show_nat n) = 10 * (n div 10) + digit_val (char_of (48 + n mod 10))"
      using 1 by (simp add: show_nat.simps [of n] dec_val_append)
    also have "\<dots> = n" by (simp add: digit_val_of)
    finally show ?thesis .
  qed
qed

lemma show_nat_digits: "c \<in> set (show_nat n) \<Longrightarrow> is_digit c"
proof (induction n rule: show_nat.induct)
  case (1 n)
  then show ?case
    by (cases "n < 10") (auto simp: show_nat.simps [of n] is_digit_def Let_def)
qed

lemma show_nat_chars: "CHR ''|'' \<notin> set (show_nat n)" "CHR ''-'' \<notin> set (show_nat n)"
  using show_nat_digits [of "CHR ''|''" n] show_nat_digits [of "CHR ''-''" n] by (auto simp: is_digit_def)

lemma show_nat_inject: "show_nat m = show_nat n \<longleftrightarrow> m = n"
  by (metis dec_val_show)

lemma show_int_inject: "show_int i = show_int j \<longleftrightarrow> i = j"
proof
  assume eq: "show_int i = show_int j"
  have "CHR ''-'' # show_nat a \<noteq> show_nat b" for a b
    using show_nat_chars(2) [of b] by (metis list.set_intros(1))
  then show "i = j"
    using eq by (auto simp: show_int_def show_nat_inject split: if_splits dest: sym)
qed simp

lemma show_int_chars: "CHR ''|'' \<notin> set (show_int i)"
  using show_nat_chars by (auto simp: show_int_def)

definition fields_ok :: "log_entry \<Rightarrow> bool" where
  "fields_ok e \<longleftrightarrow> CHR ''|'' \<notin> set (or_empty (e_username e)) \<and> CHR ''|'' \<notin> set (e_action e)
     \<and> CHR ''|'' \<notin> set (or_empty (e_file_path e)) \<and> CHR ''|'' \<notin> set (or_empty (e_session_id e))
     \<and> CHR ''|'' \<notin> set (e_client_ip e)"

lemma row_key_split:
  "fields_ok e \<Longrightarrow> CHR ''|'' \<notin> set (fmt (e_log_time e)) \<Longrightarrow>
   split_on (CHR ''|'') (row_key fmt dev e) =
     [show_nat dev, fmt (e_log_time e), or_empty (e_username e), e_action e,
      or_empty (e_file_path e), show_int (e_file_size e), or_empty (e_session_id e), e_client_ip e]"
  unfolding row_key_def
  by (rule split_join) (simp_all add: fields_ok_def show_nat_chars show_int_chars)

section \<open>Properties\<close>

text \<open>
  Two log entries get the same deduplication key exactly when they agree on device, second,
  user, action, path, size, session and client, as long as their fields hold no separator. So
  with a digest that does not collide a resent entry is recognised and no other is.
\<close>

theorem row_key_identifies:
  assumes "fields_ok e" and "fields_ok e'" and "\<forall>t. CHR ''|'' \<notin> set (fmt t)"
  shows "row_key fmt dev e = row_key fmt dev' e' \<longleftrightarrow>
    dev = dev' \<and> fmt (e_log_time e) = fmt (e_log_time e')
    \<and> or_empty (e_username e) = or_empty (e_username e') \<and> e_action e = e_action e'
    \<and> or_empty (e_file_path e) = or_empty (e_file_path e') \<and> e_file_size e = e_file_size e'
    \<and> or_empty (e_session_id e) = or_empty (e_session_id e') \<and> e_client_ip e = e_client_ip e'"
  (is "?l \<longleftrightarrow> ?r")
proof
  assume ?l
  then have "split_on (CHR ''|'') (row_key fmt dev e) = split_on (CHR ''|'') (row_key fmt dev' e')"
    by simp
  with assms show ?r by (simp add: row_key_split show_nat_inject show_int_inject)
next
  assume ?r
  then show ?l by (simp add: row_key_def)
qed

theorem row_key_identifies_witness:
  "row_key show_int 1 sample_entry \<noteq> row_key show_int 11 (sample_entry\<lparr>e_file_size := 5\<rparr>)"
proof -
  have ok: "fields_ok sample_entry" "fields_ok (sample_entry\<lparr>e_file_size := 5\<rparr>)"
    by (simp_all add: fields_ok_def sample_entry_def base_entry_def sample_pass_def sample_fields_def)
  have "\<forall>t. CHR ''|'' \<notin> set (show_int t)" by (simp add: show_int_chars)
  from row_key_identifies [OF ok this, of 1 11] show ?thesis by simp
qed

text \<open>
  Registering again with the same key, with whatever other data, finds the same device: it
  keeps its id and its state (a disabled device stays disabled), no second row appears, and
  ids and keys stay unique.
\<close>

theorem register_again_same_device:
  assumes "table_ok db" and "\<forall>d \<in> set db. dv_id d < next_id" and "rg_key req2 = rg_key req1"
    and "register_device next_id req1 now1 db = (r1, db1)"
    and "register_device next_id2 req2 now2 db1 = (r2, db2)"
  shows "rd_device_id r2 = rd_device_id r1 \<and> \<not> rd_registered r2 \<and> rd_state r2 = rd_state r1
    \<and> table_ok db2 \<and> map dv_key db2 = map dv_key db1 \<and> map dv_state db2 = map dv_state db1"
proof -
  let ?k = "rg_key req1"
  have ok1: "table_ok db1" using register_device_ok [OF assms(1,2), of req1 now1] assms(4) by simp
  have "\<exists>d. find_device ?k db1 = Some d \<and> dv_id d = rd_device_id r1 \<and> dv_state d = rd_state r1"
  proof (cases "find_device ?k db")
    case None
    then have "find_device ?k db1 = Some (new_device next_id req1 now1)"
      using assms(4) by (auto simp: register_device_def find_device_def find_append with_key_def new_device_def)
    moreover have "rd_device_id r1 = next_id" "rd_state r1 = ''pending''"
      using assms(4) None by (auto simp: register_device_def)
    ultimately show ?thesis by (simp add: new_device_def)
  next
    case (Some d)
    then have "find_device ?k db1 = Some (refresh req1 now1 d)"
      using assms(4) by (auto simp: register_device_def find_refresh)
    with Some assms(4) show ?thesis by (auto simp: register_device_def refresh_def)
  qed
  then obtain d where d: "find_device ?k db1 = Some d" "dv_id d = rd_device_id r1" "dv_state d = rd_state r1"
    by blast
  then have r2: "r2 = \<lparr>rd_device_id = dv_id d, rd_state = dv_state d, rd_registered = False\<rparr>"
    and db2: "db2 = update_first (with_key ?k) (refresh req2 now2) db1"
    using assms(3,5) by (auto simp: register_device_def)
  have "map dv_key db2 = map dv_key db1" "map dv_id db2 = map dv_id db1" "map dv_state db2 = map dv_state db1"
    unfolding db2 by (simp_all add: update_first_keys refresh_def)
  with ok1 r2 d show ?thesis by (simp add: table_ok_def)
qed

definition sample_registration :: registration where
  "sample_registration = \<lparr>rg_key = ''k1'', rg_hostname = ''ftp1'', rg_ip = None, rg_os = None,
     rg_kernel = None, rg_proftpd = None, rg_version = None\<rparr>"

theorem register_again_same_device_witness:
  "let (r1, db1) = register_device 7 sample_registration 0 [];
       (r2, db2) = register_device 8 (sample_registration\<lparr>rg_hostname := ''ftp2''\<rparr>) 5 db1
   in rd_device_id r2 = 7 \<and> \<not> rd_registered r2 \<and> map dv_key db2 = [''k1'']"
proof -
  let ?q = "sample_registration\<lparr>rg_hostname := ''ftp2''\<rparr>"
  obtain r1 db1 where 1: "register_device 7 sample_registration 0 [] = (r1, db1)"
    by (cases "register_device 7 sample_registration 0 []")
  obtain r2 db2 where 2: "register_device 8 ?q 5 db1 = (r2, db2)" by (cases "register_device 8 ?q 5 db1")
  have "rd_device_id r1 = 7" "map dv_key db1 = [''k1'']"
    using 1 by (auto simp: register_device_def find_device_def new_device_def sample_registration_def)
  with register_again_same_device [OF _ _ _ 1 2] 1 2 show ?thesis
    by (simp add: table_ok_def sample_registration_def)
qed

text \<open>
  A series of status payloads as the daemon builds them, each stored by the heartbeat handler.
\<close>

fun stored_beats :: "status_dict list \<Rightarrow> status_dict \<times> status_dict \<Rightarrow> status_dict \<times> status_dict" where
  "stored_beats [] (row, prev) = (row, prev)"
| "stored_beats (cur # cs) (row, prev) =
     (let (payload, prev') = collect_status False cur prev
      in stored_beats cs (store_fields payload row, prev'))"

lemma stored_beats_append:
  "stored_beats (cs @ [cur]) s =
     (let (row, prev) = stored_beats cs s; (payload, prev') = collect_status False cur prev
      in (store_fields payload row, prev'))"
  by (induction cs s rule: stored_beats.induct) (simp_all split: prod.splits)

lemma collect_payload:
  "collect_status False cur prev = (payload, prev') \<Longrightarrow> distinct (map fst cur) \<Longrightarrow>
   dict_get prev' k = (case map_of payload k of Some v \<Rightarrow> v | None \<Rightarrow> dict_get prev k)"
proof -
  assume c: "collect_status False cur prev = (payload, prev')" and d: "distinct (map fst cur)"
  let ?d = "filter (\<lambda>(k, v). is_dirty k v (dict_get prev k)) cur"
  have "payload = ?d" "prev' = dict_update prev ?d"
    using c by (auto simp: collect_status_def Let_def split: if_splits)
  with dict_get_update [OF distinct_keys_filter [OF d]] show ?thesis by simp
qed

lemma stored_beats_track:
  "\<forall>cur \<in> set cs. distinct (map fst cur) \<Longrightarrow>
   \<forall>k \<in> set STATUS_FIELDS. dict_get prev k \<noteq> VNone \<longrightarrow> dict_get row k = dict_get prev k \<Longrightarrow>
   stored_beats cs (row, prev) = (row', prev') \<Longrightarrow>
   \<forall>k \<in> set STATUS_FIELDS. dict_get prev' k \<noteq> VNone \<longrightarrow> dict_get row' k = dict_get prev' k"
proof (induction cs arbitrary: row prev)
  case Nil
  then show ?case by simp
next
  case (Cons cur cs)
  obtain payload p1 where c: "collect_status False cur prev = (payload, p1)"
    by (cases "collect_status False cur prev")
  have g: "dict_get p1 k = (case map_of payload k of Some v \<Rightarrow> v | None \<Rightarrow> dict_get prev k)" for k
    using collect_payload [OF c] Cons.prems(1) by simp
  have "\<forall>k \<in> set STATUS_FIELDS. dict_get p1 k \<noteq> VNone \<longrightarrow>
      dict_get (store_fields payload row) k = dict_get p1 k"
  proof (intro ballI impI)
    fix k
    assume k: "k \<in> set STATUS_FIELDS" "dict_get p1 k \<noteq> VNone"
    show "dict_get (store_fields payload row) k = dict_get p1 k"
    proof (cases "map_of payload k")
      case None
      then have "dict_get payload k = VNone" by (simp add: dict_get_def)
      with None k Cons.prems(2) show ?thesis by (simp add: g store_fields_get)
    next
      case (Some v)
      then have "dict_get payload k = v" by (simp add: dict_get_def)
      with Some k show ?thesis by (simp add: g store_fields_get)
    qed
  qed
  with Cons.IH [of p1 "store_fields payload row"] Cons.prems(1,3) c show ?case by simp
qed

text \<open>
  C38: as long as every heartbeat since the start of the daemon has arrived, the device row of the server is
  right up to the threshold for every status field that has a value now, after each heartbeat and
  from whatever row it started. (A heartbeat that is lost is not sent again, and a field cannot go
  back to having no value: \<open>heartbeat_cannot_clear\<close>.)
\<close>

theorem server_row_close:
  assumes "\<forall>cur \<in> set (cs @ [now]). distinct (map fst cur)"
    and "stored_beats (cs @ [now]) (row0, []) = (row, prev)"
    and "(k, v) \<in> set now" and "v \<noteq> VNone" and "List.member STATUS_FIELDS k"
  shows "close_to k v (dict_get row k)"
proof -
  obtain r0 p0 where h: "stored_beats cs (row0, []) = (r0, p0)" by (cases "stored_beats cs (row0, [])")
  obtain payload where c: "collect_status False now p0 = (payload, prev)"
    using assms(2) by (auto simp: stored_beats_append h split: prod.splits)
  have cl: "close_to k v (dict_get prev k)" using collect_prev [OF c _ assms(3)] assms(1) by simp
  then have "dict_get prev k \<noteq> VNone"
    using assms(4) by (auto simp: close_to_def split: option.splits)
  moreover have "\<forall>k \<in> set STATUS_FIELDS. dict_get prev k \<noteq> VNone \<longrightarrow> dict_get row k = dict_get prev k"
    by (rule stored_beats_track [OF assms(1) _ assms(2)]) (simp add: dict_get_def)
  ultimately show ?thesis using cl assms(5) by simp
qed

theorem server_row_close_witness:
  "let cur = (\<lambda>q. current_status ''running'' None 0 q 0 None sample_readings);
       row = fst (stored_beats [cur 7, cur 0] ([], []))
   in close_to ''queue_size'' (VNum 0) (dict_get row ''queue_size'')"
proof -
  define cur where "cur = (\<lambda>q. current_status ''running'' None 0 q 0 None sample_readings)"
  have "close_to ''queue_size'' (VNum 0) (dict_get (fst (stored_beats [cur 7, cur 0] ([], []))) ''queue_size'')"
    by (rule server_row_close [of "[cur 7]" "cur 0" "[]" _ "snd (stored_beats [cur 7, cur 0] ([], []))"])
       (simp_all add: cur_def STATUS_FIELDS_def, simp add: current_status_def)
  then show ?thesis by (simp add: cur_def Let_def)
qed

text \<open>
  The heartbeat cannot clear a field. The daemon sends \<open>error_message: None\<close> when an error
  is over, the handler skips \<open>None\<close>, and the row keeps the old message through any number of
  heartbeats.
\<close>

theorem heartbeat_cannot_clear:
  assumes "list_all (\<lambda>req. dict_get (hb_fields req) k = VNone) reqs"
  shows "dict_get (dv_fields (foldl (\<lambda>d req. beat_device req now d) dev reqs)) k = dict_get (dv_fields dev) k"
  using assms
proof (induction reqs arbitrary: dev)
  case (Cons req reqs)
  then show ?case by (simp add: beat_device_def store_fields_get)
qed simp

theorem heartbeat_cannot_clear_witness:
  "let dev = (new_device 1 sample_registration 0)\<lparr>dv_fields := [(''error_message'', VMsg MsgDisabled)]\<rparr>;
       req = \<lparr>hb_key = ''k1'', hb_hostname = None, hb_ip = None,
              hb_fields = current_status ''running'' None 0 0 0 None sample_readings\<rparr>
   in dict_get (dv_fields (foldl (\<lambda>d req. beat_device req 9 d) dev [req, req])) ''error_message''
      = VMsg MsgDisabled"
proof -
  let ?dev = "(new_device 1 sample_registration 0)\<lparr>dv_fields := [(''error_message'', VMsg MsgDisabled)]\<rparr>"
  let ?req = "\<lparr>hb_key = ''k1'', hb_hostname = None, hb_ip = None,
              hb_fields = current_status ''running'' None 0 0 0 None sample_readings\<rparr>"
  have "list_all (\<lambda>req. dict_get (hb_fields req) ''error_message'' = VNone) [?req, ?req]"
    by (simp add: current_status_def dict_get_def)
  from heartbeat_cannot_clear [OF this, of 9 ?dev] show ?thesis by (simp add: Let_def dict_get_def)
qed

lemma transfer_action_valid:
  "parse_transfer_log zone raw = Some e \<Longrightarrow> List.member VALID_ACTIONS (e_action e)"
  by (auto simp: parse_transfer_log_def action_of_direction_def VALID_ACTIONS_def Let_def
      split: if_splits option.splits)

lemma extended_action_valid:
  "parse_extended_log zone now s raw = (Some e, s') \<Longrightarrow> List.member VALID_ACTIONS (e_action e)"
  by (auto simp: parse_extended_log_def handle_ext_def handle_transfer_reject_def VALID_ACTIONS_def Let_def
      split: if_splits option.splits)

text \<open>
  The server stores every entry the daemon's two parsers produce, except failed changes to
  the root directory: no entry is rejected for its action.
\<close>

theorem parsed_entries_stored:
  assumes "parse_transfer_log zone raw = Some e \<or> fst (parse_extended_log zone now s raw) = Some e"
  shows "sort_entries md5 fmt dev [e] =
    (if e_action e = ''cwd_fail'' \<and> List.member [Some ''/'', Some '''', None] (e_file_path e)
     then (0, 1, [])
     else (1, 0, [\<lparr>lr_device = dev, lr_entry = e, lr_hash = row_hash md5 fmt dev e\<rparr>]))"
proof -
  have "List.member VALID_ACTIONS (e_action e)"
    using assms
  proof
    assume "fst (parse_extended_log zone now s raw) = Some e"
    then have "parse_extended_log zone now s raw = (Some e, snd (parse_extended_log zone now s raw))"
      by (metis prod.collapse)
    then show ?thesis by (rule extended_action_valid)
  qed (rule transfer_action_valid)
  then show ?thesis by simp
qed

theorem parsed_entries_stored_witness:
  "let raw = ext_line sample_fields ''257'' ''-'' ''-'' [] @ [LF];
       e = the (fst (parse_extended_log (\<lambda>_. 0) 0 no_sessions raw))
   in fst (sort_entries id show_int 3 [e]) = 1 \<and> e_action e = ''mkdir''"
proof -
  let ?raw = "ext_line sample_fields ''257'' ''-'' ''-'' [] @ [LF]"
  have "strptime_fixed (x_dt sample_fields) = Some \<lparr>c_year = 2026, c_month = 9, c_day = 1,
      c_hour = 10, c_minute = 11, c_second = 12\<rparr>"
    by (simp add: sample_fields_def sample_time)
  note p = parse_ext_line [OF sample_fields_ok _ _ _ _ _ this, of "''-''" "''-''" "''257''"]
  have f: "bare_ok ''-''" "''257'' \<noteq> []" "list_all is_digit ''257''" "dec_val 0 ''257'' = x_status sample_fields"
    by (simp_all add: bare_ok_def word_ok_def is_space_def is_digit_def Let_def digit_val_def sample_fields_def)
  have "\<exists>e. fst (parse_extended_log (\<lambda>_. 0) 0 no_sessions ?raw) = Some e \<and> e_action e = ''mkdir''"
    unfolding p [OF f(1) f(1) f(2-4)] by (simp add: handle_ext_def Let_def sample_fields_def)
  then obtain e where e: "fst (parse_extended_log (\<lambda>_. 0) 0 no_sessions ?raw) = Some e" "e_action e = ''mkdir''"
    by blast
  have "sort_entries id show_int 3 [e] = (1, 0, [\<lparr>lr_device = 3, lr_entry = e, lr_hash = row_hash id show_int 3 e\<rparr>])"
    using parsed_entries_stored [OF disjI2 [OF e(1)], of id show_int 3] e(2) by (simp del: sort_entries.simps)
  with e show ?thesis by (simp add: Let_def del: sort_entries.simps)
qed

text \<open>
  C12: what the daemon counts as delivered is in the server's books. When the answer to a batch
  makes the client report success, every storable entry of the batch is then a row in the queue,
  in the retry queue, or in the database, and none of them is dropped by the request. What the request may drop are rows
  accepted earlier: the oldest batches of the retry queue, and only when the batch filled the
  queue and its insert failed; they are counted. Any other answer leaves the server as it was.
\<close>

theorem delivered_is_in_the_books:
  assumes "wb_good w" and "ingest_logs md5 fmt dbok now key logs db w = (res, w')"
  shows "if \<exists>r. verdict (answer res) = Posted r
    then wb_good w' \<and> (\<exists>d k. find_device key db = Some d \<and>
      (let rows = map (\<lambda>e. \<lparr>lr_device = dv_id d, lr_entry = e, lr_hash = row_hash md5 fmt (dv_id d) e\<rparr>) (filter storable logs);
           old = rows_of (take k (wb_retry w)) in
       mset rows \<subseteq># wb_kept w' \<and> wb_kept w' + mset old = wb_kept w + mset rows \<and> tr_lost w' = tr_lost w @ old
       \<and> (k = 0 \<or> wb_max_size w \<le> length (wb_queue w @ rows) \<and> \<not> dbok (tr_calls w) (wb_queue w @ rows))))
    else w' = w"
proof (cases "length logs \<le> 500")
  case False
  then have "res = Inl (HTTPException 422 ''logs'')" "w' = w" using assms(2) by (auto simp: ingest_logs_def)
  then show ?thesis by (simp add: answer_def)
next
  case len: True
  show ?thesis
  proof (cases "find_device key db")
    case None
    then have "res = Inl (HTTPException 401 ''Unknown device key'')" "w' = w"
      using assms(2) len by (auto simp: ingest_logs_def)
    then show ?thesis by (simp add: answer_def)
  next
    case (Some d)
    show ?thesis
    proof (cases "dv_state d = ''disabled'' \<or> saturated w")
      case True
      then have "res = Inl (HTTPException 403 ''Device disabled'') \<or>
          res = Inl (HTTPException 503 ''write buffer saturated'')" "w' = w"
        using assms(2) len Some by (auto simp: ingest_logs_def split: if_splits)
      then show ?thesis by (auto simp: answer_def)
    next
      case False
      obtain acc rej rows where se: "sort_entries md5 fmt (dv_id d) logs = (acc, rej, rows)"
        by (cases "sort_entries md5 fmt (dv_id d) logs") auto
      have rows: "rows = map (\<lambda>e. \<lparr>lr_device = dv_id d, lr_entry = e,
          lr_hash = row_hash md5 fmt (dv_id d) e\<rparr>) (filter storable logs)"
        using sort_entries_rows [of md5 fmt "dv_id d" logs] se by simp
      have r: "res = Inr (acc, rej)" "w' = (if rows \<noteq> [] then add dbok now rows w else w)"
        using assms(2) len Some False se by (auto simp: ingest_logs_def)
      have good: "wb_good w'" using buffered.put_good [OF assms(1)] assms(1) by (simp add: r(2))
      have "\<exists>k. mset rows \<subseteq># wb_kept w' \<and> wb_kept w' + mset (rows_of (take k (wb_retry w))) = wb_kept w + mset rows
          \<and> tr_lost w' = tr_lost w @ rows_of (take k (wb_retry w))
          \<and> (k = 0 \<or> wb_max_size w \<le> length (wb_queue w @ rows) \<and> \<not> dbok (tr_calls w) (wb_queue w @ rows))"
      proof (cases "rows = []")
        case False
        obtain k where k: "tr_lost w' = tr_lost w @ rows_of (take k (wb_retry w))"
          "k = 0 \<or> wb_max_size w \<le> length (wb_queue w @ rows) \<and> \<not> dbok (tr_calls w) (wb_queue w @ rows)"
          using add_drops_oldest [of dbok now rows w] False by (auto simp: r(2))
        then show ?thesis using add_keeps [OF assms(1), of dbok now rows k] False by (auto simp: r(2))
      qed (auto simp: r(2) intro: exI [of _ 0])
      with good r(1) Some show ?thesis by (simp add: answer_def rows Let_def)
    qed
  qed
qed

theorem delivered_is_in_the_books_witness:
  "let db = [new_device 4 sample_registration 0];
       e = sample_entry\<lparr>e_action := ''login''\<rparr>;
       w' = snd (ingest_logs id show_int (\<lambda>_ _. False) 0 ''k1'' [e] db (new_buffer 1 100))
   in wb_kept w' = {#\<lparr>lr_device = 4, lr_entry = e, lr_hash = row_hash id show_int 4 e\<rparr>#}"
proof -
  let ?db = "[new_device 4 sample_registration 0]"
  let ?e = "sample_entry\<lparr>e_action := ''login''\<rparr>"
  let ?w = "new_buffer 1 100 :: log_row wtrace"
  obtain res w' where run: "ingest_logs id show_int (\<lambda>_ _. False) 0 ''k1'' [?e] ?db ?w = (res, w')"
    by (cases "ingest_logs id show_int (\<lambda>_ _. False) 0 ''k1'' [?e] ?db ?w")
  have f: "find_device ''k1'' ?db = Some (new_device 4 sample_registration 0)"
    by (simp add: find_device_def with_key_def new_device_def sample_registration_def)
  have st: "storable ?e" by (simp add: storable_def VALID_ACTIONS_def)
  have "res = Inr (1, 0)"
    using run f by (auto simp: ingest_logs_def new_device_def saturated_def pending_rows_def
        new_buffer_def VALID_ACTIONS_def)
  then have "\<exists>r. verdict (answer res) = Posted r" by (simp add: answer_def)
  with delivered_is_in_the_books [OF new_buffer_ok run] f st
  have "wb_kept w' = wb_kept ?w + {#\<lparr>lr_device = 4, lr_entry = ?e, lr_hash = row_hash id show_int 4 ?e\<rparr>#}"
    by (auto simp: new_device_def new_buffer_def)
  with run show ?thesis by (simp add: Let_def wb_kept_def new_buffer_def)
qed

text \<open>
  How the refusals of the server reach the daemon: an unknown device key as "removed", a
  disabled device as "disabled", and a saturated write buffer as a failure to be retried (and
  then kept in the disk buffer).
\<close>

theorem refusals_reach_daemon:
  "let res = fst (ingest_logs md5 fmt dbok now key (take 500 logs) db w) in
   retried (answer res) = (case find_device key db of None \<Rightarrow> False
      | Some d \<Rightarrow> dv_state d \<noteq> ''disabled'' \<and> saturated w)
   \<and> (case verdict (answer res) of
        Removed \<Rightarrow> find_device key db = None
      | Disabled \<Rightarrow> (case find_device key db of None \<Rightarrow> False | Some d \<Rightarrow> dv_state d = ''disabled'')
      | Failed \<Rightarrow> saturated w
      | Posted r \<Rightarrow> reply_int ''accepted'' r + reply_int ''rejected'' r = int (min (length logs) 500))"
proof (cases "find_device key db")
  case None
  then show ?thesis by (simp add: ingest_logs_def answer_def retried_def)
next
  case (Some d)
  obtain acc rej rows where se: "sort_entries md5 fmt (dv_id d) (take 500 logs) = (acc, rej, rows)"
    by (cases "sort_entries md5 fmt (dv_id d) (take 500 logs)") auto
  have "int acc + int rej = int (min (length logs) 500)"
    using sort_entries_counts [OF se] by simp
  with Some se show ?thesis
    by (simp add: ingest_logs_def answer_def retried_def reply_int_def)
qed

end
