(* ===== verification/Columns.thy ===== *)
theory Columns
  imports Ingest
begin

text \<open>
  The types of the entries, from the parsers to the table: what every entry of the daemon's two
  parsers looks like (\<open>entry_typed\<close>), and what the columns of \<open>models.FtpLog\<close> take
  (\<open>fits_columns\<close>). The schema \<open>LogEntry\<close> that stands between the two bounds no length.

  PostgreSQL refuses a value that is longer than its \<open>VARCHAR\<close> (unless the rest is blank), a
  text with a NUL character and an integer outside \<open>BIGINT\<close>; it then refuses the whole \<open>INSERT\<close>
  of the batch.
\<close>

section \<open>The table\<close>

definition fits_text :: "string \<Rightarrow> bool" where
  "fits_text s = (\<not> List.member s (CHR 0x00))"

definition fits_varchar :: "nat \<Rightarrow> string \<Rightarrow> bool" where
  "fits_varchar n s = (fits_text s \<and> list_all (\<lambda>c. c = CHR '' '') (drop n s))"

definition fits_bigint :: "int \<Rightarrow> bool" where
  "fits_bigint i = (- (2 ^ 63) \<le> i \<and> i < 2 ^ 63)"

fun null_or :: "(string \<Rightarrow> bool) \<Rightarrow> string option \<Rightarrow> bool" where
  "null_or P None = True"
| "null_or P (Some s) = P s"

definition fits_columns :: "log_row \<Rightarrow> bool" where
  "fits_columns r =
     (let e = lr_entry r in
      fits_varchar 45 (e_client_ip e) \<and> null_or (fits_varchar 255) (e_username e)
      \<and> fits_varchar 20 (e_action e) \<and> null_or fits_text (e_file_path e) \<and> fits_bigint (e_file_size e)
      \<and> null_or (fits_varchar 10) (e_transfer_type e) \<and> fits_varchar 10 (e_status e)
      \<and> null_or (fits_varchar 50) (e_session_id e) \<and> fits_varchar 32 (lr_hash r))"

section \<open>What the parsers make\<close>

definition canonical :: "string option \<Rightarrow> bool" where
  "canonical p = null_or (\<lambda>s. \<not> has_substring ''//'' s) p"

definition entry_typed :: "log_entry \<Rightarrow> bool" where
  "entry_typed e \<longleftrightarrow>
     List.member VALID_ACTIONS (e_action e) \<and> List.member [''success'', ''fail''] (e_status e)
     \<and> (List.member [''logout'', ''mkdir'', ''rmdir'', ''rename''] (e_action e) \<longrightarrow> e_status e = ''success'')
     \<and> (List.member [''cwd_fail'', ''client_error''] (e_action e) \<longrightarrow> e_status e = ''fail'')
     \<and> List.member [None, Some ''ascii'', Some ''binary''] (e_transfer_type e)
     \<and> (List.member [''upload'', ''download'', ''delete'', ''client_error''] (e_action e) \<longrightarrow> e_username e \<noteq> None)
     \<and> (e_action e = ''login'' \<and> e_status e = ''fail'' \<longrightarrow> truthy (e_username e))
     \<and> canonical (e_file_path e)"

lemma transfer_entry:
  assumes "parse_transfer_log zone raw = Some e"
  shows "List.member [''upload'', ''download'', ''delete''] (e_action e) \<and> e_username e \<noteq> None
    \<and> canonical (e_file_path e) \<and> List.member [Some ''ascii'', Some ''binary''] (e_transfer_type e)
    \<and> List.member [''success'', ''fail''] (e_status e)"
  using assms unfolding parse_transfer_log_def Let_def
  by (auto simp: action_of_direction_def canonical_def norm_path_def squeeze_no_double
      split: if_split_asm option.split_asm)

lemma transfer_typed: "parse_transfer_log zone raw = Some e \<Longrightarrow> entry_typed e"
  using transfer_entry [of zone raw e] by (auto simp: entry_typed_def VALID_ACTIONS_def)

lemma substring_arrow:
  "has_substring ''//'' (a @ '' -> '' @ b) \<longleftrightarrow> has_substring ''//'' a \<or> has_substring ''//'' b"
proof (induction a)
  case Nil
  show ?case by (simp add: starts_with_def)
next
  case (Cons x a)
  then show ?case by (cases a) (auto simp: starts_with_def)
qed

lemma canonical_resolve: "canonical (resolve_path x)"
  by (simp add: resolve_path_def norm_path_def canonical_def squeeze_no_double Let_def split: option.split)

definition renames_canonical :: "sessions \<Rightarrow> bool" where
  "renames_canonical s \<longleftrightarrow> (\<forall>(pid, p, t) \<in> set (rnfr_sessions s). canonical p)"

lemma set_alist_update: "set (AList.update k v d) \<subseteq> insert (k, v) (set d)"
  by (induction d) auto

lemma set_remember: "set (remember now pid v st) \<subseteq> insert (pid, v, now) (set st)"
  using set_alist_update [of pid "(v, now)" st]
  by (auto simp: remember_def Let_def simp del: AList.update.simps dest!: in_set_dropD)

lemma renames_canonical_parse [keeps]:
  assumes "renames_canonical s"
  shows "renames_canonical (snd (parse_extended_log zone now s raw))"
proof -
  have "renames_canonical (snd (handle_ext now e (resolve_path x) x s))" for e x
    using assms set_remember [of now "x_pid x" "resolve_path x" "rnfr_sessions s"] canonical_resolve [of x]
    by (fastforce simp: renames_canonical_def handle_ext_rnfr AList.delete_eq)
  then show ?thesis using assms by (simp add: parse_extended_log_def Let_def split: option.split)
qed

lemma feed_lines_canonical: "renames_canonical (feed_lines zone ls)"
proof (induction ls rule: rev_induct)
  case Nil
  show ?case by (simp add: feed_lines_def no_sessions_def renames_canonical_def)
next
  case (snoc l ls)
  then have "renames_canonical (flush_stale_sessions now (feed_lines zone ls))" for now
    by (auto simp: renames_canonical_def flush_stale_sessions_def flush_stale_store_def)
  then show ?case by (simp add: feed_lines_def keeps split_beta)
qed

lemma canonical_rename:
  assumes "renames_canonical s" and "map_of (rnfr_sessions s) pid = Some (Some p, t)" and "canonical q"
  shows "canonical (Some (p @ '' -> '' @ show_path q))"
proof -
  have "canonical (Some p)" using assms(1) map_of_SomeD [OF assms(2)] by (auto simp: renames_canonical_def)
  moreover have "\<not> has_substring ''//'' (show_path q)"
    using assms(3) by (cases q) (simp_all add: show_path_def canonical_def starts_with_def)
  ultimately show ?thesis unfolding canonical_def null_or.simps substring_arrow by simp
qed

lemma reject_entry:
  assumes "handle_transfer_reject x p b = Some e"
  shows "e_username b \<noteq> None \<and> (\<exists>a. List.member [''client_error'', ''download'', ''upload''] a
    \<and> e = b\<lparr>e_action := a, e_status := ''fail'', e_file_path := p\<rparr>)"
proof -
  define a where "a = (if is_client_error (x_status x) p then ''client_error''
    else if x_command x = ''RETR'' then ''download'' else ''upload'')"
  have "e_username b \<noteq> None" "e = b\<lparr>e_action := a, e_status := ''fail'', e_file_path := p\<rparr>"
    using assms by (auto simp: handle_transfer_reject_def a_def split: if_split_asm)
  then show ?thesis by (intro conjI exI [of _ a]) (simp_all add: a_def)
qed

lemma handle_ext_entry:
  assumes "fst (handle_ext now b p x s) = Some e"
  shows "e = b\<lparr>e_action := ''login''\<rparr> \<or> e = b\<lparr>e_action := ''logout''\<rparr>
    \<or> (\<exists>u. truthy u \<and> e = b\<lparr>e_username := u, e_action := ''login'', e_status := ''fail''\<rparr>)
    \<or> (\<exists>q. e = b\<lparr>e_action := ''rename'', e_file_path := q\<rparr> \<and> (q = p \<or>
         (\<exists>f t. map_of (rnfr_sessions s) (x_pid x) = Some (Some f, t) \<and> q = Some (f @ '' -> '' @ show_path p))))
    \<or> e = b\<lparr>e_action := ''mkdir'', e_file_path := p\<rparr> \<or> e = b\<lparr>e_action := ''rmdir'', e_file_path := p\<rparr>
    \<or> e = b\<lparr>e_action := ''cwd_fail'', e_status := ''fail'', e_file_path := p\<rparr>
    \<or> (e_username b \<noteq> None \<and> (\<exists>a. List.member [''client_error'', ''download'', ''upload''] a
         \<and> e = b\<lparr>e_action := a, e_status := ''fail'', e_file_path := p\<rparr>))"
proof -
  consider "x_command x = ''USER''" | "x_command x = ''PASS''" | "x_command x = ''QUIT''" | "x_command x = ''RNFR''"
    | "x_command x = ''RNTO''" | "x_command x = ''MKD''" | "x_command x = ''RMD''" | "x_command x = ''CWD''"
    | "x_command x = ''RETR''" | "x_command x = ''STOR''"
    | "\<not> List.member [''USER'', ''PASS'', ''QUIT'', ''RNFR'', ''RNTO'', ''MKD'', ''RMD'', ''CWD'', ''RETR'', ''STOR''] (x_command x)"
    by fastforce
  then show ?thesis
  proof cases
    case 2
    then show ?thesis using assms 
      by (cases "x_status x = 230") (fastforce simp: handle_ext_def Let_def split: if_split_asm)+
  next
    case 5
    then show ?thesis using assms by (auto simp: handle_ext_def Let_def truthy_iff split: if_split_asm option.split_asm)
  next
    case 9
    then have "handle_transfer_reject x p b = Some e"
      using assms by (simp add: handle_ext_def Let_def split: if_split_asm)
    then show ?thesis using reject_entry by blast
  next
    case 10
    then have "handle_transfer_reject x p b = Some e"
      using assms by (simp add: handle_ext_def Let_def split: if_split_asm)
    then show ?thesis using reject_entry by blast
  qed (use assms in \<open>simp add: handle_ext_def Let_def split: if_split_asm\<close>)+
qed

lemma handle_ext_typed:
  assumes "fst (handle_ext now (base_entry zone c x) p x s) = Some e" and "renames_canonical s" and "canonical p"
  shows "entry_typed e"
  using handle_ext_entry [OF assms(1)] canonical_rename [OF assms(2) _ assms(3)] assms(3)
  by (auto simp: entry_typed_def base_entry_def VALID_ACTIONS_def canonical_def)

lemma extended_typed:
  assumes "fst (parse_extended_log zone now s raw) = Some e" and "renames_canonical s"
  shows "entry_typed e"
  using assms handle_ext_typed [OF _ assms(2) canonical_resolve]
  by (auto simp: parse_extended_log_def Let_def split: if_splits option.splits)

lemma fixed_words:
  "\<forall>a \<in> set VALID_ACTIONS. fits_varchar 20 a" "\<forall>a \<in> set [''success'', ''fail'']. fits_varchar 10 a"
  "\<forall>a \<in> set [None, Some ''ascii'', Some ''binary'']. null_or (fits_varchar 10) a"
  by (simp_all add: VALID_ACTIONS_def fits_varchar_def fits_text_def)

lemma entry_typedD:
  "entry_typed e \<Longrightarrow> e_action e \<in> set VALID_ACTIONS" "entry_typed e \<Longrightarrow> e_status e \<in> set [''success'', ''fail'']"
  "entry_typed e \<Longrightarrow> e_transfer_type e \<in> set [None, Some ''ascii'', Some ''binary'']"
  by (simp_all only: entry_typed_def List.member_iff)

text \<open>
  C20: every entry that either parser makes, whatever was parsed before, is well typed: its action is
  one the server knows, its status and transfer type are from their lists, an action that only
  succeeds or only fails has that status, the path has no double slash (also after a rename, which
  joins two paths), and a transfer or a failed login names its user. The row made from it fits the
  table exactly when the texts the client chose do: no other column can be too small.
\<close>

theorem parsed_entries_are_typed:
  assumes "parse_transfer_log zone raw = Some e \<or> fst (parse_extended_log zone now (feed_lines zone ls) raw) = Some e"
    and "\<forall>s. length (md5 s) = 32 \<and> fits_text (md5 s)"
  shows "entry_typed e
    \<and> (\<forall>r \<in> set (snd (snd (sort_entries md5 fmt dev [e]))).
        fits_columns r \<longleftrightarrow> fits_varchar 45 (e_client_ip e) \<and> null_or (fits_varchar 255) (e_username e)
          \<and> null_or fits_text (e_file_path e) \<and> fits_bigint (e_file_size e)
          \<and> null_or (fits_varchar 50) (e_session_id e))"
proof -
  have t: "entry_typed e" using assms(1) transfer_typed extended_typed feed_lines_canonical by blast
  have f: "fits_varchar 20 (e_action e)" "fits_varchar 10 (e_status e)" "null_or (fits_varchar 10) (e_transfer_type e)"
    using entry_typedD [OF t] fixed_words by auto
  have h: "fits_varchar 32 (row_hash md5 fmt dev e)"
    using assms(2) by (simp add: row_hash_def fits_varchar_def)
  show ?thesis
  proof (intro conjI ballI)
    fix r assume "r \<in> set (snd (snd (sort_entries md5 fmt dev [e])))"
    then have "lr_entry r = e" "lr_hash r = row_hash md5 fmt dev e"
      by (auto simp: sort_entries_rows simp del: sort_entries.simps split: if_splits)
    then show "fits_columns r \<longleftrightarrow> fits_varchar 45 (e_client_ip e) \<and> null_or (fits_varchar 255) (e_username e)
          \<and> null_or fits_text (e_file_path e) \<and> fits_bigint (e_file_size e) \<and> null_or (fits_varchar 50) (e_session_id e)"
      using f h by (simp add: fits_columns_def)
  qed (rule t)
qed

definition sample_md5 :: "string \<Rightarrow> string" where
  "sample_md5 s = replicate 32 (CHR ''0'')"

lemma sample_md5: "\<forall>s. length (sample_md5 s) = 32 \<and> fits_text (sample_md5 s)"
  by (simp add: sample_md5_def fits_text_def)

theorem parsed_entries_are_typed_witness:
  "let raw = ext_line sample_fields ''257'' ''-'' ''-'' [] @ [LF];
       e = the (fst (parse_extended_log (\<lambda>_. 0) 0 (feed_lines (\<lambda>_. 0) []) raw))
   in e_action e = ''mkdir'' \<and> entry_typed e"
proof -
  let ?raw = "ext_line sample_fields ''257'' ''-'' ''-'' [] @ [LF]"
  have "strptime_fixed (x_dt sample_fields) = Some \<lparr>c_year = 2026, c_month = 9, c_day = 1,
      c_hour = 10, c_minute = 11, c_second = 12\<rparr>"
    by (simp add: sample_fields_def sample_time)
  note p = parse_ext_line [OF sample_fields_ok _ _ _ _ _ this, of "''-''" "''-''" "''257''"]
  have f: "bare_ok ''-''" "''257'' \<noteq> []" "list_all is_digit ''257''" "dec_val 0 ''257'' = x_status sample_fields"
    by (simp_all add: bare_ok_def word_ok_def is_space_def is_digit_def Let_def digit_val_def sample_fields_def)
  have "\<exists>e. fst (parse_extended_log (\<lambda>_. 0) 0 (feed_lines (\<lambda>_. 0) []) ?raw) = Some e \<and> e_action e = ''mkdir''"
    unfolding p [OF f(1) f(1) f(2-4)] by (simp add: handle_ext_def Let_def sample_fields_def)
  then obtain e where e: "fst (parse_extended_log (\<lambda>_. 0) 0 (feed_lines (\<lambda>_. 0) []) ?raw) = Some e" "e_action e = ''mkdir''"
    by blast
  have "entry_typed e" using parsed_entries_are_typed [OF disjI2 [OF e(1)] sample_md5] by blast
  with e show ?thesis by (simp add: Let_def)
qed

section \<open>A row that does not fit\<close>

lemma long_text_unfit:
  assumes "n < length s" and "\<not> is_space (last s)"
  shows "\<not> fits_varchar n s"
proof
  assume "fits_varchar n s"
  then have "\<forall>c \<in> set (drop n s). c = CHR '' ''" by (simp add: fits_varchar_def list_all_iff)
  moreover have "last (drop n s) \<in> set (drop n s)" using assms(1) by (intro last_in_set) simp
  ultimately have "last s = CHR '' ''" using assms(1) by (simp add: last_drop)
  then show False using assms(2) by simp
qed

text \<open>A failed login with the name of the \<open>USER\<close> command before it.\<close>

lemma user_remembered:
  assumes "x_command u = ''USER''" and "attempted_user u \<noteq> []" and "length (user_sessions s) < MAX_SESSIONS"
  shows "map_of (user_sessions (snd (handle_ext t0 b q u s))) (x_pid u) = Some (Some (attempted_user u), t0)"
  unfolding handle_ext_users using assms(1,2) remember_same [OF assms(3)] by simp

lemma failed_login_entry:
  assumes "attempted_user u \<noteq> []" and "x_command f = ''PASS''" and "x_pid f = x_pid u" and "x_status f \<noteq> 230"
    and "e_username entry = None"
    and "map_of (user_sessions s1) (x_pid u) = Some (Some (attempted_user u), t0)"
  shows "fst (handle_ext t1 entry p f s1) =
     Some (entry\<lparr>e_username := Some (attempted_user u), e_action := ''login'', e_status := ''fail''\<rparr>)"
  using assms by (simp add: handle_ext_def Let_def)

lemma accepted_below:
  assumes "length logs \<le> 500" and "find_device key db = Some d" and "dv_state d \<noteq> ''disabled''"
    and "int (length q) < max_pending" and "length q + length logs < max_size"
  shows "ingest_logs md5 fmt dbok now key logs db (holding q (new_buffer max_size max_pending)) =
    (Inr (length (filter storable logs), length logs - length (filter storable logs)),
     holding (q @ snd (snd (sort_entries md5 fmt (dv_id d) logs))) (new_buffer max_size max_pending))"
proof -
  obtain acc rej rows where se: "sort_entries md5 fmt (dv_id d) logs = (acc, rej, rows)"
    by (cases "sort_entries md5 fmt (dv_id d) logs") auto
  have rows: "rows = map (\<lambda>e. \<lparr>lr_device = dv_id d, lr_entry = e, lr_hash = row_hash md5 fmt (dv_id d) e\<rparr>) (filter storable logs)"
    using sort_entries_rows [of md5 fmt "dv_id d" logs] se by simp
  have len: "length (filter storable logs) \<le> length logs" by simp
  have cnt: "acc = length (filter storable logs)" "rej = length logs - length (filter storable logs)"
    using sort_entries_counts [OF se] unfolding rows by (auto simp del: length_filter_le)
  have "length (q @ rows) < max_size"
    using assms(5) len unfolding rows length_append length_map by linarith
  then have "add dbok now rows (holding q (new_buffer max_size max_pending)) = holding (q @ rows) (new_buffer max_size max_pending)"
    by (rule add_holding)
  then show ?thesis
    using assms(1-4) by (simp add: ingest_logs_def se cnt saturated_holding not_le)
qed

text \<open>
  C40: one failed login with a name longer than the column loses a whole batch. Anybody can send such
  a \<open>USER\<close> command. The parser makes an entry of it, the schema and the end point accept it, and
  it waits in the write buffer with the entries of the other devices. The database refuses the
  batch as a whole at each of the hundred attempts, none of its rows is written, and all are
  dropped, though the daemons were told that they were accepted.
\<close>

theorem long_name_loses_the_batch:
  fixes max_size :: nat and max_pending :: int
  assumes "x_command u = ''USER''" and "255 < length (attempted_user u)"
    and "length (user_sessions s) < MAX_SESSIONS"
    and "x_command f = ''PASS''" and "x_pid f = x_pid u" and "x_status f \<noteq> 230" and "e_username entry = None"
    and "fst (handle_ext t1 entry p f (snd (handle_ext t0 b q u s))) = Some e" and "e \<in> set logs2"
    and "length logs1 \<le> 500" and "length logs2 \<le> 500"
    and "length logs1 + length logs2 < max_size" and "int max_size \<le> max_pending"
    and "find_device key1 devs = Some d1" and "dv_state d1 \<noteq> ''disabled''"
    and "find_device key2 devs = Some d2" and "dv_state d2 \<noteq> ''disabled''"
    and "\<forall>k rs. db k rs \<longrightarrow> list_all fits_columns rs"
  shows "let (res1, w1) = ingest_logs md5 fmt db 0 key1 logs1 devs (new_buffer max_size max_pending);
             (res2, w2) = ingest_logs md5 fmt db 0 key2 logs2 devs w1;
             n1 = length (filter storable logs1); n2 = length (filter storable logs2);
             w = once_a_minute db 99 (flush db 0 w2)
         in res1 = Inr (n1, length logs1 - n1) \<and> res2 = Inr (n2, length logs2 - n2)
            \<and> tr_written w = [] \<and> tr_lost w = tr_accepted w \<and> wb_dropped w = int (n1 + n2) \<and> pending_rows w = 0"
proof -
  define rows1 where "rows1 = snd (snd (sort_entries md5 fmt (dv_id d1) logs1))"
  define rows2 where "rows2 = snd (snd (sort_entries md5 fmt (dv_id d2) logs2))"
  let ?nb = "new_buffer max_size max_pending"
  have len: "length rows1 = length (filter storable logs1)" "length rows2 = length (filter storable logs2)"
    by (simp_all add: rows1_def rows2_def sort_entries_rows)
  have "length (filter storable logs1) \<le> length logs1" by simp
  then have l1: "length rows1 \<le> length logs1" using len(1) by simp
  have "ingest_logs md5 fmt db 0 key1 logs1 devs (holding [] ?nb) =
      (Inr (length (filter storable logs1), length logs1 - length (filter storable logs1)), holding ([] @ rows1) ?nb)"
    unfolding rows1_def by (rule accepted_below) (use assms(10-15) in simp_all)
  moreover have "ingest_logs md5 fmt db 0 key2 logs2 devs (holding rows1 ?nb) =
      (Inr (length (filter storable logs2), length logs2 - length (filter storable logs2)), holding (rows1 @ rows2) ?nb)"
    unfolding rows2_def by (rule accepted_below) (use assms(10-17) l1 in simp_all)
  moreover have refused: "\<forall>k. \<not> db k (rows1 @ rows2)" and some: "rows1 @ rows2 \<noteq> []"
  proof -
    have name: "attempted_user u \<noteq> []" using assms(2) by auto
    have e: "e = entry\<lparr>e_username := Some (attempted_user u), e_action := ''login'', e_status := ''fail''\<rparr>"
      using assms(8) failed_login_entry [OF name assms(4-7) user_remembered [OF assms(1) name assms(3)]] by simp
    have "\<not> is_space (last (attempted_user u))"
      using name strip_last by (auto simp: attempted_user_def split: option.splits)
    then have long: "\<not> fits_varchar 255 (attempted_user u)" using assms(2) long_text_unfit by blast
    have "storable e" by (simp add: e storable_def VALID_ACTIONS_def)
    then have r: "\<lparr>lr_device = dv_id d2, lr_entry = e, lr_hash = row_hash md5 fmt (dv_id d2) e\<rparr> \<in> set rows2"
      using assms(9) by (auto simp: rows2_def sort_entries_rows)
    moreover have "\<not> fits_columns \<lparr>lr_device = dv_id d2, lr_entry = e, lr_hash = row_hash md5 fmt (dv_id d2) e\<rparr>"
      using long by (simp add: fits_columns_def e)
    ultimately have "\<not> list_all fits_columns (rows1 @ rows2)" by (auto simp: list_all_iff)
    then show "\<forall>k. \<not> db k (rows1 @ rows2)" using assms(18) by blast
    show "rows1 @ rows2 \<noteq> []" using r by auto
  qed
  moreover note refused_batch_is_lost
    [where db = db and objs = "rows1 @ rows2" and max_size = max_size and max_pending = max_pending, OF refused some]
  ultimately show ?thesis using len by (simp add: holding_nothing)
qed

definition long_user :: ext_fields where
  "long_user = sample_user\<lparr>x_cmd_str := ''USER '' @ replicate 300 (CHR ''a'')\<rparr>"

definition site_device :: "nat \<Rightarrow> string \<Rightarrow> device" where
  "site_device n key = (new_device n sample_registration 0)\<lparr>dv_key := key\<rparr>"

lemma strip_replicate: "\<not> is_space c \<Longrightarrow> strip (replicate n c) = replicate n c"
proof -
  assume c: "\<not> is_space c"
  have "dropWhile is_space (replicate n c) = replicate n c" using c by (cases n) simp_all
  then show ?thesis by (simp add: strip_def lstrip_def)
qed

lemma long_user_name: "attempted_user long_user = replicate 300 (CHR ''a'')"
  by (simp add: attempted_user_def long_user_def arg_after_space_def strip_replicate is_space_def Let_def)

theorem long_name_loses_the_batch_witness:
  "\<exists>e. fst (handle_ext 1 sample_entry None sample_pass (snd (handle_ext 0 sample_entry None long_user no_sessions))) = Some e \<and>
   (let devs = [site_device 1 ''k1'', site_device 2 ''k2''];
        good = sample_entry\<lparr>e_action := ''login''\<rparr>;
        db = (\<lambda>k. list_all fits_columns);
        w1 = snd (ingest_logs sample_md5 show_int db 0 ''k1'' [good] devs (new_buffer 2000 50000));
        w2 = snd (ingest_logs sample_md5 show_int db 0 ''k2'' [e] devs w1);
        w = once_a_minute db 99 (flush db 0 w2)
    in tr_written w = [] \<and> wb_dropped w = 2)"
proof -
  let ?devs = "[site_device 1 ''k1'', site_device 2 ''k2'']"
  let ?good = "sample_entry\<lparr>e_action := ''login''\<rparr>"
  let ?db = "\<lambda>k :: nat. list_all fits_columns"
  have u: "x_command long_user = ''USER''" "255 < length (attempted_user long_user)"
      "x_pid sample_pass = x_pid long_user"
    unfolding long_user_name by (simp_all add: long_user_def sample_user_def sample_pass_def)
  have f: "x_command sample_pass = ''PASS''" "x_status sample_pass \<noteq> 230" "e_username sample_entry = None"
      "length (user_sessions no_sessions) < MAX_SESSIONS"
    by (simp_all add: sample_pass_def sample_entry_def base_entry_def no_sessions_def MAX_SESSIONS_def)
  let ?e = "sample_entry\<lparr>e_username := Some (attempted_user long_user), e_action := ''login'', e_status := ''fail''\<rparr>"
  have e: "fst (handle_ext 1 sample_entry None sample_pass (snd (handle_ext 0 sample_entry None long_user no_sessions))) = Some ?e"
    by (rule failed_login_entry [OF _ f(1) u(3) f(2,3) user_remembered [OF u(1) _ f(4)]]) (use u(2) in auto)
  have d: "find_device ''k1'' ?devs = Some (site_device 1 ''k1'')" "find_device ''k2'' ?devs = Some (site_device 2 ''k2'')"
      "dv_state (site_device 1 ''k1'') \<noteq> ''disabled''" "dv_state (site_device 2 ''k2'') \<noteq> ''disabled''"
    by (simp_all add: find_device_def with_key_def site_device_def new_device_def)
  have st: "storable ?good" "storable ?e" by (simp_all add: storable_def VALID_ACTIONS_def)
  have "\<forall>k rs. ?db k rs \<longrightarrow> list_all fits_columns rs" by simp
  note lost = long_name_loses_the_batch [OF u(1,2) f(4) f(1) u(3) f(2,3) e _ _ _ _ _ d(1,3) d(2,4) this,
      of "[?e]" "[?good]" 2000 50000 sample_md5 show_int]
  show ?thesis
    by (rule exI [of _ ?e], rule conjI [OF e]) (use lost st in \<open>simp add: Let_def split_beta\<close>)
qed

end
