(* ===== verification/Dedup.thy ===== *)
theory Dedup
  imports Columns
begin

text \<open>
  One stored row for one log line, however often the line is sent. The unique index
  \<open>idx_ftp_logs_dedup\<close> on device, time and \<open>row_hash\<close> with \<open>ON CONFLICT DO NOTHING\<close>
  (\<open>write_buffer._insert\<close>), and the step of \<open>run_migrations\<close> that makes the index for a table that
  has rows already: remove the repetitions, fill in the hashes, create the index.

  \<open>sql_key\<close> is the text whose digest the migration stores; \<open>row_key\<close> (theory \<open>Ingest\<close>) is the one
  of the end point. A \<open>NULL\<close> hash is equal to nothing. \<open>horizon\<close> is 90 days before the migration.
\<close>

section \<open>The table\<close>

record stored_log =
  so_id :: nat
  so_device :: nat
  so_entry :: log_entry
  so_hash :: "string option"

record log_table =
  lt_next :: nat
  lt_rows :: "stored_log list"
  lt_index :: bool

definition conflicts :: "log_row \<Rightarrow> stored_log \<Rightarrow> bool" where
  "conflicts r s = (so_device s = lr_device r \<and> e_log_time (so_entry s) = e_log_time (lr_entry r)
     \<and> so_hash s = Some (lr_hash r))"

text \<open>One row of the insert; the sequence of the ids goes on even when nothing is inserted.\<close>

definition insert_row :: "log_row \<Rightarrow> log_table \<Rightarrow> log_table" where
  "insert_row r t =
     (let t1 = t\<lparr>lt_next := lt_next t + 1\<rparr> in
      if lt_index t \<and> list_ex (conflicts r) (lt_rows t) then t1
      else t1\<lparr>lt_rows := lt_rows t @ [\<lparr>so_id = lt_next t, so_device = lr_device r, so_entry = lr_entry r,
                                        so_hash = Some (lr_hash r)\<rparr>]\<rparr>)"

definition insert_batch :: "log_row list \<Rightarrow> log_table \<Rightarrow> log_table" where
  "insert_batch rs t = fold insert_row rs t"

section \<open>The migration\<close>

type_synonym sql_tuple = "nat \<times> string \<times> string \<times> string \<times> string \<times> string \<times> string \<times> string"

text \<open>\<open>PARTITION BY\<close>.\<close>

definition sql_tuple :: "(time \<Rightarrow> string) \<Rightarrow> stored_log \<Rightarrow> sql_tuple" where
  "sql_tuple fmt s =
     (let e = so_entry s in
      (so_device s, fmt (e_log_time e), or_empty (e_username e), e_action e, or_empty (e_file_path e),
       show_int (e_file_size e), or_empty (e_session_id e), e_client_ip e))"

definition sql_key :: "(time \<Rightarrow> string) \<Rightarrow> stored_log \<Rightarrow> string" where
  "sql_key fmt s =
     (let e = so_entry s in
      show_nat (so_device s) @ ''|'' @ fmt (e_log_time e) @ ''|'' @ or_empty (e_username e) @ ''|'' @ e_action e
      @ ''|'' @ or_empty (e_file_path e) @ ''|'' @ show_int (e_file_size e) @ ''|'' @ or_empty (e_session_id e)
      @ ''|'' @ e_client_ip e)"

abbreviation recent :: "time \<Rightarrow> stored_log \<Rightarrow> bool" where
  "recent horizon s \<equiv> horizon \<le> e_log_time (so_entry s)"

text \<open>A row with a number above 1 has an earlier one with the same tuple.\<close>

definition repeated :: "(time \<Rightarrow> string) \<Rightarrow> time \<Rightarrow> stored_log list \<Rightarrow> stored_log \<Rightarrow> bool" where
  "repeated fmt horizon rows s =
     (recent horizon s
      \<and> list_ex (\<lambda>s'. recent horizon s' \<and> sql_tuple fmt s' = sql_tuple fmt s \<and> so_id s' < so_id s) rows)"

definition remove_repeated :: "(time \<Rightarrow> string) \<Rightarrow> time \<Rightarrow> stored_log list \<Rightarrow> stored_log list" where
  "remove_repeated fmt horizon rows = filter (\<lambda>s. \<not> repeated fmt horizon rows s) rows"

definition backfill :: "(string \<Rightarrow> string) \<Rightarrow> (time \<Rightarrow> string) \<Rightarrow> time \<Rightarrow> stored_log \<Rightarrow> stored_log" where
  "backfill md5 fmt horizon s =
     (if so_hash s = None \<and> recent horizon s then s\<lparr>so_hash := Some (md5 (sql_key fmt s))\<rparr> else s)"

definition index_key :: "stored_log \<Rightarrow> nat \<times> time \<times> string option" where
  "index_key s = (so_device s, e_log_time (so_entry s), so_hash s)"

definition index_allowed :: "stored_log list \<Rightarrow> bool" where
  "index_allowed rows = distinct (map index_key (filter (\<lambda>s. so_hash s \<noteq> None) rows))"

text \<open>\<^const>\<open>None\<close>: the index cannot be created, the migration fails and the application does not start.\<close>

definition dedup_migration ::
  "(string \<Rightarrow> string) \<Rightarrow> (time \<Rightarrow> string) \<Rightarrow> time \<Rightarrow> log_table \<Rightarrow> log_table option" where
  "dedup_migration md5 fmt horizon t =
     (if lt_index t then Some t
      else let rows = map (backfill md5 fmt horizon) (remove_repeated fmt horizon (lt_rows t)) in
        if index_allowed rows then Some (t\<lparr>lt_rows := rows, lt_index := True\<rparr>) else None)"

section \<open>Inserting\<close>

definition log_table_ok :: "log_table \<Rightarrow> bool" where
  "log_table_ok t \<longleftrightarrow> lt_index t \<and> index_allowed (lt_rows t)"

lemma lt_index_insert [simp]: "lt_index (insert_row r t) = lt_index t"
  by (simp add: insert_row_def Let_def)

lemma insert_row_rows:
  "lt_index t \<Longrightarrow> lt_rows (insert_row r t) =
     (if list_ex (conflicts r) (lt_rows t) then lt_rows t
      else lt_rows t @ [\<lparr>so_id = lt_next t, so_device = lr_device r, so_entry = lr_entry r, so_hash = Some (lr_hash r)\<rparr>])"
  by (simp add: insert_row_def Let_def)

definition row_index :: "log_row \<Rightarrow> nat \<times> time \<times> string option" where
  "row_index r = (lr_device r, e_log_time (lr_entry r), Some (lr_hash r))"

lemma conflicts_iff: "conflicts r s \<longleftrightarrow> index_key s = row_index r"
  by (auto simp: conflicts_def index_key_def row_index_def)

text \<open>The keys in the index.\<close>

definition indexed :: "log_table \<Rightarrow> (nat \<times> time \<times> string option) set" where
  "indexed t = set (map index_key (filter (\<lambda>s. so_hash s \<noteq> None) (lt_rows t)))"

lemma row_index_Some: "index_key s = row_index r \<Longrightarrow> so_hash s \<noteq> None"
  by (simp add: index_key_def row_index_def)

lemma conflict_indexed: "list_ex (conflicts r) (lt_rows t) \<longleftrightarrow> row_index r \<in> indexed t"
proof -
  have "row_index r \<in> indexed t \<longleftrightarrow> (\<exists>s \<in> set (lt_rows t). so_hash s \<noteq> None \<and> index_key s = row_index r)"
    unfolding indexed_def set_map set_filter image_iff by (metis (lifting) mem_Collect_eq)
  then show ?thesis unfolding list_ex_iff conflicts_iff using row_index_Some by blast
qed

lemma insert_row_ok: "log_table_ok t \<Longrightarrow> log_table_ok (insert_row r t) \<and> indexed (insert_row r t) = insert (row_index r) (indexed t)"
proof (cases "row_index r \<in> indexed t")
  case True
  assume t: "log_table_ok t"
  then have "lt_rows (insert_row r t) = lt_rows t" using True by (simp add: insert_row_rows conflict_indexed log_table_ok_def)
  then show ?thesis using t True by (auto simp: log_table_ok_def indexed_def)
next
  case False
  assume t: "log_table_ok t"
  let ?s = "\<lparr>so_id = lt_next t, so_device = lr_device r, so_entry = lr_entry r, so_hash = Some (lr_hash r)\<rparr>"
  have rows: "lt_rows (insert_row r t) = lt_rows t @ [?s]"
    using t False by (simp add: insert_row_rows conflict_indexed log_table_ok_def)
  have key: "index_key ?s = row_index r" by (simp add: index_key_def row_index_def)
  have "index_key ?s \<notin> index_key ` set (filter (\<lambda>s. so_hash s \<noteq> None) (lt_rows t))"
    using False unfolding key indexed_def by simp
  then have "index_allowed (lt_rows t @ [?s])" using t by (simp add: log_table_ok_def index_allowed_def)
  moreover have "indexed (insert_row r t) = insert (row_index r) (indexed t)"
    unfolding indexed_def rows using key by simp
  ultimately show ?thesis using t rows by (simp add: log_table_ok_def)
qed

lemma insert_batch_ok:
  "log_table_ok t \<Longrightarrow> log_table_ok (insert_batch rs t) \<and> indexed (insert_batch rs t) = indexed t \<union> row_index ` set rs"
proof (induction rs arbitrary: t)
  case (Cons r rs)
  from insert_row_ok [OF Cons.prems] Cons.IH [of "insert_row r t"] show ?case by (auto simp: insert_batch_def)
qed (simp add: insert_batch_def)

lemma insert_known:
  "lt_index t \<Longrightarrow> row_index ` set rs \<subseteq> indexed t \<Longrightarrow> lt_rows (insert_batch rs t) = lt_rows t"
proof (induction rs arbitrary: t)
  case (Cons r rs)
  then have "lt_rows (insert_row r t) = lt_rows t" by (simp add: insert_row_rows conflict_indexed)
  then show ?case using Cons by (simp add: insert_batch_def indexed_def)
qed (simp add: insert_batch_def)

lemma one_with_key:
  assumes "index_allowed (lt_rows t)" and "k \<in> indexed t"
  shows "length (filter (\<lambda>s. so_hash s \<noteq> None \<and> index_key s = k) (lt_rows t)) = 1"
proof -
  let ?full = "filter (\<lambda>s. so_hash s \<noteq> None) (lt_rows t)"
  have "length (filter (\<lambda>s. so_hash s \<noteq> None \<and> index_key s = k) (lt_rows t)) = length (filter ((=) k) (map index_key ?full))"
    by (simp add: filter_map comp_def conj_commute eq_commute [of k])
  also have "\<dots> = count (mset (map index_key ?full)) k"
    unfolding count_mset count_list_eq_length_filter ..
  also have "\<dots> = 1" using assms unfolding index_allowed_def indexed_def distinct_count_atmost_1 by (metis (lifting))
  finally show ?thesis .
qed

section \<open>A line that is sent again\<close>

abbreviation batch_rows :: "(string \<Rightarrow> string) \<Rightarrow> (time \<Rightarrow> string) \<Rightarrow> nat \<Rightarrow> log_entry list \<Rightarrow> log_row list" where
  "batch_rows md5 fmt dev logs \<equiv> snd (snd (sort_entries md5 fmt dev logs))"

text \<open>A stored row that agrees with the entry on the fields of the key; status, duration and type are not among them.\<close>

definition same_key :: "nat \<Rightarrow> log_entry \<Rightarrow> stored_log \<Rightarrow> bool" where
  "same_key dev e s \<longleftrightarrow>
     (let f = so_entry s in
      so_device s = dev \<and> e_log_time f = e_log_time e \<and> or_empty (e_username f) = or_empty (e_username e)
      \<and> e_action f = e_action e \<and> or_empty (e_file_path f) = or_empty (e_file_path e) \<and> e_file_size f = e_file_size e
      \<and> or_empty (e_session_id f) = or_empty (e_session_id e) \<and> e_client_ip f = e_client_ip e)"

definition stored_key :: "(time \<Rightarrow> string) \<Rightarrow> stored_log \<Rightarrow> string" where
  "stored_key fmt s = row_key fmt (so_device s) (so_entry s)"

definition hashes_true :: "(string \<Rightarrow> string) \<Rightarrow> (time \<Rightarrow> string) \<Rightarrow> log_table \<Rightarrow> bool" where
  "hashes_true md5 fmt t \<longleftrightarrow>
     (\<forall>s \<in> set (lt_rows t). so_hash s \<noteq> None \<longrightarrow> so_hash s = Some (md5 (stored_key fmt s)) \<and> fields_ok (so_entry s))"

definition table_keys :: "(time \<Rightarrow> string) \<Rightarrow> log_table \<Rightarrow> string set" where
  "table_keys fmt t = stored_key fmt ` set (lt_rows t)"

lemma insert_batch_appends: "\<exists>new. lt_rows (insert_batch rs t) = lt_rows t @ new \<and>
   (\<forall>s \<in> set new. \<exists>r \<in> set rs. so_device s = lr_device r \<and> so_entry s = lr_entry r \<and> so_hash s = Some (lr_hash r))"
proof (induction rs arbitrary: t)
  case (Cons r rs)
  obtain new where new: "lt_rows (insert_batch rs (insert_row r t)) = lt_rows (insert_row r t) @ new"
    "\<forall>s \<in> set new. \<exists>r \<in> set rs. so_device s = lr_device r \<and> so_entry s = lr_entry r \<and> so_hash s = Some (lr_hash r)"
    using Cons.IH by blast
  show ?case
    by (rule exI [of _ "drop (length (lt_rows t)) (lt_rows (insert_row r t)) @ new"])
       (use new in \<open>auto simp: insert_batch_def insert_row_def Let_def\<close>)
qed (simp add: insert_batch_def)

lemma same_key_row_key:
  assumes "same_key dev e s"
  shows "stored_key fmt s = row_key fmt dev e"
  using assms by (simp add: same_key_def stored_key_def row_key_def Let_def)

lemma same_key_iff:
  assumes "hashes_true md5 fmt t" and "s \<in> set (lt_rows t)" and "fields_ok e" and "\<forall>t. CHR ''|'' \<notin> set (fmt t)"
    and "inj_on md5 (insert (row_key fmt dev e) (table_keys fmt t))"
  shows "so_hash s \<noteq> None \<and> same_key dev e s \<longleftrightarrow> so_hash s \<noteq> None \<and> index_key s = (dev, e_log_time e, Some (row_hash md5 fmt dev e))"
proof (cases "so_hash s = None")
  case False
  then have h: "so_hash s = Some (md5 (stored_key fmt s))" "fields_ok (so_entry s)"
    using assms(1,2) by (auto simp: hashes_true_def)
  have "md5 (stored_key fmt s) = md5 (row_key fmt dev e) \<longleftrightarrow> stored_key fmt s = row_key fmt dev e"
    by (rule inj_on_eq_iff [OF assms(5)]) (use assms(2) in \<open>simp_all add: table_keys_def\<close>)
  moreover have "same_key dev e s \<longleftrightarrow> stored_key fmt s = row_key fmt dev e \<and> e_log_time (so_entry s) = e_log_time e"
    unfolding stored_key_def row_key_identifies [OF h(2) assms(3,4)] same_key_def Let_def by auto
  moreover have "stored_key fmt s = row_key fmt dev e \<Longrightarrow> so_device s = dev"
    unfolding stored_key_def row_key_identifies [OF h(2) assms(3,4)] by simp
  ultimately show ?thesis using h(1) by (auto simp: index_key_def row_hash_def)
qed simp

text \<open>
  C13: an entry is stored once, however often it is sent, where entries that agree on the key count as
  the same: device, second, user, action, path, size, session and address (not status, duration and
  type: \<open>status_is_not_in_the_key\<close> shows what that costs). After a batch has been inserted, exactly one
  stored row has the key of each of its storable entries; sending any of them again, in any order,
  changes no row; and the rows that were there before stay. The digest is only asked not to collide on the
  keys at hand, and the texts of the key not to hold its separator.
\<close>

theorem resent_entries_are_stored_once:
  assumes "log_table_ok t" and "hashes_true md5 fmt t" and "\<forall>e \<in> set logs. fields_ok e"
    and "\<forall>t. CHR ''|'' \<notin> set (fmt t)" and "inj_on md5 (row_key fmt dev ` set logs \<union> table_keys fmt t)"
    and "set again \<subseteq> set logs"
  shows "let t1 = insert_batch (batch_rows md5 fmt dev logs) t in
    log_table_ok t1 \<and> hashes_true md5 fmt t1
    \<and> (\<forall>e \<in> set (filter storable logs). length (filter (\<lambda>s. so_hash s \<noteq> None \<and> same_key dev e s) (lt_rows t1)) = 1)
    \<and> lt_rows (insert_batch (batch_rows md5 fmt dev again) t1) = lt_rows t1
    \<and> (\<exists>new. lt_rows t1 = lt_rows t @ new)"
proof -
  let ?row = "\<lambda>e. \<lparr>lr_device = dev, lr_entry = e, lr_hash = row_hash md5 fmt dev e\<rparr>"
  let ?rows = "batch_rows md5 fmt dev logs"
  let ?t1 = "insert_batch ?rows t"
  have rows: "set (batch_rows md5 fmt dev es) = ?row ` {e \<in> set es. storable e}" for es
    by (auto simp: sort_entries_rows)
  obtain new where new: "lt_rows ?t1 = lt_rows t @ new"
    "\<forall>s \<in> set new. \<exists>r \<in> set ?rows. so_device s = lr_device r \<and> so_entry s = lr_entry r \<and> so_hash s = Some (lr_hash r)"
    using insert_batch_appends [of ?rows t] by blast
  then have from_logs: "\<exists>e \<in> set logs. so_device s = dev \<and> so_entry s = e \<and> so_hash s = Some (row_hash md5 fmt dev e)"
    if "s \<in> set new" for s using that unfolding rows by fastforce
  have true1: "hashes_true md5 fmt ?t1"
    using assms(2,3) from_logs by (fastforce simp: hashes_true_def new(1) row_hash_def stored_key_def)
  have sub: "table_keys fmt ?t1 \<subseteq> row_key fmt dev ` set logs \<union> table_keys fmt t"
    using from_logs by (fastforce simp: table_keys_def new(1) stored_key_def)
  have inj: "inj_on md5 (insert (row_key fmt dev e) (table_keys fmt ?t1))" if "e \<in> set logs" for e
    by (rule inj_on_subset [OF assms(5)]) (use sub that in auto)
  have ok: "log_table_ok ?t1" "indexed ?t1 = indexed t \<union> row_index ` set ?rows"
    using insert_batch_ok [OF assms(1), of ?rows] by simp_all
  have one: "length (filter (\<lambda>s. so_hash s \<noteq> None \<and> same_key dev e s) (lt_rows ?t1)) = 1"
    if e: "e \<in> set logs" "storable e" for e
  proof -
    have "filter (\<lambda>s. so_hash s \<noteq> None \<and> same_key dev e s) (lt_rows ?t1)
        = filter (\<lambda>s. so_hash s \<noteq> None \<and> index_key s = row_index (?row e)) (lt_rows ?t1)"
      using same_key_iff [OF true1 _ _ assms(4) inj [OF e(1)]] assms(3) e(1) by (intro filter_cong) (simp_all add: row_index_def)
    moreover have "row_index (?row e) \<in> indexed ?t1" unfolding ok(2) rows using e by blast
    ultimately show ?thesis using one_with_key ok(1) by (simp add: log_table_ok_def)
  qed
  have "row_index ` set (batch_rows md5 fmt dev again) \<subseteq> indexed ?t1"
    unfolding ok(2) rows using assms(6) by auto
  then have "lt_rows (insert_batch (batch_rows md5 fmt dev again) ?t1) = lt_rows ?t1"
    using ok(1) by (intro insert_known) (simp_all add: log_table_ok_def)
  with ok(1) true1 one new(1) show ?thesis by simp
qed

definition sample_stored :: stored_log where
  "sample_stored = \<lparr>so_id = 1, so_device = 1, so_entry = sample_entry\<lparr>e_action := ''logout''\<rparr>, so_hash = None\<rparr>"

definition sample_log_table :: log_table where
  "sample_log_table = \<lparr>lt_next = 2, lt_rows = [sample_stored], lt_index = True\<rparr>"

lemma sample_entry_fields: "fields_ok (sample_entry\<lparr>e_action := a\<rparr>) \<longleftrightarrow> CHR ''|'' \<notin> set a"
  by (simp add: fields_ok_def sample_entry_def base_entry_def sample_pass_def sample_fields_def)

theorem resent_entries_are_stored_once_witness:
  "let e = sample_entry\<lparr>e_action := ''login''\<rparr>; t1 = insert_batch (batch_rows id show_int 1 [e, e]) sample_log_table in
   length (filter (\<lambda>s. so_hash s \<noteq> None \<and> same_key 1 e s) (lt_rows t1)) = 1
   \<and> lt_rows (insert_batch (batch_rows id show_int 1 [e]) t1) = lt_rows t1"
proof -
  let ?e = "sample_entry\<lparr>e_action := ''login''\<rparr>"
  have t: "log_table_ok sample_log_table" "hashes_true id show_int sample_log_table"
    by (simp_all add: log_table_ok_def index_allowed_def hashes_true_def sample_log_table_def sample_stored_def)
  have "\<forall>e \<in> set [?e, ?e]. fields_ok e" by (simp add: sample_entry_fields)
  moreover have "\<forall>t. CHR ''|'' \<notin> set (show_int t)" by (simp add: show_int_chars)
  moreover have "?e \<in> set (filter storable [?e, ?e])" by (simp add: storable_def VALID_ACTIONS_def)
  ultimately show ?thesis
    using resent_entries_are_stored_once [OF t, of "[?e, ?e]" 1 "[?e]"] unfolding Let_def
    by (simp del: sort_entries.simps filter.simps add: inj_on_def)
qed

section \<open>The migration makes the index\<close>

lemma sql_key_row_key: "sql_key fmt s = stored_key fmt s"
  by (simp add: sql_key_def stored_key_def row_key_def Let_def)

lemma stored_key_tuple:
  assumes "fields_ok (so_entry s)" and "fields_ok (so_entry s')" and "\<forall>t. CHR ''|'' \<notin> set (fmt t)"
  shows "stored_key fmt s = stored_key fmt s' \<longleftrightarrow> sql_tuple fmt s = sql_tuple fmt s'"
  unfolding stored_key_def row_key_identifies [OF assms] sql_tuple_def Let_def by (auto simp: show_int_inject)

text \<open>The rows of one tuple: the one with the least number stays, and only it.\<close>

lemma least_stays:
  assumes "distinct (map so_id rows)" and "s \<in> set rows" and "recent horizon s"
  obtains m where "m \<in> set (remove_repeated fmt horizon rows)" and "recent horizon m" and "sql_tuple fmt m = sql_tuple fmt s"
    and "so_id m \<le> so_id s"
    and "\<And>s'. s' \<in> set (remove_repeated fmt horizon rows) \<Longrightarrow> recent horizon s' \<Longrightarrow> sql_tuple fmt s' = sql_tuple fmt s \<Longrightarrow> s' = m"
proof -
  let ?P = "\<lambda>s'. s' \<in> set rows \<and> recent horizon s' \<and> sql_tuple fmt s' = sql_tuple fmt s"
  obtain m where m: "?P m" "\<And>s'. ?P s' \<Longrightarrow> so_id m \<le> so_id s'"
    using ex_has_least_nat [of ?P s so_id] assms(2,3) by blast
  have stays: "m \<in> set (remove_repeated fmt horizon rows)"
    using m by (fastforce simp: remove_repeated_def repeated_def list_ex_iff)
  have "s' = m" if s': "s' \<in> set (remove_repeated fmt horizon rows)" "recent horizon s'" "sql_tuple fmt s' = sql_tuple fmt s" for s'
  proof -
    have "s' \<in> set rows" using s'(1) by (simp add: remove_repeated_def)
    moreover have "\<not> so_id m < so_id s'" using s' m(1) by (auto simp: remove_repeated_def repeated_def list_ex_iff)
    ultimately have "so_id s' = so_id m" using m(2) [of s'] s' by simp
    then show ?thesis using assms(1) \<open>s' \<in> set rows\<close> m(1) by (auto simp: distinct_map dest: inj_onD)
  qed
  with m stays that show ?thesis using assms(2,3) by blast
qed

lemma backfill_simps [simp]:
  "so_entry (backfill md5 fmt horizon s) = so_entry s" "so_device (backfill md5 fmt horizon s) = so_device s"
  "so_id (backfill md5 fmt horizon s) = so_id s" "sql_tuple fmt (backfill md5 fmt horizon s) = sql_tuple fmt s"
  "stored_key fmt (backfill md5 fmt horizon s) = stored_key fmt s"
  by (simp_all add: backfill_def sql_tuple_def stored_key_def)

lemma backfill_hash:
  "so_hash s = None \<Longrightarrow> so_hash (backfill md5 fmt horizon s) = (if recent horizon s then Some (md5 (stored_key fmt s)) else None)"
  by (simp add: backfill_def sql_key_row_key)

lemma same_index_same_row:
  assumes "distinct (map so_id rows)" and "\<forall>s \<in> set rows. so_hash s = None \<and> fields_ok (so_entry s)"
    and "\<forall>t. CHR ''|'' \<notin> set (fmt t)" and "inj_on md5 (stored_key fmt ` set rows)"
    and "s \<in> set (remove_repeated fmt horizon rows)" and "s' \<in> set (remove_repeated fmt horizon rows)"
    and "recent horizon s" and "recent horizon s'"
    and "index_key (backfill md5 fmt horizon s) = index_key (backfill md5 fmt horizon s')"
  shows "s = s'"
proof -
  have in_rows: "s \<in> set rows" "s' \<in> set rows" using assms(5,6) by (simp_all add: remove_repeated_def)
  have "md5 (stored_key fmt s) = md5 (stored_key fmt s')"
    using assms(2,7-9) in_rows by (simp add: index_key_def backfill_hash)
  then have "stored_key fmt s = stored_key fmt s'" using assms(4) in_rows by (auto dest: inj_onD)
  then have "sql_tuple fmt s' = sql_tuple fmt s" using stored_key_tuple [OF _ _ assms(3)] assms(2) in_rows by metis
  with least_stays [OF assms(1) in_rows(1) assms(7), of fmt] assms(5-8) show ?thesis by metis
qed

lemma kept_index:
  assumes "distinct (map so_id rows)" and "\<forall>s \<in> set rows. so_hash s = None \<and> fields_ok (so_entry s)"
    and "\<forall>t. CHR ''|'' \<notin> set (fmt t)" and "inj_on md5 (stored_key fmt ` set rows)"
  shows "index_allowed (map (backfill md5 fmt horizon) (remove_repeated fmt horizon rows))"
proof -
  let ?bf = "backfill md5 fmt horizon" and ?kept = "remove_repeated fmt horizon rows"
  have none: "\<forall>s \<in> set ?kept. so_hash s = None" using assms(2) by (simp add: remove_repeated_def)
  have "filter (\<lambda>s. so_hash s \<noteq> None) (map ?bf ?kept) = map ?bf (filter (\<lambda>s. so_hash (?bf s) \<noteq> None) ?kept)"
    by (simp add: filter_map comp_def)
  also have "filter (\<lambda>s. so_hash (?bf s) \<noteq> None) ?kept = filter (recent horizon) ?kept"
    by (rule filter_cong [OF refl]) (use none in \<open>simp add: backfill_hash\<close>)
  finally have full: "filter (\<lambda>s. so_hash s \<noteq> None) (map ?bf ?kept) = map ?bf (filter (recent horizon) ?kept)" .
  have "distinct ?kept" using assms(1) by (simp add: remove_repeated_def distinct_map)
  moreover have "inj_on (\<lambda>s. index_key (?bf s)) (set (filter (recent horizon) ?kept))"
    by (rule inj_onI, rule same_index_same_row [OF assms]) auto
  ultimately show ?thesis unfolding index_allowed_def full map_map by (simp add: distinct_map comp_def)
qed

lemma filter_single: "distinct xs \<Longrightarrow> m \<in> set xs \<Longrightarrow> (\<And>x. x \<in> set xs \<Longrightarrow> P x \<longleftrightarrow> x = m) \<Longrightarrow> filter P xs = [m]"
proof (induction xs)
  case (Cons x xs)
  then show ?case by (cases "x = m") (auto simp: filter_empty_conv)
qed simp

text \<open>
  C35: the migration of a table whose rows have no hash yet succeeds: the index can be created. Of the
  rows of the last 90 days with the same contents exactly the first stays, rows that are older
  stay as they are, and the hashes that it fills in are those the end point computes, so a line
  that is in the table is not stored again when it is sent again. Running it again changes nothing.
\<close>

theorem migration_keeps_the_first:
  assumes "\<not> lt_index t" and "distinct (map so_id (lt_rows t))"
    and "\<forall>s \<in> set (lt_rows t). so_hash s = None \<and> fields_ok (so_entry s)"
    and "\<forall>t. CHR ''|'' \<notin> set (fmt t)" and "inj_on md5 (stored_key fmt ` set (lt_rows t))"
  shows "\<exists>t'. dedup_migration md5 fmt horizon t = Some t' \<and> dedup_migration md5 fmt horizon t' = Some t'
    \<and> log_table_ok t' \<and> hashes_true md5 fmt t'
    \<and> filter (\<lambda>s. \<not> recent horizon s) (lt_rows t') = filter (\<lambda>s. \<not> recent horizon s) (lt_rows t)
    \<and> (\<forall>s \<in> set (lt_rows t). recent horizon s \<longrightarrow>
         (\<exists>m \<in> set (lt_rows t'). filter (\<lambda>s'. recent horizon s' \<and> sql_tuple fmt s' = sql_tuple fmt s) (lt_rows t') = [m]
            \<and> so_id m \<le> so_id s))
    \<and> (\<forall>m \<in> set (lt_rows t'). recent horizon m \<longrightarrow>
         lt_rows (insert_batch (batch_rows md5 fmt (so_device m) [so_entry m]) t') = lt_rows t')"
proof -
  let ?bf = "backfill md5 fmt horizon" and ?kept = "remove_repeated fmt horizon (lt_rows t)"
  let ?t = "t\<lparr>lt_rows := map ?bf ?kept, lt_index := True\<rparr>"
  have kept: "distinct ?kept" "\<And>s. s \<in> set ?kept \<Longrightarrow> s \<in> set (lt_rows t) \<and> so_hash s = None \<and> fields_ok (so_entry s)"
    using assms(2,3) by (auto simp: remove_repeated_def distinct_map)
  have index: "index_allowed (map ?bf ?kept)" by (rule kept_index [OF assms(2-5)])
  then have made: "dedup_migration md5 fmt horizon t = Some ?t" using assms(1) by (simp add: dedup_migration_def Let_def)
  have ok: "log_table_ok ?t" using index by (simp add: log_table_ok_def)
  have old: "filter (\<lambda>s. \<not> recent horizon s) (map ?bf ?kept) = filter (\<lambda>s. \<not> recent horizon s) (lt_rows t)"
  proof -
    have "filter (\<lambda>s. \<not> recent horizon s) (map ?bf ?kept) = map ?bf (filter (\<lambda>s. \<not> recent horizon s) ?kept)"
      by (simp add: filter_map comp_def)
    also have "\<dots> = filter (\<lambda>s. \<not> recent horizon s) ?kept"
      by (rule map_idI) (use kept(2) in \<open>simp add: backfill_def\<close>)
    also have "\<dots> = filter (\<lambda>s. \<not> recent horizon s) (lt_rows t)"
      unfolding remove_repeated_def filter_filter by (rule filter_cong) (auto simp: repeated_def)
    finally show ?thesis .
  qed
  have first: "\<exists>m \<in> set (map ?bf ?kept).
      filter (\<lambda>s'. recent horizon s' \<and> sql_tuple fmt s' = sql_tuple fmt s) (map ?bf ?kept) = [m] \<and> so_id m \<le> so_id s"
    if s: "s \<in> set (lt_rows t)" "recent horizon s" for s
  proof -
    let ?P = "\<lambda>s'. recent horizon s' \<and> sql_tuple fmt s' = sql_tuple fmt s"
    obtain m where m: "m \<in> set ?kept" "recent horizon m" "sql_tuple fmt m = sql_tuple fmt s" "so_id m \<le> so_id s"
      "\<And>s'. s' \<in> set ?kept \<Longrightarrow> recent horizon s' \<Longrightarrow> sql_tuple fmt s' = sql_tuple fmt s \<Longrightarrow> s' = m"
      using least_stays [OF assms(2) s, of fmt] by blast
    have "filter ?P (map ?bf ?kept) = map ?bf (filter ?P ?kept)" by (simp add: filter_map comp_def)
    also have "filter ?P ?kept = [m]" by (rule filter_single [OF kept(1) m(1)]) (use m(2,3,5) in blast)
    finally show ?thesis using m(1,4) by (intro bexI [of _ "?bf m"]) simp_all
  qed
  have again: "lt_rows (insert_batch (batch_rows md5 fmt (so_device m) [so_entry m]) ?t) = lt_rows ?t"
    if m: "m \<in> set (map ?bf ?kept)" "recent horizon m" for m
  proof -
    have "so_hash m = Some (md5 (stored_key fmt m))" using m kept(2) backfill_hash by auto
    then have "(so_device m, e_log_time (so_entry m), Some (row_hash md5 fmt (so_device m) (so_entry m))) \<in> indexed ?t"
      using m(1) by (force simp: indexed_def index_key_def row_hash_def stored_key_def)
    then show ?thesis by (intro insert_known) (auto simp: sort_entries_rows row_index_def)
  qed
  have rows: "lt_rows ?t = map ?bf ?kept" by simp
  show ?thesis
  proof (rule exI [of _ ?t], unfold rows, intro conjI ballI impI)
    show "hashes_true md5 fmt ?t" using kept(2) by (auto simp: hashes_true_def backfill_hash)
    show "dedup_migration md5 fmt horizon ?t = Some ?t" by (simp add: dedup_migration_def)
  qed (fact made ok old first again [unfolded rows])+
qed

definition unindexed_table :: log_table where
  "unindexed_table = \<lparr>lt_next = 3, lt_rows = [sample_stored\<lparr>so_id := 2\<rparr>, sample_stored], lt_index = False\<rparr>"

theorem migration_keeps_the_first_witness:
  "\<exists>t' m. dedup_migration id show_int 0 unindexed_table = Some t' \<and> log_table_ok t'
    \<and> filter (\<lambda>s. recent 0 s \<and> sql_tuple show_int s = sql_tuple show_int sample_stored) (lt_rows t') = [m] \<and> so_id m \<le> 1"
proof -
  have t: "\<not> lt_index unindexed_table" "distinct (map so_id (lt_rows unindexed_table))"
      "\<forall>s \<in> set (lt_rows unindexed_table). so_hash s = None \<and> fields_ok (so_entry s)"
      "\<forall>t. CHR ''|'' \<notin> set (show_int t)"
    by (simp_all add: unindexed_table_def sample_stored_def sample_entry_fields show_int_chars)
  have s: "sample_stored \<in> set (lt_rows unindexed_table)" "recent 0 sample_stored" "so_id sample_stored = 1"
    by (simp_all add: unindexed_table_def sample_stored_def sample_entry_def base_entry_def)
  obtain t' where t': "dedup_migration id show_int 0 unindexed_table = Some t'" "log_table_ok t'"
    "\<forall>s \<in> set (lt_rows unindexed_table). recent 0 s \<longrightarrow>
       (\<exists>m \<in> set (lt_rows t'). filter (\<lambda>s'. recent 0 s' \<and> sql_tuple show_int s' = sql_tuple show_int s) (lt_rows t') = [m]
          \<and> so_id m \<le> so_id s)"
    using migration_keeps_the_first [OF t inj_on_id, of 0] by blast
  obtain m where "filter (\<lambda>s'. recent 0 s' \<and> sql_tuple show_int s' = sql_tuple show_int sample_stored) (lt_rows t') = [m]"
    and "so_id m \<le> so_id sample_stored" using t'(3) s(1,2) by blast
  then show ?thesis unfolding s(3) using t'(1,2) by blast
qed

text \<open>
  What the key leaves out: the status. Of two entries of one second that differ in the status
  alone, as a failed login and the successful one right after it, the second is taken for a
  repetition and never stored.
\<close>

theorem status_is_not_in_the_key:
  assumes "log_table_ok t" and "storable e"
  shows "lt_rows (insert_batch (batch_rows md5 fmt dev [e, e\<lparr>e_status := st\<rparr>]) t) =
    lt_rows (insert_batch (batch_rows md5 fmt dev [e]) t)"
proof -
  let ?row = "\<lambda>e. \<lparr>lr_device = dev, lr_entry = e, lr_hash = row_hash md5 fmt dev e\<rparr>"
  have key: "row_index (?row (e\<lparr>e_status := st\<rparr>)) = row_index (?row e)"
    by (simp add: row_index_def row_hash_def row_key_def)
  have "storable (e\<lparr>e_status := st\<rparr>)" using assms(2) by (simp add: storable_def)
  then have rows: "batch_rows md5 fmt dev [e, e\<lparr>e_status := st\<rparr>] = [?row e, ?row (e\<lparr>e_status := st\<rparr>)]"
      "batch_rows md5 fmt dev [e] = [?row e]"
    unfolding sort_entries_rows using assms(2) by simp_all
  let ?t = "insert_batch [?row e] t"
  have "lt_index ?t" "row_index (?row e) \<in> indexed ?t"
    using insert_batch_ok [OF assms(1), of "[?row e]"] by (simp_all add: log_table_ok_def)
  then have "lt_rows (insert_batch [?row (e\<lparr>e_status := st\<rparr>)] ?t) = lt_rows ?t"
    by (intro insert_known) (simp_all add: key)
  then show ?thesis unfolding rows by (simp add: insert_batch_def)
qed

theorem status_is_not_in_the_key_witness:
  "let e = sample_entry\<lparr>e_action := ''login'', e_status := ''fail''\<rparr> in
   lt_rows (insert_batch (batch_rows id show_int 1 [e, e\<lparr>e_status := ''success''\<rparr>]) sample_log_table) =
   lt_rows (insert_batch (batch_rows id show_int 1 [e]) sample_log_table)"
proof -
  let ?e = "sample_entry\<lparr>e_action := ''login'', e_status := ''fail''\<rparr>"
  have t: "log_table_ok sample_log_table"
    by (simp add: log_table_ok_def index_allowed_def sample_log_table_def sample_stored_def)
  have "storable ?e" by (simp add: storable_def VALID_ACTIONS_def)
  from status_is_not_in_the_key [OF t this] show ?thesis by (simp only: Let_def)
qed

end
