(* ===== verification/Detect.thy ===== *)
theory Detect
  imports SolTrace_Prelude
begin

text \<open>
  The judgement of \<open>was/app/service_monitor.py\<close>: the robust statistics (\<open>_median\<close>,
  \<open>_percentile\<close>, \<open>_mad\<close>) and \<open>_eval_bucket\<close>, which compares one closed bucket of a device
  with the device's own recent buckets and gives the alerts.

  Floats are reals, so the model has no rounding. The settings' schema keeps the minimum sample
  counts at 1 or more, so every division is by a positive number. The messages are the code's
  format strings with the Korean words in English: the same numbers, in the same order, with the
  same decimals.
\<close>

section \<open>Statistics\<close>

definition median :: "real list \<Rightarrow> real option" where
  "median xs =
     (let s = sort xs; n = length s; m = n div 2 in
      if n = 0 then None
      else Some (if n mod 2 \<noteq> 0 then s ! m else (s ! (m - 1) + s ! m) / 2))"

definition percentile :: "real list \<Rightarrow> real \<Rightarrow> real option" where
  "percentile xs p =
     (let s = sort xs in
      if s = [] then None
      else Some (s ! min (nat \<lfloor>real (length s) * p\<rfloor>) (length s - 1)))"

definition mad :: "real list \<Rightarrow> real \<Rightarrow> real" where
  "mad xs med = (case median (map (\<lambda>x. \<bar>x - med\<bar>) xs) of None \<Rightarrow> 0 | Some m \<Rightarrow> m)"

section \<open>Judging a bucket\<close>

record metrics =
  m_device :: nat
  m_bucket :: time
  m_transfers :: nat
  m_transfer_fails :: nat
  m_bytes :: nat
  m_transfer_secs :: real
  m_xfers_big :: nat
  m_bytes_big :: nat
  m_secs_big :: real
  m_login_attempts :: nat
  m_login_fails :: nat
  m_cwd_fails :: nat

record alert_cfg =
  mad_k :: real
  fail_rate_floor :: real
  login_fail_rate_floor :: real
  throughput_drop :: real
  throughput_slow_pct :: real
  cwd_fail_floor :: nat
  min_samples :: nat
  min_login_samples :: nat
  min_cwd_samples :: nat
  min_large_samples :: nat
  min_streak_buckets :: nat
  min_streak_throughput :: nat

record alert =
  al_device :: nat
  al_bucket :: time
  al_metric :: string
  al_severity :: string
  al_value :: real
  al_baseline :: "real option"
  al_threshold :: "real option"
  al_samples :: nat
  al_message :: string

definition SIZE_MIX_TOLERANCE :: real where "SIZE_MIX_TOLERANCE = 4"
definition SLOW_PCT_MIN_BUCKETS :: nat where "SLOW_PCT_MIN_BUCKETS = 20"
definition CRITICAL_RATIO :: real where "CRITICAL_RATIO = 1 / 2"

definition mk :: "metrics \<Rightarrow> string \<Rightarrow> string \<Rightarrow> real \<Rightarrow> real option \<Rightarrow> real \<Rightarrow> nat \<Rightarrow> string \<Rightarrow> alert" where
  "mk cand metric sev val base threshold n msg =
     \<lparr>al_device = m_device cand, al_bucket = m_bucket cand, al_metric = metric, al_severity = sev,
      al_value = val, al_baseline = base, al_threshold = Some threshold, al_samples = n,
      al_message = msg\<rparr>"

text \<open>\<open>thr = max(med + k * mad, floor)\<close> when there is a baseline, else the floor.\<close>

definition upper_threshold :: "real \<Rightarrow> real list \<Rightarrow> real \<Rightarrow> real" where
  "upper_threshold k base lowest =
     (case median base of None \<Rightarrow> lowest | Some med \<Rightarrow> max (med + k * mad base med) lowest)"

definition eval_fail_rate :: "metrics \<Rightarrow> metrics list \<Rightarrow> alert_cfg \<Rightarrow> alert list" where
  "eval_fail_rate cand baseline cfg =
     (if m_transfers cand \<ge> min_samples cfg then
        let val = real (m_transfer_fails cand) / real (m_transfers cand);
            base = map (\<lambda>r. real (m_transfer_fails r) / real (m_transfers r))
                     (filter (\<lambda>r. m_transfers r \<ge> min_samples cfg) baseline);
            thr = upper_threshold (mad_k cfg) base (fail_rate_floor cfg)
        in if val > thr \<and> val > 0
           then [mk cand ''fail_rate'' (if val \<ge> max (2 * thr) (1 / 2) then ''critical'' else ''warning'')
                   val (median base) thr (m_transfers cand)
                   (''transfer failure rate '' @ fixed 1 (val * 100) @ ''% (limit '' @ fixed 1 (thr * 100) @ ''%)'')]
           else []
      else [])"

definition big_rows :: "metrics list \<Rightarrow> alert_cfg \<Rightarrow> metrics list" where
  "big_rows baseline cfg = filter (\<lambda>r. m_xfers_big r \<ge> min_large_samples cfg \<and> m_secs_big r > 0) baseline"

definition speed :: "metrics \<Rightarrow> real" where
  "speed r = real (m_bytes_big r) / m_secs_big r"

definition avg_size :: "metrics \<Rightarrow> real" where
  "avg_size r = real (m_bytes_big r) / real (m_xfers_big r)"

definition size_mixed :: "metrics \<Rightarrow> metrics list \<Rightarrow> bool" where
  "size_mixed cand rows =
     (case median (map avg_size rows) of
        None \<Rightarrow> False
      | Some b \<Rightarrow> b \<noteq> 0 \<and> \<not> (b / SIZE_MIX_TOLERANCE \<le> avg_size cand \<and> avg_size cand \<le> b * SIZE_MIX_TOLERANCE))"

definition lower_threshold :: "alert_cfg \<Rightarrow> real list \<Rightarrow> real \<Rightarrow> real" where
  "lower_threshold cfg speeds med =
     (let low = min (med - mad_k cfg * mad speeds med) (med * (1 - throughput_drop cfg)) in
      if length speeds \<ge> SLOW_PCT_MIN_BUCKETS
      then (case percentile speeds (throughput_slow_pct cfg) of None \<Rightarrow> low | Some p \<Rightarrow> min low p)
      else low)"

definition eval_throughput :: "metrics \<Rightarrow> metrics list \<Rightarrow> alert_cfg \<Rightarrow> alert list" where
  "eval_throughput cand baseline cfg =
     (if m_xfers_big cand \<ge> min_large_samples cfg \<and> m_secs_big cand > 0 then
        let val = speed cand; rows = big_rows baseline cfg; speeds = map speed rows in
        (case median speeds of
           None \<Rightarrow> []
         | Some med \<Rightarrow>
             if med > 0 \<and> \<not> size_mixed cand rows then
               (let low = lower_threshold cfg speeds med in
                if val < low
                then [mk cand ''throughput'' (if val < low * CRITICAL_RATIO then ''critical'' else ''warning'')
                        val (Some med) low (m_xfers_big cand)
                        (''transfer speed '' @ fixed 2 (val / 1048576) @ ''MB/s (usually '' @ fixed 2 (med / 1048576) @ ''MB/s)'')]
                else [])
             else [])
      else [])"

definition eval_login :: "metrics \<Rightarrow> metrics list \<Rightarrow> alert_cfg \<Rightarrow> alert list" where
  "eval_login cand baseline cfg =
     (if m_login_attempts cand \<ge> min_login_samples cfg then
        let val = real (m_login_fails cand) / real (m_login_attempts cand);
            base = map (\<lambda>r. real (m_login_fails r) / real (m_login_attempts r))
                     (filter (\<lambda>r. m_login_attempts r \<ge> min_login_samples cfg) baseline);
            thr = upper_threshold (mad_k cfg) base (login_fail_rate_floor cfg)
        in if val > thr \<and> val > 0
           then [mk cand ''login_fail_rate'' (if val \<ge> max (2 * thr) (7 / 10) then ''critical'' else ''warning'')
                   val (median base) thr (m_login_attempts cand)
                   (''login failure rate '' @ fixed 1 (val * 100) @ ''% (limit '' @ fixed 1 (thr * 100) @ ''%)'')]
           else []
      else [])"

definition eval_cwd :: "metrics \<Rightarrow> metrics list \<Rightarrow> alert_cfg \<Rightarrow> alert list" where
  "eval_cwd cand baseline cfg =
     (if m_cwd_fails cand \<ge> min_cwd_samples cfg then
        let val = real (m_cwd_fails cand);
            base = map (\<lambda>r. real (m_cwd_fails r)) (filter (\<lambda>r. m_cwd_fails r \<ge> min_cwd_samples cfg) baseline);
            thr = upper_threshold (mad_k cfg) base (real (cwd_fail_floor cfg))
        in if val > thr
           then [mk cand ''cwd_fail_spike'' (if val \<ge> 2 * thr then ''critical'' else ''warning'')
                   val (median base) thr (m_cwd_fails cand)
                   (''CWD failures '' @ show_int (int (m_cwd_fails cand)) @ '' (limit '' @ fixed 0 thr @ '')'')]
           else []
      else [])"

definition eval_bucket :: "metrics \<Rightarrow> metrics list \<Rightarrow> alert_cfg \<Rightarrow> alert list" where
  "eval_bucket cand baseline cfg =
     eval_fail_rate cand baseline cfg @ eval_throughput cand baseline cfg
     @ eval_login cand baseline cfg @ eval_cwd cand baseline cfg"

text \<open>
  \<open>_detect\<close>: per device in the order of the rows, every closed recent bucket against the
  device's buckets of the baseline period. \<open>rows\<close> is the metrics table from \<open>base_start\<close> on,
  ordered by device and bucket; the alerts are then recorded in the order of the sort keys.
\<close>

record windows =
  base_start :: time
  base_end :: time
  cand_start :: time
  cand_end :: time

definition detect_windows :: "time \<Rightarrow> time \<Rightarrow> int \<Rightarrow> int \<Rightarrow> windows" where
  "detect_windows now bucket interval_sec baseline_days =
     \<lparr>base_start = now - sec (86400 * baseline_days), base_end = now - sec 3600,
      cand_start = now - (sec interval_sec + 2 * bucket), cand_end = now - bucket\<rparr>"

definition detect_device :: "windows \<Rightarrow> alert_cfg \<Rightarrow> metrics list \<Rightarrow> alert list" where
  "detect_device w cfg drows =
     (let baseline = filter (\<lambda>r. base_start w \<le> m_bucket r \<and> m_bucket r < base_end w) drows;
          candidates = filter (\<lambda>r. cand_start w \<le> m_bucket r \<and> m_bucket r \<le> cand_end w) drows
      in concat (map (\<lambda>cand. eval_bucket cand baseline cfg) candidates))"

definition detect_alerts :: "windows \<Rightarrow> alert_cfg \<Rightarrow> metrics list \<Rightarrow> alert list" where
  "detect_alerts w cfg rows =
     (let rs = filter (\<lambda>r. base_start w \<le> m_bucket r) rows;
          devices = remdups (map m_device rs)
      in concat (map (\<lambda>d. detect_device w cfg (filter (\<lambda>r. m_device r = d) rs)) devices))"

section \<open>Order statistics\<close>

lemma count_le_sorted:
  assumes "sorted s" and "i < length s"
  shows "Suc i \<le> length (filter (\<lambda>x. x \<le> s ! i) s)"
proof -
  have "\<forall>x \<in> set (take (Suc i) s). x \<le> s ! i"
    using assms by (auto simp: in_set_conv_nth sorted_iff_nth_mono)
  then have "filter (\<lambda>x. x \<le> s ! i) (take (Suc i) s) = take (Suc i) s" by (simp add: filter_id_conv)
  then have "length (filter (\<lambda>x. x \<le> s ! i) s)
      = Suc i + length (filter (\<lambda>x. x \<le> s ! i) (drop (Suc i) s))"
    using assms(2) append_take_drop_id [of "Suc i" s]
    by (metis (no_types, lifting) filter_append length_append length_take min.absorb2 Suc_leI)
  then show ?thesis by simp
qed

lemma count_ge_sorted:
  assumes "sorted s" and "i < length s"
  shows "length s - i \<le> length (filter (\<lambda>x. s ! i \<le> x) s)"
proof -
  have "\<forall>x \<in> set (drop i s). s ! i \<le> x"
    using assms by (auto simp: in_set_conv_nth sorted_iff_nth_mono)
  then have "filter (\<lambda>x. s ! i \<le> x) (drop i s) = drop i s" by (simp add: filter_id_conv)
  then have "length (filter (\<lambda>x. s ! i \<le> x) s)
      = length (filter (\<lambda>x. s ! i \<le> x) (take i s)) + (length s - i)"
    using append_take_drop_id [of i s] by (metis filter_append length_append length_drop)
  then show ?thesis by simp
qed

lemma count_less_sorted:
  assumes "sorted s" and "i < length s"
  shows "length (filter (\<lambda>x. x < s ! i) s) \<le> i"
proof -
  have "length (filter (\<lambda>x. x < s ! i) s) + length (filter (\<lambda>x. s ! i \<le> x) s) = length s"
    using sum_length_filter_compl [of "\<lambda>x. x < s ! i" s] by (simp add: not_less)
  then show ?thesis using count_ge_sorted [OF assms] assms(2) by linarith
qed

lemma length_filter_sort: "length (filter P (sort xs)) = length (filter P xs)"
  by (metis mset_filter mset_sort size_mset)

lemma length_filter_mono: "(\<And>x. P x \<Longrightarrow> Q x) \<Longrightarrow> length (filter P xs) \<le> length (filter Q xs)"
  by (induction xs) (auto intro: le_SucI)

lemma median_halves_aux:
  assumes "median xs = Some m"
  shows "length xs \<le> 2 * length (filter (\<lambda>x. x \<le> m) xs) \<and> length xs \<le> 2 * length (filter (\<lambda>x. m \<le> x) xs)"
proof -
  let ?s = "sort xs" and ?n = "length xs"
  let ?h = "?n div 2"
  have n: "?n \<noteq> 0" using assms by (auto simp: median_def)
  then have "?s \<noteq> []" by (metis length_sort list.size(3))
  then have m_def: "m = (if ?n mod 2 \<noteq> 0 then ?s ! ?h else (?s ! (?h - 1) + ?s ! ?h) / 2)"
    using assms by (auto simp: median_def Let_def split: if_splits)
  have so: "sorted ?s" and len: "length ?s = ?n" by simp_all
  have le: "length (filter (\<lambda>x. x \<le> ?s ! i) ?s) \<le> length (filter (\<lambda>x. x \<le> m) ?s)" if "?s ! i \<le> m" for i
    using that by (intro length_filter_mono) auto
  have ge: "length (filter (\<lambda>x. ?s ! i \<le> x) ?s) \<le> length (filter (\<lambda>x. m \<le> x) ?s)" if "m \<le> ?s ! i" for i
    using that by (intro length_filter_mono) auto
  show ?thesis
  proof (cases "?n mod 2 = 0")
    case False
    then have m: "m = ?s ! ?h" using m_def by simp
    have h: "?h < ?n" and odd: "?n = 2 * ?h + 1" using n False by (simp_all, presburger)
    have "Suc ?h \<le> length (filter (\<lambda>x. x \<le> m) ?s)" "?n - ?h \<le> length (filter (\<lambda>x. m \<le> x) ?s)"
      using count_le_sorted [OF so, of ?h] count_ge_sorted [OF so, of ?h] h m by simp_all
    with odd show ?thesis unfolding length_filter_sort by linarith
  next
    case True
    let ?a = "?s ! (?h - 1)" and ?b = "?s ! ?h"
    have h: "?h < ?n" "?h - 1 < ?n" "1 \<le> ?h" and even: "?n = 2 * ?h" using n True by (simp_all, presburger+)
    have m: "m = (?a + ?b) / 2" using m_def True by simp
    have "?a \<le> ?b" using so h by (intro sorted_nth_mono) auto
    then have "?a \<le> m" "m \<le> ?b" by (simp_all add: m)
    then have "?h \<le> length (filter (\<lambda>x. x \<le> m) ?s)" "?n - ?h \<le> length (filter (\<lambda>x. m \<le> x) ?s)"
      using count_le_sorted [OF so, of "?h - 1"] count_ge_sorted [OF so, of ?h] h le ge by fastforce+
    with even show ?thesis unfolding length_filter_sort by linarith
  qed
qed

lemma percentile_below:
  assumes "percentile xs p = Some v" and "0 \<le> p"
  shows "v \<in> set xs \<and> real (length (filter (\<lambda>x. x < v) xs)) \<le> p * real (length xs)"
proof -
  let ?s = "sort xs"
  let ?i = "min (nat \<lfloor>real (length ?s) * p\<rfloor>) (length ?s - 1)"
  have ne: "?s \<noteq> []" and v: "v = ?s ! ?i" using assms(1) by (auto simp: percentile_def Let_def split: if_splits)
  have i: "?i < length ?s" using ne by (cases ?s) auto
  have "length (filter (\<lambda>x. x < v) ?s) \<le> ?i" unfolding v by (rule count_less_sorted [OF _ i]) simp
  also have "?i \<le> nat \<lfloor>real (length xs) * p\<rfloor>" by simp
  finally have "length (filter (\<lambda>x. x < v) xs) \<le> nat \<lfloor>real (length xs) * p\<rfloor>"
    unfolding length_filter_sort .
  moreover have "real (nat \<lfloor>real (length xs) * p\<rfloor>) \<le> p * real (length xs)"
    using of_nat_floor [of "real (length xs) * p"] assms(2) by (simp add: mult.commute)
  ultimately have "real (length (filter (\<lambda>x. x < v) xs)) \<le> p * real (length xs)" by linarith
  moreover have "v \<in> set ?s" unfolding v using i by (rule nth_mem)
  ultimately show ?thesis by simp
qed

lemma lower_threshold_le:
  "lower_threshold cfg speeds med \<le> med * (1 - throughput_drop cfg)"
  "lower_threshold cfg speeds med \<le> med - mad_k cfg * mad speeds med"
  by (auto simp: lower_threshold_def Let_def split: option.splits)

lemma eval_throughputD:
  assumes "a \<in> set (eval_throughput cand baseline cfg)"
  shows "\<exists>med. median (map speed (big_rows baseline cfg)) = Some med \<and> med > 0
    \<and> speed cand < lower_threshold cfg (map speed (big_rows baseline cfg)) med
    \<and> \<not> size_mixed cand (big_rows baseline cfg)
    \<and> min_large_samples cfg \<le> m_xfers_big cand \<and> al_value a = speed cand"
proof (cases "median (map speed (big_rows baseline cfg))")
  case None
  with assms show ?thesis by (simp add: eval_throughput_def split: if_splits)
next
  case (Some med)
  with assms show ?thesis by (auto simp: eval_throughput_def Let_def mk_def split: if_splits)
qed

section \<open>Properties\<close>

text \<open>
  The median splits the values: at least half of them are not above it and at least half
  are not below it.
\<close>

theorem median_halves:
  assumes "median xs = Some m"
  shows "length xs \<le> 2 * length (filter (\<lambda>x. x \<le> m) xs) \<and> length xs \<le> 2 * length (filter (\<lambda>x. m \<le> x) xs)"
  by (rule median_halves_aux [OF assms])

theorem median_halves_witness:
  "length (filter (\<lambda>x. x \<le> 5 / 2) [4, 1, 3, 2 :: real]) \<ge> 2"
proof -
  have "sort [4, 1, 3, 2] = [1, 2, 3, 4 :: real]" by (simp add: insort_key.simps)
  then have "median [4, 1, 3, 2] = Some (5 / 2)" by (simp add: median_def Let_def)
  from median_halves [OF this] show ?thesis by simp
qed

lemma slow_fraction:
  assumes "a \<in> set (eval_throughput cand baseline cfg)" and "0 \<le> throughput_slow_pct cfg"
    and n: "20 \<le> length (map speed (big_rows baseline cfg))"
  shows "real (length (filter (\<lambda>v. v \<le> al_value a) (map speed (big_rows baseline cfg))))
    \<le> throughput_slow_pct cfg * real (length (map speed (big_rows baseline cfg)))"
proof -
  let ?sp = "map speed (big_rows baseline cfg)"
  obtain med where m: "al_value a < lower_threshold cfg ?sp med"
    using eval_throughputD [OF assms(1)] by metis
  have "sort ?sp \<noteq> []" using n by (metis length_sort list.size(3) not_numeral_le_zero)
  then obtain v where v: "percentile ?sp (throughput_slow_pct cfg) = Some v"
    by (simp add: percentile_def Let_def)
  then have "lower_threshold cfg ?sp med \<le> v" using n by (simp add: lower_threshold_def Let_def SLOW_PCT_MIN_BUCKETS_def)
  then have "length (filter (\<lambda>x. x \<le> al_value a) ?sp) \<le> length (filter (\<lambda>x. x < v) ?sp)"
    using m by (intro length_filter_mono) simp
  then show ?thesis using percentile_below [OF v assms(2)] by linarith
qed

text \<open>
  An alert on the transfer speed means a real drop. The device's speed is below its usual
  median by at least the configured share; and when at least 20 buckets are known, at most the
  configured fraction of them (5 percent by default) were as slow or slower.
\<close>

theorem throughput_alert_is_rare:
  assumes "a \<in> set (eval_throughput cand baseline cfg)" and "0 \<le> throughput_slow_pct cfg"
  shows "let speeds = map speed (big_rows baseline cfg) in
    (case median speeds of None \<Rightarrow> False | Some med \<Rightarrow> al_value a < med * (1 - throughput_drop cfg))
    \<and> (if 20 \<le> length speeds
       then real (length (filter (\<lambda>v. v \<le> al_value a) speeds)) \<le> throughput_slow_pct cfg * real (length speeds)
       else True)"
proof -
  let ?sp = "map speed (big_rows baseline cfg)"
  obtain med where m: "median ?sp = Some med" "al_value a < lower_threshold cfg ?sp med"
    using eval_throughputD [OF assms(1)] by metis
  have "al_value a < med * (1 - throughput_drop cfg)"
    using m(2) lower_threshold_le(1) by (rule less_le_trans)
  then show ?thesis using m(1) slow_fraction [OF assms] by (simp add: Let_def)
qed

lemma sort_replicate: "sort (replicate n x) = replicate n x"
  by (simp add: sorted_sort_id sorted_replicate)

lemma median_replicate: "0 < n \<Longrightarrow> median (replicate n x) = Some x"
  by (auto simp: median_def Let_def sort_replicate)

definition sample_metrics :: "nat \<Rightarrow> real \<Rightarrow> metrics" where
  "sample_metrics fails secs = \<lparr>m_device = 1, m_bucket = 0, m_transfers = 100, m_transfer_fails = fails,
     m_bytes = 0, m_transfer_secs = 0, m_xfers_big = 10, m_bytes_big = 1000, m_secs_big = secs,
     m_login_attempts = 0, m_login_fails = 0, m_cwd_fails = 0\<rparr>"

definition sample_cfg :: alert_cfg where
  "sample_cfg = \<lparr>mad_k = 4, fail_rate_floor = 5 / 100, login_fail_rate_floor = 3 / 10,
     throughput_drop = 6 / 10, throughput_slow_pct = 5 / 100, cwd_fail_floor = 20, min_samples = 20,
     min_login_samples = 10, min_cwd_samples = 5, min_large_samples = 5, min_streak_buckets = 2,
     min_streak_throughput = 3\<rparr>"

lemma sample_throughput:
  "mk (sample_metrics 0 1000) ''throughput'' ''critical'' 1 (Some 10) 4 10
     (''transfer speed '' @ fixed 2 (1 / 1048576) @ ''MB/s (usually '' @ fixed 2 (10 / 1048576) @ ''MB/s)'')
   \<in> set (eval_throughput (sample_metrics 0 1000) (replicate 20 (sample_metrics 0 100)) sample_cfg)"
proof -
  let ?b = "sample_metrics 0 100" and ?c = "sample_metrics 0 1000"
  have rows: "big_rows (replicate 20 ?b) sample_cfg = replicate 20 ?b"
    by (auto simp: big_rows_def sample_metrics_def sample_cfg_def)
  have sp: "speed ?b = 10" "speed ?c = 1"
    by (simp_all add: speed_def sample_metrics_def)
  have av: "avg_size ?b = 100" "avg_size ?c = 100"
    by (simp_all add: avg_size_def sample_metrics_def)
  have "map (\<lambda>x. \<bar>x - 10\<bar>) (replicate 20 (10 :: real)) = replicate 20 0" by (simp add: map_replicate_const)
  then have mad: "mad (replicate 20 10) 10 = 0" by (simp add: mad_def median_replicate)
  have pct: "percentile (replicate 20 10) (1 / 20) = Some 10"
    by (simp add: percentile_def Let_def sort_replicate)
  have low: "lower_threshold sample_cfg (replicate 20 10) 10 = 4"
    by (simp add: lower_threshold_def mad pct SLOW_PCT_MIN_BUCKETS_def sample_cfg_def)
  have mix: "\<not> size_mixed ?c (replicate 20 ?b)"
    by (simp add: size_mixed_def av median_replicate SIZE_MIX_TOLERANCE_def)
  have "min_large_samples sample_cfg \<le> m_xfers_big ?c" "m_secs_big ?c > 0" "m_xfers_big ?c = 10"
    by (simp_all add: sample_cfg_def sample_metrics_def)
  then show ?thesis
    by (simp add: eval_throughput_def rows sp low mix median_replicate CRITICAL_RATIO_def Let_def del: replicate_Suc)
qed

theorem throughput_alert_is_rare_witness:
  "let speeds = map speed (big_rows (replicate 20 (sample_metrics 0 100)) sample_cfg) in
   real (length (filter (\<lambda>v. v \<le> 1) speeds)) \<le> 1"
proof -
  have len: "length (big_rows (replicate 20 (sample_metrics 0 100)) sample_cfg) = 20"
    by (simp add: big_rows_def sample_metrics_def sample_cfg_def)
  have "0 \<le> throughput_slow_pct sample_cfg" "throughput_slow_pct sample_cfg = 5 / 100"
    by (simp_all add: sample_cfg_def)
  with throughput_alert_is_rare [OF sample_throughput this(1)] len show ?thesis
    by (simp add: Let_def mk_def)
qed

lemma above_floor: "upper_threshold k base lowest < v \<Longrightarrow> lowest < v"
  by (auto simp: upper_threshold_def split: option.splits)

text \<open>
  Every alert is about the judged bucket and rests on enough samples and on a value beyond
  the configured floor of its metric: a failure rate or a login failure rate above its floor,
  more failed directory changes than the floor, or a speed below the usual one.
\<close>

theorem alert_beyond_floor:
  assumes "a \<in> set (eval_bucket cand baseline cfg)"
  shows "al_device a = m_device cand \<and> al_bucket a = m_bucket cand \<and>
    (if al_metric a = ''fail_rate'' then
       min_samples cfg \<le> m_transfers cand
       \<and> al_value a = real (m_transfer_fails cand) / real (m_transfers cand)
       \<and> fail_rate_floor cfg < al_value a \<and> 0 < al_value a
     else if al_metric a = ''login_fail_rate'' then
       min_login_samples cfg \<le> m_login_attempts cand
       \<and> al_value a = real (m_login_fails cand) / real (m_login_attempts cand)
       \<and> login_fail_rate_floor cfg < al_value a \<and> 0 < al_value a
     else if al_metric a = ''cwd_fail_spike'' then
       min_cwd_samples cfg \<le> m_cwd_fails cand \<and> al_value a = real (m_cwd_fails cand)
       \<and> cwd_fail_floor cfg < m_cwd_fails cand
     else al_metric a = ''throughput'' \<and> min_large_samples cfg \<le> m_xfers_big cand
       \<and> al_value a = speed cand
       \<and> (case al_threshold a of None \<Rightarrow> False | Some low \<Rightarrow> al_value a < low))"
proof -
  from assms consider "a \<in> set (eval_fail_rate cand baseline cfg)" | "a \<in> set (eval_throughput cand baseline cfg)"
    | "a \<in> set (eval_login cand baseline cfg)" | "a \<in> set (eval_cwd cand baseline cfg)"
    by (auto simp: eval_bucket_def)
  then show ?thesis
  proof cases
    case 1
    then have "upper_threshold (mad_k cfg) (map (\<lambda>r. real (m_transfer_fails r) / real (m_transfers r))
          (filter (\<lambda>r. m_transfers r \<ge> min_samples cfg) baseline)) (fail_rate_floor cfg)
        < real (m_transfer_fails cand) / real (m_transfers cand)"
      by (simp add: eval_fail_rate_def Let_def split: if_splits)
    from above_floor [OF this] 1 show ?thesis
      by (simp add: eval_fail_rate_def Let_def mk_def split: if_splits)
  next
    case 2
    then show ?thesis
      by (auto simp: eval_throughput_def Let_def mk_def split: if_splits option.splits)
  next
    case 3
    then have "upper_threshold (mad_k cfg) (map (\<lambda>r. real (m_login_fails r) / real (m_login_attempts r))
          (filter (\<lambda>r. m_login_attempts r \<ge> min_login_samples cfg) baseline)) (login_fail_rate_floor cfg)
        < real (m_login_fails cand) / real (m_login_attempts cand)"
      by (simp add: eval_login_def Let_def split: if_splits)
    from above_floor [OF this] 3 show ?thesis
      by (simp add: eval_login_def Let_def mk_def split: if_splits)
  next
    case 4
    then have "upper_threshold (mad_k cfg) (map (\<lambda>r. real (m_cwd_fails r))
          (filter (\<lambda>r. m_cwd_fails r \<ge> min_cwd_samples cfg) baseline)) (real (cwd_fail_floor cfg))
        < real (m_cwd_fails cand)"
      by (simp add: eval_cwd_def Let_def split: if_splits)
    from above_floor [OF this] 4 show ?thesis
      by (simp add: eval_cwd_def Let_def mk_def split: if_splits)
  qed
qed

theorem alert_beyond_floor_witness:
  "5 / 100 < al_value (mk (sample_metrics 30 10) ''fail_rate'' ''warning'' (3 / 10) None (5 / 100) 100
     (''transfer failure rate '' @ fixed 1 (3 / 10 * 100) @ ''% (limit '' @ fixed 1 (5 / 100 * 100) @ ''%)''))"
proof -
  let ?a = "mk (sample_metrics 30 10) ''fail_rate'' ''warning'' (3 / 10) None (5 / 100) 100
     (''transfer failure rate '' @ fixed 1 (3 / 10 * 100) @ ''% (limit '' @ fixed 1 (5 / 100 * 100) @ ''%)'')"
  have "?a \<in> set (eval_bucket (sample_metrics 30 10) [] sample_cfg)"
    by (simp add: eval_bucket_def eval_fail_rate_def sample_metrics_def sample_cfg_def
        upper_threshold_def median_def Let_def)
  from alert_beyond_floor [OF this] show ?thesis by (simp add: mk_def sample_cfg_def)
qed

end
