(* ===== verification/Episodes.thy ===== *)
theory Episodes
  imports Detect "HOL-Library.Char_ord" "HOL-Library.List_Lexorder" "HOL-Library.Product_Lexorder"
begin

text \<open>
  Alerts and episodes of \<open>was/app/service_monitor.py\<close>: recording an alert, the state of the
  ongoing problem of a device and metric (\<open>service_alert_episodes\<close>), closing it when it has
  become quiet, and sending alerts and recoveries.

  The tables are lists of rows in the order of insertion; each SQL statement is one function,
  with its \<open>ON CONFLICT\<close> and \<open>CASE\<close> branches. Whether a channel is configured and whether the
  dispatch succeeded (it does not while notifications are muted) are inputs of a step.
\<close>

section \<open>State\<close>

record episode =
  ep_started :: time
  ep_first :: time
  ep_last :: time
  ep_severity :: string
  ep_count :: nat
  ep_notified :: bool
  ep_resolved :: "time option"
  ep_recovery_notified :: bool

record alert_row =
  ar_id :: nat
  ar_alert :: alert
  ar_notified :: bool

type_synonym ep_key = "nat \<times> string"

record monitor_db =
  mo_alerts :: "alert_row list"
  mo_next_id :: nat
  mo_episodes :: "(ep_key, episode) dict"

definition RECOVERY_QUIET_BUCKETS :: int where "RECOVERY_QUIET_BUCKETS = 3"

definition al_key :: "alert \<Rightarrow> ep_key" where
  "al_key a = (al_device a, al_metric a)"

section \<open>Recording an alert\<close>

definition min_streak :: "alert_cfg \<Rightarrow> string \<Rightarrow> nat" where
  "min_streak cfg metric = (if metric = ''throughput'' then min_streak_throughput cfg else min_streak_buckets cfg)"

definition should_notify :: "nat \<Rightarrow> string option \<Rightarrow> string \<Rightarrow> nat \<Rightarrow> bool" where
  "should_notify prev_count prev_severity severity streak =
     (let was = prev_count \<ge> streak;
          escalated = was \<and> severity = ''critical'' \<and> prev_severity \<noteq> Some ''critical''
      in escalated \<or> prev_count + 1 = streak)"

definition upsert_episode :: "time \<Rightarrow> alert \<Rightarrow> episode option \<Rightarrow> episode" where
  "upsert_episode now a cur =
     (case cur of
        None \<Rightarrow>
          \<lparr>ep_started = now, ep_first = al_bucket a, ep_last = al_bucket a, ep_severity = al_severity a,
           ep_count = 1, ep_notified = False, ep_resolved = None, ep_recovery_notified = False\<rparr>
      | Some e \<Rightarrow>
          (let closed = (ep_resolved e \<noteq> None) in
           \<lparr>ep_started = (if closed then now else ep_started e),
            ep_first = (if closed then al_bucket a else ep_first e),
            ep_last = max (ep_last e) (al_bucket a),
            ep_severity = (if closed then al_severity a
                           else if al_severity a = ''critical'' then ''critical'' else ep_severity e),
            ep_count = (if closed then 1 else ep_count e + 1),
            ep_notified = (if closed then False else ep_notified e),
            ep_resolved = None, ep_recovery_notified = False\<rparr>))"

definition track_episode :: "time \<Rightarrow> alert \<Rightarrow> nat \<Rightarrow> monitor_db \<Rightarrow> bool \<times> monitor_db" where
  "track_episode now a streak db =
     (let cur = map_of (mo_episodes db) (al_key a);
          ongoing = (case cur of None \<Rightarrow> False | Some e \<Rightarrow> ep_resolved e = None);
          prev_count = (if ongoing then ep_count (the cur) else 0);
          prev_severity = (if ongoing then Some (ep_severity (the cur)) else None)
      in (should_notify prev_count prev_severity (al_severity a) streak,
          db\<lparr>mo_episodes := AList.update (al_key a) (upsert_episode now a cur) (mo_episodes db)\<rparr>))"

definition same_alert :: "alert \<Rightarrow> alert_row \<Rightarrow> bool" where
  "same_alert a r = (al_device (ar_alert r) = al_device a \<and> al_bucket (ar_alert r) = al_bucket a
     \<and> al_metric (ar_alert r) = al_metric a)"

definition record_alert :: "time \<Rightarrow> alert_cfg \<Rightarrow> alert \<Rightarrow> monitor_db \<Rightarrow> bool \<times> monitor_db" where
  "record_alert now cfg a db =
     (if List.find (same_alert a) (mo_alerts db) \<noteq> None then (False, db)
      else let (tell, db1) = track_episode now a (min_streak cfg (al_metric a)) db in
        (True, db1\<lparr>mo_alerts := mo_alerts db1 @ [\<lparr>ar_id = mo_next_id db1, ar_alert = a, ar_notified = \<not> tell\<rparr>],
                   mo_next_id := mo_next_id db1 + 1\<rparr>))"

text \<open>The alerts of a cycle, sorted by device, metric and bucket; the number of new ones.\<close>

definition record_all :: "time \<Rightarrow> alert_cfg \<Rightarrow> alert list \<Rightarrow> monitor_db \<Rightarrow> nat \<times> monitor_db" where
  "record_all now cfg alerts db =
     fold (\<lambda>a (n, db). let (new, db') = record_alert now cfg a db in (if new then n + 1 else n, db'))
       (sort_key (\<lambda>a. (al_device a, al_metric a, al_bucket a)) alerts) (0, db)"

section \<open>Closing, sending\<close>

definition resolve_episodes :: "time \<Rightarrow> time \<Rightarrow> monitor_db \<Rightarrow> monitor_db" where
  "resolve_episodes now bucket db =
     (let cutoff = now - bucket * RECOVERY_QUIET_BUCKETS in
      db\<lparr>mo_episodes := map (\<lambda>(k, e).
           (k, if ep_resolved e = None \<and> ep_last e < cutoff then e\<lparr>ep_resolved := Some now\<rparr> else e))
         (mo_episodes db)\<rparr>)"

definition mark_notified :: "nat list \<Rightarrow> bool \<Rightarrow> monitor_db \<Rightarrow> monitor_db" where
  "mark_notified ids mark_episodes db =
     (let keys = map (al_key \<circ> ar_alert) (filter (\<lambda>r. List.member ids (ar_id r)) (mo_alerts db));
          db1 = db\<lparr>mo_alerts := map (\<lambda>r. if List.member ids (ar_id r) then r\<lparr>ar_notified := True\<rparr> else r) (mo_alerts db)\<rparr>
      in if mark_episodes
         then db1\<lparr>mo_episodes := map (\<lambda>(k, e).
                (k, if List.member keys k \<and> ep_resolved e = None then e\<lparr>ep_notified := True\<rparr> else e))
              (mo_episodes db1)\<rparr>
         else db1)"

definition to_send :: "monitor_db \<Rightarrow> alert_row list" where
  "to_send db = take 100 (filter (\<lambda>r. \<not> ar_notified r) (mo_alerts db))"

definition notify :: "bool \<Rightarrow> bool \<Rightarrow> monitor_db \<Rightarrow> monitor_db" where
  "notify configured sent db =
     (let rows = to_send db; ids = map ar_id rows in
      if rows = [] then db
      else if \<not> configured then mark_notified ids False db
      else if sent then mark_notified ids True db else db)"

definition recovered :: "monitor_db \<Rightarrow> (ep_key, episode) dict" where
  "recovered db =
     take 100 (sort_key (\<lambda>(k, e). the (ep_resolved e))
       (filter (\<lambda>(k, e). ep_resolved e \<noteq> None \<and> \<not> ep_recovery_notified e \<and> ep_notified e) (mo_episodes db)))"

definition mark_recovery_notified :: "ep_key list \<Rightarrow> monitor_db \<Rightarrow> monitor_db" where
  "mark_recovery_notified keys db =
     db\<lparr>mo_episodes := map (\<lambda>(k, e). (k, if List.member keys k then e\<lparr>ep_recovery_notified := True\<rparr> else e))
       (mo_episodes db)\<rparr>"

definition notify_recovery :: "bool \<Rightarrow> bool \<Rightarrow> monitor_db \<Rightarrow> monitor_db" where
  "notify_recovery configured sent db =
     (let keys = map fst (recovered db) in
      if keys = [] then db
      else if \<not> configured then mark_recovery_notified keys db
      else if sent then mark_recovery_notified keys db else db)"

text \<open>The minutes a recovery message reports: from the first to the end of the last bucket.\<close>

definition duration_min :: "time \<Rightarrow> episode \<Rightarrow> int" where
  "duration_min bucket e = (ep_last e - ep_first e + bucket) div minutes 1"

text \<open>One cycle after the rollup: detect, close, send, send recoveries.\<close>

definition monitor_cycle ::
  "time \<Rightarrow> time \<Rightarrow> alert_cfg \<Rightarrow> alert list \<Rightarrow> bool \<Rightarrow> bool \<Rightarrow> bool \<Rightarrow> monitor_db \<Rightarrow> monitor_db" where
  "monitor_cycle now bucket cfg alerts configured sent sent_recovery db =
     notify_recovery configured sent_recovery
       (notify configured sent (resolve_episodes now bucket (snd (record_all now cfg alerts db))))"

section \<open>One episode\<close>

text \<open>The alerts of one device and metric, one after the other, while the episode stays open.\<close>

fun episode_run :: "time \<Rightarrow> nat \<Rightarrow> alert list \<Rightarrow> monitor_db \<Rightarrow> bool list \<times> monitor_db" where
  "episode_run now streak [] db = ([], db)"
| "episode_run now streak (a # as) db =
     (let (tell, db1) = track_episode now a streak db; (tells, db2) = episode_run now streak as db1
      in (tell # tells, db2))"

definition critical :: "alert \<Rightarrow> bool" where
  "critical a \<longleftrightarrow> al_severity a = ''critical''"

text \<open>Which of the alerts are sent, from the number of alerts before and whether one was critical.\<close>

fun expected :: "nat \<Rightarrow> bool \<Rightarrow> nat \<Rightarrow> alert list \<Rightarrow> bool list" where
  "expected n crit streak [] = []"
| "expected n crit streak (a # as) =
     (n + 1 = streak \<or> (streak \<le> n \<and> critical a \<and> \<not> crit)) # expected (n + 1) (crit \<or> critical a) streak as"

definition open_at :: "monitor_db \<Rightarrow> ep_key \<Rightarrow> nat \<Rightarrow> bool \<Rightarrow> bool" where
  "open_at db k n crit \<longleftrightarrow>
     (case map_of (mo_episodes db) k of
        None \<Rightarrow> n = 0 \<and> \<not> crit
      | Some e \<Rightarrow> (if ep_resolved e = None then ep_count e = n \<and> 0 < n \<and> (ep_severity e = ''critical'') = crit
                   else n = 0 \<and> \<not> crit))"

lemma track_open:
  assumes "open_at db (al_key a) n crit" and "track_episode now a streak db = (tell, db1)" and "0 < streak"
  shows "tell = (n + 1 = streak \<or> (streak \<le> n \<and> critical a \<and> \<not> crit))
    \<and> open_at db1 (al_key a) (n + 1) (crit \<or> critical a)"
proof (cases "map_of (mo_episodes db) (al_key a)")
  case None
  with assms show ?thesis
    by (auto simp: track_episode_def open_at_def should_notify_def upsert_episode_def critical_def Let_def)
next
  case (Some e)
  with assms show ?thesis
    by (cases "ep_resolved e")
       (auto simp: track_episode_def open_at_def should_notify_def upsert_episode_def critical_def Let_def
          split: if_splits)
qed

lemma episode_run_expected:
  "open_at db k n crit \<Longrightarrow> \<forall>a \<in> set as. al_key a = k \<Longrightarrow> 0 < streak \<Longrightarrow>
   episode_run now streak as db = (tells, db') \<Longrightarrow>
   tells = expected n crit streak as \<and> open_at db' k (n + length as) (crit \<or> (\<exists>a \<in> set as. critical a))"
proof (induction as arbitrary: db n crit tells)
  case Nil
  then show ?case by simp
next
  case (Cons a as)
  obtain tell db1 where t: "track_episode now a streak db = (tell, db1)" by (cases "track_episode now a streak db")
  obtain tells2 where r: "episode_run now streak as db1 = (tells2, db')" and tl: "tells = tell # tells2"
    using Cons.prems(4) t by (auto split: prod.splits)
  have k: "al_key a = k" using Cons.prems(2) by simp
  from track_open [OF Cons.prems(1) [folded k] t Cons.prems(3)]
  have o: "open_at db1 k (n + 1) (crit \<or> critical a)"
    and tell: "tell = (n + 1 = streak \<or> (streak \<le> n \<and> critical a \<and> \<not> crit))" by (simp_all add: k)
  from Cons.IH [OF o _ Cons.prems(3) r] Cons.prems(2) tl tell show ?case by auto
qed

lemma expected_late: "streak \<le> n \<Longrightarrow> length (filter (\<lambda>b. b) (expected n crit streak as)) \<le> (if crit then 0 else 1)"
proof (induction as arbitrary: n crit)
  case (Cons a as)
  show ?case
    using Cons.IH [of "n + 1" "crit \<or> critical a"] Cons.prems by (auto split: if_splits)
qed simp

lemma expected_count:
  "n < streak \<Longrightarrow> length (filter (\<lambda>b. b) (expected n crit streak as)) \<le> 2
     \<and> (0 < length (filter (\<lambda>b. b) (expected n crit streak as)) \<longleftrightarrow> streak \<le> n + length as)"
proof (induction as arbitrary: n crit)
  case Nil
  then show ?case by simp
next
  case (Cons a as)
  show ?case
  proof (cases "n + 1 = streak")
    case True
    with expected_late [of streak "n + 1" "crit \<or> critical a" as] show ?thesis
      by (auto split: if_splits)
  next
    case False
    with Cons.IH [of "n + 1" "crit \<or> critical a"] Cons.prems show ?thesis by auto
  qed
qed

section \<open>The tables\<close>

definition tables_ok :: "monitor_db \<Rightarrow> bool" where
  "tables_ok db \<longleftrightarrow>
     distinct (map fst (mo_episodes db)) \<and>
     distinct (map (\<lambda>r. (al_key (ar_alert r), al_bucket (ar_alert r))) (mo_alerts db)) \<and>
     distinct (map ar_id (mo_alerts db)) \<and> (\<forall>r \<in> set (mo_alerts db). ar_id r < mo_next_id db)"

lemma find_same_alert:
  "List.find (same_alert a) rs = None \<longleftrightarrow> (al_key a, al_bucket a) \<notin> (\<lambda>r. (al_key (ar_alert r), al_bucket (ar_alert r))) ` set rs"
  by (force simp: find_None_iff same_alert_def al_key_def image_iff)

lemma track_tables:
  "track_episode now a streak db = (tell, db1) \<Longrightarrow>
   mo_alerts db1 = mo_alerts db \<and> mo_next_id db1 = mo_next_id db \<and>
   mo_episodes db1 = AList.update (al_key a) (upsert_episode now a (map_of (mo_episodes db) (al_key a))) (mo_episodes db)"
  by (auto simp: track_episode_def Let_def)

lemma record_alert_ok [keeps]: "tables_ok db \<Longrightarrow> tables_ok (snd (record_alert now cfg a db))"
proof -
  assume ok: "tables_ok db"
  obtain tell db1 where t: "track_episode now a (min_streak cfg (al_metric a)) db = (tell, db1)"
    by (cases "track_episode now a (min_streak cfg (al_metric a)) db")
  show ?thesis
  proof (cases "List.find (same_alert a) (mo_alerts db)")
    case None
    with ok t track_tables [OF t] show ?thesis
      by (auto simp: record_alert_def tables_ok_def distinct_update find_same_alert)
  next
    case (Some r)
    with ok show ?thesis by (simp add: record_alert_def)
  qed
qed

lemma fst_keep [simp]: "fst (case p of (k, e) \<Rightarrow> (k, f k e)) = fst p"
  by (cases p) simp

lemma map_keep_keys [simp]: "map (fst \<circ> (\<lambda>(k, e). (k, f k e))) d = map fst d"
  by (simp add: comp_def)

lemma resolve_ok [keeps]: "tables_ok db \<Longrightarrow> tables_ok (resolve_episodes now bucket db)"
  by (simp add: resolve_episodes_def tables_ok_def map_keep_keys Let_def)

lemma mark_notified_rows:
  "map (\<lambda>r. f (ar_alert r)) (mo_alerts (mark_notified ids b db)) = map (\<lambda>r. f (ar_alert r)) (mo_alerts db)"
  "map ar_id (mo_alerts (mark_notified ids b db)) = map ar_id (mo_alerts db)"
  by (simp_all add: mark_notified_def Let_def comp_def if_distrib cong: if_cong)

lemma mark_notified_ok [keeps]: "tables_ok db \<Longrightarrow> tables_ok (mark_notified ids b db)"
proof -
  assume ok: "tables_ok db"
  have "map fst (mo_episodes (mark_notified ids b db)) = map fst (mo_episodes db)"
    by (simp add: mark_notified_def map_keep_keys Let_def)
  moreover have "ar_id ` set (mo_alerts (mark_notified ids b db)) = ar_id ` set (mo_alerts db)"
    using mark_notified_rows(2) [of ids b db] by (metis list.set_map)
  moreover have "mo_next_id (mark_notified ids b db) = mo_next_id db"
    by (simp add: mark_notified_def Let_def)
  ultimately show ?thesis
    using ok mark_notified_rows(1) [of "\<lambda>a. (al_key a, al_bucket a)" ids b db] mark_notified_rows(2) [of ids b db]
    unfolding tables_ok_def by (metis (no_types, lifting) image_iff)
qed

lemma notify_ok [keeps]: "tables_ok db \<Longrightarrow> tables_ok (notify configured sent db)"
  by (simp add: notify_def mark_notified_ok Let_def)

lemma mark_recovery_ok [keeps]: "tables_ok db \<Longrightarrow> tables_ok (mark_recovery_notified keys db)"
  by (simp add: mark_recovery_notified_def tables_ok_def map_keep_keys)

lemma record_all_ok [keeps]: "tables_ok db \<Longrightarrow> tables_ok (snd (record_all now cfg alerts db))"
proof -
  have "tables_ok d \<Longrightarrow> tables_ok (snd (fold (\<lambda>a (n, db). let (new, db') = record_alert now cfg a db in
      (if new then n + 1 else n, db')) as (n, d)))" for as n d
  proof (induction as arbitrary: n d)
    case (Cons a as)
    obtain new d' where r: "record_alert now cfg a d = (new, d')" by (cases "record_alert now cfg a d")
    have "tables_ok d'" using record_alert_ok [OF Cons.prems, of now cfg a] r by simp
    with Cons.IH [of d' "if new then n + 1 else n"] r show ?case by simp
  qed simp
  then show "tables_ok db \<Longrightarrow> ?thesis" by (simp add: record_all_def)
qed

section \<open>Properties\<close>

text \<open>
  C15: one ongoing problem is announced at most twice. While an episode stays open, the alerts
  that are sent are exactly the one that makes it last \<open>min_streak\<close> buckets and the first
  critical one after that, if none was critical before; so a problem that ends sooner is
  never announced, and one that lasts always is.
\<close>

theorem episode_announced_at_most_twice:
  assumes "0 < streak" and "\<forall>a \<in> set as. al_key a = k"
    and "case map_of (mo_episodes db) k of None \<Rightarrow> True | Some e \<Rightarrow> ep_resolved e \<noteq> None"
    and "episode_run now streak as db = (tells, db')"
  shows "tells = expected 0 False streak as \<and> length (filter (\<lambda>b. b) tells) \<le> 2
    \<and> (0 < length (filter (\<lambda>b. b) tells) \<longleftrightarrow> streak \<le> length as)"
proof -
  have "open_at db k 0 False" using assms(3) by (auto simp: open_at_def split: option.splits)
  from episode_run_expected [OF this assms(2,1,4)] expected_count [of 0 streak False as] assms(1)
  show ?thesis by simp
qed

definition sample_alert :: "string \<Rightarrow> time \<Rightarrow> alert" where
  "sample_alert sev b = \<lparr>al_device = 1, al_bucket = b, al_metric = ''fail_rate'', al_severity = sev,
     al_value = 1, al_baseline = None, al_threshold = None, al_samples = 30, al_message = []\<rparr>"

definition empty_monitor :: monitor_db where
  "empty_monitor = \<lparr>mo_alerts = [], mo_next_id = 0, mo_episodes = []\<rparr>"

theorem episode_announced_at_most_twice_witness:
  "fst (episode_run 0 2 [sample_alert ''warning'' 1, sample_alert ''warning'' 2, sample_alert ''critical'' 3,
     sample_alert ''critical'' 4] empty_monitor) = [False, True, True, False]"
proof -
  let ?as = "[sample_alert ''warning'' 1, sample_alert ''warning'' 2, sample_alert ''critical'' 3,
     sample_alert ''critical'' 4]"
  obtain tells db' where r: "episode_run 0 2 ?as empty_monitor = (tells, db')"
    by (cases "episode_run 0 2 ?as empty_monitor")
  have "tells = expected 0 False 2 ?as"
    using episode_announced_at_most_twice [OF _ _ _ r, of "(1, ''fail_rate'')"]
    by (simp add: al_key_def sample_alert_def empty_monitor_def)
  then have "tells = [False, True, True, False]" by (simp add: critical_def sample_alert_def)
  with r show ?thesis by simp
qed

text \<open>
  Every cycle keeps the tables consistent: one episode per device and metric, one alert per
  device, metric and bucket, unique ids; and judging the same bucket again (late logs are rolled
  up anew every cycle) changes nothing.
\<close>

theorem monitor_cycle_consistent:
  assumes "tables_ok db"
  shows "tables_ok (monitor_cycle now bucket cfg alerts configured sent sent_recovery db)
    \<and> (let db1 = snd (record_alert now cfg a db) in record_alert later cfg a db1 = (False, db1))"
proof
  show "tables_ok (monitor_cycle now bucket cfg alerts configured sent sent_recovery db)"
    using assms by (simp add: monitor_cycle_def notify_recovery_def Let_def keeps)
  have "\<exists>r \<in> set (mo_alerts (snd (record_alert now cfg a db))). same_alert a r"
  proof (cases "List.find (same_alert a) (mo_alerts db)")
    case None
    have "same_alert a \<lparr>ar_id = i, ar_alert = a, ar_notified = b\<rparr>" for i b by (simp add: same_alert_def)
    with None show ?thesis by (simp add: record_alert_def split: prod.split)
  next
    case (Some r)
    then show ?thesis by (auto simp: record_alert_def find_Some_iff)
  qed
  then have "List.find (same_alert a) (mo_alerts (snd (record_alert now cfg a db))) \<noteq> None"
    by (auto simp: find_None_iff)
  then show "let db1 = snd (record_alert now cfg a db) in record_alert later cfg a db1 = (False, db1)"
    by (simp add: record_alert_def [of later])
qed

theorem monitor_cycle_consistent_witness:
  "tables_ok (monitor_cycle 9 (minutes 5) sample_cfg [sample_alert ''warning'' 1, sample_alert ''critical'' 1]
     True True True empty_monitor)"
proof -
  have "tables_ok empty_monitor" by (simp add: tables_ok_def empty_monitor_def)
  from monitor_cycle_consistent [OF this] show ?thesis by blast
qed

text \<open>
  A problem that was closed before its alert could be sent gets no recovery message. If the
  dispatch fails (or is muted) until the episode is closed, sending the alert later does not
  mark the closed episode, and the recovery step never selects it.
\<close>

theorem late_alert_has_no_recovery:
  assumes "tables_ok db" and "(k, e) \<in> set (mo_episodes db)" and "ep_resolved e = Some t" and "\<not> ep_notified e"
  shows "(k, e) \<in> set (mo_episodes (notify configured sent db))
    \<and> \<not> List.member (map fst (recovered (notify configured sent db))) k"
proof -
  have keep: "(k, e) \<in> set (mo_episodes (mark_notified ids b db))" for ids b
    using assms(2,3) by (force simp: mark_notified_def Let_def image_iff)
  then have in_new: "(k, e) \<in> set (mo_episodes (notify configured sent db))"
    using assms(2) by (simp add: notify_def Let_def)
  have dist: "distinct (map fst (mo_episodes (notify configured sent db)))"
    using notify_ok [OF assms(1)] by (simp add: tables_ok_def)
  have "\<not> List.member (map fst (recovered (notify configured sent db))) k"
  proof
    assume "List.member (map fst (recovered (notify configured sent db))) k"
    then obtain e' where "(k, e') \<in> set (recovered (notify configured sent db))" by auto
    then have "(k, e') \<in> set (mo_episodes (notify configured sent db))" "ep_notified e'"
      by (auto simp: recovered_def dest!: in_set_takeD)
    with in_new dist assms(4) show False by (metis eq_key_imp_eq_value)
  qed
  with in_new show ?thesis by blast
qed

theorem late_alert_has_no_recovery_witness:
  "let e = \<lparr>ep_started = 0, ep_first = 0, ep_last = 0, ep_severity = ''critical'', ep_count = 2,
            ep_notified = False, ep_resolved = Some 5, ep_recovery_notified = False\<rparr>;
       db = \<lparr>mo_alerts = [\<lparr>ar_id = 0, ar_alert = sample_alert ''critical'' 0, ar_notified = False\<rparr>],
             mo_next_id = 1, mo_episodes = [((1, ''fail_rate''), e)]\<rparr>
   in to_send db \<noteq> [] \<and> \<not> List.member (map fst (recovered (notify True True db))) (1, ''fail_rate'')"
proof -
  let ?e = "\<lparr>ep_started = 0, ep_first = 0, ep_last = 0, ep_severity = ''critical'', ep_count = 2,
            ep_notified = False, ep_resolved = Some 5, ep_recovery_notified = False\<rparr>"
  let ?db = "\<lparr>mo_alerts = [\<lparr>ar_id = 0, ar_alert = sample_alert ''critical'' 0, ar_notified = False\<rparr>],
             mo_next_id = 1, mo_episodes = [((1, ''fail_rate''), ?e)]\<rparr>"
  have "tables_ok ?db" "((1, ''fail_rate''), ?e) \<in> set (mo_episodes ?db)" "to_send ?db \<noteq> []"
    by (simp_all add: tables_ok_def to_send_def)
  with late_alert_has_no_recovery [OF this(1,2), of 5 True True] show ?thesis by (simp add: Let_def)
qed

end
