(* ===== verification/Accounts.thy ===== *)
theory Accounts
  imports PyParse
begin

text \<open>
  \<open>was/app/security.py\<close>, \<open>routers/auth.py\<close> and \<open>routers/users.py\<close>: passwords, the login with
  its lock, and the administration of the accounts.

  The tables are lists of rows in a record, a handler is a function on it that returns the
  answer and the tables after the commit; a handler that raises leaves them as they were
  (the session is closed without a commit). The key derivation \<open>pbkdf2_hmac\<close>, the address
  arithmetic of \<open>ipaddress\<close> and the random salts are parameters. The message texts are
  replaced by English tags. A request that the schema refuses never reaches its handler.
\<close>

section \<open>The tables\<close>

record user =
  u_id :: nat
  u_username :: string
  u_hash :: string
  u_role :: string
  u_customer :: "string option"
  u_allowed_ips :: "string option"
  u_active :: bool
  u_failed :: nat
  u_locked_until :: "time option"
  u_last_login :: "time option"
  u_note :: "string option"
  u_created_by :: "string option"

record api_key =
  ak_id :: nat
  ak_user :: "nat option"
  ak_label :: string
  ak_prefix :: string
  ak_hash :: string
  ak_active :: bool
  ak_expires :: "time option"
  ak_last_used :: "time option"

record ftp_row =
  fr_user :: nat
  fr_group :: nat
  fr_name :: string

record group =
  gr_id :: nat
  gr_name :: string
  gr_customer :: "string option"

text \<open>The tables; \<open>ac_next\<close> is the sequence the database draws the user ids from.\<close>

record accounts =
  ac_users :: "user list"
  ac_config :: "(string, string) dict"
  ac_ftp :: "ftp_row list"
  ac_groups :: "group list"
  ac_keys :: "api_key list"
  ac_next :: nat

text \<open>
  What comes from the environment: the settings \<open>ADMIN_USERNAME\<close>, \<open>ADMIN_PASSWORD\<close> and the
  token lifetime, \<open>pbkdf2_hmac\<close>, and \<open>ip_address(a) in ip_network(e)\<close> (\<open>None\<close> when one of
  the two is refused with a \<open>ValueError\<close>) with the validity of a network.
\<close>

record env =
  en_admin_username :: string
  en_admin_password :: string
  en_expire_minutes :: int
  en_kdf :: "string \<Rightarrow> nat list \<Rightarrow> int \<Rightarrow> nat list"
  en_in_net :: "string \<Rightarrow> string \<Rightarrow> bool option"
  en_valid_net :: "string \<Rightarrow> bool"

section \<open>Passwords\<close>

definition strip_input :: "string \<Rightarrow> string" where
  "strip_input s = strip (replace_char (CHR 0xA0) '' '' s)"

definition hex_digit :: "nat \<Rightarrow> char" where
  "hex_digit n = (if n < 10 then char_of (48 + n) else char_of (87 + n))"

definition to_hex :: "nat list \<Rightarrow> string" where
  "to_hex bs = concat (map (\<lambda>b. [hex_digit (b div 16), hex_digit (b mod 16)]) bs)"

definition hex_val :: "char \<Rightarrow> nat option" where
  "hex_val c = (let n = (of_char c :: nat) in
     if 48 \<le> n \<and> n \<le> 57 then Some (n - 48)
     else if 65 \<le> n \<and> n \<le> 70 then Some (n - 55)
     else if 97 \<le> n \<and> n \<le> 102 then Some (n - 87) else None)"

text \<open>\<open>bytes.fromhex\<close>: ASCII white space is skipped between the bytes.\<close>

definition ascii_space :: "char \<Rightarrow> bool" where
  "ascii_space c = (let n = (of_char c :: nat) in (9 \<le> n \<and> n \<le> 13) \<or> n = 32)"

fun from_hex :: "string \<Rightarrow> nat list option" where
  "from_hex [] = Some []"
| "from_hex [c] = (if ascii_space c then Some [] else None)"
| "from_hex (c # d # cs) =
     (if ascii_space c then from_hex (d # cs)
      else (case (hex_val c, hex_val d) of
              (Some a, Some b) \<Rightarrow> map_option ((#) (16 * a + b)) (from_hex cs)
            | _ \<Rightarrow> None))"

definition ALGO :: string where "ALGO = ''pbkdf2_sha256''"
definition ITERATIONS :: int where "ITERATIONS = 240000"

definition hash_password :: "env \<Rightarrow> nat list \<Rightarrow> string \<Rightarrow> string" where
  "hash_password env salt password =
     join_with (CHR ''$'') [ALGO, ''240000'', to_hex salt, to_hex (en_kdf env password salt ITERATIONS)]"

text \<open>\<open>hmac.compare_digest\<close> on strings raises a \<open>TypeError\<close> (\<open>None\<close>) unless both are ASCII.\<close>

definition is_ascii :: "string \<Rightarrow> bool" where
  "is_ascii s = list_all (\<lambda>c. (of_char c :: nat) < 128) s"

definition compare_digest :: "string \<Rightarrow> string \<Rightarrow> bool option" where
  "compare_digest a b = (if is_ascii a \<and> is_ascii b then Some (a = b) else None)"

text \<open>The \<open>ValueError\<close>s of a malformed hash are the answer false; an iteration count below 1 is one.\<close>

definition verify_password :: "env \<Rightarrow> string \<Rightarrow> string \<Rightarrow> bool option" where
  "verify_password env password stored =
     (case split_on (CHR ''$'') stored of
        [algo, iters, salt_hex, hash_hex] \<Rightarrow>
          if algo \<noteq> ALGO then Some False
          else (case (from_hex salt_hex, py_int iters) of
                  (Some salt, Some n) \<Rightarrow>
                    if n < 1 then Some False
                    else compare_digest (to_hex (en_kdf env password salt n)) hash_hex
                | _ \<Rightarrow> Some False)
      | _ \<Rightarrow> Some False)"

section \<open>Configuration and the bootstrap administrator\<close>

definition get_config :: "string \<Rightarrow> accounts \<Rightarrow> string option" where
  "get_config k ac = map_of (ac_config ac) k"

definition set_config :: "string \<Rightarrow> string \<Rightarrow> accounts \<Rightarrow> accounts" where
  "set_config k v ac = ac\<lparr>ac_config := AList.update k v (ac_config ac)\<rparr>"

definition get_admin_username :: "env \<Rightarrow> accounts \<Rightarrow> string" where
  "get_admin_username env ac = or_else (get_config ''admin_username'' ac) (en_admin_username env)"

definition verify_admin_password :: "env \<Rightarrow> string \<Rightarrow> accounts \<Rightarrow> bool option" where
  "verify_admin_password env password ac =
     (if truthy (get_config ''admin_password_hash'' ac)
      then verify_password env password (the (get_config ''admin_password_hash'' ac))
      else compare_digest password (en_admin_password env))"

definition verify_admin_credentials :: "env \<Rightarrow> string \<Rightarrow> string \<Rightarrow> accounts \<Rightarrow> bool option" where
  "verify_admin_credentials env username password ac =
     (case compare_digest username (get_admin_username env ac) of
        None \<Rightarrow> None
      | Some username_ok \<Rightarrow>
          map_option (\<lambda>password_ok. username_ok \<and> password_ok) (verify_admin_password env password ac))"

section \<open>Allowed addresses\<close>

definition split_ips :: "string option \<Rightarrow> string list" where
  "split_ips raw = filter (\<lambda>e. e \<noteq> []) (map strip (split_lines (replace_char (CHR '','') [LF] (or_else raw []))))"

definition ip_matches :: "env \<Rightarrow> string \<Rightarrow> string \<Rightarrow> bool" where
  "ip_matches env client_ip entry =
     (case en_in_net env client_ip entry of None \<Rightarrow> client_ip = entry | Some b \<Rightarrow> b)"

definition get_office_ips :: "accounts \<Rightarrow> string list" where
  "get_office_ips ac = (case get_config ''allowed_ips_office'' ac of
       None \<Rightarrow> split_ips (get_config ''allowed_ips'' ac) | Some raw \<Rightarrow> split_ips (Some raw))"

definition set_office_ips :: "string list \<Rightarrow> accounts \<Rightarrow> accounts" where
  "set_office_ips ips = set_config ''allowed_ips_office''
     (join_with LF (map strip (filter (\<lambda>ip. strip ip \<noteq> []) ips)))"

definition check_ip_allowed :: "env \<Rightarrow> string \<Rightarrow> accounts \<Rightarrow> bool" where
  "check_ip_allowed env client_ip ac = (let allowed = get_office_ips ac in
     allowed = [] \<or> list_ex (ip_matches env client_ip) allowed)"

definition check_user_ip_allowed :: "env \<Rightarrow> string option \<Rightarrow> string \<Rightarrow> bool" where
  "check_user_ip_allowed env raw client_ip = (let entries = split_ips raw in
     entries = [] \<or> list_ex (ip_matches env client_ip) entries)"

text \<open>The address of a request: the headers \<open>X-Real-IP\<close> and \<open>X-Forwarded-For\<close>, and the peer.\<close>

definition client_ip_from_request :: "string option \<Rightarrow> string option \<Rightarrow> string option \<Rightarrow> string" where
  "client_ip_from_request real_ip xff peer =
     (if truthy real_ip then strip (the real_ip)
      else if truthy xff then strip (hd (split_on (CHR '','') (the xff)))
      else (case peer of Some host \<Rightarrow> host | None \<Rightarrow> ''0.0.0.0''))"

text \<open>\<open>parse_ip_entries\<close>: the valid and the invalid entries; \<open>validate_ip_entries\<close> refuses with 422.\<close>

definition parse_ip_entries :: "env \<Rightarrow> string list \<Rightarrow> string list \<times> string list" where
  "parse_ip_entries env entries = (let es = filter (\<lambda>e. e \<noteq> []) (map strip_input entries) in
     (filter (en_valid_net env) es, filter (\<lambda>e. \<not> en_valid_net env e) es))"

definition validate_ip_entries :: "env \<Rightarrow> string list \<Rightarrow> string list http" where
  "validate_ip_entries env entries = (let (valid, invalid) = parse_ip_entries env entries in
     if invalid \<noteq> [] then Inl (HTTPException 422 ''invalid IP/CIDR'') else Inr valid)"

section \<open>Rows\<close>

definition get_user :: "string \<Rightarrow> accounts \<Rightarrow> user option" where
  "get_user username ac = List.find (\<lambda>u. u_username u = username) (ac_users ac)"

definition get_user_by_id :: "nat \<Rightarrow> accounts \<Rightarrow> user option" where
  "get_user_by_id i ac = List.find (\<lambda>u. u_id u = i) (ac_users ac)"

definition put_user :: "user \<Rightarrow> accounts \<Rightarrow> accounts" where
  "put_user u ac = ac\<lparr>ac_users := update_first (\<lambda>x. u_id x = u_id u) (\<lambda>_. u) (ac_users ac)\<rparr>"

section \<open>The lock\<close>

definition LOGIN_MAX_ATTEMPTS :: nat where "LOGIN_MAX_ATTEMPTS = 5"
definition LOGIN_LOCK_MINUTES :: int where "LOGIN_LOCK_MINUTES = 15"

definition lock_seconds_left :: "time \<Rightarrow> user \<Rightarrow> int" where
  "lock_seconds_left now u = (case u_locked_until u of
       None \<Rightarrow> 0
     | Some until \<Rightarrow> if until - now > 0 then (until - now) div sec 1 else 0)"

definition register_failed_login :: "time \<Rightarrow> user \<Rightarrow> int \<times> user" where
  "register_failed_login now u =
     (let n = u_failed u + 1;
          remaining = int LOGIN_MAX_ATTEMPTS - int n
      in if remaining \<le> 0
         then (0, u\<lparr>u_failed := 0, u_locked_until := Some (now + minutes LOGIN_LOCK_MINUTES)\<rparr>)
         else (remaining, u\<lparr>u_failed := n\<rparr>))"

definition clear_failed_login :: "time \<Rightarrow> user \<Rightarrow> user" where
  "clear_failed_login now u = u\<lparr>u_failed := 0, u_locked_until := None, u_last_login := Some now\<rparr>"

definition unlock_user :: "user \<Rightarrow> user" where
  "unlock_user u = u\<lparr>u_failed := 0, u_locked_until := None\<rparr>"

section \<open>Login\<close>

text \<open>The payload of an access token.\<close>

record claims =
  cl_sub :: "string option"
  cl_role :: "string option"
  cl_customer :: "string option"
  cl_exp :: time

definition create_access_token :: "env \<Rightarrow> time \<Rightarrow> string \<Rightarrow> string \<Rightarrow> string option \<Rightarrow> claims" where
  "create_access_token env now username role customer =
     \<lparr>cl_sub = Some username, cl_role = Some role, cl_customer = customer,
      cl_exp = now + minutes (en_expire_minutes env)\<rparr>"

text \<open>
  The ways a login ends without a token: the \<open>TypeError\<close> of \<open>compare_digest\<close> (answered 500),
  \<open>_ip_blocked\<close>, \<open>_bad_credentials\<close> with the attempts left, and the two refusals of an account.
\<close>

datatype login_error = Crash | IpBlocked string | BadCredentials "int option" | AccountLocked int | AccountDisabled

fun login_code :: "login_error \<Rightarrow> nat" where
  "login_code Crash = 500"
| "login_code (IpBlocked ip) = 403"
| "login_code (BadCredentials remaining) = 401"
| "login_code (AccountLocked seconds) = 403"
| "login_code AccountDisabled = 403"

text \<open>
  The login at the address \<open>ip\<close>; \<open>now\<close> is the time of the lock check and \<open>later\<close> that of the
  writes (and of the token), which follow the slow password check.
\<close>

definition bootstrap_login :: "env \<Rightarrow> time \<Rightarrow> string \<Rightarrow> string \<Rightarrow> string \<Rightarrow> accounts \<Rightarrow> login_error + claims" where
  "bootstrap_login env later ip username password ac =
     (case compare_digest username (get_admin_username env ac) of
        None \<Rightarrow> Inl Crash
      | Some False \<Rightarrow> Inl (BadCredentials None)
      | Some True \<Rightarrow>
          if \<not> check_ip_allowed env ip ac then Inl (IpBlocked ip)
          else (case verify_admin_credentials env username password ac of
                  None \<Rightarrow> Inl Crash
                | Some ok \<Rightarrow> if \<not> ok then Inl (BadCredentials None)
                             else Inr (create_access_token env later username ''admin'' None)))"

definition ip_refused :: "env \<Rightarrow> string \<Rightarrow> user \<Rightarrow> accounts \<Rightarrow> bool" where
  "ip_refused env ip u ac =
     ((u_role u = ''admin'' \<and> \<not> check_ip_allowed env ip ac) \<or> \<not> check_user_ip_allowed env (u_allowed_ips u) ip)"

definition check_login_password :: "env \<Rightarrow> time \<Rightarrow> string \<Rightarrow> user \<Rightarrow> accounts \<Rightarrow> (login_error + claims) \<times> accounts" where
  "check_login_password env later password u ac =
     (case verify_password env password (u_hash u) of
        None \<Rightarrow> (Inl Crash, ac)
      | Some False \<Rightarrow>
          (let (remaining, u') = register_failed_login later u in
           (Inl (if remaining = 0 then AccountLocked (LOGIN_LOCK_MINUTES * 60)
                 else BadCredentials (Some remaining)), put_user u' ac))
      | Some True \<Rightarrow>
          (Inr (create_access_token env later (u_username u) (u_role u) (u_customer u)),
           put_user (clear_failed_login later u) ac))"

definition login :: "env \<Rightarrow> time \<Rightarrow> time \<Rightarrow> string \<Rightarrow> string \<Rightarrow> string \<Rightarrow> accounts \<Rightarrow> (login_error + claims) \<times> accounts" where
  "login env now later ip username password ac =
     (case get_user username ac of
        None \<Rightarrow> (bootstrap_login env later ip username password ac, ac)
      | Some u \<Rightarrow>
          (let left = lock_seconds_left now u in
           if left \<noteq> 0 then (Inl (AccountLocked left), ac)
           else if \<not> u_active u then (Inl AccountDisabled, ac)
           else if ip_refused env ip u ac then (Inl (IpBlocked ip), ac)
           else check_login_password env later password u ac))"

section \<open>One's own password\<close>

record principal =
  pr_username :: string
  pr_role :: string
  pr_customer :: "string option"
  pr_via_key :: bool

definition change_my_password ::
  "env \<Rightarrow> time \<Rightarrow> nat list \<Rightarrow> principal \<Rightarrow> string \<Rightarrow> string \<Rightarrow> accounts \<Rightarrow> unit http \<times> accounts" where
  "change_my_password env now salt me current_password new_password ac =
     (let current = strip_input current_password; new = strip_input new_password;
          wrong = Inl (HTTPException 400 ''wrong current password'');
          crash = Inl (HTTPException 500 ''TypeError'')
      in if pr_via_key me then (Inl (HTTPException 403 ''not with an API key''), ac)
         else if length new < 8 then (Inl (HTTPException 400 ''too short''), ac)
         else if new = current then (Inl (HTTPException 400 ''unchanged''), ac)
         else (case get_user (pr_username me) ac of
             None \<Rightarrow>
               (case verify_admin_credentials env (pr_username me) current ac of
                  None \<Rightarrow> (crash, ac)
                | Some False \<Rightarrow> (wrong, ac)
                | Some True \<Rightarrow> (Inr (), set_config ''admin_password_hash'' (hash_password env salt new) ac))
           | Some u \<Rightarrow>
               (case verify_password env current (u_hash u) of
                  None \<Rightarrow> (crash, ac)
                | Some False \<Rightarrow> (wrong, ac)
                | Some True \<Rightarrow>
                    (Inr (), put_user (clear_failed_login now (u\<lparr>u_hash := hash_password env salt new\<rparr>)) ac))))"

definition ensure_admin_user :: "env \<Rightarrow> nat list \<Rightarrow> accounts \<Rightarrow> accounts" where
  "ensure_admin_user env salt ac =
     (if list_ex (\<lambda>u. u_role u = ''admin'') (ac_users ac) then ac
      else (let username = get_admin_username env ac in
        if get_user username ac \<noteq> None then ac
        else ac\<lparr>ac_users := ac_users ac @
               [\<lparr>u_id = ac_next ac, u_username = username,
                 u_hash = or_else (get_config ''admin_password_hash'' ac) (hash_password env salt (en_admin_password env)),
                 u_role = ''admin'', u_customer = None, u_allowed_ips = None, u_active = True, u_failed = 0,
                 u_locked_until = None, u_last_login = None, u_note = None, u_created_by = None\<rparr>],
               ac_next := ac_next ac + 1\<rparr>))"

section \<open>Administration (\<open>routers/users.py\<close>)\<close>

definition bad_request :: "string \<Rightarrow> 'a http" where
  "bad_request tag = Inl (HTTPException 400 tag)"

fun and_then :: "'a http \<Rightarrow> ('a \<Rightarrow> 'b http) \<Rightarrow> 'b http" where
  "and_then (Inl e) f = Inl e"
| "and_then (Inr x) f = f x"

text \<open>The mapping entries of a request are pairs of a group id and FTP user names.\<close>

type_synonym ftp_entry = "nat \<times> string list"

definition MAX_FTP_ACCOUNTS :: nat where "MAX_FTP_ACCOUNTS = 500"

definition find_group :: "nat \<Rightarrow> accounts \<Rightarrow> group option" where
  "find_group i ac = List.find (\<lambda>g. gr_id g = i) (ac_groups ac)"

fun add_names :: "nat \<Rightarrow> string list \<Rightarrow> (nat \<times> string) list \<Rightarrow> (nat \<times> string) list http" where
  "add_names gid [] pairs = Inr pairs"
| "add_names gid (raw # raws) pairs =
     (let name = strip_input raw in
      if name = [] then add_names gid raws pairs
      else if 255 < length name then bad_request ''FTP id too long''
      else if List.member pairs (gid, name) then add_names gid raws pairs
      else add_names gid raws (pairs @ [(gid, name)]))"

fun collect_pairs :: "user \<Rightarrow> accounts \<Rightarrow> ftp_entry list \<Rightarrow> (nat \<times> string) list \<Rightarrow> (nat \<times> string) list http" where
  "collect_pairs u ac [] pairs = Inr pairs"
| "collect_pairs u ac ((gid, names) # es) pairs =
     (case find_group gid ac of
        None \<Rightarrow> bad_request ''no such group''
      | Some g \<Rightarrow>
          if or_else (gr_customer g) [] \<noteq> or_else (u_customer u) [] then bad_request ''group of another customer''
          else and_then (add_names (gr_id g) names pairs) (collect_pairs u ac es))"

definition save_ftp_map :: "user \<Rightarrow> ftp_entry list \<Rightarrow> accounts \<Rightarrow> accounts http" where
  "save_ftp_map u entries ac =
     (if u_role u \<noteq> ''customer'' then bad_request ''only for customer accounts''
      else and_then (collect_pairs u ac entries []) (\<lambda>pairs.
        if MAX_FTP_ACCOUNTS < length pairs then bad_request ''too many FTP accounts''
        else Inr (ac\<lparr>ac_ftp := filter (\<lambda>r. fr_user r \<noteq> u_id u) (ac_ftp ac)
               @ map (\<lambda>(g, n). \<lparr>fr_user = u_id u, fr_group = g, fr_name = n\<rparr>) pairs\<rparr>)))"

definition other_admins :: "user \<Rightarrow> accounts \<Rightarrow> user list" where
  "other_admins u ac = filter (\<lambda>x. u_role x = ''admin'' \<and> u_active x \<and> u_id x \<noteq> u_id u) (ac_users ac)"

definition assert_can_disable :: "user \<Rightarrow> principal \<Rightarrow> accounts \<Rightarrow> unit http" where
  "assert_can_disable u me ac =
     (if u_username u = pr_username me then bad_request ''not oneself''
      else if u_role u \<noteq> ''admin'' then Inr ()
      else if other_admins u ac = [] then bad_request ''last active administrator''
      else Inr ())"

record user_create =
  uc_username :: string
  uc_password :: string
  uc_role :: string
  uc_customer :: "string option"
  uc_allowed_ips :: "string list"
  uc_note :: "string option"
  uc_ftp :: "ftp_entry list"

definition or_none :: "string \<Rightarrow> string option" where
  "or_none s = (if s = [] then None else Some s)"

definition parse_ip_list :: "env \<Rightarrow> string list \<Rightarrow> string http" where
  "parse_ip_list env entries = and_then (validate_ip_entries env entries) (\<lambda>valid. Inr (join_with LF valid))"

definition new_user :: "env \<Rightarrow> nat list \<Rightarrow> principal \<Rightarrow> user_create \<Rightarrow> string \<Rightarrow> nat \<Rightarrow> user" where
  "new_user env salt me body ips i =
     \<lparr>u_id = i, u_username = strip_input (uc_username body),
      u_hash = hash_password env salt (strip_input (uc_password body)), u_role = uc_role body,
      u_customer = (if uc_role body = ''customer'' then Some (strip_input (or_else (uc_customer body) [])) else None),
      u_allowed_ips = Some ips, u_active = True, u_failed = 0, u_locked_until = None, u_last_login = None,
      u_note = or_none (strip_input (or_else (uc_note body) [])), u_created_by = Some (pr_username me)\<rparr>"

definition insert_user :: "user \<Rightarrow> ftp_entry list \<Rightarrow> accounts \<Rightarrow> accounts http" where
  "insert_user u entries ac =
     (let ac1 = ac\<lparr>ac_users := ac_users ac @ [u], ac_next := ac_next ac + 1\<rparr> in
      if u_role u = ''customer'' then save_ftp_map u entries ac1 else Inr ac1)"

definition create_user :: "env \<Rightarrow> nat list \<Rightarrow> principal \<Rightarrow> user_create \<Rightarrow> accounts \<Rightarrow> accounts http" where
  "create_user env salt me body ac =
     (let username = strip_input (uc_username body); role = uc_role body in
      if username = [] then bad_request ''username required''
      else if role = ''customer'' \<and> strip_input (or_else (uc_customer body) []) = [] then bad_request ''customer required''
      else if get_user username ac \<noteq> None then Inl (HTTPException 409 ''username taken'')
      else if role \<noteq> ''admin'' \<and> username = get_admin_username env ac then Inl (HTTPException 409 ''administrator name'')
      else and_then (parse_ip_list env (uc_allowed_ips body)) (\<lambda>ips.
        insert_user (new_user env salt me body ips (ac_next ac)) (uc_ftp body) ac))"

record user_update =
  uu_password :: "string option"
  uu_customer :: "string option"
  uu_allowed_ips :: "string list option"
  uu_note :: "string option"
  uu_active :: "bool option"
  uu_ftp :: "ftp_entry list option"

text \<open>The steps of \<open>update_user\<close> on the loaded row, in the order of the code.\<close>

definition update_password :: "env \<Rightarrow> nat list \<Rightarrow> user_update \<Rightarrow> user \<Rightarrow> user" where
  "update_password env salt body u = (case uu_password body of
       None \<Rightarrow> u
     | Some pw \<Rightarrow> u\<lparr>u_hash := hash_password env salt (strip_input pw), u_failed := 0, u_locked_until := None\<rparr>)"

definition update_customer :: "user_update \<Rightarrow> user \<Rightarrow> user http" where
  "update_customer body u = (case uu_customer body of
       None \<Rightarrow> Inr u
     | Some c \<Rightarrow> (let customer = strip_input c in
         if u_role u = ''customer'' \<and> customer = [] then bad_request ''customer must not be empty''
         else Inr (u\<lparr>u_customer := or_none customer\<rparr>)))"

definition update_ips :: "env \<Rightarrow> user_update \<Rightarrow> user \<Rightarrow> user http" where
  "update_ips env body u = (case uu_allowed_ips body of
       None \<Rightarrow> Inr u
     | Some es \<Rightarrow> and_then (parse_ip_list env es) (\<lambda>ips. Inr (u\<lparr>u_allowed_ips := Some ips\<rparr>)))"

definition update_note :: "user_update \<Rightarrow> user \<Rightarrow> user" where
  "update_note body u = (case uu_note body of
       None \<Rightarrow> u | Some note \<Rightarrow> u\<lparr>u_note := or_none (strip_input note)\<rparr>)"

definition update_active :: "principal \<Rightarrow> accounts \<Rightarrow> user_update \<Rightarrow> user \<Rightarrow> user http" where
  "update_active me ac body u = (case uu_active body of
       None \<Rightarrow> Inr u
     | Some active \<Rightarrow>
         and_then (if active then Inr () else assert_can_disable u me ac) (\<lambda>_. Inr (u\<lparr>u_active := active\<rparr>)))"

definition no_account :: "'a http" where
  "no_account = Inl (HTTPException 404 ''no such account'')"

definition update_user ::
  "env \<Rightarrow> nat list \<Rightarrow> principal \<Rightarrow> nat \<Rightarrow> user_update \<Rightarrow> accounts \<Rightarrow> accounts http" where
  "update_user env salt me i body ac = (case get_user_by_id i ac of
       None \<Rightarrow> no_account
     | Some u0 \<Rightarrow>
         and_then (update_customer body (update_password env salt body u0)) (\<lambda>u1.
         and_then (update_ips env body u1) (\<lambda>u2.
         and_then (update_active me ac body (update_note body u2)) (\<lambda>u.
           case uu_ftp body of
             None \<Rightarrow> Inr (put_user u ac)
           | Some entries \<Rightarrow> save_ftp_map u entries (put_user u ac)))))"

definition unlock :: "nat \<Rightarrow> accounts \<Rightarrow> accounts http" where
  "unlock i ac = (case get_user_by_id i ac of
       None \<Rightarrow> no_account | Some u \<Rightarrow> Inr (put_user (unlock_user u) ac))"

text \<open>Deleting the row deletes its mappings and keys (\<open>ON DELETE CASCADE\<close>).\<close>

definition delete_user :: "principal \<Rightarrow> nat \<Rightarrow> accounts \<Rightarrow> accounts http" where
  "delete_user me i ac = (case get_user_by_id i ac of
       None \<Rightarrow> no_account
     | Some u \<Rightarrow> and_then (assert_can_disable u me ac) (\<lambda>_.
         Inr (ac\<lparr>ac_users := filter (\<lambda>x. u_id x \<noteq> u_id u) (ac_users ac),
                 ac_ftp := filter (\<lambda>r. fr_user r \<noteq> u_id u) (ac_ftp ac),
                 ac_keys := filter (\<lambda>k. ak_user k \<noteq> Some (u_id u)) (ac_keys ac)\<rparr>)))"

section \<open>What the requests do to the tables\<close>

datatype request =
    Login time time string string string
  | ChangePassword time "nat list" principal string string
  | CreateUser "nat list" principal user_create
  | UpdateUser "nat list" principal nat user_update
  | Unlock nat
  | DeleteUser principal nat
  | StartUp "nat list"

definition committed :: "accounts http \<Rightarrow> accounts \<Rightarrow> accounts" where
  "committed res ac = (case res of Inl _ \<Rightarrow> ac | Inr ac' \<Rightarrow> ac')"

fun handle :: "env \<Rightarrow> request \<Rightarrow> accounts \<Rightarrow> accounts" where
  "handle env (Login now later ip username password) ac = snd (login env now later ip username password ac)"
| "handle env (ChangePassword now salt me cur new) ac = snd (change_my_password env now salt me cur new ac)"
| "handle env (CreateUser salt me body) ac = committed (create_user env salt me body ac) ac"
| "handle env (UpdateUser salt me i body) ac = committed (update_user env salt me i body ac) ac"
| "handle env (Unlock i) ac = committed (unlock i ac) ac"
| "handle env (DeleteUser me i) ac = committed (delete_user me i ac) ac"
| "handle env (StartUp salt) ac = ensure_admin_user env salt ac"

definition accounts_ok :: "accounts \<Rightarrow> bool" where
  "accounts_ok ac \<longleftrightarrow> distinct (map u_id (ac_users ac)) \<and> distinct (map u_username (ac_users ac))
     \<and> (\<forall>u \<in> set (ac_users ac). u_id u < ac_next ac)
     \<and> (\<forall>r \<in> set (ac_ftp ac). fr_user r \<in> u_id ` set (ac_users ac)) \<and> distinct (ac_ftp ac)
     \<and> (\<forall>k \<in> set (ac_keys ac). \<forall>i. ak_user k = Some i \<longrightarrow> i \<in> u_id ` set (ac_users ac))"

definition has_admin :: "accounts \<Rightarrow> bool" where
  "has_admin ac = list_ex (\<lambda>u. u_role u = ''admin'' \<and> u_active u) (ac_users ac)"

lemma find_Some_iff_mem: "List.find P xs = Some x \<Longrightarrow> x \<in> set xs \<and> P x"
  by (induction xs) (auto split: if_splits)

lemma find_None_iff_all: "List.find P xs = None \<longleftrightarrow> (\<forall>x \<in> set xs. \<not> P x)"
  by (induction xs) auto

lemma get_user_Some: "get_user name ac = Some u \<Longrightarrow> u \<in> set (ac_users ac) \<and> u_username u = name"
  unfolding get_user_def by (rule find_Some_iff_mem)

lemma get_user_by_id_Some: "get_user_by_id i ac = Some u \<Longrightarrow> u \<in> set (ac_users ac) \<and> u_id u = i"
  unfolding get_user_by_id_def by (rule find_Some_iff_mem)

lemma map_update_first: "\<forall>x \<in> set xs. P x \<longrightarrow> f x = f y \<Longrightarrow> map f (update_first P (\<lambda>_. y) xs) = map f xs"
  by (induction xs) auto

lemma set_update_first: "x \<in> set (update_first P (\<lambda>_. y) xs) \<Longrightarrow> x \<in> set xs \<or> x = y"
  by (induction xs) (auto split: if_splits)

lemma update_first_keeps: "x \<in> set xs \<Longrightarrow> \<not> P x \<Longrightarrow> x \<in> set (update_first P f xs)"
  by (induction xs) auto

lemma update_first_new: "x \<in> set xs \<Longrightarrow> P x \<Longrightarrow> y \<in> set (update_first P (\<lambda>_. y) xs)"
  by (induction xs) auto

lemma same_id: "accounts_ok ac \<Longrightarrow> u \<in> set (ac_users ac) \<Longrightarrow> x \<in> set (ac_users ac) \<Longrightarrow> u_id x = u_id u \<Longrightarrow> x = u"
  by (auto simp: accounts_ok_def distinct_map dest: inj_onD)

lemma same_name: "accounts_ok ac \<Longrightarrow> u \<in> set (ac_users ac) \<Longrightarrow> x \<in> set (ac_users ac) \<Longrightarrow> u_username x = u_username u \<Longrightarrow> x = u"
  by (auto simp: accounts_ok_def distinct_map dest: inj_onD)

lemma put_user_keys:
  assumes "accounts_ok ac" and "u \<in> set (ac_users ac)" and "u_id u' = u_id u" and "u_username u' = u_username u"
  shows "map u_id (ac_users (put_user u' ac)) = map u_id (ac_users ac)"
    and "map u_username (ac_users (put_user u' ac)) = map u_username (ac_users ac)"
proof -
  have "\<forall>x \<in> set (ac_users ac). u_id x = u_id u' \<longrightarrow> x = u"
    using same_id [OF assms(1,2)] assms(3) by auto
  then show "map u_id (ac_users (put_user u' ac)) = map u_id (ac_users ac)"
    and "map u_username (ac_users (put_user u' ac)) = map u_username (ac_users ac)"
    unfolding put_user_def using assms(3,4) by (simp, intro map_update_first, metis)+
qed

lemma ids_of: "u_id ` set (ac_users ac) = set (map u_id (ac_users ac))"
  by simp

lemma put_user_ok [keeps]:
  assumes "accounts_ok ac" and "u \<in> set (ac_users ac)" and "u_id u' = u_id u" and "u_username u' = u_username u"
  shows "accounts_ok (put_user u' ac)"
proof -
  note k = put_user_keys [OF assms]
  have "\<forall>x \<in> set (ac_users (put_user u' ac)). u_id x < ac_next ac"
    using assms by (auto simp: put_user_def accounts_ok_def dest!: set_update_first)
  then show ?thesis
    using assms(1) k unfolding accounts_ok_def ids_of by (simp add: put_user_def)
qed

lemma has_admin_put:
  assumes "accounts_ok ac" and "has_admin ac" and "u \<in> set (ac_users ac)" and "u_id u' = u_id u"
    and "u_role u' = u_role u" and "u_active u' = u_active u \<or> u_active u' \<or> u_role u \<noteq> ''admin''"
  shows "has_admin (put_user u' ac)"
proof -
  obtain a where a: "a \<in> set (ac_users ac)" "u_role a = ''admin''" "u_active a"
    using assms(2) by (auto simp: has_admin_def list_ex_iff)
  show ?thesis
  proof (cases "u_id a = u_id u")
    case True
    then have "a = u" using same_id [OF assms(1,3) a(1)] by simp
    then show ?thesis using a assms(3-6) update_first_new [of u "ac_users ac" "\<lambda>x. u_id x = u_id u'" u']
      by (auto simp: has_admin_def list_ex_iff put_user_def)
  next
    case False
    then show ?thesis using a assms(4) update_first_keeps [of a "ac_users ac" "\<lambda>x. u_id x = u_id u'" "\<lambda>_. u'"]
      by (auto simp: has_admin_def list_ex_iff put_user_def)
  qed
qed

lemma has_admin_others:
  assumes "other_admins u ac \<noteq> []" and "u_id u' = u_id u"
  shows "has_admin (put_user u' ac)"
proof -
  obtain a where "a \<in> set (other_admins u ac)" using assms(1) by (cases "other_admins u ac") auto
  then show ?thesis using assms(2) update_first_keeps [of a "ac_users ac" "\<lambda>x. u_id x = u_id u'" "\<lambda>_. u'"]
    by (auto simp: has_admin_def list_ex_iff put_user_def other_admins_def)
qed


lemma save_ftp_map_users:
  assumes "save_ftp_map u entries ac = Inr ac'"
  shows "ac_users ac' = ac_users ac \<and> ac_next ac' = ac_next ac \<and> ac_keys ac' = ac_keys ac
    \<and> ac_config ac' = ac_config ac \<and> ac_groups ac' = ac_groups ac"
  using assms by (cases "collect_pairs u ac entries []")
    (auto simp: save_ftp_map_def bad_request_def split: if_splits)

lemma add_names_distinct: "add_names g names pairs = Inr ps \<Longrightarrow> distinct pairs \<Longrightarrow> distinct ps"
  by (induction g names pairs rule: add_names.induct)
    (auto simp: Let_def bad_request_def split: if_splits)

lemma collect_pairs_distinct: "collect_pairs u ac es pairs = Inr ps \<Longrightarrow> distinct pairs \<Longrightarrow> distinct ps"
proof (induction u ac es pairs rule: collect_pairs.induct)
  case (2 u ac gid names es pairs)
  then obtain g where g: "find_group gid ac = Some g" by (auto simp: bad_request_def split: option.splits)
  show ?case using 2 g
    by (cases "add_names (gr_id g) names pairs") (auto simp: bad_request_def add_names_distinct split: if_splits)
qed simp

lemma save_ftp_map_ok [keeps]:
  assumes "accounts_ok ac" and "u_id u \<in> u_id ` set (ac_users ac)" and "save_ftp_map u entries ac = Inr ac'"
  shows "accounts_ok ac'"
proof -
  obtain ps where ps: "collect_pairs u ac entries [] = Inr ps"
    using assms(3) by (cases "collect_pairs u ac entries []") (auto simp: save_ftp_map_def bad_request_def split: if_splits)
  then have d: "distinct ps" by (rule collect_pairs_distinct) simp
  have ftp: "ac_ftp ac' = filter (\<lambda>r. fr_user r \<noteq> u_id u) (ac_ftp ac)
      @ map (\<lambda>(g, n). \<lparr>fr_user = u_id u, fr_group = g, fr_name = n\<rparr>) ps"
    using assms(3) ps by (auto simp: save_ftp_map_def bad_request_def split: if_splits)
  have "distinct (map (\<lambda>(g, n). \<lparr>fr_user = u_id u, fr_group = g, fr_name = n\<rparr>) ps)"
    using d by (auto simp: distinct_map inj_on_def)
  then show ?thesis using assms(1,2) save_ftp_map_users [OF assms(3)] ftp
    by (auto simp: accounts_ok_def)
qed

lemma has_admin_users: "ac_users ac' = ac_users ac \<Longrightarrow> has_admin ac' = has_admin ac"
  by (simp add: has_admin_def)

lemma and_then_Inr: "and_then r f = Inr y \<longleftrightarrow> (\<exists>x. r = Inr x \<and> f x = Inr y)"
  by (cases r) auto

lemma append_user_ok:
  assumes "accounts_ok ac" and "get_user (u_username u) ac = None" and "u_id u = ac_next ac"
  shows "accounts_ok (ac\<lparr>ac_users := ac_users ac @ [u], ac_next := ac_next ac + 1\<rparr>)"
  using assms by (auto simp: accounts_ok_def get_user_def find_None_iff_all)

lemma insert_user_ok [keeps]:
  assumes "accounts_ok ac" and "get_user (u_username u) ac = None" and "u_id u = ac_next ac"
    and "insert_user u entries ac = Inr ac'"
  shows "accounts_ok ac' \<and> (has_admin ac \<longrightarrow> has_admin ac')"
proof -
  define ac1 where "ac1 = ac\<lparr>ac_users := ac_users ac @ [u], ac_next := ac_next ac + 1\<rparr>"
  have 1: "accounts_ok ac1" unfolding ac1_def by (rule append_user_ok [OF assms(1-3)])
  have 2: "has_admin ac \<Longrightarrow> has_admin ac1" by (simp add: ac1_def has_admin_def)
  have 3: "ac' = ac1 \<or> save_ftp_map u entries ac1 = Inr ac'"
    using assms(4) by (simp add: insert_user_def ac1_def Let_def split: if_splits)
  have 4: "u_id u \<in> u_id ` set (ac_users ac1)" by (simp add: ac1_def)
  from 3 show ?thesis
  proof
    assume "save_ftp_map u entries ac1 = Inr ac'"
    then show ?thesis using save_ftp_map_ok [OF 1 4] save_ftp_map_users has_admin_users 2 by metis
  qed (use 1 2 in simp)
qed

lemma new_user_fields [simp]:
  "u_id (new_user env salt me body ips i) = i" "u_username (new_user env salt me body ips i) = strip_input (uc_username body)"
  by (simp_all add: new_user_def)

lemma create_user_ok [keeps]:
  assumes "accounts_ok ac" and "create_user env salt me body ac = Inr ac'"
  shows "accounts_ok ac' \<and> (has_admin ac \<longrightarrow> has_admin ac')"
proof -
  obtain ips where "get_user (strip_input (uc_username body)) ac = None"
    "insert_user (new_user env salt me body ips (ac_next ac)) (uc_ftp body) ac = Inr ac'"
    using assms(2) by (auto simp: create_user_def bad_request_def and_then_Inr Let_def split: if_splits)
  then show ?thesis by (intro insert_user_ok [OF assms(1)]) simp_all
qed

text \<open>The steps of an update keep the key columns and the role, and switch off no last administrator.\<close>

lemma update_password_keeps: "u = update_password env salt body u0 \<Longrightarrow>
    u_id u = u_id u0 \<and> u_username u = u_username u0 \<and> u_role u = u_role u0 \<and> u_active u = u_active u0"
  by (simp add: update_password_def split: option.split)

lemma update_note_keeps: "u = update_note body u0 \<Longrightarrow>
    u_id u = u_id u0 \<and> u_username u = u_username u0 \<and> u_role u = u_role u0 \<and> u_active u = u_active u0"
  by (simp add: update_note_def split: option.split)

lemma update_customer_keeps: "update_customer body u0 = Inr u \<Longrightarrow>
    u_id u = u_id u0 \<and> u_username u = u_username u0 \<and> u_role u = u_role u0 \<and> u_active u = u_active u0"
  by (auto simp: update_customer_def bad_request_def Let_def split: option.splits if_splits)

lemma update_ips_keeps: "update_ips env body u0 = Inr u \<Longrightarrow>
    u_id u = u_id u0 \<and> u_username u = u_username u0 \<and> u_role u = u_role u0 \<and> u_active u = u_active u0"
  by (auto simp: update_ips_def and_then_Inr split: option.splits)

lemma update_active_keeps: "update_active me ac body u0 = Inr u \<Longrightarrow>
    u_id u = u_id u0 \<and> u_username u = u_username u0 \<and> u_role u = u_role u0
    \<and> (u_active u = u_active u0 \<or> u_active u \<or> u_role u0 \<noteq> ''admin'' \<or> other_admins u0 ac \<noteq> [])"
  by (auto simp: update_active_def assert_can_disable_def bad_request_def and_then_Inr
      split: option.splits if_splits)

lemma other_admins_id: "u_id u = u_id u' \<Longrightarrow> other_admins u ac = other_admins u' ac"
  by (simp add: other_admins_def)

lemma update_user_ok [keeps]:
  assumes "accounts_ok ac" and "update_user env salt me i body ac = Inr ac'"
  shows "accounts_ok ac' \<and> (has_admin ac \<longrightarrow> has_admin ac')"
proof -
  obtain u0 where "get_user_by_id i ac = Some u0"
    using assms(2) by (auto simp: update_user_def no_account_def split: option.splits)
  then have u0: "u0 \<in> set (ac_users ac)" using get_user_by_id_Some by blast
  obtain u1 u2 u where u1: "update_customer body (update_password env salt body u0) = Inr u1"
    and u2: "update_ips env body u1 = Inr u2" and u: "update_active me ac body (update_note body u2) = Inr u"
    and fin: "(case uu_ftp body of None \<Rightarrow> Inr (put_user u ac)
        | Some entries \<Rightarrow> save_ftp_map u entries (put_user u ac)) = Inr ac'"
    using assms(2) unfolding update_user_def \<open>get_user_by_id i ac = Some u0\<close> option.case and_then_Inr by (elim exE conjE)
  note kept = update_password_keeps [OF refl, of env salt body u0] update_customer_keeps [OF u1]
    update_ips_keeps [OF u2] update_note_keeps [OF refl, of body u2] update_active_keeps [OF u]
  then have same: "u_id u = u_id u0" "u_username u = u_username u0" "u_role u = u_role u0" by simp_all
  have "u_active u = u_active u0 \<or> u_active u \<or> u_role u0 \<noteq> ''admin'' \<or> other_admins u0 ac \<noteq> []"
    using kept other_admins_id [of u0 "update_note body u2" ac] by metis
  then have admin: "has_admin ac \<longrightarrow> has_admin (put_user u ac)"
    using has_admin_put [OF assms(1) _ u0 same(1,3)] has_admin_others same(1) by blast
  have ok: "accounts_ok (put_user u ac)" by (rule put_user_ok [OF assms(1) u0 same(1,2)])
  have "u_id u \<in> u_id ` set (ac_users (put_user u ac))"
    using put_user_keys(1) [OF assms(1) u0 same(1,2)] u0 same(1) unfolding ids_of by simp
  then show ?thesis
  proof (cases "uu_ftp body")
    case None
    then show ?thesis using fin ok admin by simp
  next
    case (Some entries)
    then have "save_ftp_map u entries (put_user u ac) = Inr ac'" using fin by simp
    then show ?thesis
      using save_ftp_map_ok [OF ok \<open>u_id u \<in> _\<close>] save_ftp_map_users has_admin_users admin by metis
  qed
qed

lemma delete_user_ok [keeps]:
  assumes "accounts_ok ac" and "delete_user me i ac = Inr ac'"
  shows "accounts_ok ac' \<and> (has_admin ac \<longrightarrow> has_admin ac')"
proof -
  obtain u where u: "get_user_by_id i ac = Some u"
    using assms(2) by (auto simp: delete_user_def no_account_def split: option.splits)
  then have may: "assert_can_disable u me ac = Inr ()"
    and ac': "ac' = ac\<lparr>ac_users := filter (\<lambda>x. u_id x \<noteq> u_id u) (ac_users ac),
                 ac_ftp := filter (\<lambda>r. fr_user r \<noteq> u_id u) (ac_ftp ac),
                 ac_keys := filter (\<lambda>k. ak_user k \<noteq> Some (u_id u)) (ac_keys ac)\<rparr>"
    using assms(2) by (auto simp: delete_user_def and_then_Inr)
  have mem: "u \<in> set (ac_users ac)" using get_user_by_id_Some [OF u] by simp
  have "has_admin ac'" if admin: "has_admin ac"
  proof (cases "u_role u = ''admin''")
    case True
    then have "other_admins u ac \<noteq> []" using may by (auto simp: assert_can_disable_def bad_request_def split: if_splits)
    then obtain x where "x \<in> set (other_admins u ac)" by (cases "other_admins u ac") auto
    then show ?thesis by (auto simp: has_admin_def list_ex_iff ac' other_admins_def)
  next
    case False
    then show ?thesis using admin same_id [OF assms(1) mem] by (auto simp: has_admin_def list_ex_iff ac')
  qed
  moreover have "accounts_ok ac'"
    using assms(1) by (auto simp: accounts_ok_def ac' distinct_map image_iff intro: inj_on_subset; metis)
  ultimately show ?thesis by simp
qed

lemma unlock_ok [keeps]:
  assumes "accounts_ok ac" and "unlock i ac = Inr ac'"
  shows "accounts_ok ac' \<and> (has_admin ac \<longrightarrow> has_admin ac')"
proof -
  obtain u where u: "get_user_by_id i ac = Some u" "ac' = put_user (unlock_user u) ac"
    using assms(2) by (auto simp: unlock_def no_account_def split: option.splits)
  then have "u \<in> set (ac_users ac)" using get_user_by_id_Some by blast
  then show ?thesis using u(2) put_user_ok [OF assms(1)] has_admin_put [OF assms(1)]
    by (simp add: unlock_user_def)
qed

text \<open>A login and a change of the password write the row of the named user at most.\<close>

definition touches_row :: "string \<Rightarrow> accounts \<Rightarrow> accounts \<Rightarrow> bool" where
  "touches_row name ac ac' \<longleftrightarrow> (\<exists>u u'. get_user name ac = Some u \<and> u_id u' = u_id u \<and> u_username u' = u_username u
     \<and> u_role u' = u_role u \<and> u_active u' = u_active u \<and> ac' = put_user u' ac)"

lemma touches_row_ok:
  assumes "accounts_ok ac" and "touches_row name ac ac'"
  shows "accounts_ok ac' \<and> (has_admin ac \<longrightarrow> has_admin ac')"
proof -
  obtain u u' where u: "get_user name ac = Some u" "u_id u' = u_id u" "u_username u' = u_username u"
    "u_role u' = u_role u" "u_active u' = u_active u" "ac' = put_user u' ac"
    using assms(2) unfolding touches_row_def by (elim exE conjE)
  then have "u \<in> set (ac_users ac)" using get_user_Some by blast
  then show ?thesis using u put_user_ok [OF assms(1)] has_admin_put [OF assms(1)] by simp
qed

lemma put_touches:
  "get_user name ac = Some u \<Longrightarrow> u_id u' = u_id u \<Longrightarrow> u_username u' = u_username u \<Longrightarrow> u_role u' = u_role u
    \<Longrightarrow> u_active u' = u_active u \<Longrightarrow> touches_row name ac (put_user u' ac)"
  unfolding touches_row_def by (intro exI [of _ u] exI [of _ u'] conjI refl)

lemma register_failed_keeps: "register_failed_login t u = (n, u') \<Longrightarrow>
    u_id u' = u_id u \<and> u_username u' = u_username u \<and> u_role u' = u_role u \<and> u_active u' = u_active u
    \<and> u_hash u' = u_hash u \<and> u_allowed_ips u' = u_allowed_ips u"
  by (auto simp: register_failed_login_def Let_def split: if_splits)

lemma check_password_rows:
  assumes "get_user name ac = Some u" and "check_login_password env later pw u ac = (res, ac')"
  shows "ac' = ac \<or> touches_row name ac ac'"
proof (cases "verify_password env pw (u_hash u)")
  case None
  then show ?thesis using assms(2) by (simp add: check_login_password_def)
next
  case (Some ok)
  show ?thesis
  proof (cases ok)
    case True
    then have "ac' = put_user (clear_failed_login later u) ac"
      using assms(2) Some by (simp add: check_login_password_def)
    then show ?thesis using put_touches [OF assms(1), of "clear_failed_login later u"] by (simp add: clear_failed_login_def)
  next
    case False
    obtain n u' where r: "register_failed_login later u = (n, u')" by (cases "register_failed_login later u")
    then have "ac' = put_user u' ac" using assms(2) Some False by (auto simp: check_login_password_def)
    then show ?thesis using put_touches [OF assms(1), of u'] register_failed_keeps [OF r] by simp
  qed
qed

lemma login_rows:
  assumes "login env now later ip name pw ac = (res, ac')"
  shows "ac' = ac \<or> touches_row name ac ac'"
proof (cases "get_user name ac")
  case None
  then show ?thesis using assms by (simp add: login_def)
next
  case (Some u)
  then show ?thesis using assms check_password_rows [OF Some, of env later pw]
    by (auto simp: login_def Let_def split: if_splits)
qed

lemma change_password_rows:
  assumes "change_my_password env now salt me cur new ac = (res, ac')"
  shows "(\<exists>k v. ac' = set_config k v ac) \<or> ac' = ac \<or> touches_row (pr_username me) ac ac'"
proof (cases "get_user (pr_username me) ac")
  case None
  then show ?thesis using assms
    by (auto simp: change_my_password_def Let_def split: if_splits option.splits bool.splits)
next
  case (Some u)
  have "touches_row (pr_username me) ac (put_user (clear_failed_login now (u\<lparr>u_hash := h\<rparr>)) ac)" for h
    by (rule put_touches [OF Some]) (simp_all add: clear_failed_login_def)
  then show ?thesis using assms Some
    by (auto simp: change_my_password_def Let_def split: if_splits option.splits bool.splits)
qed

lemma set_config_ok [keeps]: "accounts_ok ac \<Longrightarrow> accounts_ok (set_config k v ac)"
  by (simp add: accounts_ok_def set_config_def)

lemma ensure_admin_ok [keeps]: "accounts_ok ac \<Longrightarrow> accounts_ok (ensure_admin_user env salt ac)"
proof -
  assume "accounts_ok ac"
  then show ?thesis using append_user_ok [of ac]
    by (simp add: ensure_admin_user_def Let_def)
qed

lemma has_admin_ensure: "has_admin ac \<Longrightarrow> has_admin (ensure_admin_user env salt ac)"
  by (simp add: ensure_admin_user_def Let_def has_admin_def)

lemma handle_ok:
  assumes "accounts_ok ac"
  shows "accounts_ok (handle env rq ac) \<and> (has_admin ac \<longrightarrow> has_admin (handle env rq ac))"
proof (cases rq)
  case (Login now later ip name pw)
  obtain res ac' where "login env now later ip name pw ac = (res, ac')" by (cases "login env now later ip name pw ac")
  then show ?thesis using Login assms login_rows touches_row_ok by fastforce
next
  case (ChangePassword now salt me cur new)
  obtain res ac' where r: "change_my_password env now salt me cur new ac = (res, ac')"
    by (cases "change_my_password env now salt me cur new ac")
  have "has_admin ac' = has_admin ac" if "ac' = set_config k v ac" for k v
    using that by (simp add: has_admin_def set_config_def)
  then show ?thesis using ChangePassword r change_password_rows [OF r] assms touches_row_ok [OF assms] set_config_ok
    by fastforce
next
  case (CreateUser salt me body)
  then show ?thesis using create_user_ok [OF assms] assms by (auto simp: committed_def split: sum.split)
next
  case (UpdateUser salt me i body)
  then show ?thesis using update_user_ok [OF assms] assms by (auto simp: committed_def split: sum.split)
next
  case (Unlock i)
  then show ?thesis using unlock_ok [OF assms] assms by (auto simp: committed_def split: sum.split)
next
  case (DeleteUser me i)
  then show ?thesis using delete_user_ok [OF assms] assms by (auto simp: committed_def split: sum.split)
next
  case (StartUp salt)
  then show ?thesis using ensure_admin_ok [OF assms] has_admin_ensure by simp
qed

definition serve :: "env \<Rightarrow> request list \<Rightarrow> accounts \<Rightarrow> accounts" where
  "serve env rqs ac = foldl (\<lambda>ac rq. handle env rq ac) ac rqs"

lemma serve_keeps_admin:
  assumes "accounts_ok ac" and "has_admin ac"
  shows "accounts_ok (serve env rqs ac) \<and> has_admin (serve env rqs ac)"
  using assms unfolding serve_def
proof (induction rqs arbitrary: ac)
  case (Cons rq rqs)
  then show ?case using handle_ok [OF Cons.prems(1), of env rq] by simp
qed simp
section \<open>Guessing a password\<close>

type_synonym attempt = "time \<times> time \<times> string \<times> string"

fun try_login :: "env \<Rightarrow> string \<Rightarrow> attempt \<Rightarrow> accounts \<Rightarrow> (login_error + claims) \<times> accounts" where
  "try_login env name (now, later, ip, pw) ac = login env now later ip name pw ac"

text \<open>Whether an attempt gets as far as the password check.\<close>

fun password_checked :: "env \<Rightarrow> string \<Rightarrow> attempt \<Rightarrow> accounts \<Rightarrow> bool" where
  "password_checked env name (now, later, ip, pw) ac = (case get_user name ac of
       None \<Rightarrow> False
     | Some u \<Rightarrow> lock_seconds_left now u = 0 \<and> u_active u \<and> \<not> ip_refused env ip u ac)"

fun guesses :: "env \<Rightarrow> string \<Rightarrow> attempt list \<Rightarrow> accounts \<Rightarrow> nat" where
  "guesses env name [] ac = 0"
| "guesses env name (a # as) ac =
     (if password_checked env name a ac then 1 else 0) + guesses env name as (snd (try_login env name a ac))"

definition after_attempts :: "env \<Rightarrow> string \<Rightarrow> attempt list \<Rightarrow> accounts \<Rightarrow> accounts" where
  "after_attempts env name as ac = foldl (\<lambda>ac a. snd (try_login env name a ac)) ac as"

text \<open>The attempts a row still allows from \<open>t0\<close> on, within a window shorter than the lock.\<close>

definition budget :: "time \<Rightarrow> user \<Rightarrow> nat" where
  "budget t0 u = (if \<exists>t. u_locked_until u = Some t \<and> t0 + minutes 15 \<le> t then 0 else max 1 (5 - u_failed u))"

fun in_window :: "time \<Rightarrow> attempt \<Rightarrow> bool" where
  "in_window t0 (now, later, ip, pw) \<longleftrightarrow> t0 \<le> now \<and> now \<le> later \<and> now \<le> t0 + sec 899"

fun wrong_password :: "env \<Rightarrow> string \<Rightarrow> attempt \<Rightarrow> bool" where
  "wrong_password env stored (now, later, ip, pw) \<longleftrightarrow> verify_password env pw stored = Some False"

lemma get_user_mem: "accounts_ok ac \<Longrightarrow> x \<in> set (ac_users ac) \<Longrightarrow> get_user (u_username x) ac = Some x"
proof -
  assume ok: "accounts_ok ac" and x: "x \<in> set (ac_users ac)"
  then obtain y where y: "get_user (u_username x) ac = Some y"
    by (cases "get_user (u_username x) ac") (auto simp: get_user_def find_None_iff_all)
  then show ?thesis using same_name [OF ok x] get_user_Some [OF y] by simp
qed

lemma get_put:
  assumes "accounts_ok ac" and "get_user name ac = Some u" and "u_id u' = u_id u" and "u_username u' = u_username u"
  shows "get_user name (put_user u' ac) = Some u'"
proof -
  have u: "u \<in> set (ac_users ac)" "u_username u = name" using get_user_Some [OF assms(2)] by simp_all
  have "u' \<in> set (ac_users (put_user u' ac))"
    using update_first_new [of u "ac_users ac" "\<lambda>x. u_id x = u_id u'" u'] u assms(3) by (simp add: put_user_def)
  from get_user_mem [OF put_user_ok [OF assms(1) u(1) assms(3,4)] this] show ?thesis using assms(4) u(2) by simp
qed

lemma spent_locked: "budget t0 u = 0 \<Longrightarrow> now \<le> t0 + sec 899 \<Longrightarrow> 0 < lock_seconds_left now u"
proof -
  assume "budget t0 u = 0" and now: "now \<le> t0 + sec 899"
  then obtain t where t: "u_locked_until u = Some t" "t0 + minutes 15 \<le> t"
    by (auto simp: budget_def max_def split: if_splits)
  then have "sec 1 \<le> t - now" using now by simp
  then have "0 < (t - now) div sec 1" by (simp add: pos_imp_zdiv_pos_iff)
  then show ?thesis using t \<open>sec 1 \<le> t - now\<close> by (simp add: lock_seconds_left_def)
qed

lemma failed_spends:
  assumes "register_failed_login later u = (n, u')" and "budget t0 u \<noteq> 0" and "t0 \<le> later"
  shows "1 + budget t0 u' \<le> budget t0 u"
proof (cases "5 \<le> u_failed u + 1")
  case True
  then have "u_locked_until u' = Some (later + minutes 15)"
    using assms(1) by (auto simp: register_failed_login_def LOGIN_MAX_ATTEMPTS_def LOGIN_LOCK_MINUTES_def Let_def)
  then have "budget t0 u' = 0" using assms(3) by (simp add: budget_def)
  then show ?thesis using assms(2) by simp
next
  case False
  then have u': "u' = u\<lparr>u_failed := u_failed u + 1\<rparr>"
    using assms(1) by (auto simp: register_failed_login_def LOGIN_MAX_ATTEMPTS_def Let_def)
  then show ?thesis using assms(2) False by (auto simp: budget_def split: if_splits)
qed

lemma attempt_spends:
  assumes "accounts_ok ac" and "get_user name ac = Some u" and "in_window t0 a" and "wrong_password env (u_hash u) a"
  shows "\<exists>u'. get_user name (snd (try_login env name a ac)) = Some u' \<and> u_hash u' = u_hash u
    \<and> accounts_ok (snd (try_login env name a ac))
    \<and> (if password_checked env name a ac then 1 else 0) + budget t0 u' \<le> budget t0 u"
proof -
  obtain now later ip pw where a: "a = (now, later, ip, pw)" by (cases a) auto
  show ?thesis
  proof (cases "password_checked env name a ac")
    case False
    then have "snd (try_login env name a ac) = ac" using assms(2) by (auto simp: a login_def Let_def)
    then show ?thesis using False assms(1,2) by simp
  next
    case True
    then have checked: "lock_seconds_left now u = 0" "u_active u" "\<not> ip_refused env ip u ac"
      using assms(2) by (simp_all add: a)
    obtain n u' where r: "register_failed_login later u = (n, u')" by (cases "register_failed_login later u")
    have res: "snd (try_login env name a ac) = put_user u' ac"
      using checked assms(2,4) r by (simp add: a login_def check_login_password_def)
    have u: "u \<in> set (ac_users ac)" using get_user_Some [OF assms(2)] by simp
    note k = register_failed_keeps [OF r]
    have "budget t0 u \<noteq> 0" using spent_locked [of t0 u now] checked(1) assms(3) by (auto simp: a)
    then have "1 + budget t0 u' \<le> budget t0 u" using failed_spends [OF r] assms(3) by (simp add: a)
    then show ?thesis
      using True k get_put [OF assms(1,2), of u'] put_user_ok [OF assms(1) u, of u'] by (simp add: res)
  qed
qed

lemma guesses_spend:
  assumes "accounts_ok ac" and "get_user name ac = Some u"
    and "\<forall>a \<in> set as. in_window t0 a \<and> wrong_password env (u_hash u) a"
  shows "\<exists>u'. get_user name (after_attempts env name as ac) = Some u'
    \<and> guesses env name as ac + budget t0 u' \<le> budget t0 u"
  using assms
proof (induction as arbitrary: ac u)
  case Nil
  then show ?case by (simp add: after_attempts_def)
next
  case (Cons a as)
  obtain u1 where u1: "get_user name (snd (try_login env name a ac)) = Some u1" "u_hash u1 = u_hash u"
    "accounts_ok (snd (try_login env name a ac))"
    "(if password_checked env name a ac then 1 else 0) + budget t0 u1 \<le> budget t0 u"
    using attempt_spends [OF Cons.prems(1,2), of t0 a env] Cons.prems(3) by auto
  obtain u' where u': "get_user name (after_attempts env name as (snd (try_login env name a ac))) = Some u'"
    "guesses env name as (snd (try_login env name a ac)) + budget t0 u' \<le> budget t0 u1"
    using Cons.IH [OF u1(3,1)] Cons.prems(3) u1(2) by auto
  then show ?case using u1(4) by (intro exI [of _ u']) (simp add: after_attempts_def)
qed

section \<open>Hashes\<close>

definition bytes_ok :: "env \<Rightarrow> bool" where
  "bytes_ok env \<longleftrightarrow> (\<forall>pw salt n. \<forall>b \<in> set (en_kdf env pw salt n). b < 256)"

lemma hex_val_digit: "n < 16 \<Longrightarrow> hex_val (hex_digit n) = Some n"
  by (auto simp: hex_val_def hex_digit_def Let_def)

lemma hex_digit_code: "n < 16 \<Longrightarrow> (of_char (hex_digit n) :: nat) = (if n < 10 then 48 + n else 87 + n)"
  by (simp add: hex_digit_def)

lemma hex_digit_plain: "n < 16 \<Longrightarrow> \<not> ascii_space (hex_digit n) \<and> hex_digit n \<noteq> CHR ''$'' \<and> (of_char (hex_digit n) :: nat) < 128"
proof -
  assume n: "n < 16"
  have "(of_char (hex_digit n) :: nat) \<noteq> of_char (CHR ''$'')" using hex_digit_code [OF n] by simp
  then have "hex_digit n \<noteq> CHR ''$''" by auto
  then show ?thesis using hex_digit_code [OF n] n by (auto simp: ascii_space_def Let_def)
qed

lemma byte_div: "b < 256 \<Longrightarrow> b div 16 < (16 :: nat)"
  by (simp add: less_mult_imp_div_less)

lemma to_hex_simps [simp]: "to_hex [] = []" "to_hex (b # bs) = hex_digit (b div 16) # hex_digit (b mod 16) # to_hex bs"
  by (simp_all add: to_hex_def)

lemma from_to_hex: "\<forall>b \<in> set bs. b < 256 \<Longrightarrow> from_hex (to_hex bs) = Some bs"
  by (induction bs) (simp_all add: hex_digit_plain hex_val_digit byte_div)

lemma to_hex_plain: "\<forall>b \<in> set bs. b < 256 \<Longrightarrow> CHR ''$'' \<notin> set (to_hex bs) \<and> is_ascii (to_hex bs)"
  by (induction bs) (auto simp: is_ascii_def hex_digit_plain byte_div dest: sym)

lemma to_hex_inject:
  "\<forall>b \<in> set bs. b < 256 \<Longrightarrow> \<forall>b \<in> set cs. b < 256 \<Longrightarrow> to_hex bs = to_hex cs \<longleftrightarrow> bs = cs"
  by (metis from_to_hex option.inject)

lemma iterations_text: "py_int ''240000'' = Some ITERATIONS"
  by (simp add: py_int_def ITERATIONS_def strip_def lstrip_def is_space_def Let_def is_digit_def digit_val_def)

lemma verify_hash:
  assumes "bytes_ok env" and "\<forall>b \<in> set salt. b < 256"
  shows "verify_password env pw (hash_password env salt pw')
    = Some (en_kdf env pw salt ITERATIONS = en_kdf env pw' salt ITERATIONS)"
proof -
  let ?h = "to_hex (en_kdf env pw' salt ITERATIONS)"
  have b: "\<forall>b \<in> set (en_kdf env q salt ITERATIONS). b < 256" for q using assms(1) by (simp add: bytes_ok_def)
  have "split_on (CHR ''$'') (hash_password env salt pw') = [ALGO, ''240000'', to_hex salt, ?h]"
    unfolding hash_password_def using to_hex_plain [OF assms(2)] to_hex_plain [OF b]
    by (intro split_join) (auto simp: ALGO_def)
  then show ?thesis
    using from_to_hex [OF assms(2)] to_hex_plain [OF b] to_hex_inject [OF b b]
    by (simp add: verify_password_def iterations_text compare_digest_def) (simp add: ITERATIONS_def)
qed
section \<open>The properties\<close>

lemma get_config_put [simp]: "get_config k (put_user u ac) = get_config k ac"
  by (simp add: get_config_def put_user_def)

lemma ip_refused_put [simp]: "ip_refused env ip u (put_user u' ac) = ip_refused env ip u ac"
  by (simp add: ip_refused_def check_ip_allowed_def get_office_ips_def split: option.split)

definition sample_env :: env where
  "sample_env = \<lparr>en_admin_username = ''admin'', en_admin_password = ''changeme-1'', en_expire_minutes = 60,
     en_kdf = (\<lambda>pw salt n. map of_char pw), en_in_net = (\<lambda>a e. None), en_valid_net = (\<lambda>e. True)\<rparr>"

definition sample_row :: "nat \<Rightarrow> string \<Rightarrow> string \<Rightarrow> string option \<Rightarrow> user" where
  "sample_row i name role customer =
     \<lparr>u_id = i, u_username = name, u_hash = hash_password sample_env [7] ''secret-1'', u_role = role,
      u_customer = customer, u_allowed_ips = None, u_active = True, u_failed = 0, u_locked_until = None,
      u_last_login = None, u_note = None, u_created_by = None\<rparr>"

definition sample_accounts :: accounts where
  "sample_accounts = \<lparr>ac_users = [sample_row 1 ''root'' ''admin'' None, sample_row 2 ''kim'' ''customer'' (Some ''acme'')],
     ac_config = [], ac_ftp = [\<lparr>fr_user = 2, fr_group = 1, fr_name = ''ftp1''\<rparr>],
     ac_groups = [\<lparr>gr_id = 1, gr_name = ''g'', gr_customer = Some ''acme''\<rparr>], ac_keys = [], ac_next = 3\<rparr>"

lemma sample_accounts_ok: "accounts_ok sample_accounts" "has_admin sample_accounts"
  by (simp_all add: accounts_ok_def has_admin_def sample_accounts_def sample_row_def)

lemma sample_user: "get_user ''kim'' sample_accounts = Some (sample_row 2 ''kim'' ''customer'' (Some ''acme''))"
  by (simp add: get_user_def sample_accounts_def sample_row_def)

lemma sample_env_bytes: "bytes_ok sample_env"
  by (auto simp: bytes_ok_def sample_env_def)

lemma sample_wrong: "verify_password sample_env ''guess'' (hash_password sample_env [7] ''secret-1'') = Some False"
  by (subst verify_hash [OF sample_env_bytes]) (simp_all add: sample_env_def)

definition sample_attempts :: "attempt list" where
  "sample_attempts = (let a = (0, 1, ''10.0.0.9'', ''guess'') in [a, a, a, a, a])"

lemma sample_guesses: "guesses sample_env ''kim'' sample_attempts sample_accounts = 5"
proof -
  have [simp]: "\<not> ip_refused sample_env ''10.0.0.9'' u ac" if "u_role u = ''customer''" "u_allowed_ips u = None" for u ac
    using that by (simp add: ip_refused_def check_user_ip_allowed_def split_ips_def strip_def lstrip_def)
  show ?thesis
    by (simp add: sample_attempts_def sample_accounts_def sample_row_def get_user_def login_def lock_seconds_left_def
        check_login_password_def sample_wrong register_failed_login_def LOGIN_MAX_ATTEMPTS_def put_user_def Let_def)
qed

text \<open>
  C4: in any run of logins, password changes, account creations, updates, unlocks and
  deletions by any administrators, the tables stay sound (unique ids and names, no mapping and
  no key without its account), and there is always an active administrator.
\<close>

theorem an_admin_remains:
  assumes "accounts_ok ac" and "has_admin ac"
  shows "accounts_ok (serve env rqs ac) \<and> has_admin (serve env rqs ac)"
  by (rule serve_keeps_admin [OF assms])

theorem an_admin_remains_witness:
  "has_admin (serve sample_env [DeleteUser \<lparr>pr_username = ''eve'', pr_role = ''admin'', pr_customer = None, pr_via_key = False\<rparr> 1]
     sample_accounts)"
  using an_admin_remains [OF sample_accounts_ok] by blast

text \<open>
  C3: of wrong attempts on an account that are handled one after the other, all within a window shorter
  than the lock, at most five are checked against the password, from whatever addresses they come.
  After the fifth, also the right password is refused until the lock ends. (A success in between
  starts the count anew, and requests handled at the same time may share a count:
  \<open>concurrent_failures_count_once\<close>.)
\<close>

theorem five_guesses:
  assumes "accounts_ok ac" and "get_user name ac = Some u"
    and "\<forall>a \<in> set as. in_window t0 a \<and> wrong_password env (u_hash u) a"
    and "now \<le> t0 + sec 899" and "login env now later ip name pw (after_attempts env name as ac) = (res, ac')"
  shows "guesses env name as ac \<le> 5
    \<and> (if guesses env name as ac = 5
       then \<exists>left > 0. res = Inl (AccountLocked left) \<and> ac' = after_attempts env name as ac else True)"
proof -
  obtain u' where u': "get_user name (after_attempts env name as ac) = Some u'"
    "guesses env name as ac + budget t0 u' \<le> budget t0 u"
    using guesses_spend [OF assms(1-3)] by auto
  have "budget t0 u \<le> 5" by (simp add: budget_def)
  moreover have "res = Inl (AccountLocked (lock_seconds_left now u')) \<and> ac' = after_attempts env name as ac
      \<and> 0 < lock_seconds_left now u'" if "guesses env name as ac = 5"
    using that u' calculation spent_locked [OF _ assms(4), of u'] assms(5) by (auto simp: login_def Let_def)
  ultimately show ?thesis using u'(2) by auto
qed

theorem five_guesses_witness:
  "guesses sample_env ''kim'' sample_attempts sample_accounts = 5
   \<and> (\<exists>left > 0. fst (login sample_env (sec 60) (sec 60) ''10.0.0.9'' ''kim'' ''secret-1''
        (after_attempts sample_env ''kim'' sample_attempts sample_accounts)) = Inl (AccountLocked left))"
proof -
  let ?l = "login sample_env (sec 60) (sec 60) ''10.0.0.9'' ''kim'' ''secret-1'' (after_attempts sample_env ''kim'' sample_attempts sample_accounts)"
  note n = sample_guesses
  have "\<forall>a \<in> set sample_attempts. in_window 0 a \<and> wrong_password sample_env (u_hash (sample_row 2 ''kim'' ''customer'' (Some ''acme''))) a"
    by (simp add: sample_row_def sample_wrong sample_attempts_def Let_def)
  from five_guesses [OF sample_accounts_ok(1) sample_user this, of "sec 60" "sec 60" "''10.0.0.9''" "''secret-1''" "fst ?l" "snd ?l"]
  show ?thesis using n by auto
qed

text \<open>
  What the code does not do is lock the row of the account between reading and writing it. Requests
  that all read the row before one of them has written it write the same count, so any number of
  wrong passwords that are sent at the same time counts as one.
\<close>

lemma put_put: "u_id u' = u_id u \<Longrightarrow> put_user u' (put_user u ac) = put_user u' ac"
proof -
  assume same: "u_id u' = u_id u"
  have "update_first (\<lambda>x. u_id x = u_id u) (\<lambda>_. u') (update_first (\<lambda>x. u_id x = u_id u) (\<lambda>_. u) us)
      = update_first (\<lambda>x. u_id x = u_id u) (\<lambda>_. u') us" for us
    by (induction us) auto
  then show ?thesis by (simp add: put_user_def same)
qed

theorem concurrent_failures_count_once:
  assumes "accounts_ok ac" and "get_user name ac = Some u" and "u_failed u < 4"
  shows "get_user name (fold (\<lambda>t. put_user (snd (register_failed_login t u))) (t # ts) ac) = Some (u\<lparr>u_failed := u_failed u + 1\<rparr>)"
proof -
  let ?u = "u\<lparr>u_failed := u_failed u + 1\<rparr>"
  have one: "snd (register_failed_login t u) = ?u" for t
    using assms(3) by (simp add: register_failed_login_def LOGIN_MAX_ATTEMPTS_def Let_def)
  have "fold (\<lambda>t. put_user ?u) ts (put_user ?u ac) = put_user ?u ac" for ts :: "time list"
    by (induction ts) (simp_all add: put_put)
  then show ?thesis using get_put [OF assms(1,2), of ?u] by (simp add: one)
qed

theorem concurrent_failures_count_once_witness:
  "map_option u_failed (get_user ''kim'' (fold (\<lambda>t. put_user (snd (register_failed_login t (sample_row 2 ''kim'' ''customer'' (Some ''acme'')))))
     [1, 2, 3, 4, 5, 6, 7] sample_accounts)) = Some 1"
  using concurrent_failures_count_once [OF sample_accounts_ok(1) sample_user, of 1 "[2, 3, 4, 5, 6, 7]"]
  by (simp add: sample_row_def)

text \<open>
  When a password change succeeds, the account can be entered with the new password and
  no longer with another one (of a different key), and a lock is gone.
\<close>

theorem password_change_effective:
  assumes "accounts_ok ac" and "bytes_ok env" and "\<forall>b \<in> set salt. b < 256"
    and "get_user (pr_username me) ac = Some u" and "u_active u" and "\<not> ip_refused env ip u ac"
    and "change_my_password env now salt me cur new ac = (Inr (), ac')"
    and "login env t later ip (pr_username me) pw ac' = (res, ac'')"
  shows "(if en_kdf env pw salt ITERATIONS = en_kdf env (strip_input new) salt ITERATIONS
          then res = Inr (create_access_token env later (u_username u) (u_role u) (u_customer u))
          else res = Inl (BadCredentials (Some 4)))"
proof -
  let ?u = "clear_failed_login now (u\<lparr>u_hash := hash_password env salt (strip_input new)\<rparr>)"
  have ac': "ac' = put_user ?u ac"
    using assms(4,7) by (auto simp: change_my_password_def Let_def split: if_splits option.splits bool.splits)
  have "get_user (pr_username me) ac' = Some ?u"
    unfolding ac' by (rule get_put [OF assms(1,4)]) (simp_all add: clear_failed_login_def)
  moreover have "ip_refused env ip ?u ac' = ip_refused env ip u ac"
    unfolding ac' ip_refused_put by (simp add: ip_refused_def clear_failed_login_def)
  ultimately show ?thesis
    using assms(5,6,8) verify_hash [OF assms(2,3), of pw "strip_input new"]
    by (auto simp: login_def check_login_password_def clear_failed_login_def lock_seconds_left_def
        register_failed_login_def LOGIN_MAX_ATTEMPTS_def split: if_splits)
qed


theorem password_change_effective_witness:
  "let me = \<lparr>pr_username = ''kim'', pr_role = ''customer'', pr_customer = Some ''acme'', pr_via_key = False\<rparr>;
       (done, ac') = change_my_password sample_env 0 [8] me ''secret-1'' '' secret-2'' sample_accounts
   in done = Inr () \<and> fst (login sample_env 1 2 ''10.0.0.9'' ''kim'' ''secret-1'' ac') = Inl (BadCredentials (Some 4))"
proof -
  let ?me = "\<lparr>pr_username = ''kim'', pr_role = ''customer'', pr_customer = Some ''acme'', pr_via_key = False\<rparr>"
  let ?row = "sample_row 2 ''kim'' ''customer'' (Some ''acme'')"
  have strips: "strip_input ''secret-1'' = ''secret-1''" "strip_input '' secret-2'' = ''secret-2''"
    by (simp_all add: strip_input_def strip_def lstrip_def is_space_def Let_def)
  have "verify_password sample_env ''secret-1'' (hash_password sample_env [7] ''secret-1'') = Some True"
    by (subst verify_hash [OF sample_env_bytes]) simp_all
  then obtain ac' where c: "change_my_password sample_env 0 [8] ?me ''secret-1'' '' secret-2'' sample_accounts = (Inr (), ac')"
    by (simp add: change_my_password_def strips sample_user sample_row_def)
  obtain res ac'' where l: "login sample_env 1 2 ''10.0.0.9'' ''kim'' ''secret-1'' ac' = (res, ac'')"
    by (cases "login sample_env 1 2 ''10.0.0.9'' ''kim'' ''secret-1'' ac'")
  have "\<not> ip_refused sample_env ''10.0.0.9'' ?row sample_accounts"
    by (simp add: ip_refused_def check_user_ip_allowed_def split_ips_def strip_def lstrip_def sample_row_def)
  then have "res = Inl (BadCredentials (Some 4))"
    using password_change_effective [OF sample_accounts_ok(1) sample_env_bytes _ _ _ _ c, of ?row "''10.0.0.9''" 1 2 "''secret-1''" res ac'']
      sample_user l by (simp add: strips sample_env_def sample_row_def)
  then show ?thesis using c l by simp
qed
end
