(* ===== verification/Notifier.thy ===== *)
theory Notifier
  imports Accounts Ingest
begin

text \<open>
  \<open>was/app/notifier.py\<close>: what the messages say, which channels exist, and how \<open>dispatch\<close> and
  \<open>send_text\<close> send them.

  A JSON value is a term of \<open>json\<close>; the Korean labels and sentences are replaced by English ones.
  A request to the network either delivers or raises; \<open>net\<close> tells which, by the number of the
  request. The formattings of a time (\<open>isoformat\<close>, the short one of Slack and the long one, both in KST)
  are parameters, floats are reals.
\<close>

section \<open>Alerts and texts\<close>

text \<open>
  The dictionary of an alert. \<open>na_place\<close> is \<open>None\<close> when it has no key \<open>group_name\<close> yet, else the
  group and the carrier. A recovery has no value (\<open>None\<close> in the code): its \<open>na_value\<close> is never read.
\<close>

record notice =
  na_device :: "nat option"
  na_hostname :: string
  na_metric :: string
  na_severity :: string
  na_value :: real
  na_baseline :: "real option"
  na_detail :: "string option"
  na_bucket :: time
  na_recovered :: bool
  na_duration :: int
  na_count :: int
  na_test :: bool
  na_place :: "(string option \<times> string option) option"

definition SEVERITY_LABEL :: "string \<Rightarrow> string" where
  "SEVERITY_LABEL s = (if s = ''warning'' then ''caution'' else if s = ''critical'' then ''severe'' else s)"

definition METRIC_LABEL :: "string \<Rightarrow> string" where
  "METRIC_LABEL m = (if m = ''fail_rate'' then ''transfer failure rate''
     else if m = ''throughput'' then ''transfer speed''
     else if m = ''login_fail_rate'' then ''login failure rate''
     else if m = ''cwd_fail_spike'' then ''CWD failure spike'' else m)"

definition fmt_metric :: "string \<Rightarrow> real \<Rightarrow> string" where
  "fmt_metric metric value =
     (if metric = ''throughput'' then fixed 2 (value / (1024 * 1024)) @ '' MB/s''
      else if metric = ''cwd_fail_spike''
      then show_int (if value < 0 then \<lceil>value\<rceil> else \<lfloor>value\<rfloor>) @ '' times''
      else fixed 1 (value * 100) @ ''%'')"

definition is_recovery :: "notice list \<Rightarrow> bool" where
  "is_recovery alerts = (alerts \<noteq> [] \<and> list_all na_recovered alerts)"

definition fmt_span :: "notice \<Rightarrow> string" where
  "fmt_span a = show_int (na_duration a) @ '' min, '' @ show_int (na_count a) @ '' alerts''"

definition na_group :: "notice \<Rightarrow> string option" where
  "na_group a = (case na_place a of None \<Rightarrow> None | Some (g, t) \<Rightarrow> g)"

definition na_telco :: "notice \<Rightarrow> string option" where
  "na_telco a = (case na_place a of None \<Rightarrow> None | Some (g, t) \<Rightarrow> t)"

definition alert_label :: "notice \<Rightarrow> string" where
  "alert_label a =
     (let telco = or_else (na_telco a) []; grp = or_else (na_group a) [] in
      if grp \<noteq> [] then (if telco \<noteq> [] then ''['' @ telco @ '']'' @ grp else grp) else na_hostname a)"

definition detail_suffix :: "notice \<Rightarrow> string" where
  "detail_suffix a = (if truthy (na_detail a) then '' - '' @ the (na_detail a) else [])"

definition base_suffix :: "notice \<Rightarrow> string" where
  "base_suffix a = (case na_baseline a of None \<Rightarrow> [] | Some b \<Rightarrow> '' (usually '' @ fmt_metric (na_metric a) b @ '')'')"

definition build_summary :: "(time \<Rightarrow> string) \<Rightarrow> notice \<Rightarrow> string" where
  "build_summary kst a =
     (if na_recovered a
      then ''[recovered] '' @ alert_label a @ '' - '' @ METRIC_LABEL (na_metric a) @ '' is normal again (problem: ''
             @ fmt_span a @ '') @ last '' @ kst (na_bucket a)
      else ''['' @ SEVERITY_LABEL (na_severity a) @ ''] '' @ alert_label a @ '' - '' @ METRIC_LABEL (na_metric a) @ '' ''
             @ fmt_metric (na_metric a) (na_value a) @ base_suffix a @ '' @ '' @ kst (na_bucket a) @ detail_suffix a)"

section \<open>Payloads\<close>

datatype json = JNull | JBool bool | JInt int | JNum real | JStr string | JList "json list" | JObj "(string \<times> json) list"

definition j_opt :: "('a \<Rightarrow> json) \<Rightarrow> 'a option \<Rightarrow> json" where
  "j_opt f x = (case x of None \<Rightarrow> JNull | Some v \<Rightarrow> f v)"

definition criticals :: "notice list \<Rightarrow> nat" where
  "criticals alerts = length (filter (\<lambda>a. na_severity a = ''critical'') alerts)"

definition slack_line :: "(time \<Rightarrow> string) \<Rightarrow> bool \<Rightarrow> notice \<Rightarrow> string" where
  "slack_line kst recovered a =
     (if recovered
      then '':white_check_mark: [recovered] *'' @ alert_label a @ ''* - '' @ METRIC_LABEL (na_metric a)
             @ '' is normal again (problem: '' @ fmt_span a @ ''), last '' @ kst (na_bucket a)
      else (if na_severity a = ''critical'' then '':rotating_light:'' else '':warning:'')
             @ '' ['' @ SEVERITY_LABEL (na_severity a) @ ''] *'' @ alert_label a @ ''* - '' @ METRIC_LABEL (na_metric a)
             @ '' '' @ fmt_metric (na_metric a) (na_value a) @ base_suffix a @ '' '' @ kst (na_bucket a) @ detail_suffix a)"

definition slack_payload :: "(time \<Rightarrow> string) \<Rightarrow> notice list \<Rightarrow> json" where
  "slack_payload kst alerts =
     (let recovered = is_recovery alerts; crit = criticals alerts;
          test_tag = (if list_ex na_test alerts then '' _[test]_'' else []);
          crit_tag = (if crit > 0 \<and> \<not> recovered then ''  :rotating_light: severe '' @ show_nat crit else []);
          title = (if recovered then ''service recovered'' else ''service impact'');
          header = (if recovered then '':white_check_mark:'' else '':bell:'') @ '' *SolTrace '' @ title @ '' ''
                     @ show_nat (length alerts) @ ''*'' @ crit_tag @ test_tag
      in JObj [(''text'', JStr (''[SolTrace] '' @ title @ '' '' @ show_nat (length alerts))),
               (''blocks'', JList [JObj [(''type'', JStr ''section''),
                  (''text'', JObj [(''type'', JStr ''mrkdwn''),
                     (''text'', JStr (join_with LF (header # map (slack_line kst recovered) alerts)))])]])])"

definition generic_payload :: "(time \<Rightarrow> string) \<Rightarrow> (time \<Rightarrow> string) \<Rightarrow> notice list \<Rightarrow> json" where
  "generic_payload isofmt kst alerts =
     JObj [(''source'', JStr ''soltrace''),
           (''type'', JStr (if is_recovery alerts then ''service_recovery'' else ''service_impact'')),
           (''test'', JBool (list_ex na_test alerts)),
           (''count'', JInt (int (length alerts))),
           (''alerts'', JList (map (\<lambda>a. JObj
              [(''device'', JStr (na_hostname a)), (''device_id'', j_opt (JInt \<circ> int) (na_device a)),
               (''metric'', JStr (na_metric a)), (''severity'', JStr (na_severity a)),
               (''value'', if na_recovered a then JNull else JNum (na_value a)), (''baseline'', j_opt JNum (na_baseline a)),
               (''detail'', j_opt JStr (na_detail a)), (''bucket'', JStr (isofmt (na_bucket a))),
               (''recovered'', JBool (na_recovered a)),
               (''duration_min'', if na_recovered a then JInt (na_duration a) else JNull),
               (''alert_count'', if na_recovered a then JInt (na_count a) else JNull),
               (''summary'', JStr (build_summary kst a))]) alerts))]"

text \<open>\<open>html.escape\<close> with its default \<open>quote=True\<close>.\<close>

fun esc_char :: "char \<Rightarrow> string" where
  "esc_char c = (if c = CHR ''&'' then ''&amp;'' else if c = CHR ''<'' then ''&lt;'' else if c = CHR ''>'' then ''&gt;''
     else if c = CHR 0x22 then ''&quot;'' else if c = CHR 0x27 then ''&#x27;'' else [c])"

definition esc :: "string \<Rightarrow> string" where
  "esc s = concat (map esc_char s)"

definition cell :: "string \<Rightarrow> string" where
  "cell s = ''<td style='padding:4px 8px'>'' @ s @ ''</td>''"

definition mail_row :: "(time \<Rightarrow> string) \<Rightarrow> bool \<Rightarrow> notice \<Rightarrow> string" where
  "mail_row kst recovered a =
     ''<tr>'' @ cell (esc (na_hostname a)) @ cell (esc (METRIC_LABEL (na_metric a)))
     @ cell (esc (SEVERITY_LABEL (na_severity a)))
     @ cell (esc (if recovered then ''normal again (problem: '' @ fmt_span a @ '')'' else fmt_metric (na_metric a) (na_value a))
             @ (if recovered \<or> \<not> truthy (na_detail a) then [] else ''<br>'' @ esc (the (na_detail a))))
     @ cell (kst (na_bucket a)) @ ''</tr>''"

definition head_cell :: "string \<Rightarrow> string" where
  "head_cell s = ''<th style='padding:4px 8px'>'' @ s @ ''</th>''"

definition build_hms_body :: "(time \<Rightarrow> string) \<Rightarrow> notice list \<Rightarrow> string" where
  "build_hms_body kst alerts =
     (let recovered = is_recovery alerts in
      ''<html><body style='font-family:sans-serif;font-size:13px'>''
      @ (if recovered
         then ''<p>The problem of the FTP server that was reported is over. (severity: the highest of the problem, time: its last)</p>''
         else ''<p>A problem of the service of an FTP server was detected.</p>'')
      @ ''<table border='1' cellspacing='0' cellpadding='0' style='border-collapse:collapse'>''
      @ ''<thead><tr style='background:#f0f0f0'>''
      @ concat (map head_cell [''device'', ''metric'', ''severity'', ''value'', ''time'']) @ ''</tr></thead>''
      @ ''<tbody>'' @ concat (map (mail_row kst recovered) alerts) @ ''</tbody></table>''
      @ ''<p style='color:#888;font-size:11px'>This mail was sent by SolTrace.</p>'' @ ''</body></html>'')"

definition hms_envelope :: "string \<Rightarrow> string \<Rightarrow> string \<Rightarrow> string \<Rightarrow> json" where
  "hms_envelope now telco subject body =
     JObj [(''telco_name'', JStr telco),
           (''svc_list'', JList [JObj [(''svc_name'', JStr ''soltrace''), (''vol_list'', JNull)]]),
           (''alert_date'', JStr now),
           (''prop'', JObj [(''subject'', JStr subject), (''body'', JStr body)])]"

definition hms_subject :: "notice list \<Rightarrow> string" where
  "hms_subject alerts =
     (let pre = (if list_ex na_test alerts then ''[test] '' else []); crit = criticals alerts in
      if is_recovery alerts then pre @ ''[SolTrace] service recovered '' @ show_nat (length alerts)
      else pre @ ''[SolTrace] service impact '' @ show_nat (length alerts)
             @ (if crit > 0 then '' (severe '' @ show_nat crit @ '')'' else []))"

section \<open>Channels\<close>

record channels =
  ch_webhook :: string
  ch_hms :: string

text \<open>\<open>dflt\<close> holds \<open>ALERT_WEBHOOK_URL\<close> and \<open>ALERT_HMS_URL\<close> of the environment.\<close>

definition load_cfg :: "channels \<Rightarrow> accounts \<Rightarrow> channels" where
  "load_cfg dflt ac =
     \<lparr>ch_webhook = or_else (get_config ''notify_webhook_url'' ac) (ch_webhook dflt),
      ch_hms = or_else (get_config ''notify_hms_url'' ac) (ch_hms dflt)\<rparr>"

definition channels_configured :: "channels \<Rightarrow> accounts \<Rightarrow> bool" where
  "channels_configured dflt ac = (let c = load_cfg dflt ac in ch_webhook c \<noteq> [] \<or> ch_hms c \<noteq> [])"

definition is_muted :: "accounts \<Rightarrow> bool" where
  "is_muted ac = (map to_lower (or_else (get_config ''notify_muted'' ac) ''false'') = ''true'')"

text \<open>\<open>^https?://\<close> without regard to case.\<close>

definition is_http :: "string \<Rightarrow> bool" where
  "is_http url = (let l = map to_lower url in starts_with ''http://'' l \<or> starts_with ''https://'' l)"

definition validate_webhook_url :: "string \<Rightarrow> unit http" where
  "validate_webhook_url url = (if url \<noteq> [] \<and> \<not> is_http url then Inl (HTTPException 422 ''url'') else Inr ())"

text \<open>\<open>PUT /settings/notify\<close>: both URLs are checked before either is stored.\<close>

definition save_notify :: "string \<Rightarrow> string \<Rightarrow> accounts \<Rightarrow> accounts http" where
  "save_notify webhook hms ac =
     and_then (validate_webhook_url webhook) (\<lambda>_.
     and_then (validate_webhook_url hms) (\<lambda>_.
       Inr (set_config ''notify_hms_url'' hms (set_config ''notify_webhook_url'' webhook ac))))"

definition set_mute :: "bool \<Rightarrow> accounts \<Rightarrow> accounts" where
  "set_mute muted ac = set_config ''notify_muted'' (if muted then ''true'' else ''false'') ac"

section \<open>Sending\<close>

text \<open>The requests sent so far and those that were delivered, with their URL and body.\<close>

record wire =
  wi_calls :: nat
  wi_sent :: "(string \<times> json) list"

definition post_json :: "(nat \<Rightarrow> bool) \<Rightarrow> string \<Rightarrow> json \<Rightarrow> wire \<Rightarrow> bool \<times> wire" where
  "post_json net url payload w =
     (let ok = net (wi_calls w) in
      (ok, w\<lparr>wi_calls := wi_calls w + 1, wi_sent := wi_sent w @ (if ok then [(url, payload)] else [])\<rparr>))"

text \<open>A channel returns \<open>Some\<close> whether it sent anything, or \<open>None\<close> when it raises.\<close>

definition send_webhook ::
  "(nat \<Rightarrow> bool) \<Rightarrow> (time \<Rightarrow> string) \<Rightarrow> (time \<Rightarrow> string) \<Rightarrow> (time \<Rightarrow> string) \<Rightarrow> notice list \<Rightarrow> channels \<Rightarrow> wire \<Rightarrow> bool option \<times> wire" where
  "send_webhook net isofmt short kst alerts cfg w =
     (if ch_webhook cfg = [] then (Some False, w)
      else let url = ch_webhook cfg;
               (ok, w1) = post_json net url
                 (if has_substring ''hooks.slack.com'' url then slack_payload short alerts else generic_payload isofmt kst alerts) w
           in (if ok then Some True else None, w1))"

text \<open>\<open>by_telco.setdefault(telco, []).append(a)\<close>: the carriers in the order of their first alert.\<close>

fun file_under :: "string \<Rightarrow> 'a \<Rightarrow> (string \<times> 'a list) list \<Rightarrow> (string \<times> 'a list) list" where
  "file_under k a [] = [(k, [a])]"
| "file_under k a ((k', as) # rest) = (if k = k' then (k', as @ [a]) # rest else (k', as) # file_under k a rest)"

definition telco_of :: "notice \<Rightarrow> string" where
  "telco_of a = or_else (na_telco a) ''SolTrace''"

definition by_telco :: "notice list \<Rightarrow> (string \<times> notice list) list" where
  "by_telco alerts = fold (\<lambda>a. file_under (telco_of a) a) alerts []"

fun post_groups ::
  "(nat \<Rightarrow> bool) \<Rightarrow> string \<Rightarrow> (time \<Rightarrow> string) \<Rightarrow> string \<Rightarrow> (string \<times> notice list) list \<Rightarrow> bool \<Rightarrow> wire \<Rightarrow>
   bool option \<times> wire" where
  "post_groups net now kst url [] sent w = (Some sent, w)"
| "post_groups net now kst url ((telco, grp) # rest) sent w =
     (let (ok, w1) = post_json net url (hms_envelope now telco (hms_subject grp) (build_hms_body kst grp)) w in
      if ok then post_groups net now kst url rest True w1 else (None, w1))"

definition send_hms ::
  "(nat \<Rightarrow> bool) \<Rightarrow> string \<Rightarrow> (time \<Rightarrow> string) \<Rightarrow> notice list \<Rightarrow> channels \<Rightarrow> wire \<Rightarrow> bool option \<times> wire" where
  "send_hms net now kst alerts cfg w =
     (if ch_hms cfg = [] then (Some False, w) else post_groups net now kst (ch_hms cfg) (by_telco alerts) False w)"

text \<open>
  \<open>_enrich_alerts\<close>: \<open>where_is\<close> is the query, which gives for a device the first of its groups, those
  with a carrier before the others, or nothing. An alert that has a group is left alone.
\<close>

definition enrich_alerts :: "(nat \<Rightarrow> (string option \<times> string option) option) \<Rightarrow> notice list \<Rightarrow> notice list" where
  "enrich_alerts where_is alerts =
     (if list_all (\<lambda>a. na_device a = None) alerts then alerts
      else map (\<lambda>a. if na_place a \<noteq> None then a
                    else a\<lparr>na_place := Some (case na_device a of None \<Rightarrow> (None, None)
                                              | Some i \<Rightarrow> case where_is i of None \<Rightarrow> (None, None) | Some p \<Rightarrow> p)\<rparr>) alerts)"

datatype channel = Webhook | Hms

definition channel_list :: "string \<Rightarrow> channel list" where
  "channel_list ch = (if ch = ''all'' then [Webhook, Hms] else if ch = ''webhook'' then [Webhook]
     else if ch = ''hms'' then [Hms] else [])"

text \<open>The loop over the channels: an exception is logged and the next channel is tried.\<close>

fun try_channels ::
  "(channel \<Rightarrow> wire \<Rightarrow> bool option \<times> wire) \<Rightarrow> channel list \<Rightarrow> bool \<Rightarrow> wire \<Rightarrow> bool \<times> wire" where
  "try_channels send [] sent w = (sent, w)"
| "try_channels send (c # cs) sent w =
     (let (r, w1) = send c w in try_channels send cs (sent \<or> r = Some True) w1)"

definition dispatch ::
  "(nat \<Rightarrow> bool) \<Rightarrow> (time \<Rightarrow> string) \<Rightarrow> (time \<Rightarrow> string) \<Rightarrow> (time \<Rightarrow> string) \<Rightarrow> string \<Rightarrow> (nat \<Rightarrow> (string option \<times> string option) option) \<Rightarrow>
   channels \<Rightarrow> accounts \<Rightarrow> notice list \<Rightarrow> string \<Rightarrow> wire \<Rightarrow> bool \<times> wire" where
  "dispatch net isofmt short kst now where_is dflt ac alerts ch w =
     (if alerts = [] then (False, w)
      else if \<not> list_ex na_test alerts \<and> is_muted ac then (False, w)
      else let as = enrich_alerts where_is alerts; cfg = load_cfg dflt ac in
        try_channels (\<lambda>c. case c of Webhook \<Rightarrow> send_webhook net isofmt short kst as cfg | Hms \<Rightarrow> send_hms net now kst as cfg)
          (channel_list ch) False w)"

definition send_text :: "(nat \<Rightarrow> bool) \<Rightarrow> string \<Rightarrow> channels \<Rightarrow> accounts \<Rightarrow> string \<Rightarrow> string \<Rightarrow> wire \<Rightarrow> bool \<times> wire" where
  "send_text net now dflt ac subject body w =
     (if is_muted ac then (False, w)
      else let cfg = load_cfg dflt ac;
               (sent1, w1) = (if ch_webhook cfg = [] then (False, w)
                 else post_json net (ch_webhook cfg)
                   (if has_substring ''hooks.slack.com'' (ch_webhook cfg)
                    then JObj [(''text'', JStr (subject @ LF # body))]
                    else JObj [(''source'', JStr ''soltrace''), (''type'', JStr ''notice''),
                               (''subject'', JStr subject), (''message'', JStr body)]) w);
               (sent2, w2) = (if ch_hms cfg = [] then (False, w1)
                 else post_json net (ch_hms cfg)
                   (hms_envelope now ''SolTrace'' subject (''<html><body style='font-family:sans-serif;font-size:13px'><p>'' @ esc body @ ''</p></body></html>'')) w1)
           in (sent1 \<or> sent2, w2))"

text \<open>\<open>POST /settings/notify/test\<close>.\<close>

definition test_notify ::
  "(nat \<Rightarrow> bool) \<Rightarrow> (time \<Rightarrow> string) \<Rightarrow> (time \<Rightarrow> string) \<Rightarrow> (time \<Rightarrow> string) \<Rightarrow> string \<Rightarrow> (nat \<Rightarrow> (string option \<times> string option) option) \<Rightarrow>
   channels \<Rightarrow> time \<Rightarrow> accounts \<Rightarrow> string \<Rightarrow> wire \<Rightarrow> unit http \<times> wire" where
  "test_notify net isofmt short kst now where_is dflt t ac ch w =
     (let dummy = [\<lparr>na_device = None, na_hostname = ''SolTrace-Test'', na_metric = ''fail_rate'', na_severity = ''warning'',
            na_value = 15 / 100, na_baseline = Some (2 / 100), na_detail = None, na_bucket = t, na_recovered = False,
            na_duration = 0, na_count = 0, na_test = True, na_place = None\<rparr>] in
      if \<not> List.member [''all'', ''webhook'', ''hms''] ch then (bad_request ''unknown channel'', w)
      else if \<not> channels_configured dflt ac then (bad_request ''no channel'', w)
      else let (ok, w1) = dispatch net isofmt short kst now where_is dflt ac dummy ch w in
        (if ok then Inr () else Inl (HTTPException 502 ''not sent''), w1))"

section \<open>Alerts and carriers\<close>

lemma file_under_map_of:
  "map_of (file_under k a d) k' = (if k = k' then Some (case map_of d k of None \<Rightarrow> [a] | Some as \<Rightarrow> as @ [a]) else map_of d k')"
  by (induction k a d rule: file_under.induct) auto

lemma file_under_keys: "map fst (file_under k a d) = map fst d @ (if k \<in> fst ` set d then [] else [k])"
  by (induction k a d rule: file_under.induct) auto

lemma by_telco_snoc: "by_telco (as @ [a]) = file_under (telco_of a) a (by_telco as)"
  by (simp add: by_telco_def)

lemma by_telco_keys: "map fst (by_telco as) = rev (remdups (rev (map telco_of as)))"
proof (induction as rule: rev_induct)
  case Nil
  then show ?case by (simp add: by_telco_def)
next
  case (snoc a as)
  have "fst ` set (by_telco as) = telco_of ` set as"
    using snoc by (metis list.set_map set_remdups set_rev)
  then show ?case using snoc by (simp add: by_telco_snoc file_under_keys)
qed

lemma by_telco_groups:
  "map_of (by_telco as) t = (let g = filter (\<lambda>a. telco_of a = t) as in if g = [] then None else Some g)"
proof (induction as arbitrary: t rule: rev_induct)
  case Nil
  then show ?case by (simp add: by_telco_def)
next
  case (snoc a as)
  show ?case by (auto simp: by_telco_snoc file_under_map_of snoc Let_def)
qed

lemma by_telco_distinct: "distinct (map fst (by_telco as))"
  by (simp add: by_telco_keys)

lemma by_telco_entry: "(t, g) \<in> set (by_telco as) \<longleftrightarrow> g = filter (\<lambda>a. telco_of a = t) as \<and> g \<noteq> []"
proof -
  have "(t, g) \<in> set (by_telco as) \<longleftrightarrow> map_of (by_telco as) t = Some g"
    using by_telco_distinct by (simp add: map_of_eq_Some_iff)
  then show ?thesis by (auto simp: by_telco_groups Let_def)
qed

definition mail :: "string \<Rightarrow> (time \<Rightarrow> string) \<Rightarrow> string \<Rightarrow> string \<times> notice list \<Rightarrow> string \<times> json" where
  "mail now kst url tg = (url, hms_envelope now (fst tg) (hms_subject (snd tg)) (build_hms_body kst (snd tg)))"

text \<open>The mails go out in order up to the first that fails.\<close>

lemma post_groups_sent:
  "post_groups net now kst url gs sent w = (r, w') \<Longrightarrow>
   \<exists>n. wi_sent w' = wi_sent w @ map (mail now kst url) (take n gs)
     \<and> (r = None \<and> n < length gs \<or> r = Some (sent \<or> gs \<noteq> []) \<and> n = length gs)"
proof (induction net now kst url gs sent w rule: post_groups.induct)
  case (1 net now kst url sent w)
  then show ?case by (intro exI [of _ 0]) auto
next
  case (2 net now kst url telco grp rest sent w)
  let ?p = "hms_envelope now telco (hms_subject grp) (build_hms_body kst grp)"
  show ?case
  proof (cases "net (wi_calls w)")
    case False
    then show ?thesis using "2.prems" by (intro exI [of _ 0]) (auto simp: post_json_def)
  next
    case True
    let ?w1 = "w\<lparr>wi_calls := wi_calls w + 1, wi_sent := wi_sent w @ [(url, ?p)]\<rparr>"
    have p: "post_json net url ?p w = (True, ?w1)" using True by (simp add: post_json_def)
    then have "post_groups net now kst url rest True ?w1 = (r, w')" using "2.prems" by simp
    from "2.IH" [OF p [symmetric] refl TrueI this] obtain n where
      "wi_sent w' = wi_sent ?w1 @ map (mail now kst url) (take n rest)"
      "r = None \<and> n < length rest \<or> r = Some (True \<or> rest \<noteq> []) \<and> n = length rest" by blast
    then show ?thesis by (intro exI [of _ "Suc n"]) (auto simp: mail_def)
  qed
qed

text \<open>
  The mails of one dispatch divide the alerts by carrier: each alert is in the mail of its own
  carrier and no other, in the order of the alerts, an alert without a carrier in that of
  "SolTrace", and there is one mail for each carrier. When a mail fails, those before it have
  gone out, but the channel counts as failed.
\<close>

theorem one_mail_for_each_carrier:
  assumes "ch_hms cfg \<noteq> []" and "alerts \<noteq> []" and "send_hms net now kst alerts cfg w = (r, w')"
  shows "(\<exists>n. wi_sent w' = wi_sent w @ map (mail now kst (ch_hms cfg)) (take n (by_telco alerts))
      \<and> (if r = None then n < length (by_telco alerts) else r = Some True \<and> n = length (by_telco alerts)))
    \<and> map fst (by_telco alerts) = rev (remdups (rev (map telco_of alerts)))
    \<and> (\<forall>(t, g) \<in> set (by_telco alerts). g = filter (\<lambda>a. telco_of a = t) alerts \<and> g \<noteq> [])"
proof -
  have "by_telco alerts \<noteq> []" using by_telco_keys [of alerts] assms(2) by (cases "by_telco alerts") auto
  then have "\<exists>n. wi_sent w' = wi_sent w @ map (mail now kst (ch_hms cfg)) (take n (by_telco alerts))
      \<and> (if r = None then n < length (by_telco alerts) else r = Some True \<and> n = length (by_telco alerts))"
    using post_groups_sent [of net now kst "ch_hms cfg" "by_telco alerts" False w r w'] assms(1,3)
    by (auto simp: send_hms_def)
  then show ?thesis by (auto simp: by_telco_keys by_telco_entry)
qed

definition sample_notice :: "string \<Rightarrow> notice" where
  "sample_notice telco = \<lparr>na_device = Some 1, na_hostname = ''ftp1'', na_metric = ''fail_rate'', na_severity = ''warning'',
     na_value = 1 / 5, na_baseline = None, na_detail = None, na_bucket = 0, na_recovered = False, na_duration = 0,
     na_count = 0, na_test = False, na_place = Some (Some ''g'', Some telco)\<rparr>"

theorem one_mail_for_each_carrier_witness:
  "fst (send_hms (\<lambda>n. n = 0) [] (\<lambda>_. []) [sample_notice ''A'', sample_notice ''B'', sample_notice ''A''] \<lparr>ch_webhook = [], ch_hms = ''u''\<rparr>
     \<lparr>wi_calls = 0, wi_sent = []\<rparr>) = None
   \<and> map fst (by_telco [sample_notice ''A'', sample_notice ''B'', sample_notice ''A'']) = [''A'', ''B'']"
proof -
  let ?as = "[sample_notice ''A'', sample_notice ''B'', sample_notice ''A'']" and ?w = "\<lparr>wi_calls = 0, wi_sent = []\<rparr>"
    and ?c = "\<lparr>ch_webhook = [], ch_hms = ''u''\<rparr>"
  have t: "telco_of (sample_notice t) = or_else (Some t) ''SolTrace''" for t
    by (simp add: telco_of_def na_telco_def sample_notice_def)
  obtain r w' where r: "send_hms (\<lambda>n. n = 0) [] (\<lambda>_. []) ?as ?c ?w = (r, w')" by fastforce
  have "ch_hms ?c \<noteq> []" "?as \<noteq> []" by simp_all
  note facts = one_mail_for_each_carrier [OF this r]
  have keys: "map fst (by_telco ?as) = [''A'', ''B'']" using facts by (simp add: t)
  then obtain g h where d: "by_telco ?as = [(''A'', g), (''B'', h)]" by auto
  have "r = None" using r by (auto simp: send_hms_def d post_json_def Let_def)
  then show ?thesis using r keys by simp
qed

section \<open>What counts as sent\<close>

lemma post_json_sent: "post_json net url p w = (ok, w') \<Longrightarrow> wi_sent w' = wi_sent w @ (if ok then [(url, p)] else [])"
  by (auto simp: post_json_def Let_def)

definition webhook_message :: "(time \<Rightarrow> string) \<Rightarrow> (time \<Rightarrow> string) \<Rightarrow> (time \<Rightarrow> string) \<Rightarrow> notice list \<Rightarrow> channels \<Rightarrow> string \<times> json" where
  "webhook_message isofmt short kst alerts cfg =
     (ch_webhook cfg, if has_substring ''hooks.slack.com'' (ch_webhook cfg) then slack_payload short alerts
                      else generic_payload isofmt kst alerts)"

lemma send_webhook_sent:
  "send_webhook net isofmt short kst alerts cfg w = (r, w') \<Longrightarrow>
   wi_sent w' = wi_sent w @ (if r = Some True then [webhook_message isofmt short kst alerts cfg] else [])
   \<and> (r = Some True \<longrightarrow> ch_webhook cfg \<noteq> [])"
  by (auto simp: send_webhook_def webhook_message_def Let_def dest!: post_json_sent split: prod.splits if_splits)

lemma send_hms_sent:
  assumes "send_hms net now kst alerts cfg w = (r, w')"
  shows "\<exists>ms. wi_sent w' = wi_sent w @ ms"
    and "r = Some True \<Longrightarrow> ch_hms cfg \<noteq> [] \<and> wi_sent w' = wi_sent w @ map (mail now kst (ch_hms cfg)) (by_telco alerts)"
  using post_groups_sent [of net now kst "ch_hms cfg" "by_telco alerts" False w r w'] assms
  by (auto simp: send_hms_def split: if_splits)

definition delivered ::
  "(time \<Rightarrow> string) \<Rightarrow> (time \<Rightarrow> string) \<Rightarrow> (time \<Rightarrow> string) \<Rightarrow> string \<Rightarrow> notice list \<Rightarrow> channels \<Rightarrow> wire \<Rightarrow> bool" where
  "delivered isofmt short kst now as cfg w \<longleftrightarrow>
     webhook_message isofmt short kst as cfg \<in> set (wi_sent w) \<and> ch_webhook cfg \<noteq> []
     \<or> set (map (mail now kst (ch_hms cfg)) (by_telco as)) \<subseteq> set (wi_sent w) \<and> ch_hms cfg \<noteq> []"

abbreviation send_on ::
  "(nat \<Rightarrow> bool) \<Rightarrow> (time \<Rightarrow> string) \<Rightarrow> (time \<Rightarrow> string) \<Rightarrow> (time \<Rightarrow> string) \<Rightarrow> string \<Rightarrow> notice list \<Rightarrow> channels \<Rightarrow> channel \<Rightarrow> wire \<Rightarrow>
   bool option \<times> wire" where
  "send_on net isofmt short kst now as cfg \<equiv>
     (\<lambda>c. case c of Webhook \<Rightarrow> send_webhook net isofmt short kst as cfg | Hms \<Rightarrow> send_hms net now kst as cfg)"

lemma send_on_mono: "send_on net isofmt short kst now as cfg c w = (r, w') \<Longrightarrow> \<exists>ms. wi_sent w' = wi_sent w @ ms"
  by (cases c) (auto dest: send_webhook_sent send_hms_sent(1))

lemma send_on_delivers:
  "send_on net isofmt short kst now as cfg c w = (Some True, w') \<Longrightarrow> delivered isofmt short kst now as cfg w'"
  by (cases c) (auto simp: delivered_def dest: send_webhook_sent send_hms_sent(2))

lemma delivered_mono:
  "delivered isofmt short kst now as cfg w \<Longrightarrow> wi_sent w' = wi_sent w @ ms \<Longrightarrow> delivered isofmt short kst now as cfg w'"
  unfolding delivered_def by auto

lemma try_channels_delivers:
  "try_channels (send_on net isofmt short kst now as cfg) cs s w = (s', w') \<Longrightarrow> s \<longrightarrow> delivered isofmt short kst now as cfg w \<Longrightarrow>
   s' \<longrightarrow> delivered isofmt short kst now as cfg w'"
proof (induction cs arbitrary: s w)
  case (Cons c cs)
  obtain r w1 where r: "send_on net isofmt short kst now as cfg c w = (r, w1)" by fastforce
  obtain ms where ms: "wi_sent w1 = wi_sent w @ ms" using send_on_mono [OF r] by blast
  have "s \<or> r = Some True \<longrightarrow> delivered isofmt short kst now as cfg w1"
    using send_on_delivers r delivered_mono [OF _ ms] Cons.prems(2) by blast
  moreover have "try_channels (send_on net isofmt short kst now as cfg) cs (s \<or> r = Some True) w1 = (s', w')"
    using Cons.prems(1) r by simp
  ultimately show ?case by (rule Cons.IH [rotated])
qed simp

lemma all_channels_up:
  assumes "\<forall>n. net n" and "as \<noteq> []"
  shows "fst (try_channels (send_on net isofmt short kst now as cfg) [Webhook, Hms] False w) \<longleftrightarrow> ch_webhook cfg \<noteq> [] \<or> ch_hms cfg \<noteq> []"
proof -
  obtain r1 w1 where r1: "send_webhook net isofmt short kst as cfg w = (r1, w1)" by fastforce
  obtain r2 w2 where r2: "send_hms net now kst as cfg w1 = (r2, w2)" by fastforce
  have "r1 = Some True \<longleftrightarrow> ch_webhook cfg \<noteq> []"
    using r1 assms(1) by (auto simp: send_webhook_def post_json_def Let_def split: if_splits)
  moreover have "r2 = Some True \<longleftrightarrow> ch_hms cfg \<noteq> []"
  proof -
    have up: "fst (post_groups net now kst url gs s v) = Some (s \<or> gs \<noteq> [])" for url gs s v
      using assms(1) by (induction gs arbitrary: s v) (auto simp: post_json_def)
    have "by_telco as \<noteq> []" using assms(2) by_telco_keys [of as] by auto
    then show ?thesis using r2 up [of "ch_hms cfg" "by_telco as" False w1] by (auto simp: send_hms_def split: if_splits)
  qed
  ultimately show ?thesis using r1 r2 by simp
qed

lemma dispatch_delivers:
  "dispatch net isofmt short kst now where_is dflt ac alerts ch w = (sent, w') \<Longrightarrow>
   sent \<longrightarrow> delivered isofmt short kst now (enrich_alerts where_is alerts) (load_cfg dflt ac) w'"
  using try_channels_delivers [where s = False and cs = "channel_list ch" and as = "enrich_alerts where_is alerts"
      and cfg = "load_cfg dflt ac" and w = w]
  by (auto simp: dispatch_def Let_def split: if_splits)

text \<open>
  C26: \<open>dispatch\<close> says that the alerts were sent only when one channel delivered all of them: the
  webhook its message, or the gateway the mail of every carrier. Nothing is sent while the
  notifications are muted, except a test. When the network delivers everything, it says so as
  soon as there is a channel.
\<close>

theorem dispatch_true_when_delivered:
  assumes "dispatch net isofmt short kst now where_is dflt ac alerts ch w = (sent, w')"
  shows "(\<not> list_ex na_test alerts \<and> is_muted ac \<longrightarrow> \<not> sent \<and> w' = w)
    \<and> (sent \<longrightarrow> delivered isofmt short kst now (enrich_alerts where_is alerts) (load_cfg dflt ac) w')
    \<and> (ch = ''all'' \<and> alerts \<noteq> [] \<and> \<not> is_muted ac \<and> (\<forall>n. net n) \<longrightarrow> (sent \<longleftrightarrow> channels_configured dflt ac))"
proof -
  let ?as = "enrich_alerts where_is alerts" and ?cfg = "load_cfg dflt ac"
  have "sent \<longrightarrow> delivered isofmt short kst now ?as ?cfg w'" by (rule dispatch_delivers [OF assms])
  moreover have "sent \<longleftrightarrow> channels_configured dflt ac"
    if on: "ch = ''all''" "alerts \<noteq> []" "\<not> is_muted ac" "\<forall>n. net n"
  proof -
    have "?as \<noteq> []" using on(2) by (simp add: enrich_alerts_def)
    then show ?thesis
      using assms on all_channels_up [where net = net and as = ?as and isofmt = isofmt and short = short and kst = kst and now = now and cfg = ?cfg and w = w]
      by (simp add: dispatch_def Let_def channel_list_def channels_configured_def del: try_channels.simps)
  qed
  moreover have "\<not> list_ex na_test alerts \<and> is_muted ac \<longrightarrow> \<not> sent \<and> w' = w"
    using assms by (auto simp: dispatch_def split: if_splits)
  ultimately show ?thesis by blast
qed

theorem dispatch_true_when_delivered_witness:
  "fst (dispatch (\<lambda>n. n = 1) (\<lambda>_. []) (\<lambda>_. []) (\<lambda>_. []) [] (\<lambda>_. None) \<lparr>ch_webhook = ''u'', ch_hms = ''v''\<rparr> sample_accounts
     [sample_notice ''A''] ''all'' \<lparr>wi_calls = 0, wi_sent = []\<rparr>)
   \<and> delivered (\<lambda>_. []) (\<lambda>_. []) (\<lambda>_. []) [] [sample_notice ''A''] \<lparr>ch_webhook = ''u'', ch_hms = ''v''\<rparr>
       (snd (dispatch (\<lambda>n. n = 1) (\<lambda>_. []) (\<lambda>_. []) (\<lambda>_. []) [] (\<lambda>_. None) \<lparr>ch_webhook = ''u'', ch_hms = ''v''\<rparr> sample_accounts
         [sample_notice ''A''] ''all'' \<lparr>wi_calls = 0, wi_sent = []\<rparr>))"
proof -
  let ?dflt = "\<lparr>ch_webhook = ''u'', ch_hms = ''v''\<rparr>" and ?w = "\<lparr>wi_calls = 0, wi_sent = []\<rparr>" and ?as = "[sample_notice ''A'']"
  obtain s w' where d: "dispatch (\<lambda>n. n = 1) (\<lambda>_. []) (\<lambda>_. []) (\<lambda>_. []) [] (\<lambda>_. None) ?dflt sample_accounts ?as ''all'' ?w = (s, w')"
    by fastforce
  have c: "get_config k sample_accounts = None" for k by (simp add: get_config_def sample_accounts_def)
  have cfg: "load_cfg ?dflt sample_accounts = ?dflt" by (simp add: load_cfg_def c)
  have as: "enrich_alerts (\<lambda>_. None) ?as = ?as" by (simp add: enrich_alerts_def sample_notice_def)
  have mute: "\<not> is_muted sample_accounts" by (simp add: is_muted_def c to_lower_def)
  have groups: "by_telco ?as = [(telco_of (sample_notice ''A''), ?as)]" by (simp add: by_telco_def)
  have s: "s" using d
    by (auto simp: dispatch_def mute as cfg Let_def channel_list_def send_webhook_def send_hms_def post_json_def groups
        split: prod.splits)
  show ?thesis using dispatch_true_when_delivered [OF d] s unfolding d as cfg by simp
qed

section \<open>Mail bodies\<close>

text \<open>\<open>html.unescape\<close> on the five entities that \<open>esc\<close> writes.\<close>

fun unesc :: "string \<Rightarrow> string" where
  "unesc [] = []"
| "unesc (c # cs) =
     (if starts_with ''&amp;'' (c # cs) then CHR ''&'' # unesc (drop 4 cs)
      else if starts_with ''&lt;'' (c # cs) then CHR ''<'' # unesc (drop 3 cs)
      else if starts_with ''&gt;'' (c # cs) then CHR ''>'' # unesc (drop 3 cs)
      else if starts_with ''&quot;'' (c # cs) then CHR 0x22 # unesc (drop 5 cs)
      else if starts_with ''&#x27;'' (c # cs) then CHR 0x27 # unesc (drop 5 cs)
      else c # unesc cs)"

lemma unesc_esc: "unesc (esc s) = s"
  by (induction s) (auto simp: esc_def starts_with_def)

definition markup :: "string \<Rightarrow> nat" where
  "markup s = length (filter (\<lambda>c. c = CHR ''<'' \<or> c = CHR ''>'') s)"

lemma markup_Nil [simp]: "markup [] = 0"
  by (simp add: markup_def)

lemma markup_Cons [simp]: "markup (c # s) = (if c = CHR ''<'' \<or> c = CHR ''>'' then 1 else 0) + markup s"
  by (simp add: markup_def)

lemma markup_append [simp]: "markup (s @ t) = markup s + markup t"
  by (simp add: markup_def)

lemma markup_esc [simp]: "markup (esc s) = 0"
  by (induction s) (auto simp: esc_def)

lemma markup_cell [simp]: "markup (cell s) = markup s + 4"
  by (simp add: cell_def)

lemma markup_row:
  assumes "\<forall>t. markup (kst t) = 0"
  shows "markup (mail_row kst recovered a) = 24 + (if recovered \<or> \<not> truthy (na_detail a) then 0 else 2)"
  using assms by (simp add: mail_row_def)

text \<open>
  C27: the texts of an alert cannot add markup to a mail: host names, labels and details are escaped
  and come back when the mail is read, and the number of angle brackets of a mail depends on the
  number of its alerts and of the details shown alone.
\<close>

theorem alert_text_adds_no_markup:
  assumes "\<forall>t. markup (kst t) = 0"
  shows "unesc (esc s) = s \<and> markup (esc s) = 0
    \<and> markup (build_hms_body kst alerts) = 52 + 24 * length alerts
        + 2 * length (filter (\<lambda>a. \<not> is_recovery alerts \<and> truthy (na_detail a)) alerts)"
proof -
  have rows: "markup (concat (map (mail_row kst r) as)) = 24 * length as + 2 * length (filter (\<lambda>a. \<not> r \<and> truthy (na_detail a)) as)"
    for r as
  proof (induction as)
    case (Cons a as)
    then show ?case by (simp add: markup_row [OF assms])
  qed (simp add: markup_def)
  show ?thesis by (simp add: unesc_esc build_hms_body_def head_cell_def rows Let_def)
qed

theorem alert_text_adds_no_markup_witness:
  "markup (build_hms_body (\<lambda>_. ''12:00'') [(sample_notice ''A'')\<lparr>na_hostname := ''<script>''\<rparr>]) = 76"
proof -
  have "\<forall>t::time. markup ''12:00'' = 0" by simp
  from alert_text_adds_no_markup [OF this] show ?thesis by (simp add: sample_notice_def is_recovery_def)
qed

section \<open>The page of the channels\<close>

text \<open>\<open>GET /settings/notify\<close>: the stored values, without the defaults of the environment.\<close>

definition get_notify :: "accounts \<Rightarrow> channels" where
  "get_notify ac =
     \<lparr>ch_webhook = or_else (get_config ''notify_webhook_url'' ac) [], ch_hms = or_else (get_config ''notify_hms_url'' ac) []\<rparr>"

lemma get_set_config: "get_config k (set_config j v ac) = (if k = j then Some v else get_config k ac)"
  by (auto simp: get_config_def set_config_def map_of_alist_update map_of_alist_update_other)

text \<open>
  What is saved is what the page shows. What is used is that, except where it is empty: then it is
  the default of the environment. So a channel that the environment sets cannot be turned off on
  the page, which shows it as empty while messages go on being sent to it.
\<close>

theorem saved_channels_are_shown:
  assumes "save_notify webhook hms ac = Inr ac'"
  shows "get_notify ac' = \<lparr>ch_webhook = webhook, ch_hms = hms\<rparr>
    \<and> load_cfg dflt ac' = \<lparr>ch_webhook = (if webhook = [] then ch_webhook dflt else webhook), ch_hms = (if hms = [] then ch_hms dflt else hms)\<rparr>"
proof -
  have "ac' = set_config ''notify_hms_url'' hms (set_config ''notify_webhook_url'' webhook ac)"
    using assms by (simp add: save_notify_def validate_webhook_url_def split: if_splits)
  then show ?thesis by (simp add: get_notify_def load_cfg_def get_set_config)
qed

theorem cleared_channel_stays_on:
  assumes "save_notify [] hms ac = Inr ac'" and "ch_webhook dflt \<noteq> []"
  shows "ch_webhook (get_notify ac') = [] \<and> ch_webhook (load_cfg dflt ac') = ch_webhook dflt \<and> channels_configured dflt ac'"
  using saved_channels_are_shown [OF assms(1), of dflt] assms(2) by (simp add: channels_configured_def Let_def)

theorem cleared_channel_stays_on_witness:
  "\<exists>ac'. save_notify [] [] sample_accounts = Inr ac' \<and> ch_webhook (get_notify ac') = []
    \<and> ch_webhook (load_cfg \<lparr>ch_webhook = ''http://h'', ch_hms = []\<rparr> ac') = ''http://h''"
proof -
  obtain ac' where ac': "save_notify [] [] sample_accounts = Inr ac'" by (simp add: save_notify_def validate_webhook_url_def)
  then show ?thesis using cleared_channel_stays_on [OF ac', of "\<lparr>ch_webhook = ''http://h'', ch_hms = []\<rparr>"] by simp
qed

end
