(* ===== verification/Rollup.thy ===== *)
theory Rollup
  imports Detect
begin

text \<open>
  The aggregation of \<open>was/app/service_monitor.py\<close>: the exclusion patterns (\<open>_like_patterns\<close> and
  \<open>LIKE\<close>), which failed directory changes count (\<open>cwd_probe_sql\<close>, \<open>cwd_real_fail_sql\<close>), and
  \<open>_rollup\<close>, which writes the log rows of the last two hours into buckets.

  An SQL condition is a predicate on a row, a comparison with \<open>NULL\<close> does not hold, and the
  log table is the list of its rows. \<open>LIKE\<close> takes a backslash as the escape character.
\<close>

section \<open>Patterns\<close>

abbreviation BS :: char where "BS \<equiv> CHR 0x5C"

definition escape_like :: "string \<Rightarrow> string" where
  "escape_like pat =
     (let p1 = replace_char BS [BS, BS] pat;
          p2 = replace_char (CHR ''%'') [BS, CHR ''%''] p1;
          p3 = replace_char (CHR ''_'') [BS, CHR ''_''] p2
      in replace_char (CHR ''*'') ''%'' p3)"

definition like_patterns :: "string \<Rightarrow> string list" where
  "like_patterns raw = map escape_like (filter (\<lambda>p. p \<noteq> []) (map strip (split_lines raw)))"

function like :: "string \<Rightarrow> string \<Rightarrow> bool" where
  "like [] s = (s = [])"
| "like (p # ps) s =
     (if p = CHR ''%'' then like ps s \<or> (case s of [] \<Rightarrow> False | c # cs \<Rightarrow> like (p # ps) cs)
      else if p = BS then
        (case ps of [] \<Rightarrow> False | q # qs \<Rightarrow> (case s of [] \<Rightarrow> False | c # cs \<Rightarrow> c = q \<and> like qs cs))
      else (case s of [] \<Rightarrow> False | c # cs \<Rightarrow> (p = CHR ''_'' \<or> c = p) \<and> like ps cs))"
  by pat_completeness auto
termination by (relation "measure (\<lambda>(p, s). length p + length s)") auto

definition like_any :: "string list \<Rightarrow> string option \<Rightarrow> bool" where
  "like_any pats s = list_ex (\<lambda>p. like p (or_else s [])) pats"

section \<open>Log rows and failed directory changes\<close>

record log =
  lg_device :: nat
  lg_time :: time
  lg_username :: "string option"
  lg_action :: string
  lg_path :: "string option"
  lg_size :: nat
  lg_secs :: real
  lg_status :: string

definition CWD_PROBE_WINDOW :: time where "CWD_PROBE_WINDOW = minutes 10"
definition CWD_CLOCK_SKEW :: time where "CWD_CLOCK_SKEW = sec 5"

definition at_or_below :: "bool \<Rightarrow> string option \<Rightarrow> string option \<Rightarrow> bool" where
  "at_or_below same p base =
     (case (p, base) of
        (Some q, Some b) \<Rightarrow> (same \<and> q = b) \<or> starts_with (b @ ''/'') q
      | _ \<Rightarrow> False)"

definition cwd_probe :: "log list \<Rightarrow> time \<Rightarrow> time \<Rightarrow> log \<Rightarrow> bool" where
  "cwd_probe logs since til x =
     (list_ex (\<lambda>mk. lg_action mk = ''mkdir'' \<and> lg_device mk = lg_device x
        \<and> at_or_below True (lg_path mk) (lg_path x)
        \<and> lg_time mk \<ge> since - CWD_CLOCK_SKEW \<and> lg_time mk < til + CWD_PROBE_WINDOW
        \<and> lg_time mk \<ge> lg_time x - CWD_CLOCK_SKEW \<and> lg_time mk < lg_time x + CWD_PROBE_WINDOW) logs
      \<or> list_ex (\<lambda>up. lg_action up = ''upload'' \<and> lg_status up = ''success'' \<and> lg_device up = lg_device x
        \<and> at_or_below False (lg_path up) (lg_path x)
        \<and> lg_time up \<ge> since - CWD_CLOCK_SKEW \<and> lg_time up < til + CWD_CLOCK_SKEW
        \<and> lg_time up \<ge> lg_time x - CWD_CLOCK_SKEW \<and> lg_time up < lg_time x + CWD_CLOCK_SKEW) logs)"

definition cwd_real_fail :: "string list \<Rightarrow> log list \<Rightarrow> time \<Rightarrow> time \<Rightarrow> log \<Rightarrow> bool" where
  "cwd_real_fail cwd_ignore logs since til x =
     (\<not> like_any cwd_ignore (lg_path x) \<and> \<not> cwd_probe logs since til x)"

section \<open>Rolling up\<close>

definition EPOCH :: time where "EPOCH = sec 946684800"

definition date_bin :: "time \<Rightarrow> time \<Rightarrow> time" where
  "date_bin iv t = EPOCH + (t - EPOCH) div iv * iv"

definition is_transfer :: "log \<Rightarrow> bool" where
  "is_transfer l = List.member [''upload'', ''download''] (lg_action l)"

definition big_ok :: "nat \<Rightarrow> log \<Rightarrow> bool" where
  "big_ok large l = (is_transfer l \<and> lg_status l = ''success'' \<and> lg_size l \<ge> large)"

record rollup_cfg =
  rc_bucket :: time
  rc_large :: nat
  rc_cwd_ignore :: "string list"
  rc_xfer_ignore :: "string list"

text \<open>The aggregates of one group of rows.\<close>

definition aggregate :: "rollup_cfg \<Rightarrow> log list \<Rightarrow> time \<Rightarrow> time \<Rightarrow> nat \<Rightarrow> time \<Rightarrow> log list \<Rightarrow> metrics" where
  "aggregate c logs since til dev b grp =
     (let cnt = (\<lambda>P. length (filter P grp)) in
      \<lparr>m_device = dev, m_bucket = b, m_transfers = cnt is_transfer,
       m_transfer_fails = cnt (\<lambda>l. is_transfer l \<and> lg_status l = ''fail'' \<and> \<not> like_any (rc_xfer_ignore c) (lg_username l)),
       m_bytes = sum_list (map lg_size (filter is_transfer grp)),
       m_transfer_secs = sum_list (map lg_secs (filter is_transfer grp)),
       m_xfers_big = cnt (big_ok (rc_large c)),
       m_bytes_big = sum_list (map lg_size (filter (big_ok (rc_large c)) grp)),
       m_secs_big = sum_list (map lg_secs (filter (big_ok (rc_large c)) grp)),
       m_login_attempts = cnt (\<lambda>l. lg_action l = ''login''),
       m_login_fails = cnt (\<lambda>l. lg_action l = ''login'' \<and> lg_status l = ''fail''),
       m_cwd_fails = cnt (\<lambda>l. lg_action l = ''cwd_fail'' \<and> cwd_real_fail (rc_cwd_ignore c) logs since til l)\<rparr>)"

definition in_bucket :: "rollup_cfg \<Rightarrow> nat \<Rightarrow> time \<Rightarrow> log \<Rightarrow> bool" where
  "in_bucket c dev b l = (lg_device l = dev \<and> date_bin (rc_bucket c) (lg_time l) = b)"

definition metric_key :: "metrics \<Rightarrow> nat \<times> time" where
  "metric_key m = (m_device m, m_bucket m)"

definition upsert_metric :: "metrics \<Rightarrow> ((nat \<times> time), metrics) dict \<Rightarrow> ((nat \<times> time), metrics) dict" where
  "upsert_metric m tab = AList.update (metric_key m) m tab"

definition rollup_from ::
  "rollup_cfg \<Rightarrow> time \<Rightarrow> time \<Rightarrow> log list \<Rightarrow> ((nat \<times> time), metrics) dict \<Rightarrow> ((nat \<times> time), metrics) dict" where
  "rollup_from c win_start now logs tab =
     (let sel = filter (\<lambda>l. lg_time l \<ge> win_start) logs;
          keys = remdups (map (\<lambda>l. (lg_device l, date_bin (rc_bucket c) (lg_time l))) sel)
      in fold (\<lambda>(dev, b). upsert_metric (aggregate c logs win_start now dev b (filter (in_bucket c dev b) sel))) keys tab)"

definition rollup :: "rollup_cfg \<Rightarrow> time \<Rightarrow> log list \<Rightarrow> ((nat \<times> time), metrics) dict \<Rightarrow> ((nat \<times> time), metrics) dict" where
  "rollup c now logs tab = rollup_from c (now - sec 7200) now logs tab"

section \<open>Patterns match like globs\<close>

fun glob :: "string \<Rightarrow> string \<Rightarrow> bool" where
  "glob [] s = (s = [])"
| "glob (p # ps) [] = (p = CHR ''*'' \<and> glob ps [])"
| "glob (p # ps) (c # cs) =
     (if p = CHR ''*'' then glob ps (c # cs) \<or> glob (p # ps) cs else c = p \<and> glob ps cs)"

definition escape_char :: "char \<Rightarrow> string" where
  "escape_char x = (if x = BS then [BS, BS] else if x = CHR ''%'' then [BS, CHR ''%'']
     else if x = CHR ''_'' then [BS, CHR ''_''] else if x = CHR ''*'' then ''%'' else [x])"

lemma escape_like_Cons: "escape_like (x # xs) = escape_char x @ escape_like xs"
  by (simp add: escape_like_def escape_char_def Let_def)

lemma escape_like_Nil: "escape_like [] = []"
  by (simp add: escape_like_def)

lemma like_glob: "like (escape_like pat) s = glob pat s"
proof (induction pat arbitrary: s)
  case Nil
  then show ?case by (simp add: escape_like_Nil)
next
  case (Cons p ps)
  show ?case
  proof (cases "p = CHR ''*''")
    case True
    have e: "escape_like (CHR ''*'' # ps) = CHR ''%'' # escape_like ps"
      by (simp add: escape_like_Cons escape_char_def)
    have "like (escape_like (CHR ''*'' # ps)) s = glob (CHR ''*'' # ps) s"
    proof (induction s)
      case Nil
      show ?case using Cons.IH [of "[]"] by (simp add: e)
    next
      case (Cons c cs)
      then show ?case using \<open>\<And>s. like (escape_like ps) s = glob ps s\<close> by (simp add: e)
    qed
    with True show ?thesis by simp
  next
    case False
    show ?thesis
    proof (cases s)
      case Nil
      then show ?thesis using False by (simp add: escape_like_Cons escape_char_def)
    next
      case (Cons c cs)
      then show ?thesis using False Cons.IH by (auto simp: escape_like_Cons escape_char_def)
    qed
  qed
qed

section \<open>What a rollup writes\<close>

lemma metric_key_aggregate [simp]: "metric_key (aggregate c logs since til dev b grp) = (dev, b)"
  by (simp add: metric_key_def aggregate_def Let_def)

lemma fold_upsert_other:
  "k \<notin> set keys \<Longrightarrow>
   map_of (fold (\<lambda>(dev, b). upsert_metric (aggregate c logs ws now dev b (g dev b))) keys tab) k = map_of tab k"
proof (induction keys arbitrary: tab)
  case (Cons p keys)
  obtain dev b where p: "p = (dev, b)" by (cases p)
  with Cons.prems have "k \<noteq> (dev, b)" "k \<notin> set keys" by auto
  with Cons.IH show ?case
    by (simp add: p upsert_metric_def)
qed simp

lemma fold_upsert_in:
  "distinct keys \<Longrightarrow> (dev, b) \<in> set keys \<Longrightarrow>
   map_of (fold (\<lambda>(dev, b). upsert_metric (aggregate c logs ws now dev b (g dev b))) keys tab) (dev, b)
   = Some (aggregate c logs ws now dev b (g dev b))"
proof (induction keys arbitrary: tab)
  case (Cons p keys)
  obtain dev' b' where p: "p = (dev', b')" by (cases p)
  show ?case
  proof (cases "(dev, b) = (dev', b')")
    case True
    with Cons.prems p have "(dev, b) \<notin> set keys" by simp
    with True p show ?thesis
      by (simp add: fold_upsert_other) (simp add: upsert_metric_def)
  next
    case False
    with Cons p show ?thesis by auto
  qed
qed simp

lemma rollup_row:
  "map_of (rollup_from c ws now logs tab) (dev, b) =
     (let grp = filter (\<lambda>l. lg_time l \<ge> ws \<and> in_bucket c dev b l) logs in
      if grp = [] then map_of tab (dev, b) else Some (aggregate c logs ws now dev b grp))"
proof -
  let ?sel = "filter (\<lambda>l. lg_time l \<ge> ws) logs"
  let ?keys = "remdups (map (\<lambda>l. (lg_device l, date_bin (rc_bucket c) (lg_time l))) ?sel)"
  let ?grp = "filter (\<lambda>l. lg_time l \<ge> ws \<and> in_bucket c dev b l) logs"
  have g: "filter (in_bucket c dev b) ?sel = ?grp"
    by (auto simp: filter_filter intro: filter_cong)
  have k: "(dev, b) \<in> set ?keys \<longleftrightarrow> ?grp \<noteq> []"
    by (auto simp: filter_empty_conv in_bucket_def)
  show ?thesis
  proof (cases "?grp = []")
    case True
    with k have "(dev, b) \<notin> set ?keys" by blast
    from fold_upsert_other [OF this, of c logs ws now "\<lambda>dev b. filter (in_bucket c dev b) ?sel" tab] True
    show ?thesis unfolding rollup_from_def Let_def by simp
  next
    case False
    with k have "(dev, b) \<in> set ?keys" by blast
    from fold_upsert_in [OF distinct_remdups this, of c logs ws now "\<lambda>dev b. filter (in_bucket c dev b) ?sel" tab]
      False g
    show ?thesis unfolding rollup_from_def Let_def by simp
  qed
qed

lemma in_bucket_time:
  "0 < iv \<Longrightarrow> date_bin iv t = b \<Longrightarrow> b \<le> t \<and> t < b + iv"
proof -
  assume iv: "0 < iv" and b: "date_bin iv t = b"
  have "(t - EPOCH) div iv * iv + (t - EPOCH) mod iv = t - EPOCH" by simp
  moreover have "0 \<le> (t - EPOCH) mod iv" "(t - EPOCH) mod iv < iv" using iv by simp_all
  ultimately show ?thesis using b unfolding date_bin_def by linarith
qed

lemma in_bucketD: "0 < rc_bucket c \<Longrightarrow> in_bucket c dev b l \<Longrightarrow> b \<le> lg_time l \<and> lg_time l < b + rc_bucket c"
  unfolding in_bucket_def using in_bucket_time by blast

section \<open>Properties\<close>

text \<open>
  An exclusion pattern matches exactly the paths (or accounts) it says: \<open>*\<close> stands for any
  run of characters and every other character, also \<open>%\<close>, \<open>_\<close> and the backslash, for itself.
\<close>

theorem exclusion_pattern_is_glob: "like (escape_like pat) s = glob pat s"
  by (rule like_glob)

text \<open>
  C14: what a rollup does to every bucket of the table. A bucket without rows in the window keeps its
  metrics, so all buckets before the window do; any other gets the aggregates of exactly its
  rows in the window, which are all its rows when it begins in the window. (The one bucket that the
  start of the window cuts gets the aggregates of its later part: \<open>final_count_is_partial\<close>.) Doing
  it again changes no row.
\<close>

theorem rollup_exact:
  assumes "0 < rc_bucket c"
  shows "let grp = filter (in_bucket c dev b) logs; recent = filter (\<lambda>l. lg_time l \<ge> ws) grp;
        row = map_of (rollup_from c ws now logs tab) (dev, b) in
      row = (if recent = [] then map_of tab (dev, b) else Some (aggregate c logs ws now dev b recent))
      \<and> (if ws \<le> b then recent = grp else True)
      \<and> (if b + rc_bucket c \<le> ws then row = map_of tab (dev, b) else True)
    \<and> map_of (rollup_from c ws now logs (rollup_from c ws now logs tab)) k = map_of (rollup_from c ws now logs tab) k"
proof -
  let ?grp = "filter (in_bucket c dev b) logs"
  let ?recent = "filter (\<lambda>l. lg_time l \<ge> ws) ?grp"
  have grp: "filter (\<lambda>l. lg_time l \<ge> ws \<and> in_bucket c dev b l) logs = ?recent"
    by (auto simp: filter_filter intro: filter_cong)
  have row: "map_of (rollup_from c ws now logs tab) (dev, b)
      = (if ?recent = [] then map_of tab (dev, b) else Some (aggregate c logs ws now dev b ?recent))"
    by (simp add: rollup_row grp Let_def)
  moreover have "?recent = ?grp" if "ws \<le> b"
    using that by (intro filter_True) (auto dest: in_bucketD [OF assms])
  moreover have "?recent = []" if "b + rc_bucket c \<le> ws"
    using that by (auto simp: filter_empty_conv dest: in_bucketD [OF assms])
  moreover have "map_of (rollup_from c ws now logs (rollup_from c ws now logs tab)) k = map_of (rollup_from c ws now logs tab) k"
    by (cases k) (simp add: rollup_row Let_def)
  ultimately show ?thesis unfolding Let_def by (simp split: if_splits)
qed

definition sample_log :: "time \<Rightarrow> log" where
  "sample_log t = \<lparr>lg_device = 1, lg_time = t, lg_username = None, lg_action = ''upload'', lg_path = None,
     lg_size = 10, lg_secs = 1, lg_status = ''success''\<rparr>"

definition sample_rollup :: rollup_cfg where
  "sample_rollup = \<lparr>rc_bucket = minutes 5, rc_large = 5, rc_cwd_ignore = [], rc_xfer_ignore = []\<rparr>"

theorem rollup_exact_witness:
  "map_option m_transfers (map_of (rollup_from sample_rollup EPOCH (EPOCH + minutes 20)
     [sample_log (EPOCH + sec 10), sample_log (EPOCH + sec 20)] []) (1, EPOCH)) = Some 2"
proof -
  have "0 < rc_bucket sample_rollup" by (simp add: sample_rollup_def)
  from rollup_exact [OF this, of 1 EPOCH "[sample_log (EPOCH + sec 10), sample_log (EPOCH + sec 20)]" EPOCH "EPOCH + minutes 20" "[]" "(1, EPOCH)"]
  show ?thesis
    by (simp add: sample_rollup_def sample_log_def in_bucket_def date_bin_def EPOCH_def aggregate_def
        is_transfer_def Let_def)
qed

text \<open>
  The rollups of successive cycles: the window starts move on by one interval each.
\<close>

definition rollups :: "rollup_cfg \<Rightarrow> time \<Rightarrow> time \<Rightarrow> nat \<Rightarrow> log list \<Rightarrow> ((nat \<times> time), metrics) dict \<Rightarrow> ((nat \<times> time), metrics) dict" where
  "rollups c w0 step n logs tab =
     fold (\<lambda>j. rollup c (w0 + int j * step + sec 7200) logs) [0..<n] tab"

lemma rollups_Suc:
  "rollups c w0 step (Suc n) logs tab = rollup_from c (w0 + int n * step) (w0 + int n * step + sec 7200) logs (rollups c w0 step n logs tab)"
  by (simp add: rollups_def rollup_def)

text \<open>
  The rollup does not keep the full count of a bucket. The window start is not a bucket
  boundary, so on its way out of the window each bucket is once rolled up from its last part
  only, and that row stays: with cycles at the bucket length, the final transfer count of a
  bucket is the number of transfers after the window start that fell into it.
\<close>

theorem final_count_is_partial:
  assumes "0 < rc_bucket c" and "b < w0 + int k * rc_bucket c" and "w0 + int k * rc_bucket c < b + rc_bucket c"
    and "grp = filter (\<lambda>l. lg_time l \<ge> w0 + int k * rc_bucket c \<and> in_bucket c dev b l) logs" and "grp \<noteq> []"
  shows "map_option m_transfers (map_of (rollups c w0 (rc_bucket c) (Suc (k + n)) logs tab) (dev, b))
    = Some (length (filter is_transfer grp))"
proof (induction n)
  case 0
  have "map_of (rollups c w0 (rc_bucket c) (Suc k) logs tab) (dev, b)
      = Some (aggregate c logs (w0 + int k * rc_bucket c) (w0 + int k * rc_bucket c + sec 7200) dev b grp)"
    using assms(4,5) unfolding rollups_Suc rollup_row by (simp add: Let_def)
  then show ?case by (simp add: aggregate_def Let_def)
next
  case (Suc n)
  let ?ws = "w0 + int (Suc (k + n)) * rc_bucket c"
  have "0 \<le> int n * rc_bucket c" using assms(1) by simp
  then have late: "b + rc_bucket c \<le> ?ws" using assms(2) by (simp add: algebra_simps)
  have "filter (\<lambda>l. lg_time l \<ge> ?ws \<and> in_bucket c dev b l) logs = []"
    using late by (auto simp: filter_empty_conv dest: in_bucketD [OF assms(1)])
  then have "map_of (rollups c w0 (rc_bucket c) (Suc (Suc (k + n))) logs tab) (dev, b)
      = map_of (rollups c w0 (rc_bucket c) (Suc (k + n)) logs tab) (dev, b)"
    by (simp add: rollups_Suc [of c w0 "rc_bucket c" "Suc (k + n)"] rollup_row)
  with Suc show ?case by simp
qed

theorem final_count_is_partial_witness:
  "map_option m_transfers (map_of (rollups sample_rollup (EPOCH - minutes 4) (minutes 5) 9
     [sample_log (EPOCH + sec 10), sample_log (EPOCH + sec 20), sample_log (EPOCH + sec 200)] []) (1, EPOCH)) = Some 1"
proof -
  let ?l = "[sample_log (EPOCH + sec 10), sample_log (EPOCH + sec 20), sample_log (EPOCH + sec 200)]"
  let ?w = "EPOCH - minutes 4 + int 1 * rc_bucket sample_rollup"
  have g: "filter (\<lambda>l. lg_time l \<ge> ?w \<and> in_bucket sample_rollup 1 EPOCH l) ?l = [sample_log (EPOCH + sec 200)]"
    by (simp add: sample_rollup_def sample_log_def in_bucket_def date_bin_def EPOCH_def)
  have "0 < rc_bucket sample_rollup" "EPOCH < ?w" "?w < EPOCH + rc_bucket sample_rollup" "rc_bucket sample_rollup = minutes 5"
    by (simp_all add: sample_rollup_def)
  from final_count_is_partial [OF this(1-3) refl, of 1 ?l 7 "[]", unfolded g] this(4)
  show ?thesis by (simp add: is_transfer_def sample_log_def)
qed

end
