(* ===== verification/Scope.thy ===== *)
theory Scope
  imports Accounts
begin

text \<open>
  \<open>was/app/api_keys.py\<close>, \<open>routers/api_keys.py\<close> and \<open>deps.py\<close>: API keys, who a request comes
  from, and what that principal may see.

  SHA-256 and the decoding of a token (signature and expiry, by \<open>jose\<close>) are parameters; a
  random key is given by its random part. The table \<open>device_groups\<close> is a list of pairs of a
  group id and a device id.
\<close>

section \<open>API keys\<close>

definition KEY_PREFIX :: string where "KEY_PREFIX = ''slt_''"
definition DISPLAY_LEN :: nat where "DISPLAY_LEN = length KEY_PREFIX + 8"
definition TOUCH_INTERVAL :: time where "TOUCH_INTERVAL = minutes 1"

definition generate_key :: "string \<Rightarrow> string" where
  "generate_key secret = KEY_PREFIX @ secret"

definition prefix_of :: "string \<Rightarrow> string" where
  "prefix_of raw = take DISPLAY_LEN raw"

definition looks_like_key :: "string \<Rightarrow> bool" where
  "looks_like_key val = starts_with KEY_PREFIX val"

text \<open>\<open>create\<close>: the new row (with the id \<open>i\<close> of the sequence) and the key in plain text.\<close>

definition create_api_key ::
  "(string \<Rightarrow> string) \<Rightarrow> nat \<Rightarrow> string \<Rightarrow> nat option \<Rightarrow> string \<Rightarrow> time option \<Rightarrow> accounts \<Rightarrow> (api_key \<times> string) \<times> accounts" where
  "create_api_key sha i secret user label expires ac =
     (let raw = generate_key secret;
          row = \<lparr>ak_id = i, ak_user = user, ak_label = label, ak_prefix = prefix_of raw, ak_hash = sha raw,
                 ak_active = True, ak_expires = expires, ak_last_used = None\<rparr>
      in ((row, raw), ac\<lparr>ac_keys := ac_keys ac @ [row]\<rparr>))"

definition resolve :: "(string \<Rightarrow> string) \<Rightarrow> time \<Rightarrow> string \<Rightarrow> accounts \<Rightarrow> (api_key \<times> user option) option" where
  "resolve sha now raw ac =
     (case List.find (\<lambda>k. ak_hash k = sha raw) (ac_keys ac) of
        None \<Rightarrow> None
      | Some row \<Rightarrow>
          if \<not> ak_active row then None
          else if (case ak_expires row of None \<Rightarrow> False | Some t \<Rightarrow> t \<le> now) then None
          else (case ak_user row of
                  None \<Rightarrow> Some (row, None)
                | Some i \<Rightarrow> (case get_user_by_id i ac of
                      None \<Rightarrow> None
                    | Some u \<Rightarrow> if \<not> u_active u then None else Some (row, Some u))))"

definition put_key :: "api_key \<Rightarrow> accounts \<Rightarrow> accounts" where
  "put_key k ac = ac\<lparr>ac_keys := update_first (\<lambda>x. ak_id x = ak_id k) (\<lambda>_. k) (ac_keys ac)\<rparr>"

definition touch :: "time \<Rightarrow> api_key \<Rightarrow> accounts \<Rightarrow> accounts" where
  "touch now row ac =
     (if (case ak_last_used row of None \<Rightarrow> False | Some t \<Rightarrow> now - t < TOUCH_INTERVAL) then ac
      else put_key (row\<lparr>ak_last_used := Some now\<rparr>) ac)"

text \<open>The administration (\<open>routers/api_keys.py\<close>).\<close>

definition create_key ::
  "(string \<Rightarrow> string) \<Rightarrow> nat \<Rightarrow> string \<Rightarrow> nat option \<Rightarrow> string \<Rightarrow> time option \<Rightarrow> accounts \<Rightarrow> (api_key \<times> string) http \<times> accounts" where
  "create_key sha i secret user label expires ac =
     (if (case user of None \<Rightarrow> False | Some j \<Rightarrow> get_user_by_id j ac = None) then (no_account, ac)
      else (let (new, ac') = create_api_key sha i secret user (strip_input label) expires ac in (Inr new, ac')))"

definition get_key :: "nat \<Rightarrow> accounts \<Rightarrow> api_key option" where
  "get_key i ac = List.find (\<lambda>k. ak_id k = i) (ac_keys ac)"

definition set_key_status :: "nat \<Rightarrow> bool \<Rightarrow> accounts \<Rightarrow> api_key http \<times> accounts" where
  "set_key_status i active ac = (case get_key i ac of
       None \<Rightarrow> (Inl (HTTPException 404 ''no such key''), ac)
     | Some k \<Rightarrow> (let k' = k\<lparr>ak_active := active\<rparr> in (Inr k', put_key k' ac)))"

definition delete_key :: "nat \<Rightarrow> accounts \<Rightarrow> unit http \<times> accounts" where
  "delete_key i ac = (case get_key i ac of
       None \<Rightarrow> (Inl (HTTPException 404 ''no such key''), ac)
     | Some k \<Rightarrow> (Inr (), ac\<lparr>ac_keys := filter (\<lambda>x. ak_id x \<noteq> ak_id k) (ac_keys ac)\<rparr>))"

section \<open>Who sends a request\<close>

definition READ_METHODS :: "string list" where
  "READ_METHODS = [''GET'', ''HEAD'', ''OPTIONS'']"

definition upper :: "string \<Rightarrow> string" where
  "upper s = map (\<lambda>c. let n = (of_char c :: nat) in if 97 \<le> n \<and> n \<le> 122 then char_of (n - 32) else c) s"

definition unauthorized :: "string \<Rightarrow> 'a http" where
  "unauthorized tag = Inl (HTTPException 401 tag)"

definition principal_from_api_key ::
  "env \<Rightarrow> (string \<Rightarrow> string) \<Rightarrow> time \<Rightarrow> string \<Rightarrow> string \<Rightarrow> accounts \<Rightarrow> principal http \<times> accounts" where
  "principal_from_api_key env sha now raw meth ac =
     (case resolve sha now raw ac of
        None \<Rightarrow> (unauthorized ''invalid or expired API key'', ac)
      | Some (row, owner) \<Rightarrow>
          if \<not> List.member READ_METHODS (upper meth) then (Inl (HTTPException 403 ''read only''), ac)
          else (Inr (case owner of
                   None \<Rightarrow> \<lparr>pr_username = get_admin_username env ac, pr_role = ''admin'', pr_customer = None, pr_via_key = True\<rparr>
                 | Some u \<Rightarrow> \<lparr>pr_username = u_username u, pr_role = u_role u, pr_customer = u_customer u, pr_via_key = True\<rparr>),
                touch now row ac))"

text \<open>
  The request: the header \<open>X-API-Key\<close>, the bearer credentials and the method. \<open>dec now c\<close> is
  what \<open>jwt.decode\<close> returns for the token \<open>c\<close>, \<open>None\<close> when it raises.
\<close>

record http_request =
  rq_key :: "string option"
  rq_bearer :: "string option"
  rq_method :: string

definition api_key_of :: "http_request \<Rightarrow> string option" where
  "api_key_of rq =
     (if truthy (rq_key rq) then rq_key rq
      else (case rq_bearer rq of
              None \<Rightarrow> None
            | Some c \<Rightarrow> if looks_like_key c then Some c else None))"

definition principal_from_token :: "(time \<Rightarrow> string \<Rightarrow> claims option) \<Rightarrow> time \<Rightarrow> string \<Rightarrow> accounts \<Rightarrow> principal http" where
  "principal_from_token dec now cred ac =
     (case dec now cred of
        None \<Rightarrow> unauthorized ''invalid or expired token''
      | Some payload \<Rightarrow>
          if \<not> truthy (cl_sub payload) then unauthorized ''invalid token''
          else (let sub = the (cl_sub payload);
                    role = or_else (cl_role payload) (if sub = ''admin'' then ''admin'' else ''customer'')
                in (case get_user sub ac of
                      None \<Rightarrow> Inr \<lparr>pr_username = sub, pr_role = role, pr_customer = cl_customer payload, pr_via_key = False\<rparr>
                    | Some row \<Rightarrow>
                        if \<not> u_active row then unauthorized ''disabled account''
                        else Inr \<lparr>pr_username = sub, pr_role = u_role row, pr_customer = u_customer row, pr_via_key = False\<rparr>)))"

definition get_current_user ::
  "env \<Rightarrow> (string \<Rightarrow> string) \<Rightarrow> (time \<Rightarrow> string \<Rightarrow> claims option) \<Rightarrow> time \<Rightarrow> http_request \<Rightarrow> accounts \<Rightarrow> principal http \<times> accounts" where
  "get_current_user env sha dec now rq ac =
     (case api_key_of rq of
        Some raw \<Rightarrow> principal_from_api_key env sha now (strip raw) (rq_method rq) ac
      | None \<Rightarrow>
          (case rq_bearer rq of
             None \<Rightarrow> (unauthorized ''not authenticated'', ac)
           | Some cred \<Rightarrow> (principal_from_token dec now cred ac, ac)))"

definition is_admin :: "principal \<Rightarrow> bool" where
  "is_admin p = (pr_role p = ''admin'')"

definition require_admin :: "principal http \<Rightarrow> principal http" where
  "require_admin p = and_then p (\<lambda>u. if \<not> is_admin u then Inl (HTTPException 403 ''Forbidden'') else Inr u)"

text \<open>\<open>POST /auth/refresh\<close>: a new token with the principal's own data.\<close>

definition refresh_token :: "env \<Rightarrow> time \<Rightarrow> principal \<Rightarrow> claims" where
  "refresh_token env now p = create_access_token env now (pr_username p) (pr_role p) (pr_customer p)"

section \<open>What a principal sees\<close>

text \<open>\<open>g.customer = u.customer\<close> does not hold when one of the two is \<open>NULL\<close>.\<close>

definition mapped_groups :: "user \<Rightarrow> accounts \<Rightarrow> (ftp_row \<times> group) list" where
  "mapped_groups u ac =
     [(r, g). r \<leftarrow> ac_ftp ac, fr_user r = u_id u,
              g \<leftarrow> ac_groups ac, gr_id g = fr_group r \<and> gr_customer g \<noteq> None \<and> gr_customer g = u_customer u]"

definition device_scope :: "(nat \<times> nat) list \<Rightarrow> principal \<Rightarrow> accounts \<Rightarrow> nat list option" where
  "device_scope dgs p ac =
     (if is_admin p then None
      else Some (remdups [d. u \<leftarrow> ac_users ac, u_username u = pr_username p \<and> u_customer u = Some (or_else (pr_customer p) []),
                             (r, g) \<leftarrow> mapped_groups u ac, (gid, d) \<leftarrow> dgs, gid = fr_group r]))"

definition ftp_scope :: "principal \<Rightarrow> string option" where
  "ftp_scope p = (if is_admin p then None else Some (pr_username p))"

text \<open>The condition of \<open>ftp_scope_sql\<close> on a row of the log with the given device and user.\<close>

definition ftp_scope_ok :: "(nat \<times> nat) list \<Rightarrow> string option \<Rightarrow> accounts \<Rightarrow> nat \<Rightarrow> string option \<Rightarrow> bool" where
  "ftp_scope_ok dgs scope_user ac dev ftp_user =
     (case scope_user of
        None \<Rightarrow> True
      | Some name \<Rightarrow>
          list_ex (\<lambda>u. u_username u = name \<and> list_ex (\<lambda>(r, g). ftp_user = Some (fr_name r)
                \<and> List.member dgs (fr_group r, dev)) (mapped_groups u ac)) (ac_users ac))"

section \<open>Keys and tokens\<close>

lemma touch_users [simp]: "ac_users (touch now k ac) = ac_users ac" "ac_ftp (touch now k ac) = ac_ftp ac"
  "ac_groups (touch now k ac) = ac_groups ac" "ac_config (touch now k ac) = ac_config ac"
  by (simp_all add: touch_def put_key_def)

lemma resolve_Some:
  assumes "resolve sha now raw ac = Some (k, owner)"
  shows "k \<in> set (ac_keys ac) \<and> ak_hash k = sha raw \<and> ak_active k
    \<and> (case ak_expires k of None \<Rightarrow> True | Some t \<Rightarrow> now < t)
    \<and> (case owner of None \<Rightarrow> ak_user k = None
       | Some u \<Rightarrow> ak_user k = Some (u_id u) \<and> u \<in> set (ac_users ac) \<and> u_active u)"
proof -
  obtain row where "List.find (\<lambda>k. ak_hash k = sha raw) (ac_keys ac) = Some row"
    using assms by (auto simp: resolve_def split: option.splits)
  note row = this find_Some_iff_mem [OF this]
  show ?thesis
  proof (cases "ak_user row")
    case None
    then show ?thesis using assms row by (auto simp: resolve_def split: option.splits if_splits)
  next
    case (Some i)
    then obtain u where u: "get_user_by_id i ac = Some u"
      using assms row by (auto simp: resolve_def split: option.splits if_splits)
    then have "owner = Some u \<and> u_active u" "row = k" "ak_active k" "case ak_expires k of None \<Rightarrow> True | Some t \<Rightarrow> now < t"
      using assms row Some by (auto simp: resolve_def split: option.splits if_splits)
    then show ?thesis using row Some get_user_by_id_Some [OF u] by simp
  qed
qed

lemma not_via_token: "principal_from_token dec now c ac = Inr p \<Longrightarrow> \<not> pr_via_key p"
  by (auto simp: principal_from_token_def unauthorized_def Let_def split: option.splits if_splits)

text \<open>
  C7: a request that comes in with an API key can only read. Its key is in the table, enabled
  and not expired, it has exactly the rights of its owner, who is active, and the request
  changes nothing but the time of the last use.
\<close>

theorem api_key_reads_only:
  assumes "get_current_user env sha dec now rq ac = (Inr p, ac')" and "pr_via_key p"
  shows "List.member [''GET'', ''HEAD'', ''OPTIONS''] (upper (rq_method rq))
    \<and> ac_users ac' = ac_users ac \<and> ac_ftp ac' = ac_ftp ac
    \<and> (\<exists>k \<in> set (ac_keys ac). \<exists>raw. api_key_of rq = Some raw \<and> ak_hash k = sha (strip raw) \<and> ak_active k
       \<and> (case ak_expires k of None \<Rightarrow> True | Some t \<Rightarrow> now < t)
       \<and> (case ak_user k of None \<Rightarrow> pr_role p = ''admin''
          | Some i \<Rightarrow> \<exists>u \<in> set (ac_users ac). u_id u = i \<and> u_active u \<and> pr_username p = u_username u
              \<and> pr_role p = u_role u \<and> pr_customer p = u_customer u))"
proof -
  obtain raw where raw: "api_key_of rq = Some raw"
    using assms not_via_token by (auto simp: get_current_user_def unauthorized_def split: option.splits)
  then have r: "principal_from_api_key env sha now (strip raw) (rq_method rq) ac = (Inr p, ac')"
    using assms(1) by (simp add: get_current_user_def)
  then obtain k owner where k: "resolve sha now (strip raw) ac = Some (k, owner)"
    by (auto simp: principal_from_api_key_def unauthorized_def split: option.splits)
  note facts = resolve_Some [OF k]
  have "List.member READ_METHODS (upper (rq_method rq))" "ac' = touch now k ac"
    "p = (case owner of
                   None \<Rightarrow> \<lparr>pr_username = get_admin_username env ac, pr_role = ''admin'', pr_customer = None, pr_via_key = True\<rparr>
                 | Some u \<Rightarrow> \<lparr>pr_username = u_username u, pr_role = u_role u, pr_customer = u_customer u, pr_via_key = True\<rparr>)"
    using r k by (auto simp: principal_from_api_key_def split: if_splits)
  then show ?thesis using facts raw
    by (intro conjI bexI [of _ k] exI [of _ raw]) (auto simp: READ_METHODS_def split: option.splits)
qed

lemma find_append_new: "\<forall>x \<in> set xs. \<not> P x \<Longrightarrow> List.find P (xs @ ys) = List.find P ys"
  by (induction xs) auto

lemma update_first_append_new: "\<forall>x \<in> set xs. \<not> P x \<Longrightarrow> update_first P f (xs @ ys) = xs @ update_first P f ys"
  by (induction xs) auto

text \<open>
  An issued key works from then on, and stops working when it expires, is disabled or
  deleted, and when the account it belongs to is deleted.
\<close>

theorem issued_key_life:
  assumes "\<forall>k \<in> set (ac_keys ac). ak_hash k \<noteq> sha (generate_key secret) \<and> ak_id k \<noteq> i"
    and "create_key sha i secret user label expires ac = (Inr (row, raw), ac')"
    and "case user of None \<Rightarrow> True | Some j \<Rightarrow> (case get_user_by_id j ac of None \<Rightarrow> False | Some u \<Rightarrow> u_active u)"
  shows "map_option fst (resolve sha now raw ac') =
      (if case expires of None \<Rightarrow> True | Some t \<Rightarrow> now < t then Some row else None)
    \<and> resolve sha now raw (snd (set_key_status i False ac')) = None
    \<and> resolve sha now raw (snd (delete_key i ac')) = None
    \<and> (case user of None \<Rightarrow> True | Some j \<Rightarrow> resolve sha now raw (committed (delete_user me j ac') ac') = None
        \<or> delete_user me j ac' = bad_request ''not oneself'' \<or> delete_user me j ac' = bad_request ''last active administrator'')"
proof -
  have row: "row = \<lparr>ak_id = i, ak_user = user, ak_label = strip_input label, ak_prefix = prefix_of raw, ak_hash = sha raw,
                 ak_active = True, ak_expires = expires, ak_last_used = None\<rparr>"
    and raw: "raw = generate_key secret" and ac': "ac' = ac\<lparr>ac_keys := ac_keys ac @ [row]\<rparr>"
    using assms(2) by (auto simp: create_key_def create_api_key_def no_account_def Let_def split: if_splits)
  have new: "\<forall>k \<in> set (ac_keys ac). \<not> ak_hash k = sha raw" "\<forall>k \<in> set (ac_keys ac). \<not> ak_id k = i"
    using assms(1) raw by auto
  have same: "get_user_by_id j ac' = get_user_by_id j ac" for j by (simp add: get_user_by_id_def ac')
  have 1: "map_option fst (resolve sha now raw ac') =
      (if case expires of None \<Rightarrow> True | Some t \<Rightarrow> now < t then Some row else None)"
    using assms(3) same by (auto simp: resolve_def ac' find_append_new [OF new(1)] row get_user_by_id_def
        split: option.splits)
  have key: "get_key i ac' = Some row" by (simp add: get_key_def ac' find_append_new [OF new(2)] row)
  have 2: "resolve sha now raw (snd (set_key_status i False ac')) = None"
    unfolding set_key_status_def key option.case Let_def
    by (simp add: put_key_def resolve_def ac' update_first_append_new [OF new(2)] find_append_new [OF new(1)] row)
  have none: "List.find (\<lambda>k. ak_hash k = sha raw) (filter Q (ac_keys ac)) = None" for Q
    using new(1) by (simp add: find_None_iff_all)
  have 3: "resolve sha now raw (snd (delete_key i ac')) = None"
    unfolding delete_key_def key option.case using none by (simp add: resolve_def ac' row)
  have 4: "resolve sha now raw (committed (delete_user me j ac') ac') = None
        \<or> delete_user me j ac' = bad_request ''not oneself'' \<or> delete_user me j ac' = bad_request ''last active administrator''"
    if uj: "user = Some j" for j
  proof -
    obtain u where u: "get_user_by_id j ac = Some u" using assms(3) uj by (auto split: option.splits)
    have "u_id u = j" using get_user_by_id_Some [OF u] by simp
    then show ?thesis using u same none uj
      by (auto simp: delete_user_def assert_can_disable_def bad_request_def committed_def resolve_def ac' row
          split: if_splits)
  qed
  show ?thesis using 1 2 3 4 by (auto split: option.split)
qed

definition switch_off :: user_update where
  "switch_off = \<lparr>uu_password = None, uu_customer = None, uu_allowed_ips = None, uu_note = None,
     uu_active = Some False, uu_ftp = None\<rparr>"

lemma switched_off:
  assumes "accounts_ok ac" and "get_user_by_id i ac = Some u" and "update_user env salt me i switch_off ac = Inr ac'"
  shows "get_user (u_username u) ac' = Some (u\<lparr>u_active := False\<rparr>)"
proof -
  have u: "u \<in> set (ac_users ac)" using get_user_by_id_Some [OF assms(2)] by simp
  have "ac' = put_user (u\<lparr>u_active := False\<rparr>) ac"
    using assms(2,3) by (auto simp: update_user_def switch_off_def update_password_def update_customer_def
        update_ips_def update_note_def update_active_def and_then_Inr)
  then show ?thesis using get_put [OF assms(1) get_user_mem [OF assms(1) u], of "u\<lparr>u_active := False\<rparr>"] by simp
qed

lemma deleted_gone:
  assumes "accounts_ok ac" and "get_user_by_id i ac = Some u" and "delete_user me i ac = Inr ac'"
  shows "get_user (u_username u) ac' = None"
proof -
  have u: "u \<in> set (ac_users ac)" using get_user_by_id_Some [OF assms(2)] by simp
  have "ac_users ac' = filter (\<lambda>x. u_id x \<noteq> u_id u) (ac_users ac)"
    using assms(2,3) by (auto simp: delete_user_def and_then_Inr)
  then show ?thesis using same_name [OF assms(1) u] by (auto simp: get_user_def find_None_iff_all)
qed

text \<open>
  Switching an account off refuses its tokens at once, but deleting it does not. The token
  of a deleted administrator is accepted until it expires, still as an administrator, and can be
  exchanged for a new one each time before it does.
\<close>

theorem deleted_admin_keeps_access:
  assumes "accounts_ok ac" and "get_user_by_id i ac = Some u" and "u_username u \<noteq> []"
    and "dec now tok = Some (create_access_token env issued (u_username u) ''admin'' None)"
    and "delete_user me i ac = Inr gone" and "update_user env salt me i switch_off ac = Inr off"
  shows "principal_from_token dec now tok off = unauthorized ''disabled account''
    \<and> (\<exists>p. require_admin (principal_from_token dec now tok gone) = Inr p \<and> get_user (pr_username p) gone = None
       \<and> refresh_token env now p = create_access_token env now (u_username u) ''admin'' None)"
proof
  show "principal_from_token dec now tok off = unauthorized ''disabled account''"
    using switched_off [OF assms(1,2,6)] assms(3,4)
    by (simp add: principal_from_token_def create_access_token_def)
  show "\<exists>p. require_admin (principal_from_token dec now tok gone) = Inr p \<and> get_user (pr_username p) gone = None
       \<and> refresh_token env now p = create_access_token env now (u_username u) ''admin'' None"
    using deleted_gone [OF assms(1,2,5)] assms(3,4)
    by (simp add: principal_from_token_def create_access_token_def require_admin_def is_admin_def refresh_token_def)
qed

definition root :: principal where
  "root = \<lparr>pr_username = ''root'', pr_role = ''admin'', pr_customer = None, pr_via_key = False\<rparr>"

definition two_admins :: accounts where
  "two_admins = sample_accounts\<lparr>ac_users := ac_users sample_accounts @ [sample_row 3 ''ops'' ''admin'' None], ac_next := 4\<rparr>"

lemma two_admins_ok: "accounts_ok two_admins"
  by (simp add: accounts_ok_def two_admins_def sample_accounts_def sample_row_def)

theorem deleted_admin_keeps_access_witness:
  "\<exists>p. require_admin (principal_from_token (\<lambda>now c. Some (create_access_token sample_env 0 ''ops'' ''admin'' None)) 1 ''t''
      (committed (delete_user root 3 two_admins) two_admins)) = Inr p"
proof -
  have u: "get_user_by_id 3 two_admins = Some (sample_row 3 ''ops'' ''admin'' None)"
    by (simp add: get_user_by_id_def two_admins_def sample_accounts_def sample_row_def)
  have can: "assert_can_disable (sample_row 3 ''ops'' ''admin'' None) root two_admins = Inr ()"
    by (simp add: assert_can_disable_def root_def other_admins_def two_admins_def sample_accounts_def sample_row_def)
  obtain gone where gone: "delete_user root 3 two_admins = Inr gone" using u can by (simp add: delete_user_def)
  obtain off where off: "update_user sample_env [] root 3 switch_off two_admins = Inr off"
    using u can by (simp add: update_user_def switch_off_def update_password_def update_customer_def
        update_ips_def update_note_def update_active_def)
  have "\<exists>p. require_admin (principal_from_token (\<lambda>now c. Some (create_access_token sample_env 0 ''ops'' ''admin'' None)) 1 ''t'' gone) = Inr p"
    using deleted_admin_keeps_access [OF two_admins_ok u _ _ gone off, of "\<lambda>now c. Some (create_access_token sample_env 0 ''ops'' ''admin'' None)" 1 "''t''" 0]
    by (auto simp: sample_row_def)
  then show ?thesis by (simp add: gone committed_def)
qed

theorem api_key_reads_only_witness:
  "let key = ''slt_abc''; ac = snd (create_key id 1 ''abc'' (Some 2) ''k'' None two_admins);
       (p, ac') = get_current_user sample_env id (\<lambda>now c. None) 5 \<lparr>rq_key = None, rq_bearer = Some key, rq_method = ''get''\<rparr> ac
   in (\<exists>q. p = Inr q) \<and> ac_users ac' = ac_users ac"
proof -
  let ?ac = "snd (create_key id 1 ''abc'' (Some 2) ''k'' None two_admins)"
  let ?rq = "\<lparr>rq_key = None, rq_bearer = Some ''slt_abc'', rq_method = ''get''\<rparr>"
  have up: "upper ''get'' = ''GET''" by code_simp
  have ex: "\<exists>q ac'. get_current_user sample_env id (\<lambda>now c. None) 5 ?rq ?ac = (Inr q, ac') \<and> pr_via_key q"
    by (simp add: get_current_user_def api_key_of_def looks_like_key_def starts_with_def KEY_PREFIX_def strip_def
        lstrip_def is_space_def Let_def principal_from_api_key_def resolve_def create_key_def create_api_key_def
        generate_key_def get_user_by_id_def two_admins_def sample_accounts_def sample_row_def up READ_METHODS_def)
  then obtain q ac' where q: "get_current_user sample_env id (\<lambda>now c. None) 5 ?rq ?ac = (Inr q, ac')" "pr_via_key q" by blast
  show ?thesis using api_key_reads_only [OF q] q(1) by simp
qed

theorem issued_key_life_witness:
  "resolve id 9 ''slt_abc'' (snd (set_key_status 1 False (snd (create_key id 1 ''abc'' (Some 2) ''k'' (Some 5) two_admins)))) = None"
proof -
  have u: "get_user_by_id 2 two_admins = Some (sample_row 2 ''kim'' ''customer'' (Some ''acme''))"
    by (simp add: get_user_by_id_def two_admins_def sample_accounts_def sample_row_def)
  obtain row ac' where c: "create_key id 1 ''abc'' (Some 2) ''k'' (Some 5) two_admins = (Inr (row, ''slt_abc''), ac')"
    using u by (simp add: create_key_def create_api_key_def generate_key_def KEY_PREFIX_def Let_def)
  have "\<forall>k \<in> set (ac_keys two_admins). ak_hash k \<noteq> id (generate_key ''abc'') \<and> ak_id k \<noteq> 1"
    by (simp add: two_admins_def sample_accounts_def)
  from issued_key_life [OF this c, of 9 root] u c show ?thesis by (simp add: sample_row_def)
qed
end
