(* ===== verification/Queries.thy ===== *)
theory Queries
  imports Scope Rollup "HOL-Library.Char_ord" "HOL-Library.List_Lexorder"
begin

text \<open>
  \<open>was/app/routers/logs.py\<close> (the filters and the three queries on the log) and the summary
  \<open>get_dashboard\<close> of \<open>routers/dashboard.py\<close>, with the isolation of customer accounts.

  A query is a function on the list of rows. \<open>ORDER BY\<close> is a stable sort, while the database
  may put rows of equal keys in any order. Case folding of \<open>ILIKE\<close> is that of ASCII, days are
  UTC days, given by their number.
\<close>

section \<open>Filters\<close>

record log_item =
  li_id :: nat
  li_ip :: "string option"
  li_log :: log

record filters =
  f_device :: "nat option"
  f_group :: "nat option"
  f_customer :: "string option"
  f_username :: "string option"
  f_usernames :: "string list"
  f_ip :: "string option"
  f_path :: "string option"
  f_action :: "string option"
  f_exclude :: "string option"
  f_status :: "string option"
  f_start :: "time option"
  f_end :: "time option"

definition DEFAULT_RANGE_DAYS :: int where "DEFAULT_RANGE_DAYS = 90"

abbreviation days :: "int \<Rightarrow> time" where
  "days n \<equiv> sec (86400 * n)"

text \<open>\<open>LogFilters.__init__\<close>: \<open>usernames\<close> is the raw parameter, \<open>f\<close> holds the others as given.\<close>

definition init_filters :: "time \<Rightarrow> string option \<Rightarrow> filters \<Rightarrow> filters" where
  "init_filters now usernames f =
     f\<lparr>f_start := (if f_start f = None \<and> f_end f = None then Some (now - days DEFAULT_RANGE_DAYS) else f_start f),
       f_usernames := filter (\<lambda>u. strip u \<noteq> []) (split_on (CHR '','') (or_else usernames []))\<rparr>"

text \<open>\<open>column.ilike(f"%{x}%")\<close>; \<open>NULL\<close> does not match.\<close>

definition ilike :: "string option \<Rightarrow> string \<Rightarrow> bool" where
  "ilike col x = (case col of None \<Rightarrow> False | Some s \<Rightarrow> like (map to_lower (''%'' @ x @ ''%'')) (map to_lower s))"

definition given :: "nat option \<Rightarrow> bool" where
  "given x = (case x of None \<Rightarrow> False | Some n \<Rightarrow> n \<noteq> 0)"

type_synonym device_groups = "(nat \<times> nat) list"

definition group_members :: "device_groups \<Rightarrow> nat \<Rightarrow> nat list" where
  "group_members dgs g = [d. (gid, d) \<leftarrow> dgs, gid = g]"

definition customer_members :: "device_groups \<Rightarrow> accounts \<Rightarrow> string \<Rightarrow> nat list" where
  "customer_members dgs ac c = [d. g \<leftarrow> ac_groups ac, gr_customer g = Some c, (gid, d) \<leftarrow> dgs, gid = gr_id g]"

text \<open>\<open>_hide_cwd_probes\<close>.\<close>

definition hide_cwd_probes :: "time \<Rightarrow> filters \<Rightarrow> log list \<Rightarrow> log \<Rightarrow> bool" where
  "hide_cwd_probes now f logs x =
     (let until = (case f_end f of Some t \<Rightarrow> t | None \<Rightarrow> now);
          since = (case f_start f of Some t \<Rightarrow> t | None \<Rightarrow> until - days DEFAULT_RANGE_DAYS)
      in lg_action x \<noteq> ''cwd_fail'' \<or> \<not> cwd_probe logs since until x)"

text \<open>The user's own conditions, without the isolation.\<close>

definition matches :: "device_groups \<Rightarrow> accounts \<Rightarrow> time \<Rightarrow> filters \<Rightarrow> log list \<Rightarrow> log_item \<Rightarrow> bool" where
  "matches dgs ac now f logs r =
     (let x = li_log r in
      (given (f_device f) \<longrightarrow> lg_device x = the (f_device f))
    \<and> (given (f_group f) \<longrightarrow> List.member (group_members dgs (the (f_group f))) (lg_device x))
    \<and> (truthy (f_customer f) \<longrightarrow> List.member (customer_members dgs ac (the (f_customer f))) (lg_device x))
    \<and> (f_usernames f \<noteq> [] \<longrightarrow> (case lg_username x of None \<Rightarrow> False | Some u \<Rightarrow> List.member (map strip (f_usernames f)) u))
    \<and> (truthy (f_username f) \<longrightarrow> ilike (lg_username x) (the (f_username f)))
    \<and> (truthy (f_ip f) \<longrightarrow> ilike (li_ip r) (the (f_ip f)))
    \<and> (truthy (f_path f) \<longrightarrow> ilike (lg_path x) (the (f_path f)))
    \<and> (if truthy (f_action f) then lg_action x = the (f_action f)
       else truthy (f_exclude f) \<longrightarrow> \<not> List.member (split_on (CHR '','') (the (f_exclude f))) (lg_action x))
    \<and> (truthy (f_status f) \<longrightarrow> lg_status x = the (f_status f))
    \<and> (case f_start f of None \<Rightarrow> True | Some t \<Rightarrow> t \<le> lg_time x)
    \<and> (case f_end f of None \<Rightarrow> True | Some t \<Rightarrow> lg_time x \<le> t)
    \<and> hide_cwd_probes now f logs x)"

definition isolated :: "device_groups \<Rightarrow> accounts \<Rightarrow> nat list option \<Rightarrow> string option \<Rightarrow> log \<Rightarrow> bool" where
  "isolated dgs ac allowed_ids scope_user x =
     ((case allowed_ids of None \<Rightarrow> True | Some ids \<Rightarrow> List.member ids (lg_device x))
      \<and> ftp_scope_ok dgs scope_user ac (lg_device x) (lg_username x))"

definition apply_filters ::
  "device_groups \<Rightarrow> accounts \<Rightarrow> time \<Rightarrow> principal \<Rightarrow> filters \<Rightarrow> log_item list \<Rightarrow> log_item list" where
  "apply_filters dgs ac now p f rows =
     filter (\<lambda>r. isolated dgs ac (device_scope dgs p ac) (ftp_scope p) (li_log r)
               \<and> matches dgs ac now f (map li_log rows) r) rows"

section \<open>The queries\<close>

definition newest_first :: "log_item list \<Rightarrow> log_item list" where
  "newest_first rows = sort_key (\<lambda>r. - lg_time (li_log r)) rows"

definition query_logs ::
  "device_groups \<Rightarrow> accounts \<Rightarrow> nat list \<Rightarrow> time \<Rightarrow> principal \<Rightarrow> filters \<Rightarrow> nat \<Rightarrow> nat \<Rightarrow> log_item list \<Rightarrow> log_item list" where
  "query_logs dgs ac devs now p f page per_page rows =
     take per_page (drop ((page - 1) * per_page)
       (newest_first (filter (\<lambda>r. List.member devs (lg_device (li_log r))) (apply_filters dgs ac now p f rows))))"

definition count_logs :: "device_groups \<Rightarrow> accounts \<Rightarrow> time \<Rightarrow> principal \<Rightarrow> filters \<Rightarrow> log_item list \<Rightarrow> nat" where
  "count_logs dgs ac now p f rows = length (apply_filters dgs ac now p f rows)"

definition list_usernames ::
  "device_groups \<Rightarrow> accounts \<Rightarrow> time \<Rightarrow> principal \<Rightarrow> filters \<Rightarrow> nat \<Rightarrow> log_item list \<Rightarrow> string list" where
  "list_usernames dgs ac now p f limit rows =
     take limit (sort (remdups (List.map_filter (\<lambda>r. lg_username (li_log r)) (apply_filters dgs ac now p f rows))))"

section \<open>The dashboard\<close>

record top_item =
  tp_label :: string
  tp_customer :: "string option"
  tp_count :: nat
  tp_bytes :: nat

record day_point =
  dp_day :: int
  dp_uploads :: nat
  dp_downloads :: nat
  dp_deletes :: nat
  dp_in :: nat
  dp_out :: nat

record dashboard =
  db_uploads :: nat
  db_downloads :: nat
  db_deletes :: nat
  db_in :: nat
  db_out :: nat
  db_devices :: nat
  db_users :: nat
  db_period_days :: int
  db_series :: "day_point list"
  db_top_users :: "top_item list"
  db_top_devices :: "top_item list"
  db_top_groups :: "top_item list"
  db_by_action :: "(string, nat) dict"

definition actions :: "string \<Rightarrow> log list \<Rightarrow> nat" where
  "actions a rows = length (filter (\<lambda>x. lg_action x = a) rows)"

definition bytes_of :: "string \<Rightarrow> log list \<Rightarrow> nat" where
  "bytes_of a rows = sum_list (map lg_size (filter (\<lambda>x. lg_action x = a) rows))"

text \<open>\<open>GROUP BY key\<close>; the rows of a group keep their order.\<close>

definition group_by :: "('a \<Rightarrow> 'k) \<Rightarrow> 'a list \<Rightarrow> ('k \<times> 'a list) list" where
  "group_by key rows = map (\<lambda>k. (k, filter (\<lambda>x. key x = k) rows)) (remdups (map key rows))"

definition day_of :: "time \<Rightarrow> int" where
  "day_of t = t div days 1"

definition day_point :: "int \<times> log list \<Rightarrow> day_point" where
  "day_point = (\<lambda>(d, rows). \<lparr>dp_day = d, dp_uploads = actions ''upload'' rows, dp_downloads = actions ''download'' rows,
     dp_deletes = actions ''delete'' rows, dp_in = bytes_of ''upload'' rows, dp_out = bytes_of ''download'' rows\<rparr>)"

definition top_item :: "string \<Rightarrow> string option \<Rightarrow> log list \<Rightarrow> top_item" where
  "top_item label customer rows =
     \<lparr>tp_label = label, tp_customer = customer, tp_count = length rows, tp_bytes = sum_list (map lg_size rows)\<rparr>"

definition top10 :: "(string \<times> log list) list \<Rightarrow> top_item list" where
  "top10 gs = take 10 (sort_key (\<lambda>t. - int (tp_count t)) (map (\<lambda>(l, rows). top_item l None rows) gs))"

text \<open>The rows joined with the groups of their device, counted per group name and customer.\<close>

definition top_groups :: "device_groups \<Rightarrow> accounts \<Rightarrow> log list \<Rightarrow> top_item list" where
  "top_groups dgs ac hosted =
     (let joined = [((gr_name g, gr_customer g), x). x \<leftarrow> hosted, (gid, d) \<leftarrow> dgs, d = lg_device x,
                      g \<leftarrow> ac_groups ac, gr_id g = gid]
      in take 10 (sort_key (\<lambda>t. - int (tp_bytes t))
           (map (\<lambda>((n, c), ps). top_item n c (map snd ps)) (group_by fst joined))))"

text \<open>\<open>_time_range\<close>: the explicit interval, or the last \<open>delta\<close>.\<close>

definition time_range :: "time option \<Rightarrow> time option \<Rightarrow> time \<Rightarrow> time \<Rightarrow> time \<times> time" where
  "time_range start_date end_date delta now =
     (case (start_date, end_date) of (Some s, Some e) \<Rightarrow> (s, e) | _ \<Rightarrow> (now - delta, now))"

text \<open>The rows the dashboard counts: only the device scope restricts them.\<close>

definition dashboard_rows ::
  "device_groups \<Rightarrow> accounts \<Rightarrow> principal \<Rightarrow> time \<Rightarrow> time \<Rightarrow> nat option \<Rightarrow> log list \<Rightarrow> log list" where
  "dashboard_rows dgs ac p since until device rows =
     filter (\<lambda>x. since \<le> lg_time x \<and> lg_time x \<le> until
       \<and> (case device_scope dgs p ac of None \<Rightarrow> True | Some ids \<Rightarrow> List.member ids (lg_device x))
       \<and> (given device \<longrightarrow> lg_device x = the device)) rows"

definition get_dashboard ::
  "device_groups \<Rightarrow> accounts \<Rightarrow> (nat, string) dict \<Rightarrow> principal \<Rightarrow> time \<Rightarrow> time \<Rightarrow> nat option \<Rightarrow> log list \<Rightarrow> dashboard" where
  "get_dashboard dgs ac hosts p since until device rows =
     (let base = dashboard_rows dgs ac p since until device rows;
          named = filter (\<lambda>x. lg_username x \<noteq> None) base;
          hosted = filter (\<lambda>x. map_of hosts (lg_device x) \<noteq> None) base
      in \<lparr>db_uploads = actions ''upload'' base, db_downloads = actions ''download'' base,
          db_deletes = actions ''delete'' base, db_in = bytes_of ''upload'' base, db_out = bytes_of ''download'' base,
          db_devices = length (remdups (map lg_device base)),
          db_users = length (remdups (map lg_username named)),
          db_period_days = (let n = (until - since) div days 1 in max 1 (if n = 0 then 1 else n)),
          db_series = sort_key dp_day (map day_point (group_by (\<lambda>x. day_of (lg_time x)) base)),
          db_top_users = top10 (group_by (\<lambda>x. the (lg_username x)) named),
          db_top_devices = top10 (group_by (\<lambda>x. the (map_of hosts (lg_device x))) hosted),
          db_top_groups = top_groups dgs ac hosted,
          db_by_action = map (\<lambda>(a, rs). (a, length rs)) (group_by lg_action base)\<rparr>)"

section \<open>Pages\<close>

lemma pages_take:
  "concat (map (\<lambda>k. take n (drop (k * n) xs)) [0..<m]) = take (m * n) xs"
proof (induction m)
  case (Suc m)
  then show ?case using take_add [of "m * n" n xs] by (simp add: add.commute)
qed simp

lemma newest_first_facts: "mset (newest_first rows) = mset rows" "length (newest_first rows) = length rows"
  "sorted (map (\<lambda>r. - lg_time (li_log r)) (newest_first rows))"
  by (simp_all add: newest_first_def)

text \<open>
  Paging through the log gives the selected rows newest first. The first \<open>m\<close> pages together
  hold as many rows as the count says and as fit on them, and all of them once they fit.
\<close>

theorem pages_hold_the_rows:
  assumes "\<forall>r \<in> set rows. lg_device (li_log r) \<in> set devs"
  shows "let pages = concat (map (\<lambda>k. query_logs dgs ac devs now p f (Suc k) n rows) [0..<m]) in
    length pages = min (m * n) (count_logs dgs ac now p f rows)
    \<and> sorted (map (\<lambda>r. - lg_time (li_log r)) pages)
    \<and> (if count_logs dgs ac now p f rows \<le> m * n then mset pages = mset (apply_filters dgs ac now p f rows) else True)"
proof -
  let ?A = "apply_filters dgs ac now p f rows"
  have all: "filter (\<lambda>r. List.member devs (lg_device (li_log r))) ?A = ?A"
    by (rule filter_True) (use assms in \<open>auto simp: apply_filters_def\<close>)
  have pages: "concat (map (\<lambda>k. query_logs dgs ac devs now p f (Suc k) n rows) [0..<m]) = take (m * n) (newest_first ?A)"
    unfolding query_logs_def all by (simp add: pages_take)
  show ?thesis unfolding pages Let_def using newest_first_facts [of ?A]
    by (auto simp: count_logs_def min_def take_map [symmetric] sorted_wrt_take)
qed

section \<open>Isolation\<close>

lemma mapped_groups_mem:
  "(r, g) \<in> set (mapped_groups u ac) \<longleftrightarrow> r \<in> set (ac_ftp ac) \<and> fr_user r = u_id u \<and> g \<in> set (ac_groups ac)
     \<and> gr_id g = fr_group r \<and> gr_customer g \<noteq> None \<and> gr_customer g = u_customer u"
  by (auto simp: mapped_groups_def)

text \<open>A mapping of the account that names the device and the FTP user.\<close>

definition mapped :: "device_groups \<Rightarrow> accounts \<Rightarrow> user \<Rightarrow> nat \<Rightarrow> string option \<Rightarrow> bool" where
  "mapped dgs ac u dev ftp_user \<longleftrightarrow>
     (\<exists>r \<in> set (ac_ftp ac). \<exists>g \<in> set (ac_groups ac). fr_user r = u_id u \<and> ftp_user = Some (fr_name r)
        \<and> gr_id g = fr_group r \<and> (fr_group r, dev) \<in> set dgs \<and> gr_customer g \<noteq> None \<and> gr_customer g = u_customer u)"

lemma ftp_scope_ok_iff:
  "ftp_scope_ok dgs (Some name) ac dev fu \<longleftrightarrow> (\<exists>u \<in> set (ac_users ac). u_username u = name \<and> mapped dgs ac u dev fu)"
  by (simp add: ftp_scope_ok_def list_ex_iff mapped_def Bex_def split_paired_Ex mapped_groups_mem) blast

lemma mapped_any:
  "(\<exists>fu. mapped dgs ac u d fu) \<longleftrightarrow> (\<exists>r g. (r, g) \<in> set (mapped_groups u ac) \<and> (fr_group r, d) \<in> set dgs)"
  unfolding mapped_def mapped_groups_mem by blast

lemma in_device_scope:
  assumes "\<not> is_admin p"
  shows "\<exists>ids. device_scope dgs p ac = Some ids \<and> (d \<in> set ids \<longleftrightarrow>
    (\<exists>u \<in> set (ac_users ac). u_username u = pr_username p \<and> u_customer u = Some (or_else (pr_customer p) [])
       \<and> (\<exists>fu. mapped dgs ac u d fu)))"
  using assms unfolding mapped_any by (auto simp: device_scope_def Bex_def split_paired_Ex)

lemma isolated_iff:
  assumes "accounts_ok ac" and "\<not> is_admin p"
    and "\<forall>u \<in> set (ac_users ac). u_username u = pr_username p \<longrightarrow> u_customer u = pr_customer p"
  shows "isolated dgs ac (device_scope dgs p ac) (ftp_scope p) x \<longleftrightarrow>
    (\<exists>u \<in> set (ac_users ac). u_username u = pr_username p \<and> mapped dgs ac u (lg_device x) (lg_username x))"
proof -
  obtain ids where ids: "device_scope dgs p ac = Some ids" "lg_device x \<in> set ids \<longleftrightarrow>
    (\<exists>u \<in> set (ac_users ac). u_username u = pr_username p \<and> u_customer u = Some (or_else (pr_customer p) [])
       \<and> (\<exists>fu. mapped dgs ac u (lg_device x) fu))"
    using in_device_scope [OF assms(2), of dgs ac "lg_device x"] by blast
  have "u_customer u = Some (or_else (pr_customer p) [])"
    if "u \<in> set (ac_users ac)" "u_username u = pr_username p" "mapped dgs ac u d fu" for u d fu
  proof -
    have "u_customer u \<noteq> None" using that(3) unfolding mapped_def by metis
    then show ?thesis using assms(3) that(1,2) by (cases "pr_customer p") auto
  qed
  then show ?thesis using assms(2) ids by (auto simp: isolated_def ftp_scope_def ftp_scope_ok_iff)
qed

lemma principal_row:
  assumes "accounts_ok ac" and "get_current_user env sha dec now rq ac = (Inr p, ac')" and "\<not> is_admin p"
    and "u \<in> set (ac_users ac)" and "u_username u = pr_username p"
  shows "u_customer u = pr_customer p \<and> u_active u"
proof (cases "api_key_of rq")
  case None
  then show ?thesis using assms(2) get_user_mem [OF assms(1,4)] assms(5)
    by (auto simp: get_current_user_def principal_from_token_def unauthorized_def Let_def
        split: option.splits if_splits)
next
  case (Some raw)
  then have r: "principal_from_api_key env sha now (strip raw) (rq_method rq) ac = (Inr p, ac')"
    using assms(2) by (simp add: get_current_user_def)
  then obtain k owner where k: "resolve sha now (strip raw) ac = Some (k, owner)"
    by (auto simp: principal_from_api_key_def unauthorized_def split: option.splits)
  then obtain v where v: "owner = Some v"
    using r assms(3) by (cases owner) (auto simp: principal_from_api_key_def is_admin_def split: if_splits)
  then have "v \<in> set (ac_users ac)" "u_active v" using resolve_Some [OF k] by simp_all
  moreover have "pr_username p = u_username v" "pr_customer p = u_customer v"
    using r k v by (auto simp: principal_from_api_key_def split: if_splits)
  ultimately show ?thesis using same_name [OF assms(1,4), of v] assms(5) by simp
qed

text \<open>
  C5: whoever is not an administrator, with a token or with an API key, gets exactly the log
  rows that match and whose device and FTP user are registered for that account, in a group of
  the account's own customer.
\<close>

theorem customers_see_what_is_mapped:
  assumes "accounts_ok ac" and "get_current_user env sha dec now rq ac = (Inr p, ac')" and "\<not> is_admin p"
  shows "set (apply_filters dgs ac' later p f rows) =
    {r \<in> set rows. matches dgs ac' later f (map li_log rows) r
       \<and> (\<exists>u \<in> set (ac_users ac). u_username u = pr_username p \<and> u_active u
            \<and> mapped dgs ac u (lg_device (li_log r)) (lg_username (li_log r)))}"
proof -
  have same: "ac_users ac' = ac_users ac \<and> ac_ftp ac' = ac_ftp ac \<and> ac_groups ac' = ac_groups ac"
    using assms(2) by (auto simp: get_current_user_def principal_from_api_key_def unauthorized_def
        split: option.splits if_splits)
  then have mg: "mapped_groups u ac' = mapped_groups u ac" for u by (simp only: mapped_groups_def)
  have "ftp_scope_ok dgs su ac' = ftp_scope_ok dgs su ac" for su
    using same mg by (simp add: ftp_scope_ok_def fun_eq_iff split: option.split)
  moreover have "device_scope dgs p ac' = device_scope dgs p ac" by (simp only: device_scope_def mg conjunct1 [OF same])
  ultimately have iso: "isolated dgs ac' (device_scope dgs p ac') (ftp_scope p) = isolated dgs ac (device_scope dgs p ac) (ftp_scope p)"
    by (simp add: isolated_def fun_eq_iff)
  have "isolated dgs ac (device_scope dgs p ac) (ftp_scope p) x \<longleftrightarrow>
    (\<exists>u \<in> set (ac_users ac). u_username u = pr_username p \<and> u_active u \<and> mapped dgs ac u (lg_device x) (lg_username x))" for x
    using isolated_iff [OF assms(1,3)] principal_row [OF assms] by blast
  then show ?thesis by (auto simp: apply_filters_def iso)
qed

section \<open>The numbers of the dashboard\<close>

lemma sum_over_groups:
  assumes "finite K" and "key ` set rows \<subseteq> K"
  shows "(\<Sum>k\<in>K. sum_list (map w (filter (\<lambda>x. key x = k) rows))) = (sum_list (map w rows) :: nat)"
  using assms(2)
proof (induction rows)
  case (Cons x rows)
  have "(\<Sum>k\<in>K. sum_list (map w (filter (\<lambda>y. key y = k) (x # rows))))
      = (\<Sum>k\<in>K. (if key x = k then w x else 0) + sum_list (map w (filter (\<lambda>y. key y = k) rows)))"
    by (rule sum.cong) auto
  also have "\<dots> = w x + (\<Sum>k\<in>K. sum_list (map w (filter (\<lambda>y. key y = k) rows)))"
    using Cons.prems assms(1) by (simp add: sum.distrib)
  finally show ?case using Cons by simp
qed simp

lemma groups_add_up:
  assumes "\<And>rs. h rs = (sum_list (map w rs) :: nat)"
  shows "sum_list (map (\<lambda>(k, rs). h rs) (group_by key rows)) = h rows"
proof -
  have "sum_list (map (\<lambda>(k, rs). h rs) (group_by key rows))
      = sum_list (map (\<lambda>k. sum_list (map w (filter (\<lambda>x. key x = k) rows))) (remdups (map key rows)))"
    by (simp add: group_by_def assms comp_def)
  also have "\<dots> = (\<Sum>k\<in>key ` set rows. sum_list (map w (filter (\<lambda>x. key x = k) rows)))"
    by (simp add: sum_list_distinct_conv_sum_set)
  finally show ?thesis using sum_over_groups [of "key ` set rows" key rows w] assms by simp
qed

lemma actions_sum: "actions a rs = sum_list (map (\<lambda>x. if lg_action x = a then 1 else 0) rs)"
  unfolding actions_def by (induction rs) auto

lemma bytes_sum: "bytes_of a rs = sum_list (map (\<lambda>x. if lg_action x = a then lg_size x else 0) rs)"
  unfolding bytes_of_def by (induction rs) auto

lemma length_sum: "length rs = sum_list (map (\<lambda>x. 1) rs)"
  by (induction rs) auto

lemma sum_list_sort_key: "sum_list (map f (sort_key k xs)) = (sum_list (map f xs) :: nat)"
  by (metis mset_map mset_sort sum_mset_sum_list)

lemma series_sum:
  assumes "\<And>d rs. f (day_point (d, rs)) = h rs" and "\<And>rs. h rs = (sum_list (map w rs) :: nat)"
  shows "sum_list (map f (sort_key dp_day (map day_point (group_by key rows)))) = h rows"
proof -
  have "map (f \<circ> day_point) (group_by key rows) = map (\<lambda>(k, rs). h rs) (group_by key rows)"
    by (auto simp: assms(1))
  then show ?thesis unfolding sum_list_sort_key map_map by (simp only: groups_add_up [OF assms(2)])
qed

text \<open>
  The numbers of the dashboard agree with each other. The daily series add up to the
  totals, the counts per action to the number of rows, and each total is the count of its action.
\<close>

theorem dashboard_adds_up:
  "let d = get_dashboard dgs ac hosts p since until device rows in
    sum_list (map dp_uploads (db_series d)) = db_uploads d \<and> sum_list (map dp_downloads (db_series d)) = db_downloads d
    \<and> sum_list (map dp_deletes (db_series d)) = db_deletes d
    \<and> sum_list (map dp_in (db_series d)) = db_in d \<and> sum_list (map dp_out (db_series d)) = db_out d
    \<and> sum_list (map snd (db_by_action d)) = length (dashboard_rows dgs ac p since until device rows)
    \<and> (case map_of (db_by_action d) ''upload'' of None \<Rightarrow> 0 | Some n \<Rightarrow> n) = db_uploads d"
proof -
  let ?b = "dashboard_rows dgs ac p since until device rows"
  have "map (snd \<circ> (\<lambda>(a, rs). (a, length rs))) (group_by lg_action ?b) = map (\<lambda>(k, rs). length rs) (group_by lg_action ?b)"
    by auto
  then have 1: "sum_list (map snd (map (\<lambda>(a, rs). (a, length rs)) (group_by lg_action ?b))) = length ?b"
    unfolding map_map by (simp only: groups_add_up [OF length_sum])
  have 2: "(case map_of (map (\<lambda>(a, rs). (a, length rs)) (group_by lg_action ?b)) ''upload'' of None \<Rightarrow> 0 | Some n \<Rightarrow> n)
      = actions ''upload'' ?b"
    by (auto simp: group_by_def comp_def map_of_map_restrict restrict_map_def actions_def filter_empty_conv; metis imageI)
  show ?thesis unfolding Let_def get_dashboard_def dashboard.simps
    by (intro conjI 1 2 series_sum [OF _ actions_sum] series_sum [OF _ bytes_sum]) (simp_all add: day_point_def)
qed

text \<open>
  The dashboard tells a customer more than the log does. Its rows are restricted to the
  devices only: the name of an FTP user that is not registered for the account appears among the
  top users, although no query of the log ever shows a row of that user.
\<close>

theorem dashboard_names_hidden_users:
  assumes "device_scope dgs p ac = Some ids" and "x \<in> set rows" and "lg_device x \<in> set ids"
    and "since \<le> lg_time x" and "lg_time x \<le> until" and "lg_username x = Some n"
    and "\<not> ftp_scope_ok dgs (ftp_scope p) ac (lg_device x) (Some n)"
    and "db_users (get_dashboard dgs ac hosts p since until None rows) \<le> 10"
  shows "n \<in> tp_label ` set (db_top_users (get_dashboard dgs ac hosts p since until None rows))
    \<and> x \<notin> li_log ` set (apply_filters dgs ac now p f items)"
proof
  let ?named = "filter (\<lambda>x. lg_username x \<noteq> None) (dashboard_rows dgs ac p since until None rows)"
  let ?ts = "map (\<lambda>(l, rows). top_item l None rows) (group_by (\<lambda>x. the (lg_username x)) ?named)"
  have x: "x \<in> set ?named" using assms(1-6) by (simp add: dashboard_rows_def given_def)
  have "card (lg_username ` set ?named) \<le> 10"
    using assms(8) by (simp add: get_dashboard_def Let_def length_remdups_card_conv)
  moreover have "(\<lambda>x. the (lg_username x)) ` set ?named = the ` lg_username ` set ?named" by (simp add: image_image)
  ultimately have "card ((\<lambda>x. the (lg_username x)) ` set ?named) \<le> 10"
    by (metis (no_types, lifting) List.finite_set card_image_le finite_imageI order_trans)
  then have "length ?ts \<le> 10" by (simp add: group_by_def length_remdups_card_conv)
  then have "set (top10 (group_by (\<lambda>x. the (lg_username x)) ?named)) = set ?ts" by (simp add: top10_def)
  moreover have "n \<in> tp_label ` set ?ts"
    using x assms(6) by (force simp: group_by_def top_item_def image_iff)
  ultimately show "n \<in> tp_label ` set (db_top_users (get_dashboard dgs ac hosts p since until None rows))"
    by (simp add: get_dashboard_def Let_def)
  show "x \<notin> li_log ` set (apply_filters dgs ac now p f items)"
    using assms(6,7) by (auto simp: apply_filters_def isolated_def)
qed


definition kim :: principal where
  "kim = \<lparr>pr_username = ''kim'', pr_role = ''customer'', pr_customer = Some ''acme'', pr_via_key = False\<rparr>"

definition row_of :: "string \<Rightarrow> time \<Rightarrow> log" where
  "row_of name t = \<lparr>lg_device = 7, lg_time = t, lg_username = Some name, lg_action = ''upload'', lg_path = Some ''/a'',
     lg_size = 5, lg_secs = 1, lg_status = ''success''\<rparr>"

definition items :: "log_item list" where
  "items = [\<lparr>li_id = 1, li_ip = None, li_log = row_of ''ftp1'' 10\<rparr>, \<lparr>li_id = 2, li_ip = None, li_log = row_of ''other'' 20\<rparr>]"

definition no_filters :: filters where
  "no_filters = \<lparr>f_device = None, f_group = None, f_customer = None, f_username = None, f_usernames = [], f_ip = None,
     f_path = None, f_action = None, f_exclude = None, f_status = None, f_start = None, f_end = None\<rparr>"

lemma kim_groups: "mapped_groups (sample_row 2 ''kim'' ''customer'' (Some ''acme'')) sample_accounts
  = [(\<lparr>fr_user = 2, fr_group = 1, fr_name = ''ftp1''\<rparr>, \<lparr>gr_id = 1, gr_name = ''g'', gr_customer = Some ''acme''\<rparr>)]"
  by (simp add: mapped_groups_def sample_accounts_def sample_row_def)

lemma sample_users: "ac_users sample_accounts = [sample_row 1 ''root'' ''admin'' None, sample_row 2 ''kim'' ''customer'' (Some ''acme'')]"
  by (simp add: sample_accounts_def)

lemma kim_scope: "device_scope [(1, 7)] kim sample_accounts = Some [7]"
  by (simp add: device_scope_def kim_def is_admin_def sample_users kim_groups) (simp add: sample_row_def)

theorem pages_hold_the_rows_witness:
  "length (query_logs [] sample_accounts [7] 0 root no_filters (Suc 0) 1 items) =
     min 1 (count_logs [] sample_accounts 0 root no_filters items)"
  using pages_hold_the_rows [of items "[7]" "[]" sample_accounts 0 root no_filters 1 1]
  by (simp add: items_def row_of_def Let_def)

lemma kim_request:
  "get_current_user sample_env id (\<lambda>now c. Some (create_access_token sample_env 0 ''kim'' ''customer'' (Some ''acme''))) 1
     \<lparr>rq_key = None, rq_bearer = Some ''t'', rq_method = ''GET''\<rparr> sample_accounts = (Inr kim, sample_accounts)"
  by (simp add: get_current_user_def api_key_of_def looks_like_key_def starts_with_def KEY_PREFIX_def
      principal_from_token_def create_access_token_def sample_user) (simp add: sample_row_def kim_def)

lemma items_match: "r \<in> set items \<Longrightarrow> matches [(1, 7)] sample_accounts 30 no_filters (map li_log items) r"
  by (auto simp: matches_def no_filters_def given_def hide_cwd_probes_def items_def row_of_def Let_def)

lemma kim_mapped:
  "(\<exists>u \<in> set (ac_users sample_accounts). u_username u = pr_username kim \<and> u_active u
      \<and> mapped [(1, 7)] sample_accounts u 7 (Some n)) \<longleftrightarrow> n = ''ftp1''"
  unfolding sample_users
  by (simp add: kim_def mapped_def sample_row_def) (simp add: sample_accounts_def)

theorem customers_see_what_is_mapped_witness:
  "li_log ` set (apply_filters [(1, 7)] sample_accounts 30 kim no_filters items) = {row_of ''ftp1'' 10}"
proof -
  have "\<not> is_admin kim" by (simp add: is_admin_def kim_def)
  note see = customers_see_what_is_mapped [OF sample_accounts_ok(1) kim_request this, of "[(1, 7)]" 30 no_filters items]
  have two: "set items = {\<lparr>li_id = 1, li_ip = None, li_log = row_of ''ftp1'' 10\<rparr>, \<lparr>li_id = 2, li_ip = None, li_log = row_of ''other'' 20\<rparr>}"
    by (simp add: items_def)
  have f: "lg_device (row_of n t) = 7" "lg_username (row_of n t) = Some n" for n t by (simp_all add: row_of_def)
  have k: "((\<exists>u \<in> set (ac_users sample_accounts). u_username u = pr_username kim \<and> u_active u
      \<and> mapped [(1, 7)] sample_accounts u (lg_device (li_log r)) (lg_username (li_log r))) \<longleftrightarrow> li_id r = 1)" if "r \<in> set items" for r
  proof -
    obtain n t where "li_log r = row_of n t" "n = ''ftp1'' \<longleftrightarrow> li_id r = 1" using \<open>r \<in> set items\<close> unfolding two by auto
    then show ?thesis by (simp only: f kim_mapped)
  qed
  have "{r \<in> set items. matches [(1, 7)] sample_accounts 30 no_filters (map li_log items) r
       \<and> (\<exists>u \<in> set (ac_users sample_accounts). u_username u = pr_username kim \<and> u_active u
            \<and> mapped [(1, 7)] sample_accounts u (lg_device (li_log r)) (lg_username (li_log r)))} = {r \<in> set items. li_id r = 1}"
    using items_match k by blast
  also have "\<dots> = {\<lparr>li_id = 1, li_ip = None, li_log = row_of ''ftp1'' 10\<rparr>}" unfolding two by auto
  finally show ?thesis unfolding see by simp
qed

theorem dashboard_names_hidden_users_witness:
  "''other'' \<in> tp_label ` set (db_top_users (get_dashboard [(1, 7)] sample_accounts [] kim 0 100 None [row_of ''ftp1'' 10, row_of ''other'' 20]))"
proof -
  let ?rows = "[row_of ''ftp1'' 10, row_of ''other'' 20]"
  have hidden: "\<not> ftp_scope_ok [(1, 7)] (ftp_scope kim) sample_accounts 7 (Some ''other'')"
    by (simp add: ftp_scope_ok_def ftp_scope_def kim_def is_admin_def sample_users kim_groups) (simp add: sample_row_def)
  have "db_users (get_dashboard [(1, 7)] sample_accounts [] kim 0 100 None ?rows) \<le> 10"
    by (simp add: get_dashboard_def Let_def dashboard_rows_def kim_scope given_def row_of_def)
  from dashboard_names_hidden_users [OF kim_scope, of "row_of ''other'' 20" ?rows 0 100 "''other''" "[]"] hidden this
  show ?thesis by (simp add: row_of_def)
qed
end
