(* ===== verification/Storage.thy ===== *)
theory Storage
  imports Queries Ingest
begin

text \<open>
  The storage of the log table: \<open>retention.py\<close> and \<open>disk_guard.py\<close> with their settings,
  \<open>_ensure_partitions\<close> of \<open>main.py\<close>, and the storage routes of \<open>routers/settings.py\<close>.

  The table \<open>ftp_logs\<close> is its monthly partitions, each with its name, its range of times and
  its rows, and the default partition. PostgreSQL puts an inserted row into the partition whose
  range holds its time, into the default partition when there is none. The directories of the
  host, \<open>shutil.disk_usage\<close>, \<open>to_char\<close> and the sizes of the tables are parameters. A
  \<open>ValueError\<close> is \<open>Inl\<close> with a tag for its text.
\<close>

section \<open>The settings\<close>

definition RETENTION_KEY :: string where "RETENTION_KEY = ''retention_months''"
definition DEFAULT_RETENTION_MONTHS :: int where "DEFAULT_RETENTION_MONTHS = 36"
definition MIN_RETENTION_MONTHS :: int where "MIN_RETENTION_MONTHS = 1"
definition MAX_RETENTION_MONTHS :: int where "MAX_RETENTION_MONTHS = 120"

text \<open>\<open>str(raw)\<close> of a value that may be missing.\<close>

fun str_of :: "string option \<Rightarrow> string" where
  "str_of None = ''None''"
| "str_of (Some s) = s"

definition get_retention_months :: "accounts \<Rightarrow> int" where
  "get_retention_months ac =
     (let raw = get_config RETENTION_KEY ac in
      case py_int (strip (str_of raw)) of
        None \<Rightarrow> DEFAULT_RETENTION_MONTHS
      | Some months \<Rightarrow>
          if \<not> (MIN_RETENTION_MONTHS \<le> months \<and> months \<le> MAX_RETENTION_MONTHS) then DEFAULT_RETENTION_MONTHS
          else months)"

definition set_retention_months :: "int \<Rightarrow> accounts \<Rightarrow> string + accounts" where
  "set_retention_months months ac =
     (if \<not> (MIN_RETENTION_MONTHS \<le> months \<and> months \<le> MAX_RETENTION_MONTHS) then Inl ''retention out of range''
      else Inr (set_config RETENTION_KEY (show_int months) ac))"

definition DEFAULT_PATH :: string where "DEFAULT_PATH = ''/''"
definition PATH_KEY :: string where "PATH_KEY = ''disk_monitor_path''"
definition ENABLED_KEY :: string where "ENABLED_KEY = ''disk_autopurge_enabled''"
definition THRESHOLD_KEY :: string where "THRESHOLD_KEY = ''disk_autopurge_percent''"
definition DEFAULT_THRESHOLD :: int where "DEFAULT_THRESHOLD = 90"
definition MIN_THRESHOLD :: int where "MIN_THRESHOLD = 50"
definition MAX_THRESHOLD :: int where "MAX_THRESHOLD = 99"

definition is_enabled :: "accounts \<Rightarrow> bool" where
  "is_enabled ac =
     (let raw = get_config ENABLED_KEY ac in
      map to_lower (if truthy raw then the raw else ''true'') \<noteq> ''false'')"

definition get_path :: "accounts \<Rightarrow> string" where
  "get_path ac =
     (let raw = strip (or_else (get_config PATH_KEY ac) []) in
      if raw = [] then DEFAULT_PATH
      else if \<not> starts_with ''/'' raw then DEFAULT_PATH
      else raw)"

text \<open>\<open>isdir\<close> is \<open>os.path.isdir\<close> on the host.\<close>

definition save_path :: "(string \<Rightarrow> bool) \<Rightarrow> string \<Rightarrow> accounts \<Rightarrow> string + accounts" where
  "save_path isdir path ac =
     (let stripped = strip (replace_char (CHR 0xA0) '' '' path);
          cleaned = (if stripped = [] then DEFAULT_PATH else stripped) in
      if \<not> starts_with ''/'' cleaned then Inl ''not an absolute path''
      else if \<not> isdir cleaned then Inl ''no such directory''
      else Inr (set_config PATH_KEY cleaned ac))"

definition get_threshold :: "accounts \<Rightarrow> int" where
  "get_threshold ac =
     (let raw = get_config THRESHOLD_KEY ac in
      case py_int (strip (str_of raw)) of
        None \<Rightarrow> DEFAULT_THRESHOLD
      | Some pct \<Rightarrow> if MIN_THRESHOLD \<le> pct \<and> pct \<le> MAX_THRESHOLD then pct else DEFAULT_THRESHOLD)"

definition save_settings :: "bool \<Rightarrow> int \<Rightarrow> accounts \<Rightarrow> string + accounts" where
  "save_settings enabled threshold ac =
     (if \<not> (MIN_THRESHOLD \<le> threshold \<and> threshold \<le> MAX_THRESHOLD) then Inl ''threshold out of range''
      else Inr (set_config THRESHOLD_KEY (show_int threshold)
                  (set_config ENABLED_KEY (if enabled then ''true'' else ''false'') ac)))"

text \<open>The routes: a \<open>ValueError\<close> becomes a 422 and changes nothing.\<close>

definition or_422 :: "string + accounts \<Rightarrow> accounts http" where
  "or_422 r = (case r of Inl msg \<Rightarrow> Inl (HTTPException 422 msg) | Inr ac \<Rightarrow> Inr ac)"

datatype setting_request = UpdateAutopurge bool int | UpdateDiskPath string | UpdateRetention int

fun handle_setting :: "(string \<Rightarrow> bool) \<Rightarrow> setting_request \<Rightarrow> accounts \<Rightarrow> accounts http" where
  "handle_setting isdir (UpdateAutopurge enabled percent) ac = or_422 (save_settings enabled percent ac)"
| "handle_setting isdir (UpdateDiskPath path) ac = or_422 (save_path isdir path ac)"
| "handle_setting isdir (UpdateRetention months) ac = or_422 (set_retention_months months ac)"

definition serve_setting :: "(string \<Rightarrow> bool) \<Rightarrow> setting_request \<Rightarrow> accounts \<Rightarrow> accounts" where
  "serve_setting isdir r ac = (case handle_setting isdir r ac of Inl e \<Rightarrow> ac | Inr ac' \<Rightarrow> ac')"

definition serve_settings :: "(string \<Rightarrow> bool) \<Rightarrow> setting_request list \<Rightarrow> accounts \<Rightarrow> accounts" where
  "serve_settings isdir rs ac = fold (serve_setting isdir) rs ac"

section \<open>Disk usage\<close>

text \<open>
  Python's \<open>round(x, 1)\<close> rounds half to even. \<open>du\<close> is \<open>shutil.disk_usage\<close>: the total and the
  free bytes of the file system of a path, \<open>None\<close> when it raises \<open>OSError\<close>.
\<close>

definition round1 :: "real \<Rightarrow> real" where
  "round1 x = (let y = 10 * x; f = \<lfloor>y\<rfloor>; r = y - of_int f in
     (if r < 1 / 2 then of_int f else if r > 1 / 2 then of_int (f + 1)
      else of_int (if even f then f else f + 1)) / 10)"

definition usage :: "(string \<Rightarrow> (nat \<times> nat) option) \<Rightarrow> string \<Rightarrow> nat \<times> int \<times> real" where
  "usage du path = (case du path of
       None \<Rightarrow> (0, 0, 0)
     | Some (tot, free) \<Rightarrow>
         if tot = 0 then (0, 0, 0)
         else let used = int tot - int free in (tot, used, round1 (of_int used / real tot * 100)))"

definition disk_percent :: "(string \<Rightarrow> (nat \<times> nat) option) \<Rightarrow> string \<Rightarrow> real" where
  "disk_percent du path = snd (snd (usage du path))"

section \<open>The partitions\<close>

record partition =
  pt_name :: string
  pt_from :: time
  pt_to :: time
  pt_rows :: "log list"

text \<open>\<open>st_loose\<close>: tables that have the name of a partition but are not attached to the log table.\<close>

record storage =
  st_partitioned :: bool
  st_parts :: "partition list"
  st_default :: "log list"
  st_loose :: "string list"

type_synonym month = "int \<times> int"

definition pad :: "nat \<Rightarrow> string \<Rightarrow> string" where
  "pad n s = replicate (n - length s) (CHR ''0'') @ s"

definition part_name :: "month \<Rightarrow> string" where
  "part_name m = ''ftp_logs_'' @ pad 4 (show_nat (nat (fst m))) @ ''_'' @ pad 2 (show_nat (nat (snd m)))"

text \<open>The month \<open>offset\<close> months after \<open>m\<close>: the arithmetic of \<open>_ensure_partitions\<close>.\<close>

definition month_add :: "int \<Rightarrow> month \<Rightarrow> month" where
  "month_add offset m = (let tot = snd m - 1 + offset in (fst m + tot div 12, tot mod 12 + 1))"

text \<open>
  What \<open>'YYYY-MM-01'\<close> means as a \<open>timestamptz\<close>: midnight of the first day of the month in the
  time zone of the database session, \<open>tz\<close> east of UTC.
\<close>

definition year_days :: "int \<Rightarrow> int" where
  "year_days y = 365 * y + (y + 3) div 4 - (y + 99) div 100 + (y + 399) div 400"

definition days_before_month :: "int \<Rightarrow> int \<Rightarrow> int" where
  "days_before_month y m = sum_list (map (\<lambda>k. int (days_in_month (nat y) (nat k))) [1..m - 1])"

definition month_start :: "time \<Rightarrow> month \<Rightarrow> time" where
  "month_start tz m = days (year_days (fst m) + days_before_month (fst m) (snd m) - 719528) - tz"

definition in_range :: "time \<Rightarrow> time \<Rightarrow> log \<Rightarrow> bool" where
  "in_range s e x \<longleftrightarrow> s \<le> lg_time x \<and> lg_time x < e"

definition ensure_partition :: "time \<Rightarrow> month \<Rightarrow> int \<Rightarrow> storage \<Rightarrow> storage" where
  "ensure_partition tz now offset st =
     (let month = month_add offset now;
          part = part_name month;
          start = month_start tz month;
          until = month_start tz (month_add (offset + 1) now) in
      if list_ex (in_range start until) (st_default st) then st
      else if list_ex (\<lambda>p. pt_name p = part) (st_parts st) \<or> List.member (st_loose st) part then st
      else st\<lparr>st_parts := st_parts st @
                 [\<lparr>pt_name = part, pt_from = start, pt_to = until, pt_rows = []\<rparr>]\<rparr>)"

definition PARTITION_FUTURE_MONTHS :: int where "PARTITION_FUTURE_MONTHS = 2"

definition ensure_partitions :: "time \<Rightarrow> month \<Rightarrow> accounts \<Rightarrow> storage \<Rightarrow> storage" where
  "ensure_partitions tz now ac st =
     (if \<not> st_partitioned st then st
      else fold (ensure_partition tz now) [- get_retention_months ac..PARTITION_FUTURE_MONTHS] st)"

text \<open>The row that the database inserts into \<open>ftp_logs\<close>.\<close>

fun insert_part :: "log \<Rightarrow> partition list \<Rightarrow> partition list option" where
  "insert_part x [] = None"
| "insert_part x (p # ps) =
     (if in_range (pt_from p) (pt_to p) x then Some (p\<lparr>pt_rows := pt_rows p @ [x]\<rparr> # ps)
      else map_option (\<lambda>qs. p # qs) (insert_part x ps))"

definition insert_log :: "log \<Rightarrow> storage \<Rightarrow> storage" where
  "insert_log x st = (case insert_part x (st_parts st) of
       None \<Rightarrow> st\<lparr>st_default := st_default st @ [x]\<rparr>
     | Some ps \<Rightarrow> st\<lparr>st_parts := ps\<rparr>)"

definition drop_table :: "string \<Rightarrow> storage \<Rightarrow> storage" where
  "drop_table name st = st\<lparr>st_parts := filter (\<lambda>p. pt_name p \<noteq> name) (st_parts st)\<rparr>"

section \<open>The disk guard\<close>

text \<open>The regular expression \<open>^ftp_logs_[0-9]{4}_[0-9]{2}$\<close> of PostgreSQL, whose \<open>$\<close> is the end.\<close>

definition is_month_name :: "string \<Rightarrow> bool" where
  "is_month_name n \<longleftrightarrow> length n = 16 \<and> take 9 n = ''ftp_logs_'' \<and> list_all is_digit (take 4 (drop 9 n))
     \<and> n ! 13 = CHR ''_'' \<and> list_all is_digit (drop 14 n)"

definition purgeable_partitions :: "month \<Rightarrow> storage \<Rightarrow> string list" where
  "purgeable_partitions now st =
     (let current = part_name now;
          rows = sort (filter is_month_name (map pt_name (st_parts st)));
          older = filter (\<lambda>n. n < current) rows in
      filter (\<lambda>n. list_ex (\<lambda>p. pt_name p = n \<and> pt_rows p \<noteq> []) (st_parts st)) older)"

datatype guard_notice = NothingToPurge real | Purged string real real

text \<open>
  \<open>enforce\<close> returns the name of the dropped partition, and the message for the administrators.
  \<open>du\<close> and \<open>du'\<close> are the disk before and after the drop.
\<close>

definition enforce ::
  "(string \<Rightarrow> (nat \<times> nat) option) \<Rightarrow> (string \<Rightarrow> (nat \<times> nat) option) \<Rightarrow> month \<Rightarrow> accounts \<Rightarrow> storage \<Rightarrow>
   string option \<times> guard_notice option \<times> storage" where
  "enforce du du' now ac st =
     (if \<not> is_enabled ac then (None, None, st)
      else let threshold = get_threshold ac;
               path = get_path ac;
               (tot, used, pct) = usage du path in
        if tot = 0 then (None, None, st)
        else if pct < of_int threshold then (None, None, st)
        else let targets = purgeable_partitions now st in
          if length targets \<le> 1 then (None, Some (NothingToPurge pct), st)
          else let victim = hd targets; st1 = drop_table victim st in
            (Some victim, Some (Purged victim pct (disk_percent du' path)), st1))"

section \<open>The storage routes\<close>

text \<open>\<open>re.match\<close> with the same expression: its \<open>$\<close> also matches before a last line feed.\<close>

definition is_partition_name :: "string \<Rightarrow> bool" where
  "is_partition_name n \<longleftrightarrow> is_month_name n \<or> (n \<noteq> [] \<and> last n = LF \<and> is_month_name (butlast n))"

definition drop_partition :: "month \<Rightarrow> string \<Rightarrow> storage \<Rightarrow> storage http" where
  "drop_partition now name st =
     (if \<not> is_partition_name name then bad_request ''not a monthly partition''
      else if \<not> list_ex (\<lambda>p. pt_name p = name) (st_parts st) then Inl (HTTPException 404 ''no such partition'')
      else if \<not> name < part_name now then bad_request ''current or future partition''
      else Inr (drop_table name st))"

record storage_partition =
  sp_name :: string
  sp_has_rows :: bool
  sp_first :: "time option"
  sp_last :: "time option"

record storage_info =
  si_partitions :: "storage_partition list"
  si_default_rows :: nat
  si_default_months :: "string list"
  si_retention :: int
  si_disk_path :: string
  si_disk :: "nat \<times> int \<times> real"
  si_autopurge :: bool
  si_percent :: int

definition storage_partition_of :: "string \<Rightarrow> log list \<Rightarrow> storage_partition" where
  "storage_partition_of n rows = (let ts = (if is_partition_name n \<or> n = ''ftp_logs_default'' then map lg_time rows else []) in
     \<lparr>sp_name = n, sp_has_rows = (ts \<noteq> []),
      sp_first = (if ts = [] then None else Some (Min (set ts))),
      sp_last = (if ts = [] then None else Some (Max (set ts)))\<rparr>)"

definition get_storage ::
  "(string \<Rightarrow> (nat \<times> nat) option) \<Rightarrow> (time \<Rightarrow> string) \<Rightarrow> accounts \<Rightarrow> storage \<Rightarrow> storage_info" where
  "get_storage du to_month ac st =
     (let rows = rev (sort_key fst ((''ftp_logs_default'', st_default st)
                   # map (\<lambda>p. (pt_name p, pt_rows p)) (st_parts st)));
          path = get_path ac in
      \<lparr>si_partitions = map (\<lambda>(n, xs). storage_partition_of n xs) rows,
       si_default_rows = length (st_default st),
       si_default_months = sort (remdups (map (to_month \<circ> lg_time) (st_default st))),
       si_retention = get_retention_months ac,
       si_disk_path = path,
       si_disk = usage du path,
       si_autopurge = is_enabled ac,
       si_percent = get_threshold ac\<rparr>)"

section \<open>A setting keeps the last value that was accepted\<close>

text \<open>
  The contract of one setting: what \<open>accepted\<close> reads from a request is the value that \<open>load\<close>
  returns after it, and every other request leaves the value alone.
\<close>

locale setting =
  fixes load :: "'s \<Rightarrow> 'v" and serve :: "'r \<Rightarrow> 's \<Rightarrow> 's" and accepted :: "'r \<Rightarrow> 'v option"
  assumes load_accepted: "accepted r = Some v \<Longrightarrow> load (serve r s) = v"
    and load_other: "accepted r = None \<Longrightarrow> load (serve r s) = load s"

text \<open>
  The same contract for the requests that are \<open>fine\<close>, where the value of another request may
  not come back from the store as it was.
\<close>

locale setting_on =
  fixes load :: "'s \<Rightarrow> 'v" and serve :: "'r \<Rightarrow> 's \<Rightarrow> 's" and accepted :: "'r \<Rightarrow> 'v option" and fine :: "'r \<Rightarrow> bool"
  assumes load_fine: "fine r \<Longrightarrow> load (serve r s) = (case accepted r of None \<Rightarrow> load s | Some v \<Rightarrow> v)"
begin

lemma load_fold_fine: "list_all fine rs \<Longrightarrow> load (fold serve rs s) = last (load s # List.map_filter accepted rs)"
  by (induction rs arbitrary: s) (auto simp: List.map_filter_simps load_fine split: option.split)

end

sublocale setting \<subseteq> always: setting_on load serve accepted "\<lambda>_. True"
  by unfold_locales (simp add: load_accepted load_other split: option.split)

context setting begin

lemma load_fold: "load (fold serve rs s) = last (load s # List.map_filter accepted rs)"
  by (rule always.load_fold_fine) (simp add: list_all_iff)

end

locale config_store =
  fixes get :: "string \<Rightarrow> 's \<Rightarrow> string option" and put :: "string \<Rightarrow> string \<Rightarrow> 's \<Rightarrow> 's"
  assumes get_put: "get k (put k' v s) = (if k = k' then Some v else get k s)"
begin

lemma get_put_same [simp]: "get k (put k v s) = Some v"
  by (simp add: get_put)

lemma get_put_other [simp]: "k \<noteq> k' \<Longrightarrow> get k (put k' v s) = get k s"
  by (simp add: get_put)

end

interpretation app_config: config_store get_config set_config
  by unfold_locales (simp add: get_config_def set_config_def update_conv)

lemmas keys = RETENTION_KEY_def PATH_KEY_def ENABLED_KEY_def THRESHOLD_KEY_def

lemma num_us_digits: "list_all is_digit s \<Longrightarrow> s \<noteq> [] \<or> pd \<Longrightarrow> num_us pd a s = Some (dec_val a s)"
  by (induction s arbitrary: pd a) auto

lemma show_nat_nonempty [simp]: "show_nat n \<noteq> []"
  by (simp add: show_nat.simps [of n])

lemma strip_digits: "list_all is_digit s \<Longrightarrow> strip s = s"
proof -
  assume "list_all is_digit s"
  then have "\<forall>c \<in> set s. \<not> is_space c" by (auto simp: list_all_iff digit_not_space)
  then have "lstrip s = s" "dropWhile is_space (rev s) = rev s"
    by (auto simp: lstrip_def dropWhile_eq_self_iff hd_rev)
  then show ?thesis by (simp add: strip_def)
qed

lemma py_int_show: "0 \<le> n \<Longrightarrow> py_int (show_int n) = Some n"
proof -
  assume n: "0 \<le> n"
  have d: "list_all is_digit (show_nat (nat n))" by (simp add: list_all_iff show_nat_digits)
  then obtain c cs where c: "show_nat (nat n) = c # cs" "is_digit c"
    by (cases "show_nat (nat n)") auto
  then have "split_sign (show_nat (nat n)) = (False, show_nat (nat n))" by (auto simp: is_digit_def)
  then show ?thesis
    using n d by (simp add: py_int_def show_int_def strip_digits num_us_digits dec_val_show)
qed

lemma strip_show: "0 \<le> n \<Longrightarrow> strip (show_int n) = show_int n"
  by (simp add: show_int_def strip_digits list_all_iff show_nat_digits)

lemma lstrip_idem [simp]: "lstrip (lstrip s) = lstrip s"
  by (simp add: lstrip_def)

lemma strip_idem [simp]: "strip (strip s) = strip s"
proof -
  let ?t = "lstrip s"
  have "strip s = rev (dropWhile is_space (rev ?t))" by (simp add: strip_def)
  moreover have "lstrip (rev (dropWhile is_space (rev ?t))) = rev (dropWhile is_space (rev ?t))"
  proof (cases "rev (dropWhile is_space (rev ?t)) = []")
    case False
    obtain u where "rev ?t = u @ dropWhile is_space (rev ?t)" by (metis takeWhile_dropWhile_id)
    then have "?t = rev (dropWhile is_space (rev ?t)) @ rev u" by (metis rev_append rev_rev_ident)
    then have "hd ?t = hd (rev (dropWhile is_space (rev ?t)))" and "?t \<noteq> []"
      using False by (metis hd_append2, auto)
    moreover from \<open>?t \<noteq> []\<close> have "\<not> is_space (hd ?t)" unfolding lstrip_def by (rule hd_dropWhile)
    ultimately show ?thesis using False by (simp add: lstrip_def dropWhile_eq_self_iff)
  next
    case True
    then show ?thesis by (simp only: True lstrip_def dropWhile.simps)
  qed
  ultimately show ?thesis by (simp add: strip_def)
qed

definition accepted_retention :: "setting_request \<Rightarrow> int option" where
  "accepted_retention r = (case r of
       UpdateRetention n \<Rightarrow> if 1 \<le> n \<and> n \<le> 120 then Some n else None | _ \<Rightarrow> None)"

definition accepted_threshold :: "setting_request \<Rightarrow> int option" where
  "accepted_threshold r = (case r of
       UpdateAutopurge b n \<Rightarrow> if 50 \<le> n \<and> n \<le> 99 then Some n else None | _ \<Rightarrow> None)"

definition accepted_switch :: "setting_request \<Rightarrow> bool option" where
  "accepted_switch r = (case r of
       UpdateAutopurge b n \<Rightarrow> if 50 \<le> n \<and> n \<le> 99 then Some b else None | _ \<Rightarrow> None)"

definition accepted_path :: "(string \<Rightarrow> bool) \<Rightarrow> setting_request \<Rightarrow> string option" where
  "accepted_path isdir r = (case r of
       UpdateDiskPath p \<Rightarrow>
         (let d = strip_input p; q = (if d = [] then ''/'' else d)
          in if starts_with ''/'' q \<and> isdir q then Some q else None)
     | _ \<Rightarrow> None)"

lemmas serve_defs = serve_setting_def or_422_def set_retention_months_def save_settings_def save_path_def
  MIN_RETENTION_MONTHS_def MAX_RETENTION_MONTHS_def MIN_THRESHOLD_def MAX_THRESHOLD_def

lemmas load_defs = get_retention_months_def get_threshold_def is_enabled_def get_path_def
  MIN_RETENTION_MONTHS_def MAX_RETENTION_MONTHS_def MIN_THRESHOLD_def MAX_THRESHOLD_def

lemmas accepted_defs = accepted_retention_def accepted_threshold_def accepted_switch_def accepted_path_def

lemma keys_differ [simp]:
  "RETENTION_KEY \<noteq> PATH_KEY" "RETENTION_KEY \<noteq> ENABLED_KEY" "RETENTION_KEY \<noteq> THRESHOLD_KEY"
  "PATH_KEY \<noteq> RETENTION_KEY" "PATH_KEY \<noteq> ENABLED_KEY" "PATH_KEY \<noteq> THRESHOLD_KEY"
  "ENABLED_KEY \<noteq> RETENTION_KEY" "ENABLED_KEY \<noteq> PATH_KEY" "ENABLED_KEY \<noteq> THRESHOLD_KEY"
  "THRESHOLD_KEY \<noteq> RETENTION_KEY" "THRESHOLD_KEY \<noteq> PATH_KEY" "THRESHOLD_KEY \<noteq> ENABLED_KEY"
  by (simp_all add: keys)

interpretation retention: setting get_retention_months "serve_setting isdir" accepted_retention for isdir
proof
  fix r v s assume "accepted_retention r = Some v"
  then have "r = UpdateRetention v" "1 \<le> v" "v \<le> 120"
    by (auto simp: accepted_retention_def split: setting_request.splits if_splits)
  then show "get_retention_months (serve_setting isdir r s) = v"
    by (simp add: serve_defs load_defs strip_show py_int_show)
next
  fix r s assume "accepted_retention r = None"
  then show "get_retention_months (serve_setting isdir r s) = get_retention_months s"
    by (cases r) (auto simp: serve_defs load_defs accepted_retention_def Let_def split: if_splits)
qed

interpretation threshold: setting get_threshold "serve_setting isdir" accepted_threshold for isdir
proof
  fix r v s assume "accepted_threshold r = Some v"
  then obtain b where "r = UpdateAutopurge b v" "50 \<le> v" "v \<le> 99"
    by (auto simp: accepted_threshold_def split: setting_request.splits if_splits)
  then show "get_threshold (serve_setting isdir r s) = v"
    by (simp add: serve_defs load_defs strip_show py_int_show)
next
  fix r s assume "accepted_threshold r = None"
  then show "get_threshold (serve_setting isdir r s) = get_threshold s"
    by (cases r) (auto simp: serve_defs load_defs accepted_threshold_def Let_def split: if_splits)
qed

interpretation autopurge: setting is_enabled "serve_setting isdir" accepted_switch for isdir
proof
  fix r v s assume "accepted_switch r = Some v"
  then obtain n where "r = UpdateAutopurge v n" "50 \<le> n" "n \<le> 99"
    by (auto simp: accepted_switch_def split: setting_request.splits if_splits)
  then show "is_enabled (serve_setting isdir r s) = v"
    by (simp add: serve_defs load_defs to_lower_def)
next
  fix r s assume "accepted_switch r = None"
  then show "is_enabled (serve_setting isdir r s) = is_enabled s"
    by (cases r) (auto simp: serve_defs load_defs accepted_switch_def Let_def split: if_splits)
qed

lemma get_path_put:
  assumes "strip v = v" and "v \<noteq> []" and "starts_with ''/'' v"
  shows "get_path (set_config PATH_KEY v ac) = v"
  using assms by (simp add: get_path_def)

lemma serve_path:
  "serve_setting isdir (UpdateDiskPath p) ac =
     (case accepted_path isdir (UpdateDiskPath p) of None \<Rightarrow> ac | Some v \<Rightarrow> set_config PATH_KEY v ac)"
  by (simp add: serve_setting_def or_422_def save_path_def accepted_path_def strip_input_def DEFAULT_PATH_def Let_def)

lemma accepted_pathD:
  assumes "accepted_path isdir (UpdateDiskPath p) = Some v"
  shows "strip v = v" "v \<noteq> []" "starts_with ''/'' v"
proof -
  define d where "d = strip_input p"
  have d: "strip d = d" by (simp add: d_def strip_input_def)
  have root: "strip ''/'' = ''/''" by (simp add: strip_def lstrip_def is_space_def Let_def)
  have v: "v = (if d = [] then ''/'' else d)" "starts_with ''/'' v"
    using assms by (auto simp: accepted_path_def Let_def d_def split: if_splits)
  show "strip v = v" "v \<noteq> []" using v d root by (cases "d = []"; simp)+
  show "starts_with ''/'' v" by (fact v(2))
qed

interpretation disk_path: setting get_path "serve_setting isdir" "accepted_path isdir" for isdir
proof
  fix r v s assume r: "accepted_path isdir r = Some v"
  then obtain p where p: "r = UpdateDiskPath p" by (cases r) (auto simp: accepted_path_def)
  show "get_path (serve_setting isdir r s) = v"
    using get_path_put [OF accepted_pathD [OF r [unfolded p]]] r by (simp add: p serve_path)
next
  fix r s assume r: "accepted_path isdir r = None"
  show "get_path (serve_setting isdir r s) = get_path s"
  proof (cases r)
    case (UpdateDiskPath p)
    then show ?thesis using r by (simp add: serve_path)
  qed (auto simp: serve_defs get_path_def Let_def)
qed

lemma retention_in_range: "1 \<le> get_retention_months ac \<and> get_retention_months ac \<le> 120"
  by (simp add: load_defs DEFAULT_RETENTION_MONTHS_def Let_def split: option.split)

lemma threshold_in_range: "50 \<le> get_threshold ac \<and> get_threshold ac \<le> 99"
  by (simp add: load_defs DEFAULT_THRESHOLD_def Let_def split: option.split)

text \<open>
  Whatever the configuration table holds, the retention is 1 to 120 months and the threshold
  50 to 99 percent; and after any sequence of the three requests each setting has the value of
  the last request whose value was allowed, its old value when there was none.
\<close>

theorem settings_hold_the_last_accepted:
  "1 \<le> get_retention_months ac \<and> get_retention_months ac \<le> 120
   \<and> 50 \<le> get_threshold ac \<and> get_threshold ac \<le> 99
   \<and> get_retention_months (serve_settings isdir rs ac) =
       last (get_retention_months ac # List.map_filter accepted_retention rs)
   \<and> get_threshold (serve_settings isdir rs ac) = last (get_threshold ac # List.map_filter accepted_threshold rs)
   \<and> is_enabled (serve_settings isdir rs ac) = last (is_enabled ac # List.map_filter accepted_switch rs)
   \<and> get_path (serve_settings isdir rs ac) = last (get_path ac # List.map_filter (accepted_path isdir) rs)"
  unfolding serve_settings_def
  by (intro conjI retention_in_range [THEN conjunct1] retention_in_range [THEN conjunct2]
      threshold_in_range [THEN conjunct1] threshold_in_range [THEN conjunct2]
      retention.load_fold threshold.load_fold autopurge.load_fold disk_path.load_fold)

section \<open>Months\<close>

text \<open>The order of the names is the order of the months.\<close>

lemma dec_val_shift: "dec_val a s = a * 10 ^ length s + dec_val 0 s"
proof (induction s arbitrary: a)
  case (Cons c cs)
  show ?case using Cons [of "10 * a + digit_val c"] Cons [of "digit_val c"] by (simp add: algebra_simps)
qed simp

lemma digit_less: "is_digit c \<Longrightarrow> is_digit d \<Longrightarrow> c < d \<longleftrightarrow> digit_val c < digit_val d"
  by (auto simp: less_char_def is_digit_def digit_val_def Let_def)

lemma digit_eq: "is_digit c \<Longrightarrow> is_digit d \<Longrightarrow> c = d \<longleftrightarrow> digit_val c = digit_val d"
  using digit_less [of c d] digit_less [of d c] by (metis less_irrefl linorder_neqE)

lemma digit_small: "is_digit c \<Longrightarrow> digit_val c \<le> 9"
  by (auto simp: is_digit_def digit_val_def Let_def)

lemma dec_val_bound: "list_all is_digit s \<Longrightarrow> dec_val 0 s < 10 ^ length s"
proof (induction s)
  case (Cons c cs)
  have "dec_val 0 (c # cs) = digit_val c * 10 ^ length cs + dec_val 0 cs"
    using dec_val_shift [of "digit_val c" cs] by simp
  also have "\<dots> < (digit_val c + 1) * 10 ^ length cs" using Cons by simp
  also have "\<dots> \<le> 10 * 10 ^ length cs" using Cons.prems digit_small [of c] by (intro mult_right_mono) auto
  finally show ?case by simp
qed simp

lemma digits_less:
  "length s = length t \<Longrightarrow> list_all is_digit s \<Longrightarrow> list_all is_digit t \<Longrightarrow> s < t \<longleftrightarrow> dec_val 0 s < dec_val 0 t"
proof (induction s t rule: list_induct2)
  case (Cons c cs d ds)
  let ?p = "10 ^ length ds :: nat"
  have v: "dec_val 0 (c # cs) = digit_val c * ?p + dec_val 0 cs" "dec_val 0 (d # ds) = digit_val d * ?p + dec_val 0 ds"
    using dec_val_shift [of "digit_val c" cs] dec_val_shift [of "digit_val d" ds] Cons.hyps by simp_all
  have b: "dec_val 0 cs < ?p" "dec_val 0 ds < ?p"
    using dec_val_bound [of cs] dec_val_bound [of ds] Cons.prems Cons.hyps by simp_all
  have less: "x < y \<Longrightarrow> a < ?p \<Longrightarrow> x * ?p + a < y * ?p + b" for x y a b :: nat
    using mult_le_mono1 [of "Suc x" y ?p] by simp
  show ?case
    using Cons digit_less [of c d] digit_eq [of c d] v b less [of "digit_val c" "digit_val d" "dec_val 0 cs" "dec_val 0 ds"]
      less [of "digit_val d" "digit_val c" "dec_val 0 ds" "dec_val 0 cs"]
    by (cases "digit_val c" "digit_val d" rule: linorder_cases) auto
qed simp

lemma length_show_nat: "0 < k \<Longrightarrow> n < 10 ^ k \<Longrightarrow> length (show_nat n) \<le> k"
proof (induction k arbitrary: n)
  case (Suc k)
  show ?case
  proof (cases "n < 10")
    case False
    then have "0 < k" using Suc.prems by (cases k) auto
    moreover have "n div 10 < 10 ^ k" using Suc.prems by (simp add: less_mult_imp_div_less mult.commute)
    ultimately have "length (show_nat (n div 10)) \<le> k" using Suc.IH by simp
    then show ?thesis using False by (simp add: show_nat.simps [of n])
  qed (simp add: show_nat.simps [of n])
qed simp

lemma dec_val_zeros [simp]: "dec_val 0 (replicate k (CHR ''0'') @ s) = dec_val 0 s"
  by (induction k) (simp_all add: digit_val_def)

lemma is_digit_zero [simp]: "is_digit (CHR ''0'')"
  by (simp add: is_digit_def)

lemma pad_facts:
  assumes "0 < k" and "n < 10 ^ k"
  shows "length (pad k (show_nat n)) = k" "list_all is_digit (pad k (show_nat n))" "dec_val 0 (pad k (show_nat n)) = n"
  using length_show_nat [OF assms]
  by (auto simp: pad_def list_all_iff show_nat_digits dec_val_show)

lemma append_less:
  fixes s t :: string
  shows "length s = length s' \<Longrightarrow> s @ t < s' @ t' \<longleftrightarrow> s < s' \<or> s = s' \<and> t < t'"
  by (induction s s' rule: list_induct2) auto

definition month_ok :: "month \<Rightarrow> bool" where
  "month_ok m \<longleftrightarrow> 1 \<le> fst m \<and> fst m \<le> 9999 \<and> 1 \<le> snd m \<and> snd m \<le> 12"

text \<open>The number of a month, counted from the year 0.\<close>

definition month_no :: "month \<Rightarrow> int" where
  "month_no m = 12 * fst m + snd m - 1"

lemma month_no_less:
  "month_ok m \<Longrightarrow> month_ok m' \<Longrightarrow> month_no m < month_no m' \<longleftrightarrow> fst m < fst m' \<or> fst m = fst m' \<and> snd m < snd m'"
  by (auto simp: month_ok_def month_no_def)

lemma month_no_inject: "month_ok m \<Longrightarrow> month_ok m' \<Longrightarrow> month_no m = month_no m' \<longleftrightarrow> m = m'"
  using month_no_less [of m m'] month_no_less [of m' m] by (metis less_irrefl linorder_neqE prod.expand)

lemma part_name_less:
  assumes "month_ok m" and "month_ok m'"
  shows "part_name m < part_name m' \<longleftrightarrow> month_no m < month_no m'"
proof -
  let ?y = "\<lambda>m. pad 4 (show_nat (nat (fst m)))" and ?n = "\<lambda>m. pad 2 (show_nat (nat (snd m)))"
  have y: "length (?y k) = 4" "list_all is_digit (?y k)" "dec_val 0 (?y k) = nat (fst k)" if "month_ok k" for k
  proof -
    have "nat (fst k) < 10 ^ 4" using that by (simp add: month_ok_def nat_less_iff)
    then show "length (?y k) = 4" "list_all is_digit (?y k)" "dec_val 0 (?y k) = nat (fst k)"
      by (rule pad_facts [rotated], simp)+
  qed
  have n: "length (?n k) = 2" "list_all is_digit (?n k)" "dec_val 0 (?n k) = nat (snd k)" if "month_ok k" for k
  proof -
    have "nat (snd k) < 10 ^ 2" using that by (simp add: month_ok_def nat_less_iff)
    then show "length (?n k) = 2" "list_all is_digit (?n k)" "dec_val 0 (?n k) = nat (snd k)"
      by (rule pad_facts [rotated], simp)+
  qed
  have nats: "nat (fst m) < nat (fst m') \<longleftrightarrow> fst m < fst m'" "nat (fst m) = nat (fst m') \<longleftrightarrow> fst m = fst m'"
      "nat (snd m) < nat (snd m') \<longleftrightarrow> snd m < snd m'"
    using assms unfolding month_ok_def by linarith+
  have "?y m < ?y m' \<longleftrightarrow> fst m < fst m'" "?n m < ?n m' \<longleftrightarrow> snd m < snd m'"
    using digits_less [of "?y m" "?y m'"] digits_less [of "?n m" "?n m'"] y [OF assms(1)] y [OF assms(2)]
      n [OF assms(1)] n [OF assms(2)] nats by metis+
  moreover have "?y m = ?y m' \<longleftrightarrow> fst m = fst m'"
    using y(3) [OF assms(1)] y(3) [OF assms(2)] nats(2) by metis
  moreover have "part_name m < part_name m' \<longleftrightarrow> ?y m < ?y m' \<or> ?y m = ?y m' \<and> ?n m < ?n m'"
    using append_less [of "?y m" "?y m'" "''_'' @ ?n m" "''_'' @ ?n m'"] y(1) [OF assms(1)] y(1) [OF assms(2)]
    unfolding part_name_def by (simp del: pad_def)
  ultimately have "part_name m < part_name m' \<longleftrightarrow> fst m < fst m' \<or> fst m = fst m' \<and> snd m < snd m'"
    by blast
  then show ?thesis using assms by (simp add: month_no_less)
qed

text \<open>A month begins where the one before it ends, after as many days as that one has.\<close>

lemma month_no_add: "month_no (month_add k m) = month_no m + k"
proof -
  have "12 * ((snd m - 1 + k) div 12) + (snd m - 1 + k) mod 12 = snd m - 1 + k" by simp
  then show ?thesis by (simp add: month_no_def month_add_def Let_def)
qed

lemma month_add_ok:
  assumes "1 \<le> fst (month_add k m)" and "fst (month_add k m) \<le> 9999"
  shows "month_ok (month_add k m)"
  using assms by (simp add: month_ok_def month_add_def Let_def)

lemma month_add_Suc:
  "month_ok m \<Longrightarrow> month_add 1 m = (if snd m = 12 then (fst m + 1, 1) else (fst m, snd m + 1))"
  by (auto simp: month_add_def month_ok_def Let_def)

lemma month_add_snd: "1 \<le> snd (month_add k m)" "snd (month_add k m) \<le> 12"
  by (simp_all add: month_add_def Let_def)

lemma month_no_eq:
  assumes "month_no a = month_no b" "1 \<le> snd a" "snd a \<le> 12" "1 \<le> snd b" "snd b \<le> 12"
  shows "a = b"
proof -
  have "x = x'" if "12 * x + z = 12 * x' + z'" "1 \<le> z" "z \<le> 12" "1 \<le> z'" "z' \<le> 12" for x x' z z' :: int
    using that by linarith
  then have "fst a = fst b" using assms by (auto simp: month_no_def)
  then show ?thesis using assms(1) by (simp add: month_no_def prod_eq_iff)
qed

lemma month_add_add: "month_add 1 (month_add k m) = month_add (k + 1) m"
  by (rule month_no_eq) (simp_all add: month_no_add month_add_snd)

lemma days_before_Suc:
  "1 \<le> m \<Longrightarrow> days_before_month y (m + 1) = days_before_month y m + int (days_in_month (nat y) (nat m))"
  by (simp add: days_before_month_def upto_rec2)

lemma div_ceil:
  fixes y k :: int
  assumes "1 < k" and j: "j = k - 1"
  shows "(y + j) div k = y div k + (if y mod k = 0 then 0 else 1)"
proof -
  have y: "y + (k - 1) = (y mod k + (k - 1)) + k * (y div k)" by simp
  have "(y mod k + (k - 1)) div k = (if y mod k = 0 then 0 else 1)"
  proof (cases "y mod k = 0")
    case False
    then have "0 \<le> y mod k - 1" "y mod k - 1 < k"
      using assms pos_mod_sign [of k y] pos_mod_bound [of k y] by linarith+
    then have "((y mod k - 1) + k) div k = 1" using assms by simp
    then show ?thesis using False by (simp add: algebra_simps)
  qed (use assms in simp)
  moreover have "(y + (k - 1)) div k = y div k + (y mod k + (k - 1)) div k"
    using assms by (subst y, subst div_mult_self2) simp_all
  ultimately show ?thesis by (simp add: j)
qed

lemma div_next:
  fixes y k :: int
  assumes "1 < k" and "j = k - 1"
  shows "(y + 1 + j) div k = y div k + 1"
proof -
  have "y + 1 + j = y + k" using assms(2) by simp
  then show ?thesis using assms by (simp only: div_add_self2)
qed

lemma year_length: "year_days (y + 1) - year_days y = 365 + (if y mod 4 = 0 then 1 else 0)
    - (if y mod 100 = 0 then 1 else 0) + (if y mod 400 = 0 then 1 else 0)"
proof -
  have c: "(y + 3) div 4 = y div 4 + (if y mod 4 = 0 then 0 else 1)"
    "(y + 99) div 100 = y div 100 + (if y mod 100 = 0 then 0 else 1)"
    "(y + 399) div 400 = y div 400 + (if y mod 400 = 0 then 0 else 1)"
    by (rule div_ceil; simp)+
  have n: "(y + 1 + 3) div 4 = y div 4 + 1" "(y + 1 + 99) div 100 = y div 100 + 1" "(y + 1 + 399) div 400 = y div 400 + 1"
    by (rule div_next; simp)+
  have "365 * (y + 1) + (a + 1) - (b + 1) + (c + 1) - (365 * y + (a + p) - (b + q) + (c + r))
      = 365 + (1 - p) - (1 - q) + (1 - r)" for a b c p q r :: int by simp
  then show ?thesis unfolding year_days_def c n by simp
qed

lemma months_of_year: "[1..12::int] = [1, 2, 3, 4, 5, 6, 7, 8, 9, 10, 11, 12]"
  by (simp add: upto_rec1)

lemma days_of_year: "days_before_month y 13 = (if is_leap (nat y) then 366 else 365)"
  by (simp add: days_before_month_def months_of_year days_in_month_def)

lemma leap_year: "1 \<le> y \<Longrightarrow> is_leap (nat y) \<longleftrightarrow> y mod 4 = 0 \<and> (y mod 100 \<noteq> 0 \<or> y mod 400 = 0)"
proof -
  assume "1 \<le> y"
  then obtain n where n: "y = int n" by (cases y) auto
  have "int n mod int k = 0 \<longleftrightarrow> n mod k = 0" for k by (metis of_nat_0 of_nat_eq_iff zmod_int)
  from this [of 4] this [of 100] this [of 400] show ?thesis unfolding n is_leap_def by simp
qed

lemma days_before_13:
  assumes "1 \<le> y"
  shows "days_before_month y 13 = year_days (y + 1) - year_days y"
proof -
  have "y mod 400 = 0 \<Longrightarrow> y mod 100 = 0" "y mod 100 = 0 \<Longrightarrow> y mod 4 = 0"
    using mod_mod_cancel [of 100 400 y] mod_mod_cancel [of 4 100 y] by simp_all
  then show ?thesis unfolding year_length days_of_year leap_year [OF assms]
    by (cases "y mod 400 = 0"; cases "y mod 100 = 0"; cases "y mod 4 = 0") simp_all
qed

lemma month_start_next:
  assumes "month_ok m"
  shows "month_start tz (month_add 1 m) = month_start tz m + days (int (days_in_month (nat (fst m)) (nat (snd m))))"
proof (cases "snd m = 12")
  case True
  have "days_before_month (fst m) 13 = days_before_month (fst m) 12 + int (days_in_month (nat (fst m)) (nat 12))"
    using days_before_Suc [of 12 "fst m"] by simp
  then show ?thesis
    using assms True days_before_13 [of "fst m"]
    by (simp add: month_add_Suc month_start_def month_ok_def days_before_month_def [of _ 1] algebra_simps)
next
  case False
  then show ?thesis
    using assms days_before_Suc [of "snd m" "fst m"]
    by (simp add: month_add_Suc month_start_def month_ok_def algebra_simps)
qed

lemma month_start_step: "month_ok m \<Longrightarrow> month_start tz m < month_start tz (month_add 1 m)"
  by (simp add: month_start_next days_in_month_def)

lemma month_start_mono_aux:
  assumes "month_ok m" and "fst (month_add (int k) m) \<le> 9999"
  shows "month_start tz m \<le> month_start tz (month_add (int k) m) \<and> month_ok (month_add (int k) m)"
  using assms(2)
proof (induction k)
  case 0
  have "month_add 0 m = m" using assms(1) by (cases m) (simp add: month_add_def month_ok_def)
  then show ?case using assms(1) by simp
next
  case (Suc k)
  have mono: "fst (month_add (int k) m) \<le> fst (month_add (int (Suc k)) m)"
    by (simp add: month_add_def Let_def zdiv_mono1)
  then have k: "month_start tz m \<le> month_start tz (month_add (int k) m)" "month_ok (month_add (int k) m)"
    using Suc by auto
  have "month_ok (month_add (int (Suc k)) m)"
    using k(2) mono Suc.prems by (intro month_add_ok) (auto simp: month_ok_def)
  moreover have "month_start tz (month_add (int k) m) < month_start tz (month_add (int (Suc k)) m)"
    using month_start_step [OF k(2)] by (simp add: month_add_add add.commute)
  ultimately show ?case using k by simp
qed

lemma month_add_diff: "month_ok m' \<Longrightarrow> month_add (month_no m' - month_no m) m = m'"
  by (rule month_no_eq) (simp_all add: month_no_add month_add_snd month_ok_def)

lemma month_start_mono:
  assumes "month_ok m" "month_ok m'" "month_no m \<le> month_no m'"
  shows "month_start tz m \<le> month_start tz m'"
  using month_start_mono_aux [OF assms(1), of "nat (month_no m' - month_no m)" tz]
    month_add_diff [OF assms(2), of m] assms by (simp add: month_ok_def)

section \<open>What the table keeps\<close>

definition part_ok :: "time \<Rightarrow> partition \<Rightarrow> bool" where
  "part_ok tz p \<longleftrightarrow> (\<exists>m. month_ok m \<and> pt_name p = part_name m \<and> pt_from p = month_start tz m
     \<and> pt_to p = month_start tz (month_add 1 m) \<and> list_all (in_range (pt_from p) (pt_to p)) (pt_rows p))"

definition storage_ok :: "time \<Rightarrow> storage \<Rightarrow> bool" where
  "storage_ok tz st \<longleftrightarrow> distinct (map pt_name (st_parts st)) \<and> list_all (part_ok tz) (st_parts st)
     \<and> (\<forall>x \<in> set (st_default st). \<forall>p \<in> set (st_parts st). \<not> in_range (pt_from p) (pt_to p) x)"

definition all_rows :: "storage \<Rightarrow> log list" where
  "all_rows st = st_default st @ concat (map pt_rows (st_parts st))"

text \<open>
  The operations of the start-up, the write buffer, the disk guard and the storage page, each with
  the month of the clock it reads. The rebalance of the default partition, whose statements are in
  a script, and the cascade of the deletion of a device are not among them.
\<close>

datatype storage_op =
    StartUp month accounts
  | Insert log
  | Guard "string \<Rightarrow> (nat \<times> nat) option" "string \<Rightarrow> (nat \<times> nat) option" month accounts
  | DropPartition month string

fun run_op :: "time \<Rightarrow> storage_op \<Rightarrow> storage \<Rightarrow> storage" where
  "run_op tz (StartUp now ac) st = ensure_partitions tz now ac st"
| "run_op tz (Insert x) st = insert_log x st"
| "run_op tz (Guard du du' now ac) st = snd (snd (enforce du du' now ac st))"
| "run_op tz (DropPartition now name) st = (case drop_partition now name st of Inl e \<Rightarrow> st | Inr st' \<Rightarrow> st')"

text \<open>The clock: a start-up creates partitions up to ten years back and two months ahead.\<close>

fun op_ok :: "storage_op \<Rightarrow> bool" where
  "op_ok (StartUp now ac) \<longleftrightarrow> month_ok now \<and> 12 \<le> fst now \<and> fst now \<le> 9998"
| "op_ok (Insert x) \<longleftrightarrow> True"
| "op_ok (Guard du du' now ac) \<longleftrightarrow> month_ok now"
| "op_ok (DropPartition now name) \<longleftrightarrow> month_ok now"

fun op_month :: "storage_op \<Rightarrow> month option" where
  "op_month (Guard du du' now ac) = Some now"
| "op_month (DropPartition now name) = Some now"
| "op_month _ = None"

fun inserted :: "storage_op \<Rightarrow> log list" where
  "inserted (Insert x) = [x]"
| "inserted _ = []"

lemma part_name_inject: "month_ok m \<Longrightarrow> month_ok m' \<Longrightarrow> part_name m = part_name m' \<longleftrightarrow> m = m'"
  using part_name_less [of m m'] part_name_less [of m' m] month_no_inject [of m m']
  by (metis less_irrefl linorder_neqE)

lemma drop_table_ok: "storage_ok tz st \<Longrightarrow> storage_ok tz (drop_table name st)"
  by (auto simp: storage_ok_def drop_table_def distinct_map list_all_iff intro: inj_on_subset)

lemma ensure_partition_cases:
  "ensure_partition tz now k st = st
   \<or> (let m = month_add k now; p = \<lparr>pt_name = part_name m, pt_from = month_start tz m,
         pt_to = month_start tz (month_add 1 m), pt_rows = []\<rparr>
      in ensure_partition tz now k st = st\<lparr>st_parts := st_parts st @ [p]\<rparr>
        \<and> part_name m \<notin> set (map pt_name (st_parts st))
        \<and> (\<forall>x \<in> set (st_default st). \<not> in_range (pt_from p) (pt_to p) x))"
  by (auto simp: ensure_partition_def Let_def month_add_add list_ex_iff)

lemma new_part_ok:
  "month_ok m \<Longrightarrow> part_ok tz \<lparr>pt_name = part_name m, pt_from = month_start tz m,
     pt_to = month_start tz (month_add 1 m), pt_rows = []\<rparr>"
  unfolding part_ok_def by (rule exI [of _ m]) simp

lemma ensure_partition_ok:
  assumes "storage_ok tz st" and "month_ok (month_add k now)"
  shows "storage_ok tz (ensure_partition tz now k st)"
  using ensure_partition_cases [of tz now k st] assms
  by (auto simp: storage_ok_def Let_def new_part_ok)

lemma ensure_months_ok:
  assumes "month_ok now" "12 \<le> fst now" "fst now \<le> 9998" "- 120 \<le> k" "k \<le> 2"
  shows "month_ok (month_add k now)"
proof (rule month_add_ok)
  have "- 10 \<le> (snd now - 1 + k) div 12" "(snd now - 1 + k) div 12 \<le> 1"
    using assms zdiv_mono1 [of "- 120" "snd now - 1 + k" 12] zdiv_mono1 [of "snd now - 1 + k" 13 12]
    by (auto simp: month_ok_def)
  then show "1 \<le> fst (month_add k now)" "fst (month_add k now) \<le> 9999"
    using assms by (simp_all add: month_add_def Let_def)
qed

lemma ensure_partitions_ok:
  assumes "storage_ok tz st" and now: "month_ok now" "12 \<le> fst now" "fst now \<le> 9998"
  shows "storage_ok tz (ensure_partitions tz now ac st)"
proof -
  have "storage_ok tz (fold (ensure_partition tz now) ks st)" if "set ks \<subseteq> {- 120..2}" "storage_ok tz st" for ks st
    using that
  proof (induction ks arbitrary: st)
    case (Cons k ks)
    have "month_ok (month_add k now)" using Cons.prems by (intro ensure_months_ok [OF now]) auto
    then have "storage_ok tz (ensure_partition tz now k st)" by (rule ensure_partition_ok [OF Cons.prems(2)])
    then show ?case using Cons by simp
  qed simp
  from this [of _ st] show ?thesis
    unfolding ensure_partitions_def PARTITION_FUTURE_MONTHS_def using assms(1) retention_in_range [of ac] by auto
qed

lemma insert_part_None: "insert_part x ps = None \<longleftrightarrow> (\<forall>p \<in> set ps. \<not> in_range (pt_from p) (pt_to p) x)"
  by (induction ps) auto

lemma insert_part_Some:
  "insert_part x ps = Some qs \<Longrightarrow> \<exists>us p vs. ps = us @ p # vs \<and> in_range (pt_from p) (pt_to p) x
     \<and> qs = us @ p\<lparr>pt_rows := pt_rows p @ [x]\<rparr> # vs"
proof (induction ps arbitrary: qs)
  case (Cons p ps)
  show ?case
  proof (cases "in_range (pt_from p) (pt_to p) x")
    case True
    then show ?thesis using Cons.prems by (intro exI [of _ "[]"] exI [of _ p] exI [of _ ps]) simp
  next
    case False
    then obtain qs' where q: "insert_part x ps = Some qs'" "qs = p # qs'" using Cons.prems by auto
    from Cons.IH [OF q(1)] obtain us p' vs where "ps = us @ p' # vs" "in_range (pt_from p') (pt_to p') x"
      "qs' = us @ p'\<lparr>pt_rows := pt_rows p' @ [x]\<rparr> # vs" by blast
    then show ?thesis using q(2) by (intro exI [of _ "p # us"] exI [of _ p'] exI [of _ vs]) simp
  qed
qed simp

lemma insert_log_ok: "storage_ok tz st \<Longrightarrow> storage_ok tz (insert_log x st)"
proof (cases "insert_part x (st_parts st)")
  case None
  have "insert_log x st = st\<lparr>st_default := st_default st @ [x]\<rparr>" by (simp add: insert_log_def None)
  then show "storage_ok tz st \<Longrightarrow> ?thesis"
    using None by (auto simp: storage_ok_def insert_part_None)
next
  case (Some ps)
  from insert_part_Some [OF Some] obtain us p vs where "st_parts st = us @ p # vs" "in_range (pt_from p) (pt_to p) x"
      "ps = us @ p\<lparr>pt_rows := pt_rows p @ [x]\<rparr> # vs" by blast
  then show "storage_ok tz st \<Longrightarrow> ?thesis"
    using Some by (auto simp: insert_log_def storage_ok_def part_ok_def)
qed

lemma enforce_state:
  "snd (snd (enforce du du' now ac st)) = st \<or>
   (\<exists>v. v \<in> set (purgeable_partitions now st) \<and> snd (snd (enforce du du' now ac st)) = drop_table v st)"
proof -
  have "hd ts \<in> set ts" if "\<not> length ts \<le> 1" for ts :: "string list" using that by (cases ts) auto
  then show ?thesis unfolding enforce_def by (auto simp: Let_def split: prod.split)
qed

lemma purgeable_iff:
  "v \<in> set (purgeable_partitions now st) \<longleftrightarrow>
     is_month_name v \<and> v < part_name now \<and> (\<exists>p \<in> set (st_parts st). pt_name p = v \<and> pt_rows p \<noteq> [])"
  by (auto simp: purgeable_partitions_def Let_def list_ex_iff)

lemma run_op_cases:
  "(\<exists>now ac. x = StartUp now ac \<and> run_op tz x st = ensure_partitions tz now ac st)
   \<or> (\<exists>l. x = Insert l \<and> run_op tz x st = insert_log l st)
   \<or> run_op tz x st = st
   \<or> (\<exists>now v. op_month x = Some now \<and> inserted x = [] \<and> v < part_name now \<and> run_op tz x st = drop_table v st)"
proof (cases x)
  case (Guard du du' now ac)
  then show ?thesis using enforce_state [of du du' now ac st] by (auto simp: purgeable_iff)
next
  case (DropPartition now name)
  then show ?thesis by (auto simp: drop_partition_def bad_request_def)
qed auto

lemma run_op_ok: "storage_ok tz st \<Longrightarrow> op_ok x \<Longrightarrow> storage_ok tz (run_op tz x st)"
  using run_op_cases [of x tz st] ensure_partitions_ok insert_log_ok drop_table_ok by fastforce

text \<open>
  C22: the monthly layout holds whatever happens: partitions have distinct names, each of them is the
  partition of the month it is named after and holds rows of that month only, and no row of the
  default partition belongs to a partition that exists.
\<close>

theorem storage_stays_sound:
  "storage_ok tz st \<Longrightarrow> list_all op_ok ops \<Longrightarrow> storage_ok tz (fold (run_op tz) ops st)"
  by (induction ops arbitrary: st) (simp_all add: run_op_ok)


lemma month_ok_startup: "month_ok (2026, 9) \<and> op_ok (StartUp (2026, 9) ac)"
  by (simp add: month_ok_def)

theorem storage_stays_sound_witness:
  "storage_ok 0 (run_op 0 (DropPartition (2026, 9) ''ftp_logs_2025_01'')
     (run_op 0 (Insert (sample_log 0)) (ensure_partitions 0 (2026, 9) sample_accounts \<lparr>st_partitioned = True, st_parts = [], st_default = [], st_loose = []\<rparr>)))"
proof -
  have "storage_ok 0 \<lparr>st_partitioned = True, st_parts = [], st_default = [], st_loose = []\<rparr>" by (simp add: storage_ok_def)
  from storage_stays_sound [OF this, of "[StartUp (2026, 9) sample_accounts, Insert (sample_log 0),
      DropPartition (2026, 9) ''ftp_logs_2025_01'']"]
  show ?thesis by (simp add: month_ok_def)
qed

lemma rows_ensure_partitions: "all_rows (ensure_partitions tz now ac st) = all_rows st"
proof -
  have "all_rows (ensure_partition tz now k st) = all_rows st" for k st
    using ensure_partition_cases [of tz now k st] by (auto simp: all_rows_def Let_def)
  then have "all_rows (fold (ensure_partition tz now) ks st) = all_rows st" for ks
    by (induction ks arbitrary: st) auto
  then show ?thesis by (simp add: ensure_partitions_def)
qed

lemma rows_insert_log: "mset (all_rows (insert_log x st)) = add_mset x (mset (all_rows st))"
proof (cases "insert_part x (st_parts st)")
  case None
  then show ?thesis by (simp add: insert_log_def all_rows_def)
next
  case (Some ps)
  from insert_part_Some [OF Some] obtain us p vs where "st_parts st = us @ p # vs"
      "ps = us @ p\<lparr>pt_rows := pt_rows p @ [x]\<rparr> # vs" by blast
  then show ?thesis using Some by (simp add: insert_log_def all_rows_def)
qed

lemma old_part_rows:
  assumes "part_ok tz p" "pt_name p < part_name now" "month_ok now" "month_ok m" "month_no now \<le> month_no m"
    and "x \<in> set (pt_rows p)"
  shows "lg_time x < month_start tz m"
proof -
  obtain k where k: "month_ok k" "pt_name p = part_name k" "pt_to p = month_start tz (month_add 1 k)"
      "in_range (pt_from p) (pt_to p) x"
    using assms(1,6) by (auto simp: part_ok_def list_all_iff)
  then have less: "month_no k < month_no now" using assms(2,3) by (simp add: part_name_less)
  then have "month_no k < month_no m" "fst k \<le> fst m" using assms(5) k(1) assms(4) by (auto simp: month_no_def month_ok_def)
  then have "month_ok (month_add 1 k)"
    using k(1) assms(4) by (auto simp: month_add_Suc month_ok_def month_no_def)
  then have "month_start tz (month_add 1 k) \<le> month_start tz m"
    using assms(4) \<open>month_no k < month_no m\<close> by (intro month_start_mono) (simp_all add: month_no_add)
  then show ?thesis using k(3,4) by (simp add: in_range_def)
qed

abbreviation since :: "time \<Rightarrow> log list \<Rightarrow> log list" where
  "since t xs \<equiv> filter (\<lambda>x. t \<le> lg_time x) xs"

lemma rows_drop_table:
  assumes "storage_ok tz st" "v < part_name now" "month_ok now" "month_ok m" "month_no now \<le> month_no m"
  shows "since (month_start tz m) (all_rows (drop_table v st)) = since (month_start tz m) (all_rows st)"
proof -
  have "since (month_start tz m) (concat (map pt_rows (filter (\<lambda>p. pt_name p \<noteq> v) ps)))
      = since (month_start tz m) (concat (map pt_rows ps))" if "list_all (part_ok tz) ps" for ps
    using that
  proof (induction ps)
    case (Cons p ps)
    have "since (month_start tz m) (pt_rows p) = []" if "pt_name p = v"
      using old_part_rows [of tz p now m] that Cons.prems assms by (auto simp: filter_empty_conv not_le)
    then show ?case using Cons by auto
  qed simp
  then show ?thesis using assms(1) by (simp add: all_rows_def drop_table_def storage_ok_def)
qed

lemma rows_run_op:
  assumes "storage_ok tz st" "op_ok x" "month_ok m"
    and "\<forall>now. op_month x = Some now \<longrightarrow> month_no now \<le> month_no m"
  shows "mset (since (month_start tz m) (all_rows (run_op tz x st)))
       = mset (since (month_start tz m) (inserted x)) + mset (since (month_start tz m) (all_rows st))"
proof -
  have ok: "op_month x = Some now \<Longrightarrow> month_ok now" for now using assms(2) by (cases x) auto
  consider now ac where "x = StartUp now ac" "run_op tz x st = ensure_partitions tz now ac st"
    | l where "x = Insert l" "run_op tz x st = insert_log l st"
    | "inserted x = []" "run_op tz x st = st"
    | now v where "op_month x = Some now" "inserted x = []" "v < part_name now" "run_op tz x st = drop_table v st"
    using run_op_cases [of x tz st] by (cases x) auto
  then show ?thesis
  proof cases
    case 2
    then show ?thesis using rows_insert_log [of l st] by (simp add: mset_filter)
  next
    case 4
    then show ?thesis using assms ok rows_drop_table [of tz st v now m] by simp
  qed (simp_all add: rows_ensure_partitions)
qed

text \<open>
  C23: nothing that the start-up, the inserts, the disk guard and the deletion of partitions do loses a
  row that is not old: as long as the clock they read is not past a month, every row from the
  beginning of that month on is kept, exactly once, in whichever partition it is. (The deletion of
  a device, which takes its rows with it, and the script that moves rows out of the default
  partition are not among these operations.)
\<close>

theorem recent_rows_survive:
  assumes "storage_ok tz st" and "month_ok m" and "list_all op_ok ops"
    and "\<forall>x \<in> set ops. \<forall>now. op_month x = Some now \<longrightarrow> month_no now \<le> month_no m"
  shows "mset (since (month_start tz m) (all_rows (fold (run_op tz) ops st)))
       = mset (since (month_start tz m) (concat (map inserted ops) @ all_rows st))"
  using assms(1,3,4)
proof (induction ops arbitrary: st)
  case (Cons x xs)
  have "storage_ok tz (run_op tz x st)" using Cons.prems by (simp add: run_op_ok)
  then have "mset (since (month_start tz m) (all_rows (fold (run_op tz) xs (run_op tz x st))))
      = mset (since (month_start tz m) (concat (map inserted xs) @ all_rows (run_op tz x st)))"
    using Cons.prems by (intro Cons.IH) auto
  then show ?case
    using rows_run_op [of tz st x m] Cons.prems assms(2) by (simp add: union_ac)
qed simp

theorem recent_rows_survive_witness:
  "mset (since (month_start 0 (2026, 9)) (all_rows (run_op 0 (DropPartition (2026, 9) ''ftp_logs_2025_01'')
     (run_op 0 (Insert (sample_log (days 30000))) \<lparr>st_partitioned = True, st_parts = [], st_default = [], st_loose = []\<rparr>)))) = {#sample_log (days 30000)#}"
proof -
  have ok: "storage_ok 0 \<lparr>st_partitioned = True, st_parts = [], st_default = [], st_loose = []\<rparr>" "month_ok (2026, 9)"
    by (simp_all add: storage_ok_def month_ok_def)
  have "month_start 0 (2026, 9) \<le> days 30000"
    by (simp add: month_start_def year_days_def days_before_month_def days_in_month_def upto_rec1 is_leap_def)
  then show ?thesis
    using recent_rows_survive [OF ok, of "[Insert (sample_log (days 30000)), DropPartition (2026, 9) ''ftp_logs_2025_01'']"]
    by (simp add: all_rows_def sample_log_def month_ok_def)
qed

lemma part_name_is_month: "month_ok m \<Longrightarrow> is_month_name (part_name m)"
proof -
  assume m: "month_ok m"
  have y: "length (pad 4 (show_nat (nat (fst m)))) = 4" "list_all is_digit (pad 4 (show_nat (nat (fst m))))"
    using pad_facts(1,2) [of 4 "nat (fst m)"] m by (simp_all add: month_ok_def nat_less_iff)
  have n: "length (pad 2 (show_nat (nat (snd m)))) = 2" "list_all is_digit (pad 2 (show_nat (nat (snd m))))"
    using pad_facts(1,2) [of 2 "nat (snd m)"] m by (simp_all add: month_ok_def nat_less_iff)
  have "is_month_name (''ftp_logs_'' @ u @ ''_'' @ w)"
    if "length u = 4" "list_all is_digit u" "length w = 2" "list_all is_digit w" for u w
    using that by (simp add: is_month_name_def nth_append)
  from this [OF y n] show ?thesis by (simp add: part_name_def)
qed

lemma sort_Nil_iff [simp]: "sort xs = [] \<longleftrightarrow> xs = []"
  by (metis length_0_conv length_sort)

lemma filter_neq: "filter (\<lambda>n. n \<noteq> v) xs = removeAll v xs"
  by (induction xs) auto

definition past_parts :: "month \<Rightarrow> storage \<Rightarrow> partition list" where
  "past_parts now st = filter (\<lambda>p. pt_name p < part_name now \<and> pt_rows p \<noteq> []) (st_parts st)"

lemma purgeable_past:
  assumes "storage_ok tz st"
  shows "purgeable_partitions now st = sort (map pt_name (past_parts now st))"
proof -
  let ?ps = "st_parts st" and ?full = "\<lambda>n. list_ex (\<lambda>p. pt_name p = n \<and> pt_rows p \<noteq> []) (st_parts st)"
  have names: "filter is_month_name (map pt_name ?ps) = map pt_name ?ps"
    using assms part_name_is_month by (intro filter_True) (auto simp: storage_ok_def part_ok_def list_all_iff)
  have full: "?full (pt_name p) \<longleftrightarrow> pt_rows p \<noteq> []" if "p \<in> set ?ps" for p
    using assms that by (auto simp: storage_ok_def list_ex_iff distinct_map dest: inj_onD)
  have "filter (\<lambda>n. n < part_name now \<and> ?full n) (map pt_name ?ps) = map pt_name (past_parts now st)"
    by (auto simp: past_parts_def filter_map comp_def full intro!: arg_cong [where f = "map pt_name"] filter_cong)
  moreover have "purgeable_partitions now st = sort (filter (\<lambda>n. n < part_name now \<and> ?full n) (map pt_name ?ps))"
    unfolding purgeable_partitions_def Let_def names filter_filter filter_sort by simp
  ultimately show ?thesis by simp
qed

lemma drop_oldest:
  assumes "storage_ok tz st" and "past_parts now st \<noteq> []"
  defines "v \<equiv> hd (purgeable_partitions now st)"
  shows "v \<in> pt_name ` set (past_parts now st) \<and> (\<forall>p \<in> set (st_parts st). pt_rows p \<noteq> [] \<longrightarrow> v \<le> pt_name p)
    \<and> length (past_parts now (drop_table v st)) = length (past_parts now st) - 1"
proof -
  let ?past = "past_parts now st" and ?ts = "purgeable_partitions now st"
  have ts: "?ts \<noteq> []" "sorted ?ts" "set ?ts = pt_name ` set ?past" using assms(2) by (auto simp: purgeable_past [OF assms(1)])
  have v: "v \<in> pt_name ` set ?past" using ts(1,3) hd_in_set unfolding v_def by blast
  have least: "v \<le> n" if "n \<in> set ?ts" for n using ts(1,2) that by (cases ?ts) (auto simp: v_def)
  have "v \<le> pt_name p" if "p \<in> set (st_parts st)" "pt_rows p \<noteq> []" for p
    using that v ts(3) least [of "pt_name p"] by (cases "pt_name p < part_name now") (auto simp: past_parts_def)
  moreover have "past_parts now (drop_table v st) = filter (\<lambda>p. pt_name p \<noteq> v) ?past"
    by (auto simp: past_parts_def drop_table_def intro: filter_cong)
  moreover have "length (filter (\<lambda>p. pt_name p \<noteq> v) ?past) = length ?past - 1"
  proof -
    have d: "distinct (map pt_name ?past)"
      using assms(1) by (auto simp: storage_ok_def past_parts_def distinct_map intro: inj_on_subset)
    have "length (filter (\<lambda>p. pt_name p \<noteq> v) ?past) = length (filter (\<lambda>n. n \<noteq> v) (map pt_name ?past))"
      by (simp add: filter_map comp_def)
    also have "\<dots> = length (remove1 v (map pt_name ?past))"
      using d by (simp only: filter_neq distinct_remove1_removeAll)
    finally show ?thesis using v by (simp add: length_remove1)
  qed
  ultimately show ?thesis using v by simp
qed

text \<open>
  C24: the disk guard deletes a partition exactly when it is switched on, the disk can be read and is
  at or above the threshold, and at least two partitions of past months have rows. It deletes
  one, the oldest that has rows, and leaves a past month with rows.
\<close>

theorem guard_takes_the_oldest:
  assumes "storage_ok tz st" and "month_ok now"
  shows "case enforce du du' now ac st of
      (None, note, st') \<Rightarrow> st' = st
        \<and> (is_enabled ac \<and> 0 < fst (usage du (get_path ac))
             \<and> of_int (get_threshold ac) \<le> disk_percent du (get_path ac) \<longrightarrow> length (past_parts now st) \<le> 1)
    | (Some v, note, st') \<Rightarrow> is_enabled ac \<and> 0 < fst (usage du (get_path ac))
        \<and> of_int (get_threshold ac) \<le> disk_percent du (get_path ac)
        \<and> st' = drop_table v st \<and> v \<in> pt_name ` set (past_parts now st)
        \<and> (\<forall>p \<in> set (st_parts st). pt_rows p \<noteq> [] \<longrightarrow> v \<le> pt_name p)
        \<and> past_parts now st' \<noteq> [] \<and> length (past_parts now st') = length (past_parts now st) - 1"
proof -
  obtain tot used pct where u: "usage du (get_path ac) = (tot, used, pct)" by (cases "usage du (get_path ac)") auto
  have pct: "disk_percent du (get_path ac) = pct" by (simp add: disk_percent_def u)
  let ?go = "is_enabled ac \<and> 0 < tot \<and> of_int (get_threshold ac) \<le> pct"
  let ?v = "hd (purgeable_partitions now st)"
  have len: "length (purgeable_partitions now st) = length (past_parts now st)" by (simp add: purgeable_past [OF assms(1)])
  show ?thesis
  proof (cases "?go \<and> 1 < length (past_parts now st)")
    case False
    then have "fst (enforce du du' now ac st) = None \<and> snd (snd (enforce du du' now ac st)) = st"
      using u by (auto simp: enforce_def Let_def len)
    then show ?thesis using False u pct by (cases "enforce du du' now ac st") auto
  next
    case True
    then have "past_parts now st \<noteq> []" by auto
    note d = drop_oldest [OF assms(1) this]
    have "\<exists>note. enforce du du' now ac st = (Some ?v, note, drop_table ?v st)"
      using True u by (auto simp: enforce_def Let_def len not_less)
    moreover have "past_parts now (drop_table ?v st) \<noteq> []" using d True by fastforce
    ultimately show ?thesis using True d u pct by auto
  qed
qed

definition sample_part :: "month \<Rightarrow> partition" where
  "sample_part m = \<lparr>pt_name = part_name m, pt_from = month_start 0 m, pt_to = month_start 0 (month_add 1 m),
     pt_rows = [sample_log (month_start 0 m)]\<rparr>"

definition sample_storage :: storage where
  "sample_storage = \<lparr>st_partitioned = True, st_parts = [sample_part (2025, 2), sample_part (2025, 1)], st_default = [], st_loose = []\<rparr>"

lemma sample_storage_ok: "storage_ok 0 sample_storage"
proof -
  have "month_ok m \<Longrightarrow> part_ok 0 (sample_part m)" for m
    unfolding part_ok_def using month_start_step [of m 0]
    by (intro exI [of _ m]) (simp add: sample_part_def in_range_def sample_log_def)
  moreover have "part_name (2025, 2) \<noteq> part_name (2025, 1)" by (subst part_name_inject) (simp_all add: month_ok_def)
  ultimately show ?thesis by (simp add: storage_ok_def sample_storage_def sample_part_def month_ok_def)
qed

lemma sample_past: "past_parts (2026, 9) sample_storage = [sample_part (2025, 2), sample_part (2025, 1)]"
  by (simp add: past_parts_def sample_storage_def sample_part_def part_name_less month_ok_def month_no_def)

theorem guard_takes_the_oldest_witness:
  "fst (enforce (\<lambda>_. Some (100, 5)) (\<lambda>_. Some (100, 20)) (2026, 9) sample_accounts sample_storage) = Some (part_name (2025, 1))"
proof -
  let ?e = "enforce (\<lambda>_. Some (100, 5)) (\<lambda>_. Some (100, 20)) (2026, 9) sample_accounts sample_storage"
  have on: "is_enabled sample_accounts" "get_threshold sample_accounts = 90"
    by (simp_all add: load_defs sample_accounts_def get_config_def to_lower_def Let_def DEFAULT_THRESHOLD_def
        py_int_def strip_def lstrip_def is_space_def is_digit_def keys)
  have disk: "disk_percent (\<lambda>_. Some (100, 5)) p = 95" "0 < fst (usage (\<lambda>_. Some (100, 5)) p)" for p
    by (simp_all add: disk_percent_def usage_def round1_def)
  have m: "month_ok (2026, 9)" by (simp add: month_ok_def)
  have least: "v = part_name (2025, 1)"
    if "v \<in> {part_name (2025, 2), part_name (2025, 1)}" "v \<le> part_name (2025, 1)" for v
    using that part_name_less [of "(2025, 1)" "(2025, 2)"] by (auto simp: month_ok_def month_no_def)
  obtain v n s where e: "?e = (v, n, s)" by (cases ?e) auto
  note g = guard_takes_the_oldest [OF sample_storage_ok m, where du = "\<lambda>_. Some (100, 5)"
      and du' = "\<lambda>_. Some (100, 20)" and ac = sample_accounts, unfolded e sample_past prod.case]
  show ?thesis
  proof (cases v)
    case None
    then show ?thesis using g on disk by simp
  next
    case (Some w)
    then have "w \<in> pt_name ` set [sample_part (2025, 2), sample_part (2025, 1)]"
      and "\<forall>p \<in> set (st_parts sample_storage). pt_rows p \<noteq> [] \<longrightarrow> w \<le> pt_name p" using g by simp_all
    then have "w = part_name (2025, 1)" by (intro least) (simp_all add: sample_storage_def sample_part_def)
    then show ?thesis using Some e by simp
  qed
qed

text \<open>
  After a start-up every month from the beginning of the retention to two months ahead has its
  partition, unless rows of the month are left in the default partition, or a table of its name
  stands alone.
\<close>

definition month_ready :: "time \<Rightarrow> month \<Rightarrow> storage \<Rightarrow> bool" where
  "month_ready tz m st \<longleftrightarrow> part_name m \<in> pt_name ` set (st_parts st) \<or> List.member (st_loose st) (part_name m)
     \<or> list_ex (in_range (month_start tz m) (month_start tz (month_add 1 m))) (st_default st)"

lemma month_ready_kept: "month_ready tz m st \<Longrightarrow> month_ready tz m (ensure_partition tz now k st)"
  using ensure_partition_cases [of tz now k st] by (auto simp: month_ready_def Let_def)

lemma month_ready_made: "month_ready tz (month_add k now) (ensure_partition tz now k st)"
  by (force simp: month_ready_def ensure_partition_def Let_def month_add_add list_ex_iff)

lemma month_ready_fold:
  "month_ready tz m st \<or> m \<in> (\<lambda>k. month_add k now) ` set ks \<Longrightarrow> month_ready tz m (fold (ensure_partition tz now) ks st)"
  by (induction ks arbitrary: st) (auto simp: month_ready_kept month_ready_made)

lemma started_months_are_ready:
  assumes "st_partitioned st" and "- get_retention_months ac \<le> k" and "k \<le> 2"
  shows "month_ready tz (month_add k now) (ensure_partitions tz now ac st)"
  using assms month_ready_fold [of tz "month_add k now" st now "[- get_retention_months ac..2]"]
  by (simp add: ensure_partitions_def PARTITION_FUTURE_MONTHS_def)

end
