(* ===== verification/AlertConfig.thy ===== *)
theory AlertConfig
  imports Storage Detect
begin

text \<open>
  The thresholds of the detection: \<open>alert_settings.py\<close>, its routes in \<open>routers/settings.py\<close>
  and the ranges of \<open>schemas.AlertSettings\<close>.

  A value is a float, an integer or a text. The environment \<open>env\<close> gives the values of
  \<open>config.Settings\<close> by field; \<open>settings_defaults\<close> is what the class has without a \<open>.env\<close> file.
  \<open>repr\<close> is \<open>str\<close> of a float, which the configuration table keeps; of it the model knows, for
  the numbers that are sent, that \<open>float\<close> reads it back.
\<close>

section \<open>Fields\<close>

datatype cast = CFloat | CInt | CStr

datatype setting_value = SetFloat pyfloat | SetInt int | SetStr string

definition alert_key :: "string \<Rightarrow> string" where
  "alert_key name = ''alert_'' @ name"

definition FIELDS :: "(string \<times> cast) list" where
  "FIELDS =
     [(''mad_k'', CFloat), (''fail_rate_floor'', CFloat), (''login_fail_rate_floor'', CFloat),
      (''throughput_drop'', CFloat), (''throughput_slow_pct'', CFloat), (''cwd_fail_floor'', CInt),
      (''cwd_ignore_paths'', CStr), (''xfer_ignore_accounts'', CStr), (''min_streak_buckets'', CInt),
      (''min_streak_throughput'', CInt), (''min_samples'', CInt), (''min_login_samples'', CInt),
      (''min_cwd_samples'', CInt), (''min_large_samples'', CInt)]"

definition settings_defaults :: "(string \<times> setting_value) list" where
  "settings_defaults =
     [(''mad_k'', SetFloat (Finite 4)), (''min_samples'', SetInt 20), (''min_streak_buckets'', SetInt 2),
      (''min_streak_throughput'', SetInt 3), (''min_large_samples'', SetInt 5), (''min_login_samples'', SetInt 10),
      (''min_cwd_samples'', SetInt 5), (''fail_rate_floor'', SetFloat (Finite (5 / 100))),
      (''login_fail_rate_floor'', SetFloat (Finite (30 / 100))), (''cwd_fail_floor'', SetInt 20),
      (''cwd_ignore_paths'', SetStr []), (''xfer_ignore_accounts'', SetStr []),
      (''throughput_drop'', SetFloat (Finite (6 / 10))), (''throughput_slow_pct'', SetFloat (Finite (5 / 100)))]"

fun cast_str :: "cast \<Rightarrow> string \<Rightarrow> setting_value option" where
  "cast_str CFloat raw = map_option SetFloat (py_float raw)"
| "cast_str CInt raw = map_option SetInt (py_int raw)"
| "cast_str CStr raw = Some (SetStr raw)"

fun str_value :: "(pyfloat \<Rightarrow> string) \<Rightarrow> setting_value \<Rightarrow> string" where
  "str_value repr (SetFloat x) = repr x"
| "str_value repr (SetInt i) = show_int i"
| "str_value repr (SetStr s) = s"

section \<open>Loading, saving, resetting\<close>

definition load_field :: "(string \<Rightarrow> setting_value) \<Rightarrow> string \<Rightarrow> cast \<Rightarrow> accounts \<Rightarrow> setting_value" where
  "load_field env name cast ac =
     (case get_config (alert_key name) ac of
        None \<Rightarrow> env name
      | Some raw \<Rightarrow>
          if raw = [] then env name
          else (case cast_str cast raw of None \<Rightarrow> env name | Some v \<Rightarrow> v))"

definition load_alerts :: "(string \<Rightarrow> setting_value) \<Rightarrow> accounts \<Rightarrow> (string, setting_value) dict" where
  "load_alerts env ac = map (\<lambda>(name, cast). (name, load_field env name cast ac)) FIELDS"

definition alert_defaults :: "(string \<Rightarrow> setting_value) \<Rightarrow> (string, setting_value) dict" where
  "alert_defaults env = map (\<lambda>(name, cast). (name, env name)) FIELDS"

definition save_field :: "(pyfloat \<Rightarrow> string) \<Rightarrow> (string, setting_value) dict \<Rightarrow> string \<times> cast \<Rightarrow> accounts \<Rightarrow> accounts" where
  "save_field repr values = (\<lambda>(name, cast) ac.
     case map_of values name of None \<Rightarrow> ac | Some v \<Rightarrow> set_config (alert_key name) (str_value repr v) ac)"

definition save_values :: "(pyfloat \<Rightarrow> string) \<Rightarrow> (string, setting_value) dict \<Rightarrow> accounts \<Rightarrow> accounts" where
  "save_values repr values ac = fold (save_field repr values) FIELDS ac"

definition reset_values :: "accounts \<Rightarrow> accounts" where
  "reset_values ac = fold (\<lambda>(name, cast). set_config (alert_key name) []) FIELDS ac"

section \<open>The ranges the schema allows\<close>

fun float_within :: "real \<Rightarrow> real \<Rightarrow> setting_value \<Rightarrow> bool" where
  "float_within lo hi (SetFloat (Finite x)) = (lo \<le> x \<and> x \<le> hi)"
| "float_within lo hi v = False"

fun int_from :: "int \<Rightarrow> setting_value \<Rightarrow> bool" where
  "int_from lo (SetInt i) = (lo \<le> i)"
| "int_from lo v = False"

fun int_within :: "int \<Rightarrow> int \<Rightarrow> setting_value \<Rightarrow> bool" where
  "int_within lo hi (SetInt i) = (lo \<le> i \<and> i \<le> hi)"
| "int_within lo hi v = False"

fun text_within :: "nat \<Rightarrow> setting_value \<Rightarrow> bool" where
  "text_within n (SetStr s) = (length s \<le> n)"
| "text_within n v = False"

definition alert_schema :: "(string \<times> (setting_value \<Rightarrow> bool)) list" where
  "alert_schema =
     [(''mad_k'', float_within 1 20), (''fail_rate_floor'', float_within 0 1),
      (''login_fail_rate_floor'', float_within 0 1), (''throughput_drop'', float_within 0 1),
      (''throughput_slow_pct'', float_within 0 (5 / 10)), (''cwd_fail_floor'', int_from 0),
      (''cwd_ignore_paths'', text_within 2000), (''xfer_ignore_accounts'', text_within 2000),
      (''min_streak_buckets'', int_within 1 12), (''min_streak_throughput'', int_within 1 12),
      (''min_samples'', int_from 1), (''min_login_samples'', int_from 1),
      (''min_cwd_samples'', int_from 1), (''min_large_samples'', int_from 1)]"

text \<open>A field that the class does not have is ignored.\<close>

definition field_ok :: "string \<Rightarrow> setting_value \<Rightarrow> bool" where
  "field_ok name v = (case map_of alert_schema name of None \<Rightarrow> True | Some ok \<Rightarrow> ok v)"

definition body_ok :: "(string, setting_value) dict \<Rightarrow> bool" where
  "body_ok values = list_all (\<lambda>(name, v). field_ok name v) values"

section \<open>The routes\<close>

datatype alert_request = SaveAlerts "(string, setting_value) dict" | ResetAlerts

fun handle_alerts :: "(pyfloat \<Rightarrow> string) \<Rightarrow> alert_request \<Rightarrow> accounts \<Rightarrow> accounts http" where
  "handle_alerts repr (SaveAlerts body) ac =
     (if \<not> body_ok body then Inl (HTTPException 422 ''validation'') else Inr (save_values repr body ac))"
| "handle_alerts repr ResetAlerts ac = Inr (reset_values ac)"

definition serve_alert :: "(pyfloat \<Rightarrow> string) \<Rightarrow> alert_request \<Rightarrow> accounts \<Rightarrow> accounts" where
  "serve_alert repr r ac = (case handle_alerts repr r ac of Inl e \<Rightarrow> ac | Inr ac' \<Rightarrow> ac')"

definition serve_alerts :: "(pyfloat \<Rightarrow> string) \<Rightarrow> alert_request list \<Rightarrow> accounts \<Rightarrow> accounts" where
  "serve_alerts repr rs ac = fold (serve_alert repr) rs ac"

section \<open>What the detection reads\<close>

fun real_of :: "setting_value \<Rightarrow> real" where
  "real_of (SetFloat (Finite x)) = x"
| "real_of v = 0"

fun nat_of :: "setting_value \<Rightarrow> nat" where
  "nat_of (SetInt i) = nat i"
| "nat_of v = 0"

definition read :: "(string, setting_value) dict \<Rightarrow> string \<Rightarrow> setting_value" where
  "read cfg name = the (map_of cfg name)"

definition cfg_of :: "(string, setting_value) dict \<Rightarrow> alert_cfg" where
  "cfg_of cfg =
     \<lparr>mad_k = real_of (read cfg ''mad_k''), fail_rate_floor = real_of (read cfg ''fail_rate_floor''),
      login_fail_rate_floor = real_of (read cfg ''login_fail_rate_floor''),
      throughput_drop = real_of (read cfg ''throughput_drop''),
      throughput_slow_pct = real_of (read cfg ''throughput_slow_pct''),
      cwd_fail_floor = nat_of (read cfg ''cwd_fail_floor''),
      min_samples = nat_of (read cfg ''min_samples''), min_login_samples = nat_of (read cfg ''min_login_samples''),
      min_cwd_samples = nat_of (read cfg ''min_cwd_samples''), min_large_samples = nat_of (read cfg ''min_large_samples''),
      min_streak_buckets = nat_of (read cfg ''min_streak_buckets''),
      min_streak_throughput = nat_of (read cfg ''min_streak_throughput'')\<rparr>"

section \<open>Each threshold has the value that was accepted last\<close>

lemma alert_key_inject [simp]: "alert_key a = alert_key b \<longleftrightarrow> a = b"
  by (simp add: alert_key_def)

lemma config_after_save:
  "get_config (alert_key n) (fold (save_field repr values) F ac) =
     (if n \<in> fst ` set F then (case map_of values n of None \<Rightarrow> get_config (alert_key n) ac | Some v \<Rightarrow> Some (str_value repr v))
      else get_config (alert_key n) ac)"
  by (induction F arbitrary: ac) (auto simp: save_field_def app_config.get_put split: option.split)

lemma config_after_reset:
  "get_config (alert_key n) (fold (\<lambda>(name, cast). set_config (alert_key name) []) F ac) =
     (if n \<in> fst ` set F then Some [] else get_config (alert_key n) ac)"
  by (induction F arbitrary: ac) (auto simp: app_config.get_put)

lemma read_load: "map_of FIELDS name = Some cast \<Longrightarrow> read (load_alerts env ac) name = load_field env name cast ac"
  unfolding read_def load_alerts_def FIELDS_def by (simp split: if_splits)

lemma read_unknown: "map_of FIELDS name = None \<Longrightarrow> read (load_alerts env ac) name = the None"
  unfolding read_def load_alerts_def FIELDS_def by (simp split: if_splits)

lemma in_fields: "name \<in> fst ` set FIELDS \<longleftrightarrow> map_of FIELDS name \<noteq> None"
  by (simp add: map_of_eq_None_iff)

definition fine_value :: "(pyfloat \<Rightarrow> string) \<Rightarrow> setting_value \<Rightarrow> bool" where
  "fine_value repr v = (case v of SetFloat x \<Rightarrow> repr x \<noteq> [] \<and> py_float (repr x) = Some x | _ \<Rightarrow> True)"

definition fine_request :: "(pyfloat \<Rightarrow> string) \<Rightarrow> alert_request \<Rightarrow> bool" where
  "fine_request repr r = (case r of SaveAlerts body \<Rightarrow> list_all (\<lambda>(n, v). fine_value repr v) body | ResetAlerts \<Rightarrow> True)"

definition accepted_field :: "(string \<Rightarrow> setting_value) \<Rightarrow> string \<Rightarrow> alert_request \<Rightarrow> setting_value option" where
  "accepted_field env name r =
     (if map_of FIELDS name = None then None
      else case r of
        ResetAlerts \<Rightarrow> Some (env name)
      | SaveAlerts body \<Rightarrow>
          if body_ok body then map_option (\<lambda>v. if v = SetStr [] then env name else v) (map_of body name) else None)"

lemma field_okD: "body_ok body \<Longrightarrow> map_of body name = Some v \<Longrightarrow> field_ok name v"
  using map_of_SomeD by (fastforce simp: body_ok_def list_all_iff)

lemma fine_valueD: "fine_request repr (SaveAlerts body) \<Longrightarrow> map_of body name = Some v \<Longrightarrow> fine_value repr v"
  using map_of_SomeD by (fastforce simp: fine_request_def list_all_iff)

lemma show_int_nonempty [simp]: "show_int i \<noteq> []"
  by (simp add: show_int_def)

fun has_cast :: "cast \<Rightarrow> setting_value \<Rightarrow> bool" where
  "has_cast CFloat v = (\<exists>x. v = SetFloat x)"
| "has_cast CInt v = (\<exists>i \<ge> 0. v = SetInt i)"
| "has_cast CStr v = (\<exists>s. v = SetStr s)"

lemma within_cast:
  "float_within lo' hi v \<Longrightarrow> has_cast CFloat v" "int_from lo v \<Longrightarrow> 0 \<le> lo \<Longrightarrow> has_cast CInt v"
  "int_within lo hi'' v \<Longrightarrow> 0 \<le> lo \<Longrightarrow> has_cast CInt v" "text_within n v \<Longrightarrow> has_cast CStr v"
  by (cases v; auto)+

lemma field_ok_cast: "map_of FIELDS name = Some cast \<Longrightarrow> field_ok name v \<Longrightarrow> has_cast cast v"
  unfolding FIELDS_def field_ok_def alert_schema_def
  by (auto split: if_splits dest!: within_cast simp del: has_cast.simps)

lemma cast_back:
  assumes "has_cast cast v" and "fine_value repr v" and "v \<noteq> SetStr []"
  shows "str_value repr v \<noteq> [] \<and> cast_str cast (str_value repr v) = Some v"
  using assms by (cases cast) (auto simp: fine_value_def py_int_show)

lemma serve_alert_field:
  assumes "map_of FIELDS name = Some cast"
  shows "get_config (alert_key name) (serve_alert repr r ac) =
     (case r of ResetAlerts \<Rightarrow> Some []
      | SaveAlerts body \<Rightarrow> if body_ok body
          then (case map_of body name of None \<Rightarrow> get_config (alert_key name) ac | Some v \<Rightarrow> Some (str_value repr v))
          else get_config (alert_key name) ac)"
proof -
  have i: "name \<in> fst ` set FIELDS" using assms in_fields by simp
  show ?thesis
    by (cases r) (simp_all add: serve_alert_def save_values_def reset_values_def config_after_save config_after_reset i)
qed

interpretation alert_field: setting_on "\<lambda>ac. read (load_alerts env ac) name" "serve_alert repr"
  "accepted_field env name" "fine_request repr" for env name repr
proof
  fix r s
  assume fine: "fine_request repr r"
  show "read (load_alerts env (serve_alert repr r s)) name =
    (case accepted_field env name r of None \<Rightarrow> read (load_alerts env s) name | Some v \<Rightarrow> v)"
  proof (cases "map_of FIELDS name")
    case None
    then show ?thesis by (simp add: accepted_field_def read_unknown)
  next
    case (Some cast)
    note sf = serve_alert_field [OF Some] and rl = read_load [OF Some]
    show ?thesis
    proof (cases r)
      case ResetAlerts
      then show ?thesis by (simp add: rl load_field_def sf accepted_field_def Some)
    next
      case (SaveAlerts body)
      show ?thesis
      proof (cases "body_ok body \<and> map_of body name \<noteq> None")
        case True
        then obtain v where v: "body_ok body" "map_of body name = Some v" by blast
        have "has_cast cast v" using field_ok_cast [OF Some] field_okD [OF v] by blast
        moreover have "fine_value repr v" using fine_valueD fine v(2) SaveAlerts by blast
        ultimately show ?thesis using cast_back [of cast v repr] v
          by (cases "v = SetStr []") (simp_all add: SaveAlerts rl load_field_def sf accepted_field_def Some)
      next
        case False
        then show ?thesis by (auto simp: SaveAlerts rl load_field_def sf accepted_field_def Some)
      qed
    qed
  qed
qed

text \<open>
  After any sequence of saves and resets every threshold is the one of the last request that
  set it: the value of the last accepted save that has the field, the default after a reset or
  after saving an empty text, and the old value when no request touched it. A refused request
  changes no field.
\<close>

theorem thresholds_hold_the_last_accepted:
  assumes "list_all (fine_request repr) rs"
  shows "read (load_alerts env (serve_alerts repr rs ac)) name =
    last (read (load_alerts env ac) name # List.map_filter (accepted_field env name) rs)"
  unfolding serve_alerts_def using assms by (rule alert_field.load_fold_fine)

definition sample_repr :: "pyfloat \<Rightarrow> string" where
  "sample_repr x = (if x = Finite 3 then ''3.0'' else ''nan'')"

definition sample_env :: "string \<Rightarrow> setting_value" where
  "sample_env name = the (map_of settings_defaults name)"

definition sample_alert_requests :: "alert_request list" where
  "sample_alert_requests =
     [ResetAlerts, SaveAlerts [(''mad_k'', SetFloat (Finite 3)), (''min_samples'', SetInt 7)],
      SaveAlerts [(''min_samples'', SetInt 0)], SaveAlerts [(''cwd_ignore_paths'', SetStr [])]]"

lemma sample_alerts_fine: "list_all (fine_request sample_repr) sample_alert_requests"
proof -
  have "py_float ''3.0'' = Some (Finite 3)"
    by (simp add: py_float_def py_mantissa_def Let_def strip_def lstrip_def is_space_def to_lower_def is_digit_def
        count_digits_def digit_val_def)
  then show ?thesis
    by (simp add: sample_alert_requests_def fine_request_def fine_value_def sample_repr_def)
qed

theorem thresholds_hold_the_last_accepted_witness:
  "read (load_alerts sample_env (serve_alerts sample_repr sample_alert_requests ac)) ''min_samples'' = SetInt 7"
proof -
  have "List.map_filter (accepted_field sample_env ''min_samples'') sample_alert_requests = [SetInt 20, SetInt 7]"
    by (simp add: sample_alert_requests_def accepted_field_def body_ok_def field_ok_def alert_schema_def FIELDS_def
        sample_env_def settings_defaults_def map_filter_def)
  then show ?thesis
    using thresholds_hold_the_last_accepted [OF sample_alerts_fine, of sample_env ac "''min_samples''"] by simp
qed

section \<open>The detection never gets a threshold out of range\<close>

definition alerts_sane :: "(string \<Rightarrow> setting_value) \<Rightarrow> accounts \<Rightarrow> bool" where
  "alerts_sane env ac \<longleftrightarrow> list_all (\<lambda>(name, cast). field_ok name (env name)
     \<and> field_ok name (read (load_alerts env ac) name)) FIELDS"

definition cfg_sane :: "alert_cfg \<Rightarrow> bool" where
  "cfg_sane c \<longleftrightarrow> 1 \<le> mad_k c \<and> mad_k c \<le> 20 \<and> 0 \<le> fail_rate_floor c \<and> fail_rate_floor c \<le> 1
     \<and> 0 \<le> login_fail_rate_floor c \<and> login_fail_rate_floor c \<le> 1 \<and> 0 \<le> throughput_drop c \<and> throughput_drop c \<le> 1
     \<and> 0 \<le> throughput_slow_pct c \<and> throughput_slow_pct c \<le> 1 / 2
     \<and> 1 \<le> min_samples c \<and> 1 \<le> min_login_samples c \<and> 1 \<le> min_cwd_samples c \<and> 1 \<le> min_large_samples c
     \<and> 1 \<le> min_streak_buckets c \<and> min_streak_buckets c \<le> 12
     \<and> 1 \<le> min_streak_throughput c \<and> min_streak_throughput c \<le> 12"

lemma within_real: "float_within lo hi v \<longleftrightarrow> lo \<le> real_of v \<and> real_of v \<le> hi \<and> (\<exists>x. v = SetFloat (Finite x))"
  by (cases "(lo, hi, v)" rule: float_within.cases) auto

lemma within_nat:
  "int_from 1 v \<Longrightarrow> 1 \<le> nat_of v" "int_within 1 hi v \<Longrightarrow> 1 \<le> nat_of v"
  "int_within lo 12 v \<Longrightarrow> nat_of v \<le> 12"
  by (cases v; auto)+

lemma sane_value: "alerts_sane env ac \<Longrightarrow> map_of alert_schema name = Some ok \<Longrightarrow> ok (read (load_alerts env ac) name)"
proof -
  assume sane: "alerts_sane env ac" and ok: "map_of alert_schema name = Some ok"
  have "name \<in> fst ` set FIELDS" using ok by (auto simp: alert_schema_def FIELDS_def split: if_splits)
  then have "field_ok name (read (load_alerts env ac) name)"
    using sane by (auto simp: alerts_sane_def list_all_iff)
  then show ?thesis using ok by (simp add: field_ok_def)
qed

lemma sane_cfg:
  assumes "alerts_sane env ac"
  shows "cfg_sane (cfg_of (load_alerts env ac))"
proof -
  note v = sane_value [OF assms]
  have f: "float_within 1 20 (read (load_alerts env ac) ''mad_k'')"
    "float_within 0 1 (read (load_alerts env ac) ''fail_rate_floor'')"
    "float_within 0 1 (read (load_alerts env ac) ''login_fail_rate_floor'')"
    "float_within 0 1 (read (load_alerts env ac) ''throughput_drop'')"
    "float_within 0 (5 / 10) (read (load_alerts env ac) ''throughput_slow_pct'')"
    by (rule v, simp add: alert_schema_def)+
  have n: "int_from 1 (read (load_alerts env ac) ''min_samples'')" "int_from 1 (read (load_alerts env ac) ''min_login_samples'')"
    "int_from 1 (read (load_alerts env ac) ''min_cwd_samples'')" "int_from 1 (read (load_alerts env ac) ''min_large_samples'')"
    "int_within 1 12 (read (load_alerts env ac) ''min_streak_buckets'')"
    "int_within 1 12 (read (load_alerts env ac) ''min_streak_throughput'')"
    by (rule v, simp add: alert_schema_def)+
  show ?thesis using f n(1-4) [THEN within_nat(1)] n(5,6) [THEN within_nat(2)] n(5,6) [THEN within_nat(3)]
    by (simp add: cfg_sane_def cfg_of_def within_real)
qed

lemma accepted_field_ok: "accepted_field env name r = Some v \<Longrightarrow> field_ok name (env name) \<Longrightarrow> field_ok name v"
  by (auto simp: accepted_field_def dest: field_okD split: if_splits alert_request.splits)

text \<open>
  C19: when the environment and the table are within the ranges of the schema, they stay so whatever
  is saved or reset, in any order. So the detection always runs with thresholds in range: it
  judges no bucket with fewer than one sample, so no rate divides by zero; and every alert on the
  transfer speed stays an alert on a speed at or below the usual one that, with enough buckets,
  at most half of the known buckets reached.
\<close>

theorem detection_gets_sane_thresholds:
  assumes "alerts_sane env ac" and "list_all (fine_request repr) rs"
  defines "cfg \<equiv> cfg_of (load_alerts env (serve_alerts repr rs ac))"
  shows "alerts_sane env (serve_alerts repr rs ac) \<and> cfg_sane cfg
    \<and> (\<forall>a \<in> set (eval_fail_rate cand baseline cfg). 0 < m_transfers cand)
    \<and> (\<forall>a \<in> set (eval_login cand baseline cfg). 0 < m_login_attempts cand)
    \<and> (\<forall>r \<in> set (big_rows baseline cfg). 0 < m_xfers_big r \<and> 0 < m_secs_big r)
    \<and> (\<forall>a \<in> set (eval_throughput cand baseline cfg).
        20 \<le> length (big_rows baseline cfg) \<longrightarrow>
        2 * length (filter (\<lambda>r. speed r \<le> al_value a) (big_rows baseline cfg)) \<le> length (big_rows baseline cfg))"
proof -
  have sane: "alerts_sane env (serve_alerts repr rs ac)"
    unfolding alerts_sane_def
  proof (clarsimp simp: list_all_iff split del: if_split)
    fix name cast assume i: "(name, cast) \<in> set FIELDS"
    have e: "field_ok name (env name)" "field_ok name (read (load_alerts env ac) name)"
      using assms(1) i by (auto simp: alerts_sane_def list_all_iff)
    have "field_ok name (last (read (load_alerts env ac) name # List.map_filter (accepted_field env name) rs))"
      using last_in_filter [of "read (load_alerts env ac) name" "accepted_field env name" rs] accepted_field_ok e
      by metis
    then show "field_ok name (env name) \<and> field_ok name (read (load_alerts env (serve_alerts repr rs ac)) name)"
      using e(1) unfolding serve_alerts_def alert_field.load_fold_fine [OF assms(2)] by simp
  qed
  have c: "cfg_sane cfg" unfolding cfg_def by (rule sane_cfg [OF sane])
  show ?thesis
  proof (intro conjI ballI impI)
    fix a assume a: "a \<in> set (eval_throughput cand baseline cfg)" and n: "20 \<le> length (big_rows baseline cfg)"
    show "2 * length (filter (\<lambda>r. speed r \<le> al_value a) (big_rows baseline cfg)) \<le> length (big_rows baseline cfg)"
    proof -
      have pct: "0 \<le> throughput_slow_pct cfg" "throughput_slow_pct cfg \<le> 1 / 2" using c by (simp_all add: cfg_sane_def)
      let ?n = "length (big_rows baseline cfg)"
      have "real (length (filter (\<lambda>r. speed r \<le> al_value a) (big_rows baseline cfg))) \<le> throughput_slow_pct cfg * real ?n"
        using slow_fraction [OF a pct(1)] n by (simp add: filter_map o_def)
      also have "\<dots> \<le> 1 / 2 * real ?n" using pct(2) by (intro mult_right_mono) simp_all
      finally show ?thesis by linarith
    qed
  qed (use sane c in \<open>auto simp: cfg_sane_def eval_fail_rate_def eval_login_def big_rows_def split: if_splits\<close>)
qed

lemma sample_sane: "ac_config ac = [] \<Longrightarrow> alerts_sane sample_env ac"
proof -
  assume e: "ac_config ac = []"
  have "read (load_alerts sample_env ac) name = sample_env name" if "map_of FIELDS name = Some cast" for name cast
    using e by (simp add: read_load [OF that] load_field_def get_config_def)
  moreover have "list_all (\<lambda>(name, cast). field_ok name (sample_env name) \<and> map_of FIELDS name = Some cast) FIELDS"
    by (simp add: FIELDS_def field_ok_def alert_schema_def sample_env_def settings_defaults_def)
  ultimately show ?thesis by (fastforce simp: alerts_sane_def list_all_iff)
qed

theorem detection_gets_sane_thresholds_witness:
  "cfg_sane (cfg_of (load_alerts sample_env (serve_alerts sample_repr sample_alert_requests (sample_accounts\<lparr>ac_config := []\<rparr>))))"
  using detection_gets_sane_thresholds [OF sample_sane sample_alerts_fine, of "sample_accounts\<lparr>ac_config := []\<rparr>"] by simp

text \<open>
  An empty text is stored like a missing value. So an exclusion list that the environment sets
  cannot be switched off from the settings page: saving an empty list gives the default again.
\<close>

theorem empty_list_is_the_default:
  "load_field env ''cwd_ignore_paths'' CStr (serve_alerts repr [SaveAlerts [(''cwd_ignore_paths'', SetStr [])]] ac)
     = env ''cwd_ignore_paths''"
proof -
  have m: "map_of FIELDS ''cwd_ignore_paths'' = Some CStr" by (simp add: FIELDS_def)
  have "body_ok [(''cwd_ignore_paths'', SetStr [])]" by (simp add: body_ok_def field_ok_def alert_schema_def)
  then show ?thesis by (simp add: serve_alerts_def load_field_def serve_alert_field [OF m])
qed

end
