(* ===== verification/Monitor.thy ===== *)
theory Monitor
  imports Episodes Notifier Rollup Storage AlertConfig
begin

text \<open>
  One cycle of \<open>was/app/service_monitor.py\<close> over all its parts: \<open>run_once\<close> loads the thresholds,
  rolls up the logs, judges the buckets, writes the cause into the messages
  (\<open>_annotate_cwd_paths\<close>, \<open>_annotate_login_accounts\<close>), records the alerts, closes quiet episodes,
  sends alerts and recoveries over the channels of \<open>notifier.py\<close> and runs the disk guard.

  The state is what the cycle reads and writes: the log table with its partitions, the metrics,
  alerts and episodes, the settings, and what went over the network. A step that raises is
  chosen by the environment of the cycle; the database rolls back what it did not commit. The
  clock stands still during a cycle. The em dash of the separator is two hyphens.
\<close>

section \<open>The cause in a message\<close>

definition DETAIL_SEP :: string where "DETAIL_SEP = '' -- ''"

fun after_first :: "string \<Rightarrow> string \<Rightarrow> string option" where
  "after_first sep [] = (if sep = [] then Some [] else None)"
| "after_first sep (c # cs) =
     (if starts_with sep (c # cs) then Some (drop (length sep) (c # cs)) else after_first sep cs)"

definition alert_detail :: "string option \<Rightarrow> string option" where
  "alert_detail message = (case message of None \<Rightarrow> None
     | Some m \<Rightarrow> if m = [] \<or> \<not> has_substring DETAIL_SEP m then None else after_first DETAIL_SEP m)"

text \<open>\<open>GROUP BY\<close> with \<open>COUNT(*)\<close>: every value once, with the number of its rows.\<close>

definition tally :: "'a list \<Rightarrow> ('a \<times> nat) list" where
  "tally xs = map (\<lambda>x. (x, count_list xs x)) (remdups xs)"

definition CWD_PATH_CONCENTRATION :: real where "CWD_PATH_CONCENTRATION = 9 / 10"
definition LOGIN_TOP_ACCOUNTS :: nat where "LOGIN_TOP_ACCOUNTS = 3"

definition cwd_rows :: "string list \<Rightarrow> log list \<Rightarrow> time \<Rightarrow> alert \<Rightarrow> log list" where
  "cwd_rows ignore logs bucket a =
     filter (\<lambda>l. lg_device l = al_device a \<and> lg_action l = ''cwd_fail''
       \<and> al_bucket a \<le> lg_time l \<and> lg_time l < al_bucket a + bucket
       \<and> cwd_real_fail ignore logs (al_bucket a) (al_bucket a + bucket) l) logs"

text \<open>Of paths that are as frequent SQL may give any; the model gives one of them.\<close>

definition cwd_cause :: "real \<Rightarrow> string \<Rightarrow> nat \<Rightarrow> string" where
  "cwd_cause value path n =
     (let ratio = (if value \<noteq> 0 then min (real n / value) 1 else 0) in
      if ratio \<ge> CWD_PATH_CONCENTRATION
      then path @ '' alone has '' @ fixed 0 (ratio * 100) @ ''% (check the home and upload paths)''
      else ''most frequent path '' @ path @ '' '' @ show_nat n @ '' times'')"

definition annotate_cwd_path :: "string list \<Rightarrow> log list \<Rightarrow> time \<Rightarrow> alert \<Rightarrow> alert" where
  "annotate_cwd_path ignore logs bucket a =
     (if al_metric a \<noteq> ''cwd_fail_spike'' then a
      else (case sort_key (\<lambda>(p, n). - int n) (tally (map lg_path (cwd_rows ignore logs bucket a))) of
          [] \<Rightarrow> a
        | (p, n) # _ \<Rightarrow>
            if \<not> truthy p then a
            else a\<lparr>al_message := al_message a @ DETAIL_SEP @ cwd_cause (al_value a) (the p) n\<rparr>))"

definition login_rows :: "log list \<Rightarrow> time \<Rightarrow> alert \<Rightarrow> log list" where
  "login_rows logs bucket a =
     filter (\<lambda>l. lg_device l = al_device a \<and> lg_action l = ''login'' \<and> lg_status l = ''fail''
       \<and> al_bucket a \<le> lg_time l \<and> lg_time l < al_bucket a + bucket) logs"

definition account_name :: "log \<Rightarrow> string" where
  "account_name l = (if truthy (lg_username l) then the (lg_username l) else ''(no account)'')"

text \<open>The accounts with failed logins, the most frequent first, then by name.\<close>

definition failed_accounts :: "log list \<Rightarrow> time \<Rightarrow> alert \<Rightarrow> (string \<times> nat) list" where
  "failed_accounts logs bucket a =
     sort_key (\<lambda>(u, n). (- int n, u)) (tally (map account_name (login_rows logs bucket a)))"

fun join_comma :: "string list \<Rightarrow> string" where
  "join_comma [] = []"
| "join_comma [x] = x"
| "join_comma (x # y # xs) = x @ '', '' @ join_comma (y # xs)"

definition login_cause :: "(string \<times> nat) list \<Rightarrow> string" where
  "login_cause accounts =
     (let rows = take LOGIN_TOP_ACCOUNTS accounts; rest = length accounts - length rows in
      ''accounts '' @ join_comma (map (\<lambda>(u, n). u @ '' '' @ show_nat n) rows)
        @ (if rest > 0 then '' and '' @ show_nat rest @ '' more'' else []))"

definition annotate_login_accounts :: "log list \<Rightarrow> time \<Rightarrow> alert \<Rightarrow> alert" where
  "annotate_login_accounts logs bucket a =
     (if al_metric a \<noteq> ''login_fail_rate'' then a
      else let accounts = failed_accounts logs bucket a in
        if accounts = [] then a
        else a\<lparr>al_message := al_message a @ DETAIL_SEP @ login_cause accounts\<rparr>)"

section \<open>The state of a cycle\<close>

record monitor_state =
  ms_storage :: storage
  ms_metrics :: "((nat \<times> time), metrics) dict"
  ms_db :: monitor_db
  ms_accounts :: accounts
  ms_wire :: wire

text \<open>What the process was started with: the settings and the environment's defaults.\<close>

record monitor_conf =
  mc_interval :: int
  mc_bucket :: time
  mc_large :: nat
  mc_baseline_days :: int
  mc_channels :: channels
  mc_defaults :: "string \<Rightarrow> setting_value"

text \<open>
  The places where a cycle can raise. \<open>Marked\<close> and \<open>RecoveryMarked\<close> are the updates after a
  message has gone out.
\<close>

datatype stage = Load | RollUp | Detect | Resolve | Notify | Marked | Recovery | RecoveryMarked | Guard

record cycle_env =
  ce_now :: time
  ce_month :: month
  ce_fails :: "stage \<Rightarrow> bool"
  ce_net :: "nat \<Rightarrow> bool"
  ce_isofmt :: "time \<Rightarrow> string"
  ce_short :: "time \<Rightarrow> string"
  ce_kst :: "time \<Rightarrow> string"
  ce_stamp :: string
  ce_where :: "nat \<Rightarrow> (string option \<times> string option) option"
  ce_hostname :: "nat \<Rightarrow> string"
  ce_du :: "string \<Rightarrow> (nat \<times> nat) option"
  ce_du_after :: "string \<Rightarrow> (nat \<times> nat) option"

text \<open>A step ends normally or raises, in a state.\<close>

type_synonym step = "monitor_state \<Rightarrow> bool \<times> monitor_state"

definition seq_step :: "step \<Rightarrow> step \<Rightarrow> step" where
  "seq_step f g s = (let (ok, s1) = f s in if ok then g s1 else (False, s1))"

definition committed :: "cycle_env \<Rightarrow> stage \<Rightarrow> (monitor_state \<Rightarrow> monitor_state) \<Rightarrow> step" where
  "committed e st f s = (if ce_fails e st then (False, s) else (True, f s))"

section \<open>The steps\<close>

fun text_of :: "setting_value \<Rightarrow> string" where
  "text_of (SetStr s) = s"
| "text_of v = []"

definition rollup_conf :: "monitor_conf \<Rightarrow> (string, setting_value) dict \<Rightarrow> rollup_cfg" where
  "rollup_conf mc cfg =
     \<lparr>rc_bucket = mc_bucket mc, rc_large = mc_large mc,
      rc_cwd_ignore = like_patterns (text_of (read cfg ''cwd_ignore_paths'')),
      rc_xfer_ignore = like_patterns (text_of (read cfg ''xfer_ignore_accounts''))\<rparr>"

definition rollup_stage :: "monitor_conf \<Rightarrow> cycle_env \<Rightarrow> (string, setting_value) dict \<Rightarrow> monitor_state \<Rightarrow> monitor_state" where
  "rollup_stage mc e cfg s =
     s\<lparr>ms_metrics := rollup (rollup_conf mc cfg) (ce_now e) (all_rows (ms_storage s)) (ms_metrics s)\<rparr>"

definition annotated :: "monitor_conf \<Rightarrow> (string, setting_value) dict \<Rightarrow> log list \<Rightarrow> alert \<Rightarrow> alert" where
  "annotated mc cfg logs a =
     annotate_login_accounts logs (mc_bucket mc)
       (annotate_cwd_path (like_patterns (text_of (read cfg ''cwd_ignore_paths''))) logs (mc_bucket mc) a)"

definition found_alerts :: "monitor_conf \<Rightarrow> cycle_env \<Rightarrow> (string, setting_value) dict \<Rightarrow> monitor_state \<Rightarrow> alert list" where
  "found_alerts mc e cfg s =
     detect_alerts (detect_windows (ce_now e) (mc_bucket mc) (mc_interval mc) (mc_baseline_days mc)) (cfg_of cfg)
       (sort_key metric_key (map snd (ms_metrics s)))"

definition detect_stage :: "monitor_conf \<Rightarrow> cycle_env \<Rightarrow> (string, setting_value) dict \<Rightarrow> monitor_state \<Rightarrow> monitor_state" where
  "detect_stage mc e cfg s =
     (let alerts = found_alerts mc e cfg s in
      if alerts = [] then s
      else s\<lparr>ms_db := snd (record_all (ce_now e) (cfg_of cfg)
                (map (annotated mc cfg (all_rows (ms_storage s))) alerts) (ms_db s))\<rparr>)"

definition resolve_stage :: "monitor_conf \<Rightarrow> cycle_env \<Rightarrow> monitor_state \<Rightarrow> monitor_state" where
  "resolve_stage mc e s = s\<lparr>ms_db := resolve_episodes (ce_now e) (mc_bucket mc) (ms_db s)\<rparr>"

definition send_all :: "monitor_conf \<Rightarrow> cycle_env \<Rightarrow> notice list \<Rightarrow> monitor_state \<Rightarrow> bool \<times> wire" where
  "send_all mc e ns s =
     dispatch (ce_net e) (ce_isofmt e) (ce_short e) (ce_kst e) (ce_stamp e) (ce_where e) (mc_channels mc)
       (ms_accounts s) ns ''all'' (ms_wire s)"

definition alert_notice :: "cycle_env \<Rightarrow> alert_row \<Rightarrow> notice" where
  "alert_notice e r = (let a = ar_alert r in
     \<lparr>na_device = Some (al_device a), na_hostname = ce_hostname e (al_device a), na_metric = al_metric a,
      na_severity = al_severity a, na_value = al_value a, na_baseline = al_baseline a,
      na_detail = alert_detail (Some (al_message a)), na_bucket = al_bucket a, na_recovered = False,
      na_duration = 0, na_count = 0, na_test = False, na_place = None\<rparr>)"

definition notify_stage :: "monitor_conf \<Rightarrow> cycle_env \<Rightarrow> step" where
  "notify_stage mc e s =
     (if ce_fails e Notify then (False, s)
      else let rows = to_send (ms_db s); ids = map ar_id rows in
        if rows = [] then (True, s)
        else if \<not> channels_configured (mc_channels mc) (ms_accounts s) then
          committed e Marked (\<lambda>s. s\<lparr>ms_db := mark_notified ids False (ms_db s)\<rparr>) s
        else let (sent, w) = send_all mc e (map (alert_notice e) rows) s; s1 = s\<lparr>ms_wire := w\<rparr> in
          if sent then committed e Marked (\<lambda>s. s\<lparr>ms_db := mark_notified ids True (ms_db s)\<rparr>) s1
          else (True, s1))"

definition recovery_notice :: "monitor_conf \<Rightarrow> cycle_env \<Rightarrow> ep_key \<times> episode \<Rightarrow> notice" where
  "recovery_notice mc e x = (case x of ((dev, metric), ep) \<Rightarrow>
     \<lparr>na_device = Some dev, na_hostname = ce_hostname e dev, na_metric = metric,
      na_severity = ep_severity ep, na_value = 0, na_baseline = None, na_detail = None,
      na_bucket = ep_last ep, na_recovered = True, na_duration = duration_min (mc_bucket mc) ep,
      na_count = int (ep_count ep), na_test = False, na_place = None\<rparr>)"

definition recovery_stage :: "monitor_conf \<Rightarrow> cycle_env \<Rightarrow> step" where
  "recovery_stage mc e s =
     (if ce_fails e Recovery then (False, s)
      else let rows = recovered (ms_db s); keys = map fst rows in
        if rows = [] then (True, s)
        else if \<not> channels_configured (mc_channels mc) (ms_accounts s) then
          committed e RecoveryMarked (\<lambda>s. s\<lparr>ms_db := mark_recovery_notified keys (ms_db s)\<rparr>) s
        else let (sent, w) = send_all mc e (map (recovery_notice mc e) rows) s; s1 = s\<lparr>ms_wire := w\<rparr> in
          if sent then committed e RecoveryMarked (\<lambda>s. s\<lparr>ms_db := mark_recovery_notified keys (ms_db s)\<rparr>) s1
          else (True, s1))"

text \<open>\<open>disk_guard._notify\<close>: the message for the administrators; \<open>threshold\<close> is in its text.\<close>

definition guard_text :: "int \<Rightarrow> guard_notice \<Rightarrow> string" where
  "guard_text threshold n = (case n of
       NothingToPurge pct \<Rightarrow> ''disk '' @ fixed 1 pct @ ''%: no past partition to drop, please act''
     | Purged victim pct after \<Rightarrow> ''disk '' @ fixed 1 pct @ ''% is over '' @ show_int threshold
         @ ''%: dropped the oldest partition '' @ victim @ '' (now '' @ fixed 1 after @ ''%)'')"

definition tell_admins :: "monitor_conf \<Rightarrow> cycle_env \<Rightarrow> accounts \<Rightarrow> guard_notice \<Rightarrow> wire \<Rightarrow> wire" where
  "tell_admins mc e ac n w =
     (if channels_configured (mc_channels mc) ac
      then snd (send_text (ce_net e) (ce_stamp e) (mc_channels mc) ac ''[SolTrace] disk clean-up''
                  (guard_text (get_threshold ac) n) w)
      else w)"

text \<open>\<open>_guard_disk\<close> swallows every exception, so this step never raises.\<close>

definition guard_stage :: "monitor_conf \<Rightarrow> cycle_env \<Rightarrow> monitor_state \<Rightarrow> monitor_state" where
  "guard_stage mc e s =
     (if ce_fails e Guard then s
      else let (victim, n, st) = enforce (ce_du e) (ce_du_after e) (ce_month e) (ms_accounts s) (ms_storage s) in
        s\<lparr>ms_storage := st,
          ms_wire := (case n of None \<Rightarrow> ms_wire s | Some m \<Rightarrow> tell_admins mc e (ms_accounts s) m (ms_wire s))\<rparr>)"

definition run_once :: "monitor_conf \<Rightarrow> cycle_env \<Rightarrow> step" where
  "run_once mc e s =
     (if ce_fails e Load then (False, s)
      else let cfg = load_alerts (mc_defaults mc) (ms_accounts s) in
        seq_step (committed e RollUp (rollup_stage mc e cfg))
        (seq_step (committed e Detect (detect_stage mc e cfg))
        (seq_step (committed e Resolve (resolve_stage mc e))
        (seq_step (notify_stage mc e)
        (seq_step (recovery_stage mc e)
          (\<lambda>s. (True, guard_stage mc e s)))))) s)"

text \<open>\<open>_loop\<close>: an exception of a cycle is logged and the next cycle runs.\<close>

definition monitor_loop :: "monitor_conf \<Rightarrow> cycle_env list \<Rightarrow> monitor_state \<Rightarrow> monitor_state" where
  "monitor_loop mc es s = fold (\<lambda>e s. snd (run_once mc e s)) es s"

section \<open>What goes over the network stays there\<close>

definition extends :: "wire \<Rightarrow> wire \<Rightarrow> bool" where
  "extends w w' \<longleftrightarrow> (\<exists>ms. wi_sent w' = wi_sent w @ ms)"

lemma extends_refl [simp]: "extends w w"
  by (simp add: extends_def)

lemma extends_trans: "extends w w1 \<Longrightarrow> extends w1 w2 \<Longrightarrow> extends w w2"
  by (auto simp: extends_def)

lemma extends_post: "extends w (snd (post_json net url p w))"
  by (auto simp: extends_def post_json_def Let_def)

lemma extends_try: "extends w (snd (try_channels (send_on net isofmt short kst now as cfg) cs s w))"
proof (induction cs arbitrary: s w)
  case (Cons c cs)
  obtain r w1 where r: "send_on net isofmt short kst now as cfg c w = (r, w1)" by fastforce
  have "extends w w1" using send_on_mono [OF r] by (simp add: extends_def)
  with Cons.IH show ?case by (simp only: try_channels.simps r Let_def prod.case) (blast intro: extends_trans)
qed simp

lemma extends_dispatch: "extends w (snd (dispatch net isofmt short kst now where_is dflt ac as ch w))"
  unfolding dispatch_def Let_def using extends_try by simp

lemma extends_send_text: "extends w (snd (send_text net now dflt ac subject body w))"
proof -
  have two: "extends w (snd (let (a, w1) = (if c then (False, w) else post_json net u p w);
                                 (b, w2) = (if d then (False, w1) else post_json net v q w1) in (a \<or> b, w2)))"
    for c d u p v q
    using extends_post [of w net u p] extends_post [of "snd (post_json net u p w)" net v q] extends_post [of w net v q]
    by (auto split: prod.split intro: extends_trans)
  show ?thesis unfolding send_text_def Let_def [of "load_cfg dflt ac"] using two by simp
qed

lemma extends_delivered:
  "delivered isofmt short kst now as cfg w \<Longrightarrow> extends w w' \<Longrightarrow> delivered isofmt short kst now as cfg w'"
  by (auto simp: extends_def intro: delivered_mono)

section \<open>Relations that all steps keep\<close>

text \<open>
  What a step keeps is a relation between the states before and after it. When every state is in
  relation to itself and relations compose, it is enough to look at what the stages do when they
  commit: a step that raises, a sequence and the loop keep it too.
\<close>

locale step_relation =
  fixes K :: "monitor_state \<Rightarrow> monitor_state \<Rightarrow> bool"
  assumes same: "K s s"
    and chain: "K s s1 \<Longrightarrow> K s1 s2 \<Longrightarrow> K s s2"
begin

lemma committed: "(\<And>s. K s (f s)) \<Longrightarrow> K s (snd (committed e st f s))"
  by (simp add: committed_def same)

lemma seq: "K s (snd (f s)) \<Longrightarrow> (\<And>s1. K s1 (snd (g s1))) \<Longrightarrow> K s (snd (seq_step f g s))"
  unfolding seq_step_def by (auto split: prod.split intro: chain)

lemma loop: "(\<And>e s. e \<in> set es \<Longrightarrow> K s (snd (run_once mc e s))) \<Longrightarrow> K s (monitor_loop mc es s)"
  by (induction es arbitrary: s) (auto simp: monitor_loop_def same intro: chain)

end

interpretation storage_same: step_relation "\<lambda>s s'. ms_storage s' = ms_storage s"
  by unfold_locales simp_all

interpretation accounts_same: step_relation "\<lambda>s s'. ms_accounts s' = ms_accounts s"
  by unfold_locales simp_all

section \<open>The queue of alerts over a cycle\<close>

text \<open>
  \<open>told\<close>: one of the cycles sent a list of alerts with this one, and all of it arrived. The state
  after some steps \<open>keeps\<close> the queue: no alert disappears, and one is marked only when it was
  told or when there is no channel at all.
\<close>

definition told :: "monitor_conf \<Rightarrow> cycle_env list \<Rightarrow> monitor_state \<Rightarrow> alert_row \<Rightarrow> bool" where
  "told mc es s r \<longleftrightarrow> (\<exists>e \<in> set es. \<exists>ns. alert_notice e r \<in> set ns \<and>
     delivered (ce_isofmt e) (ce_short e) (ce_kst e) (ce_stamp e) (enrich_alerts (ce_where e) ns)
       (load_cfg (mc_channels mc) (ms_accounts s)) (ms_wire s))"

definition row_kept :: "monitor_conf \<Rightarrow> cycle_env list \<Rightarrow> monitor_state \<Rightarrow> alert_row \<Rightarrow> alert_row \<Rightarrow> bool" where
  "row_kept mc es s' r r' \<longleftrightarrow> ar_id r' = ar_id r \<and> ar_alert r' = ar_alert r \<and> (ar_notified r \<longrightarrow> ar_notified r')
     \<and> (ar_notified r' \<longrightarrow> ar_notified r \<or> \<not> channels_configured (mc_channels mc) (ms_accounts s') \<or> told mc es s' r)"

definition queue_kept :: "monitor_conf \<Rightarrow> cycle_env list \<Rightarrow> monitor_state \<Rightarrow> monitor_state \<Rightarrow> bool" where
  "queue_kept mc es s s' \<longleftrightarrow>
     ms_accounts s' = ms_accounts s \<and> extends (ms_wire s) (ms_wire s')
     \<and> (tables_ok (ms_db s) \<longrightarrow> tables_ok (ms_db s') \<and>
       (\<forall>r \<in> set (mo_alerts (ms_db s)). \<exists>r' \<in> set (mo_alerts (ms_db s')). row_kept mc es s' r r'))"

lemma told_mono:
  "told mc es s r \<Longrightarrow> ms_accounts s' = ms_accounts s \<Longrightarrow> extends (ms_wire s) (ms_wire s') \<Longrightarrow> set es \<subseteq> set es' \<Longrightarrow>
   told mc es' s' r"
  unfolding told_def using extends_delivered by (metis subsetD)

lemma told_row: "ar_alert r' = ar_alert r \<Longrightarrow> told mc es s r' = told mc es s r"
  by (simp add: told_def alert_notice_def)

lemma row_kept_refl: "row_kept mc es s r r"
  by (simp add: row_kept_def)

lemma row_kept_trans:
  assumes "row_kept mc es s1 r r1" and "row_kept mc es s2 r1 r2"
    and "ms_accounts s2 = ms_accounts s1" and "extends (ms_wire s1) (ms_wire s2)"
  shows "row_kept mc es s2 r r2"
  using assms told_mono [OF _ assms(3,4) subset_refl, of mc es r] told_row [of r1 r mc es s2]
  unfolding row_kept_def by auto

lemma queue_refl: "queue_kept mc es s s"
  unfolding queue_kept_def by (blast intro: row_kept_refl extends_refl)

lemma queue_trans:
  assumes "queue_kept mc es s s1" and "queue_kept mc es s1 s2"
  shows "queue_kept mc es s s2"
proof -
  have acc: "ms_accounts s2 = ms_accounts s1" "ms_accounts s1 = ms_accounts s"
    and wire: "extends (ms_wire s) (ms_wire s1)" "extends (ms_wire s1) (ms_wire s2)"
    using assms by (simp_all add: queue_kept_def)
  have "tables_ok (ms_db s2) \<and> (\<forall>r \<in> set (mo_alerts (ms_db s)). \<exists>r' \<in> set (mo_alerts (ms_db s2)). row_kept mc es s2 r r')"
    if ok: "tables_ok (ms_db s)"
  proof -
    have ok1: "tables_ok (ms_db s1)"
      and one: "\<forall>r \<in> set (mo_alerts (ms_db s)). \<exists>r' \<in> set (mo_alerts (ms_db s1)). row_kept mc es s1 r r'"
      using assms(1) ok by (simp_all add: queue_kept_def)
    have "tables_ok (ms_db s2)"
      and two: "\<forall>r \<in> set (mo_alerts (ms_db s1)). \<exists>r' \<in> set (mo_alerts (ms_db s2)). row_kept mc es s2 r r'"
      using assms(2) ok1 by (simp_all add: queue_kept_def)
    with one show ?thesis using row_kept_trans [OF _ _ acc(1) wire(2)] by blast
  qed
  with acc extends_trans [OF wire] show ?thesis by (simp add: queue_kept_def)
qed

lemma row_kept_more: "row_kept mc es s r r' \<Longrightarrow> set es \<subseteq> set es' \<Longrightarrow> row_kept mc es' s r r'"
  unfolding row_kept_def using told_mono [OF _ refl extends_refl] by blast

lemma queue_more: "queue_kept mc es s s' \<Longrightarrow> set es \<subseteq> set es' \<Longrightarrow> queue_kept mc es' s s'"
  unfolding queue_kept_def using row_kept_more by blast

text \<open>A step that leaves the wire alone and only adds rows.\<close>

lemma queue_rows:
  assumes "ms_accounts s' = ms_accounts s" and "extends (ms_wire s) (ms_wire s')"
    and "tables_ok (ms_db s) \<longrightarrow> tables_ok (ms_db s')"
    and "mo_alerts (ms_db s') = mo_alerts (ms_db s) @ new"
  shows "queue_kept mc es s s'"
proof -
  have "\<exists>r' \<in> set (mo_alerts (ms_db s')). row_kept mc es s' r r'" if "r \<in> set (mo_alerts (ms_db s))" for r
    using that assms(4) row_kept_refl by (metis Un_iff set_append)
  with assms(1-3) show ?thesis by (simp add: queue_kept_def)
qed

lemma record_alert_rows: "\<exists>new. mo_alerts (snd (record_alert now cfg a db)) = mo_alerts db @ new"
  by (auto simp: record_alert_def Let_def split: prod.split dest: track_tables)

lemma record_all_rows: "\<exists>new. mo_alerts (snd (record_all now cfg alerts db)) = mo_alerts db @ new"
proof -
  have "\<exists>new. mo_alerts (snd (fold (\<lambda>a (n, db). let (new, db') = record_alert now cfg a db in
      (if new then n + 1 else n, db')) as (n, d))) = mo_alerts d @ new" for as n d
  proof (induction as arbitrary: n d)
    case (Cons a as)
    obtain b d' where r: "record_alert now cfg a d = (b, d')" by (cases "record_alert now cfg a d")
    obtain new where "mo_alerts d' = mo_alerts d @ new" using record_alert_rows [of now cfg a d] r by auto
    with Cons.IH [of "if b then n + 1 else n" d'] r show ?case by auto
  qed simp
  then show ?thesis by (simp add: record_all_def)
qed

interpretation queue: step_relation "queue_kept mc es" for mc es
  by unfold_locales (fact queue_refl, rule queue_trans)

lemma queue_rollup: "queue_kept mc es s (rollup_stage mc e cfg s)"
  by (rule queue_rows [where new = "[]"]) (simp_all add: rollup_stage_def)

lemma queue_detect: "queue_kept mc es s (detect_stage mc e cfg s)"
proof -
  obtain new where new: "mo_alerts (ms_db (detect_stage mc e cfg s)) = mo_alerts (ms_db s) @ new"
    using record_all_rows by (fastforce simp: detect_stage_def Let_def)
  show ?thesis
    by (rule queue_rows [OF _ _ _ new]) (simp_all add: detect_stage_def Let_def keeps)
qed

lemma queue_resolve: "queue_kept mc es s (resolve_stage mc e s)"
  by (rule queue_rows [where new = "[]"]) (simp_all add: resolve_stage_def keeps, simp add: resolve_episodes_def Let_def)

text \<open>Marking rows: allowed when there is no channel, or when the rows were told.\<close>

lemma queue_mark:
  assumes "ms_accounts s' = ms_accounts s" and "extends (ms_wire s) (ms_wire s')"
    and "ms_db s' = mark_notified ids b (ms_db s)"
    and "\<And>r. tables_ok (ms_db s) \<Longrightarrow> r \<in> set (mo_alerts (ms_db s)) \<Longrightarrow> ar_id r \<in> set ids \<Longrightarrow>
      ar_notified r \<or> \<not> channels_configured (mc_channels mc) (ms_accounts s) \<or> told mc es s' r"
  shows "queue_kept mc es s s'"
proof -
  have "\<exists>r' \<in> set (mo_alerts (ms_db s')). row_kept mc es s' r r'" if ok: "tables_ok (ms_db s)" and r: "r \<in> set (mo_alerts (ms_db s))" for r
  proof -
    let ?r = "if List.member ids (ar_id r) then r\<lparr>ar_notified := True\<rparr> else r"
    have "?r \<in> set (mo_alerts (ms_db s'))" using r by (simp add: assms(3) mark_notified_def Let_def)
    moreover have "row_kept mc es s' r ?r" using assms(4) [OF ok r] by (auto simp: row_kept_def assms(1))
    ultimately show ?thesis by blast
  qed
  with assms(1-3) mark_notified_ok show ?thesis by (simp add: queue_kept_def)
qed

lemma send_all_sent:
  "send_all mc e ns s = (sent, w) \<Longrightarrow> extends (ms_wire s) w \<and> (sent \<longrightarrow>
     delivered (ce_isofmt e) (ce_short e) (ce_kst e) (ce_stamp e) (enrich_alerts (ce_where e) ns)
       (load_cfg (mc_channels mc) (ms_accounts s)) w)"
  using dispatch_delivers extends_dispatch unfolding send_all_def by (metis snd_conv)

lemma to_send_queued:
  assumes "tables_ok db" and "r \<in> set (mo_alerts db)" and "ar_id r \<in> set (map ar_id (to_send db))"
  shows "r \<in> set (to_send db)"
proof -
  obtain r' where r': "r' \<in> set (to_send db)" "ar_id r' = ar_id r" using assms(3) by auto
  then have "r' \<in> set (mo_alerts db)" by (auto simp: to_send_def dest: in_set_takeD)
  moreover have "inj_on ar_id (set (mo_alerts db))" using assms(1) by (simp add: tables_ok_def distinct_map)
  ultimately have "r' = r" using assms(2) r'(2) by (simp add: inj_on_def)
  with r'(1) show ?thesis by simp
qed

lemma queue_notify:
  assumes "e \<in> set es"
  shows "queue_kept mc es s (snd (notify_stage mc e s))"
proof (cases "ce_fails e Notify \<or> to_send (ms_db s) = []")
  case True
  then show ?thesis by (auto simp: notify_stage_def queue_refl Let_def)
next
  case False
  let ?rows = "to_send (ms_db s)" and ?mark = "\<lambda>b s. s\<lparr>ms_db := mark_notified (map ar_id (to_send (ms_db s))) b (ms_db s)\<rparr>"
  obtain sent w where d: "send_all mc e (map (alert_notice e) ?rows) s = (sent, w)" by fastforce
  let ?s = "s\<lparr>ms_wire := w\<rparr>"
  have told: "told mc es ?s r" if "sent" "r \<in> set ?rows" for r
    using send_all_sent [OF d] assms that unfolding told_def
    by (intro bexI [of _ e] exI [of _ "map (alert_notice e) ?rows"]) auto
  have sent1: "queue_kept mc es s ?s"
    using send_all_sent [OF d] by (intro queue_rows [where new = "[]"]) auto
  have "queue_kept mc es s (?mark True ?s)" if "sent"
  proof (rule queue_mark [where ids = "map ar_id ?rows" and b = True])
    fix r assume "tables_ok (ms_db s)" "r \<in> set (mo_alerts (ms_db s))" "ar_id r \<in> set (map ar_id ?rows)"
    then have "told mc es ?s r" using told [OF that] to_send_queued by blast
    then show "ar_notified r \<or> \<not> channels_configured (mc_channels mc) (ms_accounts s) \<or> told mc es (?mark True ?s) r"
      by (simp add: told_def)
  qed (use send_all_sent [OF d] in auto)
  moreover have "queue_kept mc es s (?mark False s)" if "\<not> channels_configured (mc_channels mc) (ms_accounts s)"
    by (rule queue_mark [where ids = "map ar_id ?rows" and b = False]) (use that in auto)
  ultimately show ?thesis using False d sent1
    by (auto simp: notify_stage_def committed_def queue_refl Let_def)
qed

lemma queue_same_rows:
  assumes "ms_accounts s' = ms_accounts s" and "extends (ms_wire s) (ms_wire s')"
    and "ms_db s' = ms_db s \<or> (\<exists>keys. ms_db s' = mark_recovery_notified keys (ms_db s))"
  shows "queue_kept mc es s s'"
proof -
  have "mo_alerts (ms_db s') = mo_alerts (ms_db s) @ []" using assms(3) by (auto simp: mark_recovery_notified_def)
  moreover have "tables_ok (ms_db s) \<longrightarrow> tables_ok (ms_db s')" using assms(3) mark_recovery_ok by metis
  ultimately show ?thesis using assms(1,2) by (intro queue_rows)
qed

lemma queue_recovery: "queue_kept mc es s (snd (recovery_stage mc e s))"
proof -
  obtain sent w where d: "send_all mc e (map (recovery_notice mc e) (recovered (ms_db s))) s = (sent, w)" by fastforce
  show ?thesis
    by (rule queue_same_rows)
      (use send_all_sent [OF d] d in \<open>auto simp: recovery_stage_def committed_def Let_def\<close>)
qed

lemma extends_tell: "extends w (tell_admins mc e ac n w)"
  by (simp add: tell_admins_def extends_send_text)

lemma queue_guard: "queue_kept mc es s (guard_stage mc e s)"
  by (rule queue_same_rows)
    (auto simp: guard_stage_def Let_def extends_tell split: prod.split option.split)

lemma queue_cycle: "e \<in> set es \<Longrightarrow> queue_kept mc es s (snd (run_once mc e s))"
  unfolding run_once_def Let_def
  by (auto simp: queue_refl
      intro!: queue.seq queue.committed queue_rollup queue_detect queue_resolve queue_notify queue_recovery queue_guard)

lemma queue_loop: "queue_kept mc es s (monitor_loop mc es s)"
  by (rule queue.loop) (rule queue_cycle)

text \<open>
  C16: an alert that waits to be sent is never lost. After any number of cycles, whichever of
  their steps raised and whatever the network did, it is still in the table; and when it is marked
  as sent, then in one of the cycles a channel delivered a whole message with it (the webhook its
  list, or the gateway the mail of every carrier), or no channel is configured at all, in which
  case the monitor marks the alerts without sending anything.
\<close>

theorem waiting_alert_is_kept_or_delivered:
  assumes "tables_ok (ms_db s)" and "r \<in> set (mo_alerts (ms_db s))" and "\<not> ar_notified r"
  shows "\<exists>r' \<in> set (mo_alerts (ms_db (monitor_loop mc es s))).
    ar_id r' = ar_id r \<and> ar_alert r' = ar_alert r
    \<and> (ar_notified r' \<longrightarrow> (if channels_configured (mc_channels mc) (ms_accounts s) then told mc es (monitor_loop mc es s) r else True))"
  using queue_loop [of mc es s] assms by (fastforce simp: queue_kept_def row_kept_def)

section \<open>The disk guard\<close>

lemma seq_step_eq: "seq_step f g s = (if fst (f s) then g (snd (f s)) else (False, snd (f s)))"
  by (simp add: seq_step_def split: prod.split)

lemma storage_notify: "ms_storage (snd (notify_stage mc e s)) = ms_storage s"
  by (simp add: notify_stage_def committed_def Let_def split: prod.split)

lemma storage_recovery: "ms_storage (snd (recovery_stage mc e s)) = ms_storage s"
  by (simp add: recovery_stage_def committed_def Let_def split: prod.split)

lemma accounts_notify: "ms_accounts (snd (notify_stage mc e s)) = ms_accounts s"
  by (simp add: notify_stage_def committed_def Let_def split: prod.split)

lemma accounts_recovery: "ms_accounts (snd (recovery_stage mc e s)) = ms_accounts s"
  by (simp add: recovery_stage_def committed_def Let_def split: prod.split)

lemma stage_frame:
  "ms_storage (rollup_stage mc e cfg s) = ms_storage s" "ms_storage (detect_stage mc e cfg s) = ms_storage s"
  "ms_storage (resolve_stage mc e s) = ms_storage s" "ms_accounts (rollup_stage mc e cfg s) = ms_accounts s"
  "ms_accounts (detect_stage mc e cfg s) = ms_accounts s" "ms_accounts (resolve_stage mc e s) = ms_accounts s"
  by (simp_all add: rollup_stage_def detect_stage_def resolve_stage_def Let_def)

lemma storage_guard:
  "ms_storage (guard_stage mc e s) = (if ce_fails e Guard then ms_storage s
     else snd (snd (enforce (ce_du e) (ce_du_after e) (ce_month e) (ms_accounts s) (ms_storage s))))"
  by (simp add: guard_stage_def split: prod.split)

text \<open>
  C25: the partitions of the log table change in a cycle exactly when every step before the disk
  guard ended without an exception, and then as \<open>enforce\<close> says: the guard is the last call in the
  same \<open>try\<close>. So as long as the rollup raises, as a full disk makes it, no partition is dropped.
\<close>

theorem guard_runs_after_a_whole_cycle:
  "ms_storage (snd (run_once mc e s)) =
     (if fst (run_once mc e s) \<and> \<not> ce_fails e Guard
      then snd (snd (enforce (ce_du e) (ce_du_after e) (ce_month e) (ms_accounts s) (ms_storage s)))
      else ms_storage s)"
  by (simp add: run_once_def seq_step_eq storage_notify storage_recovery accounts_notify accounts_recovery
      storage_guard storage_same.committed accounts_same.committed stage_frame Let_def)

text \<open>
  While the rollup raises in every cycle, as on a full disk, the guard that should free the disk
  never runs, whatever the disk usage is.
\<close>

theorem failing_rollup_blocks_the_guard:
  assumes "\<forall>e \<in> set es. ce_fails e RollUp"
  shows "ms_storage (monitor_loop mc es s) = ms_storage s"
proof -
  have one: "ce_fails e RollUp \<Longrightarrow> ms_storage (snd (run_once mc e s)) = ms_storage s" for e s
    by (simp add: run_once_def seq_step_eq committed_def Let_def)
  show ?thesis using assms one by (intro storage_same.loop) blast
qed

section \<open>The cycle of the tables\<close>

lemma notify_stage_db:
  "fst (notify_stage mc e s) \<Longrightarrow> ms_db (snd (notify_stage mc e s)) =
     notify (channels_configured (mc_channels mc) (ms_accounts s))
       (fst (send_all mc e (map (alert_notice e) (to_send (ms_db s))) s)) (ms_db s)"
  by (auto simp: notify_stage_def notify_def committed_def Let_def split: prod.splits if_splits)

lemma recovery_stage_db:
  "fst (recovery_stage mc e s) \<Longrightarrow> ms_db (snd (recovery_stage mc e s)) =
     notify_recovery (channels_configured (mc_channels mc) (ms_accounts s))
       (fst (send_all mc e (map (recovery_notice mc e) (recovered (ms_db s))) s)) (ms_db s)"
  by (auto simp: recovery_stage_def notify_recovery_def committed_def Let_def split: prod.splits if_splits)

lemma record_all_Nil: "snd (record_all now cfg [] db) = db"
  by (simp add: record_all_def)

lemma detect_stage_db:
  "ms_db (detect_stage mc e cfg s) =
     snd (record_all (ce_now e) (cfg_of cfg) (map (annotated mc cfg (all_rows (ms_storage s))) (found_alerts mc e cfg s)) (ms_db s))"
  by (simp add: detect_stage_def record_all_Nil Let_def)

text \<open>Without a channel \<open>dispatch\<close> sends nothing; so the messages of a stage are those of its one call.\<close>

lemma unconfigured_dispatch:
  assumes "\<not> channels_configured dflt ac"
  shows "dispatch net isofmt short kst now where_is dflt ac alerts ch w = (False, w)"
proof -
  have no: "ch_webhook (load_cfg dflt ac) = []" "ch_hms (load_cfg dflt ac) = []"
    using assms by (simp_all add: channels_configured_def Let_def)
  have "try_channels (\<lambda>c. case c of Webhook \<Rightarrow> send_webhook net isofmt short kst as (load_cfg dflt ac)
      | Hms \<Rightarrow> send_hms net now kst as (load_cfg dflt ac)) cs False w = (False, w)" for as cs
    by (induction cs) (simp_all add: send_webhook_def send_hms_def no split: channel.split)
  then show ?thesis by (simp add: dispatch_def Let_def)
qed

lemma send_all_nothing [simp]: "send_all mc e [] s = (False, ms_wire s)"
  by (simp add: send_all_def dispatch_def)

lemma send_all_unconfigured: "\<not> channels_configured (mc_channels mc) (ms_accounts s) \<Longrightarrow> send_all mc e ns s = (False, ms_wire s)"
  by (simp add: send_all_def unconfigured_dispatch)

lemma send_all_cong: "ms_accounts s = ms_accounts s' \<Longrightarrow> ms_wire s = ms_wire s' \<Longrightarrow> send_all mc e ns s = send_all mc e ns s'"
  by (simp add: send_all_def)

lemma notify_stage_wire:
  "fst (notify_stage mc e s) \<Longrightarrow> ms_wire (snd (notify_stage mc e s)) = snd (send_all mc e (map (alert_notice e) (to_send (ms_db s))) s)"
  by (auto simp: notify_stage_def committed_def send_all_unconfigured Let_def split: prod.splits if_splits)

lemma recovery_stage_wire:
  "fst (recovery_stage mc e s) \<Longrightarrow> ms_wire (snd (recovery_stage mc e s)) = snd (send_all mc e (map (recovery_notice mc e) (recovered (ms_db s))) s)"
  by (auto simp: recovery_stage_def committed_def send_all_unconfigured Let_def split: prod.splits if_splits)

lemma wire_frame:
  "ms_wire (rollup_stage mc e cfg s) = ms_wire s" "ms_wire (detect_stage mc e cfg s) = ms_wire s" "ms_wire (resolve_stage mc e s) = ms_wire s"
  by (simp_all add: rollup_stage_def detect_stage_def resolve_stage_def Let_def)

lemma extends_guard: "extends (ms_wire s) (ms_wire (guard_stage mc e s))"
  by (auto simp: guard_stage_def extends_tell split: prod.split option.split)

lemma send_all_delivers:
  "send_all mc e ns s = (True, w) \<Longrightarrow>
     delivered (ce_isofmt e) (ce_short e) (ce_kst e) (ce_stamp e) (enrich_alerts (ce_where e) ns) (load_cfg (mc_channels mc) (ms_accounts s)) w"
  using send_all_sent by blast

text \<open>
  C17: a cycle that ends without an exception does to alerts and episodes what the abstract cycle
  of \<open>Episodes\<close> says: for the alerts that the detection finds in the metrics just rolled up, with the
  causes written into them, and with what its two calls of \<open>dispatch\<close> returned, the first for the
  alerts that wait after the detection, the second for the episodes that recovered and on the
  network as the first left it. Where such a call says that it sent, all its messages arrived
  through one channel. So the properties of episodes hold for the composed program.
\<close>

theorem cycle_refines_the_tables:
  assumes "run_once mc e s = (True, s')"
  shows "let cfg = load_alerts (mc_defaults mc) (ms_accounts s);
        alerts = map (annotated mc cfg (all_rows (ms_storage s))) (found_alerts mc e cfg (rollup_stage mc e cfg s));
        configured = channels_configured (mc_channels mc) (ms_accounts s);
        db1 = resolve_episodes (ce_now e) (mc_bucket mc) (snd (record_all (ce_now e) (cfg_of cfg) alerts (ms_db s)));
        told1 = map (alert_notice e) (to_send db1);
        sent = fst (send_all mc e told1 s); w1 = snd (send_all mc e told1 s);
        told2 = map (recovery_notice mc e) (recovered (notify configured sent db1));
        sent_recovery = fst (send_all mc e told2 (s\<lparr>ms_wire := w1\<rparr>)); w2 = snd (send_all mc e told2 (s\<lparr>ms_wire := w1\<rparr>));
        arrived = (\<lambda>ns. delivered (ce_isofmt e) (ce_short e) (ce_kst e) (ce_stamp e) (enrich_alerts (ce_where e) ns)
          (load_cfg (mc_channels mc) (ms_accounts s)))
      in ms_db s' = monitor_cycle (ce_now e) (mc_bucket mc) (cfg_of cfg) alerts configured sent sent_recovery (ms_db s)
        \<and> extends w2 (ms_wire s') \<and> (sent \<longrightarrow> arrived told1 w1) \<and> (sent_recovery \<longrightarrow> arrived told2 w2)"
proof -
  let ?cfg = "load_alerts (mc_defaults mc) (ms_accounts s)" and ?on = "channels_configured (mc_channels mc) (ms_accounts s)"
  let ?r = "rollup_stage mc e ?cfg s"
  let ?v = "resolve_stage mc e (detect_stage mc e ?cfg ?r)"
  let ?n = "snd (notify_stage mc e ?v)"
  let ?alerts = "map (annotated mc ?cfg (all_rows (ms_storage s))) (found_alerts mc e ?cfg ?r)"
  let ?db1 = "resolve_episodes (ce_now e) (mc_bucket mc) (snd (record_all (ce_now e) (cfg_of ?cfg) ?alerts (ms_db s)))"
  let ?told1 = "map (alert_notice e) (to_send ?db1)"
  let ?sent = "fst (send_all mc e ?told1 s)" and ?w1 = "snd (send_all mc e ?told1 s)"
  let ?told2 = "map (recovery_notice mc e) (recovered (notify ?on ?sent ?db1))"
  let ?sr = "send_all mc e ?told2 (s\<lparr>ms_wire := ?w1\<rparr>)"
  have s': "s' = guard_stage mc e (snd (recovery_stage mc e ?n))"
    and ok: "fst (notify_stage mc e ?v)" "fst (recovery_stage mc e ?n)"
    using assms by (auto simp: run_once_def seq_step_eq committed_def Let_def split: if_splits)
  have v: "ms_db ?v = ?db1" "ms_accounts ?v = ms_accounts s" "ms_wire ?v = ms_wire s"
    by (simp_all add: stage_frame wire_frame) (simp add: resolve_stage_def detect_stage_db stage_frame rollup_stage_def)
  have first: "send_all mc e ns ?v = send_all mc e ns s" for ns by (rule send_all_cong) (simp_all add: v)
  have n: "ms_db ?n = notify ?on ?sent ?db1" "ms_wire ?n = ?w1" "ms_accounts ?n = ms_accounts s"
    using notify_stage_db [OF ok(1)] notify_stage_wire [OF ok(1)] by (simp_all only: v first accounts_notify)
  have second: "send_all mc e ns ?n = send_all mc e ns (s\<lparr>ms_wire := ?w1\<rparr>)" for ns by (rule send_all_cong) (simp_all add: n)
  have "ms_db s' = ms_db (snd (recovery_stage mc e ?n))" by (simp add: s' guard_stage_def split: prod.split)
  also have "\<dots> = notify_recovery ?on (fst ?sr) (notify ?on ?sent ?db1)"
    using recovery_stage_db [OF ok(2)] by (simp only: n second)
  finally have db: "ms_db s' = monitor_cycle (ce_now e) (mc_bucket mc) (cfg_of ?cfg) ?alerts ?on ?sent (fst ?sr) (ms_db s)"
    by (simp add: monitor_cycle_def)
  have "ms_wire (snd (recovery_stage mc e ?n)) = snd ?sr" using recovery_stage_wire [OF ok(2)] by (simp only: n second)
  then have wire: "extends (snd ?sr) (ms_wire s')" using extends_guard [of "snd (recovery_stage mc e ?n)" mc e] by (simp only: s')
  note sent = send_all_delivers [of mc e ?told1 s ?w1] send_all_delivers [of mc e ?told2 "s\<lparr>ms_wire := ?w1\<rparr>" "snd ?sr"]
  show ?thesis unfolding Let_def using db wire sent by (simp add: prod_eq_iff)
qed

section \<open>The causes\<close>

lemma tally_set: "set (tally xs) = (\<lambda>x. (x, count_list xs x)) ` set xs"
  by (simp add: tally_def)

lemma tally_distinct: "distinct (map fst (tally xs))"
  by (simp add: tally_def comp_def)

lemma count_pos: "x \<in> set xs \<Longrightarrow> 0 < count_list xs x"
  by (metis count_list_0_iff gr0I)

lemma sorted_take_drop: "sorted xs \<Longrightarrow> x \<in> set (take k xs) \<Longrightarrow> y \<in> set (drop k xs) \<Longrightarrow> x \<le> y"
  by (metis append_take_drop_id sorted_append)

lemma failed_accounts_facts:
  "set (failed_accounts logs bucket a) = set (tally (map account_name (login_rows logs bucket a)))"
  "distinct (map fst (failed_accounts logs bucket a))"
  "length (failed_accounts logs bucket a) = card (account_name ` set (login_rows logs bucket a))"
proof -
  let ?t = "tally (map account_name (login_rows logs bucket a))" and ?f = "failed_accounts logs bucket a"
  have "mset ?f = mset ?t" by (simp add: failed_accounts_def)
  then have "mset (map fst ?f) = mset (map fst ?t)" by simp
  then show "distinct (map fst ?f)" using tally_distinct mset_eq_imp_distinct_iff by blast
  show "set ?f = set ?t" by (simp add: failed_accounts_def)
  show "length ?f = card (account_name ` set (login_rows logs bucket a))"
    by (simp add: failed_accounts_def tally_def length_remdups_card_conv)
qed

definition failures :: "log list \<Rightarrow> time \<Rightarrow> alert \<Rightarrow> string \<Rightarrow> nat" where
  "failures logs bucket a u = length (filter (\<lambda>l. account_name l = u) (login_rows logs bucket a))"

lemma failures_count: "count_list (map account_name (login_rows logs bucket a)) u = failures logs bucket a u"
  by (simp add: failures_def count_list_eq_length_filter filter_map comp_def eq_commute)

text \<open>
  The accounts that a login alert names are those that failed most. Every account with a
  failed login of the bucket is listed once, with the number of its failures; the message names
  three, or all if there are fewer, and no account that is only counted in the rest failed
  more often than a named one.
\<close>

theorem named_accounts_failed_most:
  "let xs = failed_accounts logs bucket a; named = map fst (take LOGIN_TOP_ACCOUNTS xs) in
     set (map fst xs) = account_name ` set (login_rows logs bucket a) \<and> distinct (map fst xs)
     \<and> list_all (\<lambda>(u, n). n = failures logs bucket a u \<and> 0 < n) xs
     \<and> length named = min 3 (card (account_name ` set (login_rows logs bucket a)))
     \<and> list_all (\<lambda>u. list_all (\<lambda>v. failures logs bucket a v \<le> failures logs bucket a u)
          (map fst (drop LOGIN_TOP_ACCOUNTS xs))) named"
proof -
  let ?xs = "failed_accounts logs bucket a" and ?key = "\<lambda>(u, n). (- int n, u :: string)"
  have cnt: "n = failures logs bucket a u \<and> 0 < n \<and> u \<in> account_name ` set (login_rows logs bucket a)"
    if "(u, n) \<in> set ?xs" for u n
    using that count_pos [of u "map account_name (login_rows logs bucket a)"]
    unfolding failed_accounts_facts(1) tally_set by (auto simp: failures_count)
  have "sorted (map ?key ?xs)" by (simp add: failed_accounts_def)
  then have le: "?key x \<le> ?key y" if "x \<in> set (take 3 ?xs)" "y \<in> set (drop 3 ?xs)" for x y
    using that sorted_take_drop [of "map ?key ?xs" "?key x" 3 "?key y"] by (simp add: take_map drop_map)
  have most: "failures logs bucket a v \<le> failures logs bucket a u"
    if x: "(u, n) \<in> set (take 3 ?xs)" and y: "(v, k) \<in> set (drop 3 ?xs)" for u n v k
  proof -
    have "n = failures logs bucket a u" "k = failures logs bucket a v"
      using cnt [OF in_set_takeD [OF x]] cnt [OF in_set_dropD [OF y]] by simp_all
    moreover have "- int n \<le> - int k" using le [OF x y] by (auto simp: less_eq_prod_def)
    ultimately show ?thesis by simp
  qed
  have "set (map fst ?xs) = account_name ` set (login_rows logs bucket a)"
    unfolding set_map failed_accounts_facts(1) tally_set by force
  moreover have "list_all (\<lambda>(u, n). n = failures logs bucket a u \<and> 0 < n) ?xs"
    using cnt by (auto simp: list_all_iff)
  ultimately show ?thesis
    using failed_accounts_facts(2,3) [of logs bucket a] most
    by (auto simp: Let_def LOGIN_TOP_ACCOUNTS_def list_all_iff min.commute)
qed

section \<open>The cause comes back\<close>

text \<open>\<open>cause_of\<close>: what the two annotations have to say of an alert, if anything.\<close>

definition cause_of :: "monitor_conf \<Rightarrow> (string, setting_value) dict \<Rightarrow> log list \<Rightarrow> alert \<Rightarrow> string option" where
  "cause_of mc cfg logs a =
     (if al_metric a = ''cwd_fail_spike'' then
        (case sort_key (\<lambda>(p, n). - int n) (tally (map lg_path
            (cwd_rows (like_patterns (text_of (read cfg ''cwd_ignore_paths''))) logs (mc_bucket mc) a))) of
           (Some (c # cs), n) # _ \<Rightarrow> Some (cwd_cause (al_value a) (c # cs) n)
         | _ \<Rightarrow> None)
      else if al_metric a = ''login_fail_rate'' \<and> failed_accounts logs (mc_bucket mc) a \<noteq> []
      then Some (login_cause (failed_accounts logs (mc_bucket mc) a))
      else None)"

definition dashes :: "string \<Rightarrow> bool" where
  "dashes s \<longleftrightarrow> has_substring ''--'' s"

lemma dashes_Nil [simp]: "\<not> dashes []"
  by (simp add: dashes_def)

lemma dashes_Cons: "dashes (c # s) \<longleftrightarrow> (c = CHR ''-'' \<and> s \<noteq> [] \<and> hd s = CHR ''-'') \<or> dashes s"
  by (cases s) (auto simp: dashes_def starts_with_def)

lemma dashes_append: "c \<noteq> CHR ''-'' \<Longrightarrow> dashes (s @ c # t) \<longleftrightarrow> dashes s \<or> dashes t"
proof (induction s)
  case (Cons x s)
  then show ?case by (cases s) (auto simp: dashes_Cons)
qed (simp add: dashes_Cons)

lemma plain_dashes: "CHR ''-'' \<notin> set s \<Longrightarrow> \<not> dashes s"
  by (induction s) (auto simp: dashes_Cons)

lemma sep_found:
  "\<not> dashes m \<Longrightarrow> after_first DETAIL_SEP (m @ DETAIL_SEP @ c) = Some c \<and> has_substring DETAIL_SEP (m @ DETAIL_SEP @ c)"
proof (induction m)
  case Nil
  show ?case by (simp add: DETAIL_SEP_def starts_with_def)
next
  case (Cons x m)
  have "\<not> starts_with DETAIL_SEP ((x # m) @ DETAIL_SEP @ c)"
    using Cons.prems
    by (cases m; cases "tl m"; cases "tl (tl m)")
      (auto simp: DETAIL_SEP_def starts_with_def dashes_Cons)
  with Cons.IH Cons.prems show ?case by (simp add: dashes_Cons)
qed

lemma sep_not_found: "\<not> dashes m \<Longrightarrow> \<not> has_substring DETAIL_SEP m"
proof (induction m)
  case (Cons x m)
  then show ?case
    by (cases m; cases "tl m") (auto simp: DETAIL_SEP_def starts_with_def dashes_Cons)
qed (simp add: DETAIL_SEP_def)

lemma detail_of_cause: "\<not> dashes m \<Longrightarrow> alert_detail (Some (m @ DETAIL_SEP @ c)) = Some c"
  using sep_found [of m c] by (simp add: alert_detail_def DETAIL_SEP_def)

lemma detail_of_plain: "\<not> dashes m \<Longrightarrow> alert_detail (Some m) = None"
  using sep_not_found by (simp add: alert_detail_def)

lemma nearest_nonneg: "0 \<le> y \<Longrightarrow> 0 \<le> nearest y"
  by (auto simp: nearest_def Let_def)

lemma show_int_plain: "0 \<le> i \<Longrightarrow> CHR ''-'' \<notin> set (show_int i)"
  by (simp add: show_int_def show_nat_chars)

lemma fixed_dashes [simp]: "\<not> dashes (fixed d x)"
proof -
  let ?n = "nearest (\<bar>x\<bar> * 10 ^ d)"
  let ?t = "show_int (?n div 10 ^ d) @ (if d = 0 then [] else CHR ''.'' # pad_zeros d (show_int (?n mod 10 ^ d)))"
  have "0 \<le> ?n" by (rule nearest_nonneg) simp
  then have t: "CHR ''-'' \<notin> set ?t"
    using show_int_plain [of "?n div 10 ^ d"] show_int_plain [of "?n mod 10 ^ d"]
    by (auto simp: pad_zeros_def pos_imp_zdiv_nonneg_iff)
  then have "?t \<noteq> [] \<Longrightarrow> hd ?t \<noteq> CHR ''-''" using hd_in_set [of ?t] by metis
  with plain_dashes [OF t] have "\<not> dashes (CHR ''-'' # ?t)" "\<not> dashes ?t" by (auto simp: dashes_Cons)
  moreover have "fixed d x = (if x < 0 then CHR ''-'' # ?t else ?t)" by (simp only: fixed_def Let_def) simp
  ultimately show ?thesis by presburger
qed

lemma show_int_dashes [simp]: "\<not> dashes (show_int (int n))"
  by (rule plain_dashes) (simp add: show_int_plain)

lemma message_dashes: "a \<in> set (eval_bucket cand baseline th) \<Longrightarrow> \<not> dashes (al_message a)"
  by (auto simp: eval_bucket_def eval_fail_rate_def eval_throughput_def eval_login_def eval_cwd_def mk_def Let_def
      dashes_append dashes_Cons split: if_splits option.splits)

lemma annotated_message:
  "al_message (annotated mc cfg logs a) =
     (case cause_of mc cfg logs a of None \<Rightarrow> al_message a | Some c \<Rightarrow> al_message a @ DETAIL_SEP @ c)"
proof (cases "al_metric a = ''cwd_fail_spike''")
  case True
  then show ?thesis
    by (auto simp: annotated_def annotate_cwd_path_def annotate_login_accounts_def cause_of_def truthy_iff
        split: list.split option.split)
next
  case False
  then show ?thesis
    by (simp add: annotated_def annotate_cwd_path_def annotate_login_accounts_def cause_of_def Let_def)
qed

text \<open>
  C18: a message gives its cause back. What a notification shows as the detail of an alert is
  exactly the cause that was found for its bucket, and nothing when none was found: the texts of
  the judgement never contain the separator, so its first occurrence is the one that the
  annotation wrote, also when a path or an account contains it again.
\<close>

theorem detail_is_the_cause:
  assumes "a \<in> set (eval_bucket cand baseline th)"
  shows "alert_detail (Some (al_message (annotated mc cfg logs a))) = cause_of mc cfg logs a"
  using message_dashes [OF assms] detail_of_cause detail_of_plain
  by (simp add: annotated_message split: option.split)

section \<open>Witnesses\<close>

definition sample_mc :: monitor_conf where
  "sample_mc = \<lparr>mc_interval = 300, mc_bucket = minutes 5, mc_large = 1048576, mc_baseline_days = 14,
     mc_channels = \<lparr>ch_webhook = ''u'', ch_hms = []\<rparr>, mc_defaults = sample_env\<rparr>"

definition sample_cycle :: "stage set \<Rightarrow> cycle_env" where
  "sample_cycle F = \<lparr>ce_now = minutes 60, ce_month = (2026, 9), ce_fails = (\<lambda>st. st \<in> F), ce_net = (\<lambda>n. 0 < n),
     ce_isofmt = (\<lambda>t. []), ce_short = (\<lambda>t. []), ce_kst = (\<lambda>t. []), ce_stamp = [], ce_where = (\<lambda>d. None),
     ce_hostname = (\<lambda>d. ''ftp1''), ce_du = (\<lambda>p. Some (100, 1)), ce_du_after = (\<lambda>p. Some (100, 30))\<rparr>"

definition waiting_row :: alert_row where
  "waiting_row = \<lparr>ar_id = 0, ar_alert = sample_alert ''critical'' 0, ar_notified = False\<rparr>"

definition sample_monitor :: monitor_state where
  "sample_monitor = \<lparr>ms_storage = sample_storage, ms_metrics = [],
     ms_db = \<lparr>mo_alerts = [waiting_row], mo_next_id = 1, mo_episodes = []\<rparr>,
     ms_accounts = sample_accounts, ms_wire = \<lparr>wi_calls = 0, wi_sent = []\<rparr>\<rparr>"

text \<open>The first cycle raises in the rollup, the network is down in the second and up in the third.\<close>

theorem waiting_alert_is_kept_or_delivered_witness:
  "let es = [sample_cycle {RollUp}, sample_cycle {}, sample_cycle {}]; s' = monitor_loop sample_mc es sample_monitor in
   \<exists>r' \<in> set (mo_alerts (ms_db s')). ar_id r' = 0 \<and> (ar_notified r' \<longrightarrow> told sample_mc es s' waiting_row)"
proof -
  have "tables_ok (ms_db sample_monitor)" "waiting_row \<in> set (mo_alerts (ms_db sample_monitor))" "\<not> ar_notified waiting_row"
    and "channels_configured (mc_channels sample_mc) (ms_accounts sample_monitor)" and "ar_id waiting_row = 0"
    by (simp_all add: sample_monitor_def waiting_row_def tables_ok_def sample_mc_def channels_configured_def load_cfg_def
        get_config_def sample_accounts_def Let_def)
  with waiting_alert_is_kept_or_delivered [OF this(1-3), of sample_mc "[sample_cycle {RollUp}, sample_cycle {}, sample_cycle {}]"]
  show ?thesis by (fastforce simp: Let_def)
qed

theorem failing_rollup_blocks_the_guard_witness:
  "ms_storage (monitor_loop sample_mc [sample_cycle {RollUp}, sample_cycle {RollUp, Notify}] sample_monitor) = sample_storage"
proof -
  have "\<forall>e \<in> set [sample_cycle {RollUp}, sample_cycle {RollUp, Notify}]. ce_fails e RollUp" by (simp add: sample_cycle_def)
  from failing_rollup_blocks_the_guard [OF this] show ?thesis by (simp add: sample_monitor_def)
qed

lemma calm_seq: "fst (f s) \<Longrightarrow> (\<And>s. fst (g s)) \<Longrightarrow> fst (seq_step f g s)"
  by (simp add: seq_step_eq)

lemma calm_cycle: "fst (run_once mc (sample_cycle {}) s)"
proof -
  have calm: "\<not> ce_fails (sample_cycle {}) st" for st by (simp add: sample_cycle_def)
  have c: "fst (committed (sample_cycle {}) st f s)" for st f s by (simp add: committed_def calm)
  have "fst (notify_stage mc (sample_cycle {}) s)" "fst (recovery_stage mc (sample_cycle {}) s)" for s
    by (simp_all add: notify_stage_def recovery_stage_def calm c Let_def split: prod.split)
  then show ?thesis unfolding run_once_def Let_def by (auto simp only: calm if_False fst_conv intro!: calm_seq c)
qed

theorem cycle_refines_the_tables_witness:
  "\<exists>alerts configured sent sent_recovery. ms_db (snd (run_once sample_mc (sample_cycle {}) sample_monitor)) =
     monitor_cycle (minutes 60) (minutes 5) (cfg_of (load_alerts sample_env sample_accounts)) alerts configured sent sent_recovery
       (ms_db sample_monitor)"
proof -
  have "run_once sample_mc (sample_cycle {}) sample_monitor = (True, snd (run_once sample_mc (sample_cycle {}) sample_monitor))"
    using calm_cycle [of sample_mc sample_monitor] by (simp add: prod_eq_iff)
  note step = cycle_refines_the_tables [OF this, unfolded Let_def]
  have env: "ce_now (sample_cycle {}) = minutes 60" "mc_bucket sample_mc = minutes 5" "mc_defaults sample_mc = sample_env"
    "ms_accounts sample_monitor = sample_accounts"
    by (simp_all add: sample_cycle_def sample_mc_def sample_monitor_def)
  show ?thesis by (intro exI) (rule conjunct1 [OF step [unfolded env]])
qed

definition failed_login :: "string \<Rightarrow> log" where
  "failed_login u = \<lparr>lg_device = 1, lg_time = 1, lg_username = Some u, lg_action = ''login'', lg_path = None,
     lg_size = 0, lg_secs = 0, lg_status = ''fail''\<rparr>"

definition login_alert :: alert where
  "login_alert = mk ((sample_metrics 0 10)\<lparr>m_login_attempts := 10, m_login_fails := 4\<rparr>) ''login_fail_rate'' ''warning''
     (2 / 5) None (3 / 10) 10
     (''login failure rate '' @ fixed 1 (2 / 5 * 100) @ ''% (limit '' @ fixed 1 (3 / 10 * 100) @ ''%)'')"

theorem detail_is_the_cause_witness:
  "alert_detail (Some (al_message (annotated sample_mc (load_alerts sample_env sample_accounts)
     (map failed_login [''lee'', ''kim'', '' -- '', ''kim'']) login_alert))) = Some ''accounts kim 2,  --  1, lee 1''"
proof -
  let ?cand = "(sample_metrics 0 10)\<lparr>m_login_attempts := 10, m_login_fails := 4\<rparr>"
  have a: "login_alert \<in> set (eval_bucket ?cand [] sample_cfg)"
    by (simp add: login_alert_def eval_bucket_def eval_login_def sample_metrics_def sample_cfg_def
        upper_threshold_def median_def Let_def)
  have rows: "login_rows (map failed_login [''lee'', ''kim'', '' -- '', ''kim'']) (minutes 5) login_alert
      = map failed_login [''lee'', ''kim'', '' -- '', ''kim'']"
    by (simp add: login_rows_def failed_login_def login_alert_def mk_def sample_metrics_def)
  have acc: "failed_accounts (map failed_login [''lee'', ''kim'', '' -- '', ''kim'']) (minutes 5) login_alert
      = [(''kim'', 2), ('' -- '', 1), (''lee'', 1)]"
    unfolding failed_accounts_def rows
    by (simp add: account_name_def failed_login_def tally_def less_eq_prod_def less_prod_def)
  have metric: "al_metric login_alert = ''login_fail_rate''" by (simp add: login_alert_def mk_def)
  have "login_cause [(''kim'', 2), ('' -- '', 1), (''lee'', 1)] = ''accounts kim 2,  --  1, lee 1''"
    by (simp add: login_cause_def LOGIN_TOP_ACCOUNTS_def show_nat.simps char_of_eq_iff Let_def)
  with detail_is_the_cause [OF a, of sample_mc] acc metric show ?thesis
    by (simp add: cause_of_def sample_mc_def)
qed

end
