(* ===== verification/Routes.thy ===== *)
theory Routes
  imports Scope
begin

text \<open>
  The front door of the server: the routers that \<open>was/app/main.py\<close> includes with the decorators
  of \<open>routers/*.py\<close>, the dependency that guards each route (\<open>deps.py\<close>), the page for all other
  paths (\<open>spa\<close>) and the headers of every response (\<open>SecurityHeadersMiddleware\<close>).

  Starlette takes the first route in the order of inclusion whose method and path match; a
  parameter of a path matches one segment that is not empty. A path is decoded and starts with
  a slash. What a handler does is the matter of the other theories: here it is a name.
\<close>

section \<open>Routes\<close>

datatype pseg = Lit string | Param

datatype access = Public | SignedIn | Admin

record route =
  rt_method :: string
  rt_path :: "pseg list"
  rt_access :: access
  rt_handler :: string

definition R :: "string \<Rightarrow> string \<Rightarrow> pseg list \<Rightarrow> access \<Rightarrow> string \<Rightarrow> route" where
  "R meth prefix rest acc handler =
     \<lparr>rt_method = meth, rt_path = [Lit ''api'', Lit ''v1'', Lit prefix] @ rest, rt_access = acc, rt_handler = handler\<rparr>"

definition auth_routes :: "route list" where
  "auth_routes =
     [R ''POST'' ''auth'' [Lit ''login''] Public ''login'',
      R ''POST'' ''auth'' [Lit ''refresh''] SignedIn ''refresh'',
      R ''POST'' ''auth'' [Lit ''password''] SignedIn ''change_my_password'']"

definition ingest_routes :: "route list" where
  "ingest_routes =
     [R ''POST'' ''ingest'' [Lit ''register''] Public ''register_device'',
      R ''POST'' ''ingest'' [Lit ''heartbeat''] Public ''heartbeat'',
      R ''POST'' ''ingest'' [Lit ''logs''] Public ''ingest_logs'']"

definition devices_routes :: "route list" where
  "devices_routes =
     [R ''GET'' ''devices'' [] SignedIn ''list_devices'',
      R ''GET'' ''devices'' [Param] Admin ''get_device'',
      R ''PUT'' ''devices'' [Param, Lit ''status''] Admin ''update_device_status'',
      R ''PUT'' ''devices'' [Param, Lit ''groups''] Admin ''assign_groups'',
      R ''POST'' ''devices'' [Lit ''bulk-update''] Admin ''request_daemon_update_bulk'',
      R ''POST'' ''devices'' [Param, Lit ''update''] Admin ''request_daemon_update'',
      R ''DELETE'' ''devices'' [Param] Admin ''delete_device'']"

definition groups_routes :: "route list" where
  "groups_routes =
     [R ''GET'' ''groups'' [] SignedIn ''list_groups'',
      R ''POST'' ''groups'' [] Admin ''create_group'',
      R ''PUT'' ''groups'' [Param] Admin ''update_group'',
      R ''PUT'' ''groups'' [Param, Lit ''devices''] Admin ''assign_devices'',
      R ''POST'' ''groups'' [Param, Lit ''update''] Admin ''request_group_daemon_update'',
      R ''POST'' ''groups'' [Lit ''bulk-update''] Admin ''request_group_daemon_update_bulk'',
      R ''DELETE'' ''groups'' [Param] Admin ''delete_group'']"

definition logs_routes :: "route list" where
  "logs_routes =
     [R ''GET'' ''logs'' [] SignedIn ''query_logs'',
      R ''GET'' ''logs'' [Lit ''usernames''] SignedIn ''list_usernames'',
      R ''GET'' ''logs'' [Lit ''count''] SignedIn ''count_logs'',
      R ''GET'' ''logs'' [Lit ''export''] SignedIn ''export_csv'',
      R ''GET'' ''logs'' [Lit ''export'', Lit ''xlsx''] SignedIn ''export_xlsx'']"

definition dashboard_routes :: "route list" where
  "dashboard_routes =
     [R ''GET'' ''dashboard'' [] SignedIn ''get_dashboard'',
      R ''GET'' ''dashboard'' [Lit ''hourly''] SignedIn ''get_hourly'',
      R ''GET'' ''dashboard'' [Lit ''users-hourly''] SignedIn ''get_users_hourly'',
      R ''GET'' ''dashboard'' [Lit ''service-health''] SignedIn ''get_service_health'',
      R ''GET'' ''dashboard'' [Lit ''cwd-fails''] SignedIn ''get_cwd_fail_breakdown'']"
definition settings_routes :: "route list" where
  "settings_routes =
     [R ''GET'' ''settings'' [Lit ''changelog''] Admin ''get_changelog'',
      R ''GET'' ''settings'' [Lit ''version''] Admin ''get_version'',
      R ''POST'' ''settings'' [Lit ''password''] Admin ''change_password'',
      R ''POST'' ''settings'' [Lit ''check-update''] Admin ''check_update'',
      R ''GET'' ''settings'' [Lit ''storage''] Admin ''get_storage'',
      R ''PUT'' ''settings'' [Lit ''storage'', Lit ''autopurge''] Admin ''update_autopurge'',
      R ''PUT'' ''settings'' [Lit ''storage'', Lit ''disk-path''] Admin ''update_disk_path'',
      R ''PUT'' ''settings'' [Lit ''storage'', Lit ''retention''] Admin ''update_retention'',
      R ''POST'' ''settings'' [Lit ''storage'', Lit ''rebalance''] Admin ''start_rebalance'',
      R ''GET'' ''settings'' [Lit ''storage'', Lit ''rebalance''] Admin ''get_rebalance'',
      R ''DELETE'' ''settings'' [Lit ''storage'', Lit ''partitions'', Param] Admin ''drop_partition'',
      R ''GET'' ''settings'' [Lit ''security''] Admin ''get_security'',
      R ''PUT'' ''settings'' [Lit ''allowed-ips''] Admin ''update_allowed_ips'',
      R ''GET'' ''settings'' [Lit ''login-config''] Public ''get_login_config'',
      R ''PUT'' ''settings'' [Lit ''login-config''] Admin ''save_login_config'',
      R ''POST'' ''settings'' [Lit ''login-config'', Lit ''image'', Param] Admin ''upload_login_image'',
      R ''DELETE'' ''settings'' [Lit ''login-config'', Lit ''image'', Param] Admin ''delete_login_image'',
      R ''GET'' ''settings'' [Lit ''notify''] Admin ''get_notify'',
      R ''PUT'' ''settings'' [Lit ''notify''] Admin ''save_notify'',
      R ''GET'' ''settings'' [Lit ''alerts''] Admin ''get_alerts'',
      R ''PUT'' ''settings'' [Lit ''alerts''] Admin ''save_alerts'',
      R ''POST'' ''settings'' [Lit ''alerts'', Lit ''reset''] Admin ''reset_alerts'',
      R ''POST'' ''settings'' [Lit ''notify'', Lit ''test''] Admin ''test_notify'',
      R ''GET'' ''settings'' [Lit ''notify'', Lit ''mute''] Admin ''get_mute'',
      R ''POST'' ''settings'' [Lit ''notify'', Lit ''mute''] Admin ''set_mute'',
      R ''POST'' ''settings'' [Lit ''update''] Admin ''trigger_update'']"

definition telcos_routes :: "route list" where
  "telcos_routes =
     [R ''GET'' ''telcos'' [] Admin ''list_telcos'',
      R ''POST'' ''telcos'' [] Admin ''create_telco'',
      R ''DELETE'' ''telcos'' [Param] Admin ''delete_telco'']"

definition users_routes :: "route list" where
  "users_routes =
     [R ''GET'' ''users'' [] Admin ''list_users'',
      R ''POST'' ''users'' [] Admin ''create_user'',
      R ''PUT'' ''users'' [Param] Admin ''update_user'',
      R ''POST'' ''users'' [Param, Lit ''unlock''] Admin ''unlock'',
      R ''DELETE'' ''users'' [Param] Admin ''delete_user'']"

definition api_keys_routes :: "route list" where
  "api_keys_routes =
     [R ''GET'' ''api-keys'' [] Admin ''list_keys'',
      R ''POST'' ''api-keys'' [] Admin ''create_key'',
      R ''PUT'' ''api-keys'' [Param, Lit ''status''] Admin ''set_key_status'',
      R ''DELETE'' ''api-keys'' [Param] Admin ''delete_key'']"

definition API_ROUTES :: "route list" where
  "API_ROUTES = auth_routes @ ingest_routes @ devices_routes @ groups_routes @ logs_routes @ dashboard_routes
     @ settings_routes @ telcos_routes @ users_routes @ api_keys_routes"

section \<open>Finding the route\<close>

fun match_path :: "pseg list \<Rightarrow> string list \<Rightarrow> bool" where
  "match_path [] ss = (ss = [])"
| "match_path (Lit l # ps) ss = (case ss of [] \<Rightarrow> False | s # ss' \<Rightarrow> s = l \<and> match_path ps ss')"
| "match_path (Param # ps) ss = (case ss of [] \<Rightarrow> False | s # ss' \<Rightarrow> s \<noteq> [] \<and> match_path ps ss')"

definition segments :: "string \<Rightarrow> string list" where
  "segments path = tl (split_on (CHR ''/'') path)"

definition route_matches :: "string \<Rightarrow> string list \<Rightarrow> route \<Rightarrow> bool" where
  "route_matches meth ss r \<longleftrightarrow> rt_method r = meth \<and> match_path (rt_path r) ss"

datatype endpoint = Api route | StaticFile | Index | NotFound | WrongMethod

text \<open>
  \<open>spa\<close> takes every path, but only with \<open>GET\<close>; other methods on a path that no route has for them
  are answered with 405.
\<close>

definition find_endpoint :: "string \<Rightarrow> string \<Rightarrow> endpoint" where
  "find_endpoint meth path =
     (case List.find (route_matches meth (segments path)) API_ROUTES of
        Some r \<Rightarrow> Api r
      | None \<Rightarrow>
          if starts_with ''/static/'' path then StaticFile
          else if meth \<noteq> ''GET'' then WrongMethod
          else if starts_with ''api/'' (tl path) then NotFound
          else Index)"

section \<open>Serving a request\<close>

text \<open>A handler runs, for a principal if its route has a dependency that gives one.\<close>

datatype answer = Runs string "principal option" | Refused http_error | SendsStatic | SendsIndex

definition guarded :: "string \<Rightarrow> principal http \<Rightarrow> answer" where
  "guarded handler p = (case p of Inl e \<Rightarrow> Refused e | Inr u \<Rightarrow> Runs handler (Some u))"

definition serve_request ::
  "env \<Rightarrow> (string \<Rightarrow> string) \<Rightarrow> (time \<Rightarrow> string \<Rightarrow> claims option) \<Rightarrow> time \<Rightarrow> string \<Rightarrow> http_request \<Rightarrow> accounts \<Rightarrow> answer \<times> accounts" where
  "serve_request env sha dec now path rq ac =
     (case find_endpoint (rq_method rq) path of
        StaticFile \<Rightarrow> (SendsStatic, ac)
      | Index \<Rightarrow> (SendsIndex, ac)
      | NotFound \<Rightarrow> (Refused (HTTPException 404 ''Not Found''), ac)
      | WrongMethod \<Rightarrow> (Refused (HTTPException 405 ''Method Not Allowed''), ac)
      | Api r \<Rightarrow>
          (case rt_access r of
             Public \<Rightarrow> (Runs (rt_handler r) None, ac)
           | SignedIn \<Rightarrow> (let (p, ac') = get_current_user env sha dec now rq ac in (guarded (rt_handler r) p, ac'))
           | Admin \<Rightarrow> (let (p, ac') = get_current_user env sha dec now rq ac in
               (guarded (rt_handler r) (require_admin p), ac'))))"

text \<open>What the middleware sets on the response of a handler, whatever the handler had set.\<close>

definition CSP :: string where
  "CSP = ''default-src 'self'; script-src 'self' 'unsafe-inline' https://cdn.jsdelivr.net; style-src 'self' 'unsafe-inline' https://cdn.jsdelivr.net; img-src 'self' data:; font-src 'self' https://cdn.jsdelivr.net data:; connect-src 'self';''"

definition security_headers :: "(string \<times> string) list" where
  "security_headers =
     [(''x-frame-options'', ''DENY''), (''x-content-type-options'', ''nosniff''),
      (''referrer-policy'', ''strict-origin-when-cross-origin''), (''content-security-policy'', CSP),
      (''cache-control'', ''no-store, no-cache, must-revalidate, max-age=0''), (''pragma'', ''no-cache''),
      (''expires'', ''0'')]"

definition add_headers :: "(string, string) dict \<Rightarrow> (string, string) dict" where
  "add_headers headers = fold (\<lambda>(k, v). AList.update k v) security_headers headers"

section \<open>No route hides another\<close>

fun unifiable :: "pseg list \<Rightarrow> pseg list \<Rightarrow> bool" where
  "unifiable [] q = (q = [])"
| "unifiable (s # p) [] = False"
| "unifiable (Lit a # p) (Lit b # q) = (a = b \<and> unifiable p q)"
| "unifiable (Lit a # p) (Param # q) = (a \<noteq> [] \<and> unifiable p q)"
| "unifiable (Param # p) (Lit b # q) = (b \<noteq> [] \<and> unifiable p q)"
| "unifiable (Param # p) (Param # q) = unifiable p q"

lemma match_path_Nil [simp]: "match_path p [] \<longleftrightarrow> p = []"
  by (induction p "[] :: string list" rule: match_path.induct) auto

lemma both_match: "match_path p ss \<Longrightarrow> match_path q ss \<Longrightarrow> unifiable p q"
  by (induction p q arbitrary: ss rule: unifiable.induct) (auto split: list.splits)

definition apart :: "route \<Rightarrow> route \<Rightarrow> bool" where
  "apart r r' \<longleftrightarrow> rt_method r \<noteq> rt_method r' \<or> \<not> unifiable (rt_path r) (rt_path r')"

lemmas route_tables = auth_routes_def ingest_routes_def devices_routes_def groups_routes_def logs_routes_def
  dashboard_routes_def settings_routes_def telcos_routes_def users_routes_def api_keys_routes_def

lemma routes_apart: "sorted_wrt apart API_ROUTES"
  by code_simp

lemma apart_matches: "apart r r' \<Longrightarrow> route_matches meth ss r \<Longrightarrow> \<not> route_matches meth ss r'"
  using both_match unfolding apart_def route_matches_def by blast

lemma find_apart:
  "sorted_wrt apart rs \<Longrightarrow> List.find (route_matches meth ss) rs = Some r \<longleftrightarrow> r \<in> set rs \<and> route_matches meth ss r"
  by (induction rs) (auto dest: apart_matches)

text \<open>
  Every route is reached and none hides another: a request is handled by a route exactly
  when its method and path are those of the route, whatever the order in which the routers are
  included. So \<open>/devices/bulk-update\<close> is never taken for the device of that name, and a path under
  \<open>/api\<close> that no route has is refused instead of answered with the page.
\<close>

theorem every_route_is_reached:
  "find_endpoint meth path =
     (if list_ex (route_matches meth (segments path)) API_ROUTES
      then Api (the_elem (set (filter (route_matches meth (segments path)) API_ROUTES)))
      else if starts_with ''/static/'' path then StaticFile
      else if meth \<noteq> ''GET'' then WrongMethod
      else if starts_with ''api/'' (tl path) then NotFound else Index)
   \<and> list_all (\<lambda>r. find_endpoint meth path = Api r \<longleftrightarrow> route_matches meth (segments path) r) API_ROUTES"
proof -
  let ?m = "route_matches meth (segments path)"
  have found: "List.find ?m API_ROUTES = Some r \<longleftrightarrow> r \<in> set API_ROUTES \<and> ?m r" for r
    by (rule find_apart [OF routes_apart])
  have none: "List.find ?m API_ROUTES = None \<longleftrightarrow> \<not> list_ex ?m API_ROUTES"
    by (auto simp: find_None_iff list_ex_iff)
  show ?thesis
  proof (cases "List.find ?m API_ROUTES")
    case None
    have no: "\<not> list_ex ?m API_ROUTES" using None none by blast
    have "find_endpoint meth path \<noteq> Api r" for r by (simp add: find_endpoint_def None)
    then have "list_all (\<lambda>r. find_endpoint meth path = Api r \<longleftrightarrow> ?m r) API_ROUTES"
      using no by (simp add: list_all_iff list_ex_iff)
    then show ?thesis using no by (simp add: find_endpoint_def None)
  next
    case (Some r)
    have e: "find_endpoint meth path = Api r" by (simp add: find_endpoint_def Some)
    have ex: "list_ex ?m API_ROUTES" using Some none by (metis option.distinct(1))
    have iff: "?m r' \<longleftrightarrow> r' = r" if "r' \<in> set API_ROUTES" for r'
      using that Some found by (metis option.inject)
    have "r \<in> set API_ROUTES" using Some found by blast
    then have "set (filter ?m API_ROUTES) = {r}" unfolding set_filter using iff by blast
    then have one: "the_elem (set (filter ?m API_ROUTES)) = r" by simp
    have "list_all (\<lambda>r'. find_endpoint meth path = Api r' \<longleftrightarrow> ?m r') API_ROUTES"
      using iff e by (auto simp: list_all_iff)
    with e show ?thesis unfolding if_P [OF ex] one by (intro conjI)
  qed
qed

section \<open>Who reaches which handler\<close>

definition PUBLIC_PAGES :: "string list" where
  "PUBLIC_PAGES = [''login'', ''register_device'', ''heartbeat'', ''ingest_logs'', ''get_login_config'']"

definition CUSTOMER_PAGES :: "string list" where
  "CUSTOMER_PAGES = [''refresh'', ''change_my_password'', ''list_devices'', ''list_groups'', ''query_logs'', ''list_usernames'',
     ''count_logs'', ''export_csv'', ''export_xlsx'', ''get_dashboard'', ''get_hourly'', ''get_users_hourly'',
     ''get_service_health'', ''get_cwd_fail_breakdown'']"

definition READ_PAGES :: "string list" where
  "READ_PAGES = [''list_devices'', ''get_device'', ''list_groups'', ''query_logs'', ''list_usernames'', ''count_logs'',
     ''export_csv'', ''export_xlsx'', ''get_dashboard'', ''get_hourly'', ''get_users_hourly'', ''get_service_health'',
     ''get_cwd_fail_breakdown'', ''get_changelog'', ''get_version'', ''get_storage'', ''get_rebalance'', ''get_security'',
     ''get_notify'', ''get_alerts'', ''get_mute'', ''list_telcos'', ''list_users'', ''list_keys'']"

definition placed :: "route \<Rightarrow> bool" where
  "placed r \<longleftrightarrow> List.member [''GET'', ''POST'', ''PUT'', ''DELETE''] (rt_method r) \<and>
     (case rt_access r of Public \<Rightarrow> List.member PUBLIC_PAGES (rt_handler r)
      | SignedIn \<Rightarrow> List.member CUSTOMER_PAGES (rt_handler r) | Admin \<Rightarrow> True)
     \<and> (rt_method r = ''GET'' \<and> rt_access r \<noteq> Public \<longrightarrow> List.member READ_PAGES (rt_handler r))"

lemma routes_placed: "list_all placed API_ROUTES"
  by code_simp

lemma key_reads:
  assumes "get_current_user env sha dec now rq ac = (Inr u, ac')" and "pr_via_key u"
  shows "List.member READ_METHODS (upper (rq_method rq))"
proof -
  obtain raw where "api_key_of rq = Some raw"
    using assms not_via_token by (auto simp: get_current_user_def unauthorized_def split: option.splits)
  then show ?thesis
    using assms(1)
    by (auto simp: get_current_user_def principal_from_api_key_def unauthorized_def split: option.splits if_splits)
qed

lemma upper_methods:
  "List.member [''GET'', ''POST'', ''PUT'', ''DELETE''] m \<Longrightarrow> List.member READ_METHODS (upper m) \<Longrightarrow> m = ''GET''"
  by (auto simp: upper_def READ_METHODS_def)

lemma guardedD: "guarded h p = Runs h' q \<Longrightarrow> \<exists>u. p = Inr u \<and> q = Some u \<and> h' = h"
  by (simp add: guarded_def split: sum.splits)

lemma require_adminD: "require_admin p = Inr u \<Longrightarrow> p = Inr u \<and> is_admin u"
  by (cases p) (auto simp: require_admin_def split: if_splits)

text \<open>
  C8: who reaches which handler. Without a valid token or key only the login, the three end points
  of the daemons and the look of the login screen run. Every other handler runs for a principal
  that \<open>get_current_user\<close> accepted; one that is no administrator reaches only the fourteen pages
  of \<open>CUSTOMER_PAGES\<close>, and one with an API key only the pages that read.
\<close>

theorem who_reaches_which_handler:
  assumes "serve_request env sha dec now path rq ac = (Runs handler p, ac')"
  shows "case p of
      None \<Rightarrow> List.member PUBLIC_PAGES handler \<and> ac' = ac
    | Some u \<Rightarrow> get_current_user env sha dec now rq ac = (Inr u, ac')
        \<and> (is_admin u \<or> List.member CUSTOMER_PAGES handler) \<and> (pr_via_key u \<longrightarrow> List.member READ_PAGES handler)"
proof -
  obtain r where r: "find_endpoint (rq_method rq) path = Api r"
    using assms by (auto simp: serve_request_def split: endpoint.splits)
  then have mem: "r \<in> set API_ROUTES" "rt_method r = rq_method rq"
    by (auto simp: find_endpoint_def find_Some_iff route_matches_def split: option.splits if_splits)
  then have pl: "placed r" using routes_placed by (simp add: list_all_iff)
  obtain q ac1 where q: "get_current_user env sha dec now rq ac = (q, ac1)" by fastforce
  have reads: "pr_via_key u \<longrightarrow> List.member READ_PAGES (rt_handler r)" if "q = Inr u" "rt_access r \<noteq> Public" for u
    using that key_reads [of env sha dec now rq ac u ac1] q upper_methods [of "rt_method r"] pl mem(2)
    by (simp add: placed_def)
  show ?thesis
  proof (cases "rt_access r")
    case Public
    then show ?thesis using assms r pl by (simp add: serve_request_def placed_def)
  next
    case SignedIn
    then have "guarded (rt_handler r) q = Runs handler p" "ac' = ac1" using assms r q by (simp_all add: serve_request_def)
    then obtain u where "q = Inr u" "p = Some u" "handler = rt_handler r" using guardedD by blast
    then show ?thesis using reads pl SignedIn q \<open>ac' = ac1\<close> by (simp add: placed_def)
  next
    case Admin
    then have "guarded (rt_handler r) (require_admin q) = Runs handler p" "ac' = ac1"
      using assms r q by (simp_all add: serve_request_def)
    then obtain u where "require_admin q = Inr u" "p = Some u" "handler = rt_handler r" using guardedD by blast
    then show ?thesis using reads require_adminD [of q u] Admin q \<open>ac' = ac1\<close> by simp
  qed
qed

definition customer_claims :: claims where
  "customer_claims = \<lparr>cl_sub = Some ''kim'', cl_role = Some ''admin'', cl_customer = None, cl_exp = 100\<rparr>"

definition log_request :: http_request where
  "log_request = \<lparr>rq_key = None, rq_bearer = Some ''token'', rq_method = ''GET''\<rparr>"

lemma log_endpoint: "find_endpoint ''GET'' ''/api/v1/logs'' = Api (R ''GET'' ''logs'' [] SignedIn ''query_logs'')"
  by code_simp

text \<open>A token that was issued to a customer does not make him an administrator, whatever its role says.\<close>

theorem who_reaches_which_handler_witness:
  "\<exists>u. serve_request sample_env (\<lambda>_. []) (\<lambda>_ _. Some customer_claims) 0 ''/api/v1/logs'' log_request sample_accounts
       = (Runs ''query_logs'' (Some u), sample_accounts)
     \<and> get_current_user sample_env (\<lambda>_. []) (\<lambda>_ _. Some customer_claims) 0 log_request sample_accounts = (Inr u, sample_accounts)
     \<and> (is_admin u \<or> List.member CUSTOMER_PAGES ''query_logs'')"
proof -
  let ?u = "\<lparr>pr_username = ''kim'', pr_role = ''customer'', pr_customer = Some ''acme'', pr_via_key = False\<rparr>"
  have g: "get_current_user sample_env (\<lambda>_. []) (\<lambda>_ _. Some customer_claims) 0 log_request sample_accounts = (Inr ?u, sample_accounts)"
    by (simp add: get_current_user_def api_key_of_def log_request_def looks_like_key_def KEY_PREFIX_def starts_with_def
        principal_from_token_def customer_claims_def get_user_def sample_accounts_def sample_row_def)
  have s: "serve_request sample_env (\<lambda>_. []) (\<lambda>_ _. Some customer_claims) 0 ''/api/v1/logs'' log_request sample_accounts
       = (Runs ''query_logs'' (Some ?u), sample_accounts)"
    using log_endpoint g by (simp add: serve_request_def guarded_def log_request_def R_def)
  with who_reaches_which_handler [OF s] show ?thesis by auto
qed

end
