(* ===== verification/Directory.thy ===== *)
theory Directory
  imports Scope "HOL-Library.List_Lexorder" "HOL-Library.Product_Lexorder" "HOL-Library.Char_ord"
begin

text \<open>
  The pages that list accounts and API keys: \<open>list_users\<close>, \<open>_to_response\<close> and \<open>_load_ftp_map\<close> of
  \<open>routers/users.py\<close>, \<open>list_keys\<close> and \<open>_to_response\<close> of \<open>routers/api_keys.py\<close>, with the response
  classes of \<open>schemas.py\<close>.

  The time a row was created is a parameter. Names are ordered by their characters, where the
  database orders them by its collation.
\<close>

section \<open>Accounts\<close>

record ftp_map =
  fm_group :: nat
  fm_name :: string
  fm_usernames :: "string list"

text \<open>\<open>out.setdefault(gid, ...)\<close> and \<open>append\<close>.\<close>

fun put_name :: "nat \<times> string \<times> string \<Rightarrow> ftp_map list \<Rightarrow> ftp_map list" where
  "put_name (gid, name, gname) [] = [\<lparr>fm_group = gid, fm_name = gname, fm_usernames = [name]\<rparr>]"
| "put_name (gid, name, gname) (m # ms) =
     (if fm_group m = gid then m\<lparr>fm_usernames := fm_usernames m @ [name]\<rparr> # ms
      else m # put_name (gid, name, gname) ms)"

definition map_rows :: "nat \<Rightarrow> accounts \<Rightarrow> (nat \<times> string \<times> string) list" where
  "map_rows i ac =
     sort_key (\<lambda>(gid, name, gname). (gname, name))
       [(gr_id g, fr_name r, gr_name g). r \<leftarrow> ac_ftp ac, fr_user r = i, g \<leftarrow> ac_groups ac, gr_id g = fr_group r]"

definition load_ftp_map :: "nat \<Rightarrow> accounts \<Rightarrow> ftp_map list" where
  "load_ftp_map i ac = fold put_name (map_rows i ac) []"

record user_page =
  up_id :: nat
  up_username :: string
  up_role :: string
  up_customer :: "string option"
  up_allowed_ips :: "string list"
  up_active :: bool
  up_ftp :: "ftp_map list"
  up_note :: "string option"
  up_created_by :: "string option"
  up_locked_seconds :: int
  up_last_login :: "time option"
  up_created :: time

definition user_response :: "time \<Rightarrow> (nat \<Rightarrow> time) \<Rightarrow> accounts \<Rightarrow> user \<Rightarrow> user_page" where
  "user_response now created ac u =
     \<lparr>up_id = u_id u, up_username = u_username u, up_role = u_role u, up_customer = u_customer u,
      up_allowed_ips = split_ips (u_allowed_ips u), up_active = u_active u,
      up_ftp = (if u_role u = ''customer'' then load_ftp_map (u_id u) ac else []),
      up_note = u_note u, up_created_by = u_created_by u, up_locked_seconds = lock_seconds_left now u,
      up_last_login = u_last_login u, up_created = created (u_id u)\<rparr>"

definition list_users :: "time \<Rightarrow> (nat \<Rightarrow> time) \<Rightarrow> accounts \<Rightarrow> user_page list" where
  "list_users now created ac =
     map (user_response now created ac) (sort_key (\<lambda>u. (u_role u, u_username u)) (ac_users ac))"

section \<open>API keys\<close>

record key_page =
  kp_id :: nat
  kp_user :: "nat option"
  kp_username :: string
  kp_role :: string
  kp_customer :: "string option"
  kp_label :: string
  kp_prefix :: string
  kp_active :: bool
  kp_expires :: "time option"
  kp_last_used :: "time option"
  kp_created :: time

definition key_response :: "(nat \<Rightarrow> time) \<Rightarrow> api_key \<Rightarrow> user option \<Rightarrow> string \<Rightarrow> key_page" where
  "key_response created row user admin_username =
     \<lparr>kp_id = ak_id row, kp_user = ak_user row,
      kp_username = (case user of None \<Rightarrow> admin_username | Some u \<Rightarrow> u_username u),
      kp_role = (case user of None \<Rightarrow> ''admin'' | Some u \<Rightarrow> u_role u),
      kp_customer = (case user of None \<Rightarrow> None | Some u \<Rightarrow> u_customer u),
      kp_label = ak_label row, kp_prefix = ak_prefix row, kp_active = ak_active row,
      kp_expires = ak_expires row, kp_last_used = ak_last_used row, kp_created = created (ak_id row)\<rparr>"

text \<open>The outer join: the account of the key, if it has one.\<close>

definition key_owner :: "accounts \<Rightarrow> api_key \<Rightarrow> user option" where
  "key_owner ac row = (case ak_user row of None \<Rightarrow> None | Some i \<Rightarrow> get_user_by_id i ac)"

definition list_keys :: "env \<Rightarrow> (nat \<Rightarrow> time) \<Rightarrow> accounts \<Rightarrow> key_page list" where
  "list_keys env created ac =
     map (\<lambda>row. key_response created row (key_owner ac row) (get_admin_username env ac))
       (sort_key (\<lambda>row. - created (ak_id row)) (ac_keys ac))"

section \<open>The page shows the stored mapping\<close>

definition shown_pairs :: "ftp_map list \<Rightarrow> (nat \<times> string) list" where
  "shown_pairs ms = concat (map (\<lambda>m. map (\<lambda>n. (fm_group m, n)) (fm_usernames m)) ms)"

lemma shown_put: "mset (shown_pairs (put_name (g, n, gn) ms)) = add_mset (g, n) (mset (shown_pairs ms))"
  by (induction ms) (auto simp: shown_pairs_def)

lemma groups_put: "map fm_group (put_name (g, n, gn) ms) = map fm_group ms @ (if g \<in> fm_group ` set ms then [] else [g])"
  by (induction ms) auto

lemma shown_fold:
  "mset (shown_pairs (fold put_name rows ms)) = mset (map (\<lambda>(g, n, gn). (g, n)) rows) + mset (shown_pairs ms)"
proof (induction rows arbitrary: ms)
  case (Cons x rows)
  obtain g n gn where x: "x = (g, n, gn)" by (cases x)
  show ?case by (simp add: x Cons.IH shown_put)
qed simp

lemma distinct_fold: "distinct (map fm_group ms) \<Longrightarrow> distinct (map fm_group (fold put_name rows ms))"
proof (induction rows arbitrary: ms)
  case (Cons x rows)
  obtain g n gn where x: "x = (g, n, gn)" by (cases x)
  have "distinct (map fm_group (put_name x ms))" using Cons.prems by (auto simp: x groups_put)
  then show ?case by (simp add: Cons.IH)
qed simp

lemma one_group:
  "distinct (map gr_id gs) \<Longrightarrow> g \<in> set gs \<Longrightarrow> filter (\<lambda>x. gr_id x = gr_id g) gs = [g]"
  by (induction gs) (auto simp: filter_empty_conv image_iff)

lemma concat_if: "concat (map (\<lambda>x. if P x then [f x] else []) xs) = map f (filter P xs)"
  by (induction xs) auto

lemma mset_map_rows:
  assumes "distinct (map gr_id (ac_groups ac))" and "fr_group ` set (ac_ftp ac) \<subseteq> gr_id ` set (ac_groups ac)"
  shows "mset (map (\<lambda>(g, n, gn). (g, n)) (map_rows i ac))
    = mset (map (\<lambda>r. (fr_group r, fr_name r)) (filter (\<lambda>r. fr_user r = i) (ac_ftp ac)))"
proof -
  let ?rows = "\<lambda>rs. [(gr_id g, fr_name r, gr_name g). r \<leftarrow> rs, fr_user r = i, g \<leftarrow> ac_groups ac, gr_id g = fr_group r]"
  have "fr_group ` set rs \<subseteq> gr_id ` set (ac_groups ac) \<Longrightarrow>
      map (\<lambda>(g, n, gn). (g, n)) (?rows rs) = map (\<lambda>r. (fr_group r, fr_name r)) (filter (\<lambda>r. fr_user r = i) rs)" for rs
  proof (induction rs)
    case (Cons r rs)
    then obtain g where g: "g \<in> set (ac_groups ac)" "gr_id g = fr_group r" by auto
    have "[(gr_id g, fr_name r, gr_name g). g \<leftarrow> ac_groups ac, gr_id g = fr_group r] = [(gr_id g, fr_name r, gr_name g)]"
      using one_group [OF assms(1) g(1)] g(2) by (simp add: concat_if)
    with Cons g show ?case by simp
  qed simp
  from this [OF assms(2)] have "map (\<lambda>(g, n, gn). (g, n)) (?rows (ac_ftp ac))
      = map (\<lambda>r. (fr_group r, fr_name r)) (filter (\<lambda>r. fr_user r = i) (ac_ftp ac))" .
  moreover have "mset (map (\<lambda>(g, n, gn). (g, n)) (map_rows i ac)) = mset (map (\<lambda>(g, n, gn). (g, n)) (?rows (ac_ftp ac)))"
    unfolding map_rows_def mset_map mset_sort ..
  ultimately show ?thesis by simp
qed
lemma mapped_iff:
  "(r, g) \<in> set (mapped_groups u ac) \<longleftrightarrow> r \<in> set (ac_ftp ac) \<and> fr_user r = u_id u \<and> g \<in> set (ac_groups ac)
     \<and> gr_id g = fr_group r \<and> gr_customer g \<noteq> None \<and> gr_customer g = u_customer u"
  by (auto simp: mapped_groups_def)

definition groups_known :: "accounts \<Rightarrow> bool" where
  "groups_known ac \<longleftrightarrow> distinct (map gr_id (ac_groups ac)) \<and> fr_group ` set (ac_ftp ac) \<subseteq> gr_id ` set (ac_groups ac)"

lemma shown_stored:
  "groups_known ac \<Longrightarrow> mset (shown_pairs (load_ftp_map i ac))
     = mset (map (\<lambda>r. (fr_group r, fr_name r)) (filter (\<lambda>r. fr_user r = i) (ac_ftp ac)))"
  unfolding load_ftp_map_def shown_fold using mset_map_rows [of ac i] by (simp add: groups_known_def shown_pairs_def)

text \<open>
  C6: the page of an account tells what it sees. For a customer it shows each group once, with
  exactly the names that are stored, and the log queries let the account see the rows of a
  device and FTP name exactly when the page shows that name in a group of the device that still
  belongs to the account's customer.
\<close>

theorem account_page_tells_what_is_seen:
  assumes "accounts_ok ac" and "groups_known ac" and "u \<in> set (ac_users ac)" and "u_role u = ''customer''"
  shows "let shown = up_ftp (user_response now created ac u) in
    distinct (map fm_group shown)
    \<and> mset (shown_pairs shown) = mset (map (\<lambda>r. (fr_group r, fr_name r)) (filter (\<lambda>r. fr_user r = u_id u) (ac_ftp ac)))
    \<and> (ftp_scope_ok dgs (Some (u_username u)) ac dev (Some name) \<longleftrightarrow>
        (\<exists>gr. (gr_id gr, name) \<in> set (shown_pairs shown) \<and> gr \<in> set (ac_groups ac) \<and> List.member dgs (gr_id gr, dev)
           \<and> gr_customer gr \<noteq> None \<and> gr_customer gr = u_customer u))"
proof -
  let ?shown = "load_ftp_map (u_id u) ac"
  have shown: "up_ftp (user_response now created ac u) = ?shown" using assms(4) by (simp add: user_response_def)
  have stored: "set (shown_pairs ?shown) = (\<lambda>r. (fr_group r, fr_name r)) ` {r \<in> set (ac_ftp ac). fr_user r = u_id u}"
    using shown_stored [OF assms(2), of "u_id u", THEN mset_eq_setD] by simp
  have same: "v = u" if "v \<in> set (ac_users ac)" "u_username v = u_username u" for v
    using that assms(1,3) by (auto simp: accounts_ok_def distinct_map inj_on_def)
  have "ftp_scope_ok dgs (Some (u_username u)) ac dev (Some name) \<longleftrightarrow>
      (\<exists>r gr. (r, gr) \<in> set (mapped_groups u ac) \<and> fr_name r = name \<and> List.member dgs (fr_group r, dev))"
    unfolding ftp_scope_ok_def list_ex_iff using same assms(3) by (auto simp: list_ex_iff)
  also have "\<dots> \<longleftrightarrow> (\<exists>gr. (gr_id gr, name) \<in> set (shown_pairs ?shown) \<and> gr \<in> set (ac_groups ac)
      \<and> List.member dgs (gr_id gr, dev) \<and> gr_customer gr \<noteq> None \<and> gr_customer gr = u_customer u)"
    unfolding mapped_iff stored by (auto simp: image_iff) metis
  finally show ?thesis
    using distinct_fold [of "[]" "map_rows (u_id u) ac"] shown_stored [OF assms(2)] shown
    by (simp add: Let_def load_ftp_map_def)
qed

theorem account_page_tells_what_is_seen_witness:
  "let ac = sample_accounts; u = sample_row 2 ''kim'' ''customer'' (Some ''acme'') in
   mset (shown_pairs (up_ftp (user_response 0 (\<lambda>_. 0) ac u))) = {#(1, ''ftp1'')#}
   \<and> ftp_scope_ok [(1, 7)] (Some ''kim'') ac 7 (Some ''ftp1'')"
proof -
  let ?u = "sample_row 2 ''kim'' ''customer'' (Some ''acme'')" and ?g = "\<lparr>gr_id = 1, gr_name = ''g'', gr_customer = Some ''acme''\<rparr>"
  have known: "groups_known sample_accounts" by (simp add: groups_known_def sample_accounts_def)
  have u: "?u \<in> set (ac_users sample_accounts)" "u_role ?u = ''customer''" "u_username ?u = ''kim''" "u_id ?u = 2"
    "u_customer ?u = Some ''acme''"
    by (simp_all add: sample_accounts_def sample_row_def)
  note page = account_page_tells_what_is_seen [OF sample_accounts_ok(1) known u(1,2), unfolded Let_def, of 0 "\<lambda>_. 0" "[(1, 7)]" 7 "''ftp1''"]
  have rows: "map (\<lambda>r. (fr_group r, fr_name r)) (filter (\<lambda>r. fr_user r = 2) (ac_ftp sample_accounts)) = [(1, ''ftp1'')]"
    by (simp add: sample_accounts_def)
  have shown: "mset (shown_pairs (up_ftp (user_response 0 (\<lambda>_. 0) sample_accounts ?u))) = {#(1, ''ftp1'')#}"
    using page rows u by simp
  have "(1, ''ftp1'') \<in># mset (shown_pairs (up_ftp (user_response 0 (\<lambda>_. 0) sample_accounts ?u)))" unfolding shown by simp
  then have "(gr_id ?g, ''ftp1'') \<in> set (shown_pairs (up_ftp (user_response 0 (\<lambda>_. 0) sample_accounts ?u)))"
    by (simp only: set_mset_mset group.select_convs)
  moreover have "?g \<in> set (ac_groups sample_accounts)" by (simp add: sample_accounts_def)
  ultimately have "ftp_scope_ok [(1, 7)] (Some ''kim'') sample_accounts 7 (Some ''ftp1'')"
    using page u by (intro iffD2 [OF page [THEN conjunct2, THEN conjunct2, unfolded u(3,5)]] exI [of _ ?g]) simp
  with shown show ?thesis by (simp add: Let_def)
qed

section \<open>The page shows what a key may do\<close>

lemma resolve_owner:
  assumes "resolve sha now raw ac = Some (row, owner)"
  shows "row \<in> set (ac_keys ac) \<and> owner = key_owner ac row \<and> ak_active row"
  using assms by (auto simp: resolve_def key_owner_def dest: find_Some_iff_mem split: option.splits if_splits)

text \<open>
  The page of the API keys tells what a key may do: whenever a request is accepted with a key, the page
  has its row, enabled, and it names the account, role
  and customer the request acts for.
\<close>

theorem key_page_tells_the_rights:
  assumes "principal_from_api_key env sha now raw meth ac = (Inr p, ac')"
  shows "\<exists>row \<in> set (ac_keys ac). ak_hash row = sha raw \<and>
    (let k = key_response created row (key_owner ac row) (get_admin_username env ac) in
     List.member (list_keys env created ac) k \<and> kp_active k
     \<and> kp_username k = pr_username p \<and> kp_role k = pr_role p \<and> kp_customer k = pr_customer p)"
proof -
  obtain row owner where r: "resolve sha now raw ac = Some (row, owner)"
    and p: "p = (case owner of
                   None \<Rightarrow> \<lparr>pr_username = get_admin_username env ac, pr_role = ''admin'', pr_customer = None, pr_via_key = True\<rparr>
                 | Some u \<Rightarrow> \<lparr>pr_username = u_username u, pr_role = u_role u, pr_customer = u_customer u, pr_via_key = True\<rparr>)"
    using assms by (auto simp: principal_from_api_key_def unauthorized_def split: option.splits if_splits)
  have "ak_hash row = sha raw" using resolve_Some [OF r] by blast
  moreover note resolve_owner [OF r]
  ultimately show ?thesis
    unfolding p by (intro bexI [of _ row]) (auto simp: list_keys_def key_response_def Let_def split: option.split)
qed

definition key_accounts :: accounts where
  "key_accounts = sample_accounts\<lparr>ac_keys := [\<lparr>ak_id = 5, ak_user = Some 2, ak_label = ''report'', ak_prefix = ''slt_'',
     ak_hash = ''h'', ak_active = True, ak_expires = None, ak_last_used = None\<rparr>]\<rparr>"

theorem key_page_tells_the_rights_witness:
  "\<exists>row \<in> set (ac_keys key_accounts).
     (let k = key_response (\<lambda>_. 0) row (key_owner key_accounts row) (get_admin_username sample_env key_accounts) in
      List.member (list_keys sample_env (\<lambda>_. 0) key_accounts) k \<and> kp_username k = ''kim'' \<and> kp_role k = ''customer'')"
proof -
  let ?p = "\<lparr>pr_username = ''kim'', pr_role = ''customer'', pr_customer = Some ''acme'', pr_via_key = True\<rparr>"
  have "resolve (\<lambda>_. ''h'') 0 ''slt_x'' key_accounts = Some (hd (ac_keys key_accounts), Some (sample_row 2 ''kim'' ''customer'' (Some ''acme'')))"
    by (simp add: resolve_def key_accounts_def get_user_by_id_def sample_accounts_def sample_row_def)
  then have "principal_from_api_key sample_env (\<lambda>_. ''h'') 0 ''slt_x'' ''GET'' key_accounts
      = (Inr ?p, touch 0 (hd (ac_keys key_accounts)) key_accounts)"
    by (simp add: principal_from_api_key_def READ_METHODS_def upper_def sample_row_def)
  from key_page_tells_the_rights [OF this, of "\<lambda>_. 0"] show ?thesis by (auto simp: Let_def)
qed

end
