(* ===== verification/Upkeep.thy ===== *)
theory Upkeep
  imports Daemon Ingest
begin

text \<open>
  The life of the daemon process around its loops (\<open>ftp-daemon/soltrace_daemon.py\<close>): the start,
  the registration, the signal handler, the self-update and the restart; the choice of the log
  file and the device key; and the version comparison of \<open>was/app/gitinfo.py\<close>.

  The directory of the installation is a function from file names to contents. What the host
  does (downloads, writes, renames, \<open>systemctl\<close>) is a record of functions and values.
\<close>

section \<open>Restart\<close>

definition RESTART_EXIT_CODE :: int where "RESTART_EXIT_CODE = 42"

text \<open>\<open>systemctl\<close> is its exit code, \<open>None\<close> when it cannot be run.\<close>

definition restart_service :: "int option \<Rightarrow> daemon \<Rightarrow> daemon" where
  "restart_service systemctl d =
     (if systemctl = Some 0 then d else d\<lparr>d_exit_code := RESTART_EXIT_CODE, d_running := False\<rparr>)"

section \<open>Self-update\<close>

type_synonym install_dir = "string \<Rightarrow> string option"

datatype write_result = Written | NotOpened | Broken

text \<open>
  \<open>ho_fetch\<close> is \<open>None\<close> when the download raises, \<open>ho_valid\<close> whether a content decodes and parses,
  \<open>ho_pip\<close> whether running \<open>pip\<close> raises no exception, and \<open>ho_parts\<close> the scheme and the network
  location of a URL (\<open>None\<close> when \<open>urlparse\<close> raises).
\<close>

record host =
  ho_fetch :: "string \<Rightarrow> string option"
  ho_valid :: "string \<Rightarrow> bool"
  ho_write :: "string \<Rightarrow> write_result"
  ho_rename :: "string \<Rightarrow> bool"
  ho_pip :: bool
  ho_systemctl :: "int option"
  ho_parts :: "string \<Rightarrow> (string \<times> string) option"

definition validate_update_url :: "host \<Rightarrow> string \<Rightarrow> bool" where
  "validate_update_url h url =
     (case ho_parts h url of
        None \<Rightarrow> False
      | Some (scheme, netloc) \<Rightarrow> scheme = ''https'' \<and> List.member [''raw.githubusercontent.com'', ''github.com''] netloc)"

definition UPDATE_FILES :: "string list" where
  "UPDATE_FILES = [''requirements.txt'', ''soltrace_daemon.py'', ''soltrace_bulk.py'']"

definition tmp_name :: "string \<Rightarrow> string" where
  "tmp_name fname = ''.'' @ fname @ ''.tmp''"

text \<open>
  The downloads: whether they all succeeded, the files that have a complete temporary copy, and
  the directory.
\<close>

fun download :: "host \<Rightarrow> string \<Rightarrow> string list \<Rightarrow> install_dir \<Rightarrow> bool \<times> string list \<times> install_dir" where
  "download h url [] dir = (True, [], dir)"
| "download h url (fname # rest) dir =
     (case ho_fetch h (url @ ''/'' @ fname) of
        None \<Rightarrow> (False, [], dir)
      | Some content \<Rightarrow>
          if ends_with ''.py'' fname \<and> \<not> ho_valid h content then (False, [], dir)
          else (case ho_write h (tmp_name fname) of
              NotOpened \<Rightarrow> (False, [], dir)
            | Broken \<Rightarrow> (False, [], dir(tmp_name fname \<mapsto> []))
            | Written \<Rightarrow>
                (let (ok, tmps, dir') = download h url rest (dir(tmp_name fname \<mapsto> content)) in (ok, fname # tmps, dir'))))"

fun replace_all :: "host \<Rightarrow> string list \<Rightarrow> install_dir \<Rightarrow> bool \<times> install_dir" where
  "replace_all h [] dir = (True, dir)"
| "replace_all h (fname # rest) dir =
     (if ho_rename h (tmp_name fname)
      then replace_all h rest (dir(fname := dir (tmp_name fname), tmp_name fname := None)) else (False, dir))"

definition remove_tmps :: "string list \<Rightarrow> install_dir \<Rightarrow> install_dir" where
  "remove_tmps tmps dir = fold (\<lambda>f d. d(tmp_name f := None)) tmps dir"

definition rstrip_slash :: "string \<Rightarrow> string" where
  "rstrip_slash s = rev (dropWhile (\<lambda>c. c = CHR ''/'') (rev s))"

definition self_update :: "host \<Rightarrow> string \<Rightarrow> install_dir \<Rightarrow> daemon \<Rightarrow> install_dir \<times> daemon" where
  "self_update h configured dir d =
     (let update_url = rstrip_slash configured in
      if update_url = [] then (dir, d)
      else if \<not> validate_update_url h update_url then (dir, d)
      else let (ok, tmps, dir1) = download h update_url UPDATE_FILES dir in
        if \<not> ok then (remove_tmps tmps dir1, d)
        else let (replaced, dir2) = replace_all h tmps dir1 in
          if \<not> replaced then (remove_tmps tmps dir2, d)
          else if dir2 ''venv/bin/pip'' \<noteq> None \<and> \<not> ho_pip h then (remove_tmps tmps dir2, d)
          else (dir2, restart_service (ho_systemctl h) d))"

section \<open>Start and stop\<close>

text \<open>
  \<open>start\<close> up to the threads: \<open>Inl\<close> is the exit code of a process that ends before. The two
  exceptions of \<open>_post\<close> leave \<open>_register\<close>, and an uncaught exception ends Python with 1.
\<close>

definition register_daemon :: "config \<Rightarrow> net \<Rightarrow> daemon \<Rightarrow> int + daemon" where
  "register_daemon cfg net d =
     (let (r, n) = post (cf_retry cfg) net (d_net d); d1 = d\<lparr>d_net := n\<rparr> in
      case r of Disabled \<Rightarrow> Inl 1 | Removed \<Rightarrow> Inl 1 | _ \<Rightarrow> Inr d1)"

definition start_daemon :: "config \<Rightarrow> net \<Rightarrow> daemon \<Rightarrow> int + daemon" where
  "start_daemon cfg net d =
     (let d0 = d\<lparr>d_running := True\<rparr> in
      case fst (flush_startup_buffer cfg net d0) of
        None \<Rightarrow> Inl 1
      | Some d1 \<Rightarrow> register_daemon cfg net d1)"

text \<open>The signal handler: a last status, whatever the server answers, then the loops end.\<close>

definition stop_daemon :: "config \<Rightarrow> net \<Rightarrow> world \<Rightarrow> daemon \<Rightarrow> daemon \<times> event list" where
  "stop_daemon cfg net w d =
     (let (payload, d1) = daemon_collect True w (d\<lparr>d_status := ''stopping''\<rparr>);
          (_, d2) = post_heartbeat cfg net d1
      in (d2\<lparr>d_running := False\<rparr>, [Heartbeat payload]))"

text \<open>\<open>Restart=on-failure\<close> with \<open>RestartPreventExitStatus=1\<close> of the systemd unit.\<close>

definition systemd_restarts :: "int \<Rightarrow> bool" where
  "systemd_restarts status = (status \<noteq> 0 \<and> status \<noteq> 1)"

section \<open>Log file and device key\<close>

text \<open>
  \<open>parent\<close> is \<open>Path(...).parent\<close>, \<open>writable\<close> is \<open>os.access(..., W_OK)\<close> after the attempts to make
  the directories.
\<close>

definition resolve_log_path ::
  "(string \<Rightarrow> string) \<Rightarrow> (string \<Rightarrow> bool) \<Rightarrow> string \<Rightarrow> string \<Rightarrow> bool \<Rightarrow> string \<times> string option" where
  "resolve_log_path parent writable log_file state_dir rotating =
     (if rotating \<and> \<not> writable (parent log_file) then
        let fallback = state_dir @ ''/daemon.log'' in
        if parent fallback \<noteq> parent log_file \<and> writable (parent fallback) then (fallback, Some log_file)
        else (log_file, None)
      else (log_file, None))"

definition KEY_FILE :: string where "KEY_FILE = ''/var/lib/soltrace/device.key''"

text \<open>\<open>token\<close> is \<open>secrets.token_hex(16)\<close>.\<close>

definition get_device_key :: "string \<Rightarrow> install_dir \<Rightarrow> string \<times> install_dir" where
  "get_device_key token dir =
     (case dir KEY_FILE of
        Some text \<Rightarrow> (strip text, dir)
      | None \<Rightarrow> (token, dir(KEY_FILE \<mapsto> token)))"

section \<open>Versions\<close>

text \<open>\<open>re.findall(r"\d+", s)\<close>.\<close>

fun digit_runs :: "string \<Rightarrow> string list" where
  "digit_runs [] = []"
| "digit_runs (c # cs) =
     (if is_digit c
      then (case digit_runs cs of
          r # rs \<Rightarrow> if cs \<noteq> [] \<and> is_digit (hd cs) then (c # r) # rs else [c] # r # rs
        | [] \<Rightarrow> [[c]])
      else digit_runs cs)"

definition version_tuple :: "string option \<Rightarrow> (nat \<times> nat \<times> nat) option" where
  "version_tuple v =
     (case map (dec_val 0) (take 3 (digit_runs (or_else v []))) of
        [] \<Rightarrow> None
      | [a] \<Rightarrow> Some (a, 0, 0)
      | [a, b] \<Rightarrow> Some (a, b, 0)
      | a # b # c # _ \<Rightarrow> Some (a, b, c))"

fun version_less :: "nat \<times> nat \<times> nat \<Rightarrow> nat \<times> nat \<times> nat \<Rightarrow> bool" where
  "version_less (a, b, c) (a', b', c') \<longleftrightarrow> a < a' \<or> a = a' \<and> (b < b' \<or> b = b' \<and> c < c')"

definition daemon_outdated :: "string option \<Rightarrow> string option \<Rightarrow> bool" where
  "daemon_outdated latest reported =
     (if \<not> truthy latest \<or> \<not> truthy reported \<or> reported = latest then False
      else case (version_tuple reported, version_tuple latest) of
        (Some a, Some b) \<Rightarrow> version_less a b
      | _ \<Rightarrow> False)"

text \<open>
  \<open>_DAEMON_VER_RE\<close>, \<open>^DAEMON_VERSION\s*=\s*['"]([^'"]+)['"]\<close> with \<open>re.M\<close>: a match at the beginning of
  a line, and the search over all lines.
\<close>

definition is_quote :: "char \<Rightarrow> bool" where
  "is_quote c = (c = CHR 0x22 \<or> c = CHR 0x27)"

definition match_version :: "string \<Rightarrow> string option" where
  "match_version s =
     (if \<not> starts_with ''DAEMON_VERSION'' s then None
      else case dropWhile is_space (drop 14 s) of
        [] \<Rightarrow> None
      | c # t \<Rightarrow>
          if c \<noteq> CHR ''='' then None
          else (case dropWhile is_space t of
              [] \<Rightarrow> None
            | q # u \<Rightarrow>
                if is_quote q \<and> takeWhile (\<lambda>c. \<not> is_quote c) u \<noteq> [] \<and> dropWhile (\<lambda>c. \<not> is_quote c) u \<noteq> []
                then Some (takeWhile (\<lambda>c. \<not> is_quote c) u) else None))"

function find_version :: "string \<Rightarrow> string option" where
  "find_version s =
     (case match_version s of
        Some v \<Rightarrow> Some v
      | None \<Rightarrow> (case dropWhile (\<lambda>c. c \<noteq> LF) s of [] \<Rightarrow> None | _ # rest \<Rightarrow> find_version rest))"
  by pat_completeness auto
termination
proof (relation "measure length", goal_cases)
  case (2 s c rest)
  have "length (c # rest) \<le> length s" using length_dropWhile_le [of "\<lambda>c. c \<noteq> LF" s] 2 by simp
  then show ?case by simp
qed simp

declare find_version.simps [simp del]

text \<open>
  The repository's daemon file: its modification time and its text (\<open>None\<close> when it cannot be
  read); the cache holds the time and the version of the last reading.
\<close>

type_synonym version_cache = "int \<times> string option"

definition latest_daemon_version ::
  "(int \<times> string option) option \<Rightarrow> version_cache \<Rightarrow> string option \<times> version_cache" where
  "latest_daemon_version file_seen cache =
     (case file_seen of
        None \<Rightarrow> (None, cache)
      | Some (mtime, content) \<Rightarrow>
          if fst cache = mtime then (snd cache, cache)
          else (case content of
              None \<Rightarrow> (None, cache)
            | Some text \<Rightarrow> (let ver = find_version (take 4096 text) in (ver, (mtime, ver)))))"

section \<open>An update replaces all files or none\<close>

lemma tmp_name_inject [simp]: "tmp_name f = tmp_name g \<longleftrightarrow> f = g"
  by (simp add: tmp_name_def)

definition plain_name :: "string \<Rightarrow> bool" where
  "plain_name f \<longleftrightarrow> f \<noteq> [] \<and> hd f \<noteq> CHR ''.''"

lemma tmp_not_plain [simp]: "plain_name f \<Longrightarrow> f \<noteq> tmp_name g" "plain_name f \<Longrightarrow> tmp_name g \<noteq> f"
  by (auto simp: plain_name_def tmp_name_def)

lemma tmp_name_not_plain [simp]: "\<not> plain_name (tmp_name g)"
  by (simp add: plain_name_def tmp_name_def)

lemma update_files_plain: "list_all plain_name UPDATE_FILES"
  by (simp add: UPDATE_FILES_def plain_name_def)

lemma remove_tmps_other: "(\<And>g. g \<in> set tmps \<Longrightarrow> f \<noteq> tmp_name g) \<Longrightarrow> remove_tmps tmps dir f = dir f"
  unfolding remove_tmps_def by (induction tmps arbitrary: dir) auto

lemma download_facts:
  assumes "distinct fs" "download h url fs dir = (ok, tmps, dir')"
  shows "set tmps \<subseteq> set fs"
    and "\<And>f. (\<And>g. g \<in> set fs \<Longrightarrow> f \<noteq> tmp_name g) \<Longrightarrow> dir' f = dir f"
    and "ok \<Longrightarrow> tmps = fs \<and> (\<forall>g \<in> set fs. \<exists>c. ho_fetch h (url @ ''/'' @ g) = Some c \<and> dir' (tmp_name g) = Some c
           \<and> (ends_with ''.py'' g \<longrightarrow> ho_valid h c))"
proof -
  have "set tmps \<subseteq> set fs \<and> (\<forall>f. (\<forall>g \<in> set fs. f \<noteq> tmp_name g) \<longrightarrow> dir' f = dir f)
    \<and> (ok \<longrightarrow> tmps = fs \<and> (\<forall>g \<in> set fs. \<exists>c. ho_fetch h (url @ ''/'' @ g) = Some c \<and> dir' (tmp_name g) = Some c
           \<and> (ends_with ''.py'' g \<longrightarrow> ho_valid h c)))"
    using assms
  proof (induction fs arbitrary: dir tmps)
    case (Cons f fs)
    show ?case
    proof (cases "\<exists>c. ho_fetch h (url @ ''/'' @ f) = Some c \<and> (ends_with ''.py'' f \<longrightarrow> ho_valid h c) \<and> ho_write h (tmp_name f) = Written")
      case True
      then obtain c ts where c: "ho_fetch h (url @ ''/'' @ f) = Some c" "ends_with ''.py'' f \<longrightarrow> ho_valid h c"
          "download h url fs (dir(tmp_name f \<mapsto> c)) = (ok, ts, dir')" "tmps = f # ts"
        using Cons.prems(2) by (auto split: prod.splits)
      have kept: "dir' (tmp_name f) = Some c"
      proof -
        have "\<forall>g \<in> set fs. tmp_name f \<noteq> tmp_name g" using Cons.prems(1) by auto
        then have "dir' (tmp_name f) = (dir(tmp_name f \<mapsto> c)) (tmp_name f)"
          using Cons.IH [OF _ c(3)] Cons.prems(1) by (meson distinct.simps(2))
        then show ?thesis by simp
      qed
      show ?thesis using Cons.IH [OF _ c(3)] Cons.prems(1) c kept by auto
    next
      case False
      then show ?thesis using Cons.prems(2) by (auto split: option.splits if_splits write_result.splits)
    qed
  qed simp
  then show "set tmps \<subseteq> set fs"
    and "\<And>f. (\<And>g. g \<in> set fs \<Longrightarrow> f \<noteq> tmp_name g) \<Longrightarrow> dir' f = dir f"
    and "ok \<Longrightarrow> tmps = fs \<and> (\<forall>g \<in> set fs. \<exists>c. ho_fetch h (url @ ''/'' @ g) = Some c \<and> dir' (tmp_name g) = Some c
           \<and> (ends_with ''.py'' g \<longrightarrow> ho_valid h c))" by auto
qed

text \<open>The renames are made in the order of the list, up to the first that fails.\<close>

lemma replace_all_facts:
  assumes "distinct fs" "list_all plain_name fs"
  shows "\<exists>n \<le> length fs. replace_all h fs dir = (n = length fs, \<lambda>f. if f \<in> set (take n fs) then dir (tmp_name f)
      else if f \<in> tmp_name ` set (take n fs) then None else dir f)
    \<and> (n < length fs \<longrightarrow> \<not> ho_rename h (tmp_name (fs ! n)))"
  using assms
proof (induction fs arbitrary: dir)
  case (Cons f fs)
  show ?case
  proof (cases "ho_rename h (tmp_name f)")
    case True
    let ?d = "dir(f := dir (tmp_name f), tmp_name f := None)"
    have p: "distinct fs" "list_all plain_name fs" using Cons.prems by simp_all
    obtain n where n: "n \<le> length fs" "replace_all h fs ?d = (n = length fs, \<lambda>g. if g \<in> set (take n fs) then ?d (tmp_name g)
        else if g \<in> tmp_name ` set (take n fs) then None else ?d g)" "n < length fs \<longrightarrow> \<not> ho_rename h (tmp_name (fs ! n))"
      using Cons.IH [OF p, of ?d] by blast
    have sub: "set (take n fs) \<subseteq> set fs" by (rule set_take_subset)
    have "replace_all h (f # fs) dir = (Suc n = length (f # fs), \<lambda>g. if g \<in> set (take (Suc n) (f # fs)) then dir (tmp_name g)
        else if g \<in> tmp_name ` set (take (Suc n) (f # fs)) then None else dir g)"
      using True n(2) sub Cons.prems by (auto simp: list_all_iff intro!: ext)
    then show ?thesis using n(1,3) by (intro exI [of _ "Suc n"]) simp
  next
    case False
    then show ?thesis by (intro exI [of _ 0]) simp
  qed
qed simp

text \<open>
  C29: what a self-update does to the three files. The first \<open>n\<close> of them in the order of the list are
  replaced by what was downloaded for them, and only after all three downloads were complete and
  the two Python files parsed; the others stay as they were. \<open>n\<close> is zero or three unless the rename of the next
  file failed: nothing is rolled back then, and the installation is a mixture of the two versions.
  No other file but the temporary ones is touched. A restart is asked for only when all three were replaced, and
  a process that ends itself for it leaves the exit code after which systemd starts it again.
\<close>

theorem self_update_effect:
  assumes "self_update h configured dir d = (dir', d')"
  shows "\<exists>n \<le> length UPDATE_FILES.
      (\<forall>f \<in> set (take n UPDATE_FILES). \<exists>c. ho_fetch h (rstrip_slash configured @ ''/'' @ f) = Some c \<and> dir' f = Some c)
    \<and> (\<forall>f \<in> set (drop n UPDATE_FILES). dir' f = dir f)
    \<and> (if n = 0 then True else list_all (\<lambda>f. \<exists>c. ho_fetch h (rstrip_slash configured @ ''/'' @ f) = Some c
          \<and> (ends_with ''.py'' f \<longrightarrow> ho_valid h c)) UPDATE_FILES)
    \<and> (if 0 < n \<and> n < length UPDATE_FILES then \<not> ho_rename h (tmp_name (UPDATE_FILES ! n)) else True)
    \<and> (\<forall>f. f \<notin> set UPDATE_FILES \<and> (\<forall>g \<in> set UPDATE_FILES. f \<noteq> tmp_name g) \<longrightarrow> dir' f = dir f)
    \<and> (d' = d \<or> n = length UPDATE_FILES \<and> \<not> d_running d' \<and> systemd_restarts (d_exit_code d'))"
proof -
  let ?u = "rstrip_slash configured" and ?fs = UPDATE_FILES
  have fs: "distinct ?fs" "list_all plain_name ?fs" by (simp add: UPDATE_FILES_def) (rule update_files_plain)
  obtain ok tmps dir1 where dl: "download h ?u ?fs dir = (ok, tmps, dir1)" by (metis prod_cases3)
  note facts = download_facts [OF fs(1) dl]
  have apart: "f \<noteq> tmp_name g" if "f \<in> set ?fs" for f g using fs(2) that by (auto simp: list_all_iff)
  have restart: "restart_service r d = d \<or> \<not> d_running (restart_service r d) \<and> systemd_restarts (d_exit_code (restart_service r d))" for r
    by (simp add: restart_service_def systemd_restarts_def RESTART_EXIT_CODE_def)
  consider (idle) "dir' = dir" "d' = d" | (failed) "dir' = remove_tmps tmps dir1" "d' = d"
    | (complete) ok "?u \<noteq> []" using assms dl by (cases ok) (auto simp: self_update_def Let_def split: if_splits)
  then show ?thesis
  proof cases
    case idle
    then show ?thesis by (intro exI [of _ 0]) simp
  next
    case failed
    have "dir' f = dir1 f" if "\<And>g. g \<in> set ?fs \<Longrightarrow> f \<noteq> tmp_name g" for f
      using that facts(1) unfolding failed(1) by (intro remove_tmps_other) auto
    then show ?thesis using facts(2) apart failed(2) by (intro exI [of _ 0]) simp
  next
    case complete
    have all: "tmps = ?fs" and new: "\<And>g. g \<in> set ?fs \<Longrightarrow> \<exists>c. ho_fetch h (?u @ ''/'' @ g) = Some c \<and> dir1 (tmp_name g) = Some c
        \<and> (ends_with ''.py'' g \<longrightarrow> ho_valid h c)" using facts(3) [OF complete(1)] by auto
    show ?thesis
    proof (cases "validate_update_url h ?u")
      case False
      then show ?thesis using assms by (intro exI [of _ 0]) (simp add: self_update_def Let_def split: if_splits)
    next
      case True
      obtain n where n: "n \<le> length ?fs" and rep: "replace_all h ?fs dir1 = (n = length ?fs, \<lambda>f. if f \<in> set (take n ?fs) then dir1 (tmp_name f)
          else if f \<in> tmp_name ` set (take n ?fs) then None else dir1 f)" and stop: "n < length ?fs \<longrightarrow> \<not> ho_rename h (tmp_name (?fs ! n))"
        using replace_all_facts [OF fs] by blast
      let ?new = "\<lambda>f. if f \<in> set (take n ?fs) then dir1 (tmp_name f) else if f \<in> tmp_name ` set (take n ?fs) then None else dir1 f"
      have r: "(dir' = remove_tmps ?fs ?new \<and> d' = d) \<or> (dir' = ?new \<and> n = length ?fs \<and> d' = restart_service (ho_systemctl h) d)"
        using assms complete dl True all rep by (auto simp: self_update_def Let_def split: if_splits)
      have sub: "set (take n ?fs) \<subseteq> set ?fs" "set (drop n ?fs) \<subseteq> set ?fs" by (rule set_take_subset, rule set_drop_subset)
      have disj: "set (take n ?fs) \<inter> set (drop n ?fs) = {}" by (rule set_take_disj_set_drop_if_distinct [OF fs(1)]) simp
      have other: "dir' f = ?new f" if "\<And>g. g \<in> set ?fs \<Longrightarrow> f \<noteq> tmp_name g" for f
        using r remove_tmps_other [of ?fs f ?new] that by auto
      have "\<exists>c. ho_fetch h (?u @ ''/'' @ f) = Some c \<and> dir' f = Some c" if "f \<in> set (take n ?fs)" for f
      proof -
        have f: "f \<in> set ?fs" using that sub by blast
        then have "dir' f = dir1 (tmp_name f)" using other [OF apart] that by simp
        then show ?thesis using new [OF f] by auto
      qed
      moreover have "dir' f = dir f" if "f \<in> set (drop n ?fs)" for f
      proof -
        have f: "f \<in> set ?fs" "f \<notin> set (take n ?fs)" using that sub disj by blast+
        moreover have "f \<notin> tmp_name ` set (take n ?fs)" using apart [OF f(1)] by blast
        ultimately show ?thesis using other [OF apart [OF f(1)]] facts(2) [OF apart [OF f(1)]] by simp
      qed
      moreover have "dir' f = dir f" if "f \<notin> set ?fs" "\<forall>g \<in> set ?fs. f \<noteq> tmp_name g" for f
      proof -
        have f: "\<And>g. g \<in> set ?fs \<Longrightarrow> f \<noteq> tmp_name g" "f \<notin> set (take n ?fs)" using that sub by blast+
        moreover have "f \<notin> tmp_name ` set (take n ?fs)" using f(1) sub by blast
        ultimately show ?thesis using other [OF f(1)] facts(2) [OF f(1)] by simp
      qed
      moreover have "list_all (\<lambda>f. \<exists>c. ho_fetch h (?u @ ''/'' @ f) = Some c \<and> (ends_with ''.py'' f \<longrightarrow> ho_valid h c)) ?fs"
        using new by (fastforce simp: list_all_iff)
      moreover have "d' = d \<or> n = length ?fs \<and> \<not> d_running d' \<and> systemd_restarts (d_exit_code d')" using r restart by auto
      ultimately show ?thesis using n stop by (intro exI [of _ n]) auto
    qed
  qed
qed

definition sample_host :: host where
  "sample_host = \<lparr>ho_fetch = (\<lambda>u. if ends_with ''bulk.py'' u then None else Some ''x = 1''), ho_valid = (\<lambda>c. True),
     ho_write = (\<lambda>f. Written), ho_rename = (\<lambda>f. True), ho_pip = True, ho_systemctl = Some 1,
     ho_parts = (\<lambda>u. Some (''https'', ''github.com''))\<rparr>"

theorem self_update_effect_witness:
  "fst (self_update sample_host ''https://github.com/x/'' (\<lambda>f. Some ''old'') sample_daemon) ''soltrace_daemon.py'' = Some ''old''"
proof -
  obtain dir' d' where r: "self_update sample_host ''https://github.com/x/'' (\<lambda>f. Some ''old'') sample_daemon = (dir', d')"
    by fastforce
  obtain n where n: "n \<le> length UPDATE_FILES" "\<forall>f \<in> set (drop n UPDATE_FILES). dir' f = Some ''old''"
    "if n = 0 then True else list_all (\<lambda>f. \<exists>c. ho_fetch sample_host (rstrip_slash ''https://github.com/x/'' @ ''/'' @ f) = Some c
        \<and> (ends_with ''.py'' f \<longrightarrow> ho_valid sample_host c)) UPDATE_FILES"
    using self_update_effect [OF r] by blast
  have "\<not> list_all (\<lambda>f. \<exists>c. ho_fetch sample_host (rstrip_slash ''https://github.com/x/'' @ ''/'' @ f) = Some c
        \<and> (ends_with ''.py'' f \<longrightarrow> ho_valid sample_host c)) UPDATE_FILES"
    by (simp add: UPDATE_FILES_def sample_host_def rstrip_slash_def ends_with_def starts_with_def)
  then have "n = 0" using n(3) by (auto split: if_splits)
  then show ?thesis using r n(2) by (simp add: UPDATE_FILES_def)
qed

section \<open>A start without the server\<close>

text \<open>
  What the daemon does when the server cannot be reached while it registers, for instance on its
  first start. It says that the registration is tried again at the next heartbeat, but no
  heartbeat registers: the first one that arrives is answered with 404, as the server knows no
  such device, and ends the process with the exit code that systemd does not restart.
\<close>

theorem failed_registration_ends_daemon:
  assumes "\<not> buffer_exists (d_buffer d)"
    and "\<forall>j < client_attempts (cf_retry cfg). retried (net (d_net d + j))"
    and "find_device (hb_key b) db = None" and "fst (heartbeat b now db) = Inl e"
    and "net (d_net d + client_attempts (cf_retry cfg)) = Status (code e) body"
  shows "\<exists>d1. start_daemon cfg net d = Inr d1 \<and> d_running d1
      \<and> (let d2 = fst (heartbeat_iter cfg net w d1) in
          \<not> d_running d2 \<and> d_exit_code d2 = 1 \<and> \<not> systemd_restarts (d_exit_code d2))"
proof -
  let ?n = "d_net d + client_attempts (cf_retry cfg)" and ?d0 = "d\<lparr>d_running := True\<rparr>"
  have "post (cf_retry cfg) net (d_net d) = (Failed, ?n)"
    unfolding post_def by (rule post_loop_fails) (fact assms(2))
  then have start: "start_daemon cfg net d = Inr (?d0\<lparr>d_net := ?n\<rparr>)"
    using assms(1) by (simp add: start_daemon_def flush_startup_buffer_def register_daemon_def)
  have e: "code e = 404" using assms(3,4) by (auto simp: heartbeat_def)
  have "post (cf_retry cfg) net ?n = (Removed, Suc ?n)"
  proof -
    obtain k where "client_attempts (cf_retry cfg) = Suc k" by (cases "client_attempts (cf_retry cfg)") (auto simp: client_attempts_def)
    then show ?thesis using assms(5) e by (simp add: post_def)
  qed
  then have "d_running (fst (heartbeat_iter cfg net w (?d0\<lparr>d_net := ?n\<rparr>))) = False
      \<and> d_exit_code (fst (heartbeat_iter cfg net w (?d0\<lparr>d_net := ?n\<rparr>))) = 1"
    by (auto simp: heartbeat_iter_def daemon_collect_def post_heartbeat_def safe_shutdown_def Let_def split: prod.splits)
  then show ?thesis using start by (simp add: systemd_restarts_def Let_def)
qed

definition server_down :: net where
  "server_down n = (if n < 3 then RequestException else Status 404 BadJson)"

theorem failed_registration_ends_daemon_witness:
  "\<exists>d1. start_daemon sample_config server_down sample_daemon = Inr d1
     \<and> \<not> d_running (fst (heartbeat_iter sample_config server_down (sample_world NoFile) d1))"
proof -
  let ?b = "\<lparr>hb_key = ''k'', hb_hostname = None, hb_ip = None, hb_fields = []\<rparr>"
  have 1: "\<not> buffer_exists (d_buffer sample_daemon)" by (simp add: sample_daemon_def buffer_exists_def)
  have n: "client_attempts (cf_retry sample_config) = 3" by (simp add: sample_config_def client_attempts_def)
  have 2: "\<forall>j < client_attempts (cf_retry sample_config). retried (server_down (d_net sample_daemon + j))"
    by (simp add: n server_down_def sample_daemon_def retried_def)
  have 3: "find_device (hb_key ?b) [] = None" "fst (heartbeat ?b 0 []) = Inl (HTTPException 404 ''Device not found'')"
    by (simp_all add: find_device_def heartbeat_def)
  have 4: "server_down (d_net sample_daemon + client_attempts (cf_retry sample_config)) = Status (code (HTTPException 404 ''Device not found'')) BadJson"
    by (simp add: n server_down_def sample_daemon_def)
  from failed_registration_ends_daemon [OF 1 2 3 4, of "sample_world NoFile"] show ?thesis by (auto simp: Let_def)
qed

section \<open>Keys, log files and versions\<close>

text \<open>The key is made once: every later start reads the same key, and nothing else is written.\<close>

lemma device_key_stable:
  "strip token = token \<Longrightarrow> get_device_key token dir = (key, dir') \<Longrightarrow> get_device_key token' dir' = (key, dir')"
  by (auto simp: get_device_key_def split: option.splits)

text \<open>The log goes to a directory that can be written, if one of the two can.\<close>

lemma log_path_writable:
  "resolve_log_path parent writable log_file state_dir True = (path, moved) \<Longrightarrow>
   writable (parent log_file) \<or> writable (parent (state_dir @ ''/daemon.log'')) \<Longrightarrow> writable (parent path)"
  by (auto simp: resolve_log_path_def Let_def split: if_splits)

lemma version_less_order:
  "\<not> version_less v v" "version_less u v \<Longrightarrow> version_less v w \<Longrightarrow> version_less u w"
  "u \<noteq> v \<longleftrightarrow> version_less u v \<or> version_less v u"
  by (cases u; cases v; cases w; auto)+

text \<open>
  Of two versions at most one is behind the other, a device with the version of the repository
  is never behind, and neither is one that reports no number at all.
\<close>

lemma outdated_once: "daemon_outdated (Some a) (Some b) \<Longrightarrow> \<not> daemon_outdated (Some b) (Some a)"
  using version_less_order(1,2) by (auto simp: daemon_outdated_def split: option.splits if_splits)

lemma outdated_needs_number: "daemon_outdated latest (Some r) \<Longrightarrow> digit_runs r \<noteq> []"
  by (auto simp: daemon_outdated_def version_tuple_def split: option.splits if_splits list.splits)

text \<open>The cache gives what a fresh reading gives as long as equal times mean equal files.\<close>

lemma version_cache_transparent:
  assumes "fst cache = mtime \<Longrightarrow> snd cache = find_version (take 4096 text)"
  shows "fst (latest_daemon_version (Some (mtime, Some text)) cache) = find_version (take 4096 text)"
  using assms by (simp add: latest_daemon_version_def Let_def)

end
