(* ===== verification/DaemonSetup.thy ===== *)
theory DaemonSetup
  imports Upkeep
begin

text \<open>
  How the daemon (\<open>ftp-daemon/soltrace_daemon.py\<close>) comes to its settings: \<open>defaults\<close>, \<open>load_config\<close>,
  \<open>setup_logging\<close>, the part of \<open>SolTraceDaemon.__init__\<close> that reads the configuration, the version
  file and the two texts about the host.

  A configuration file is given as the options of its section \<open>[daemon]\<close> in their order, with the
  keys in lower case, as \<open>configparser\<close> reads it; \<open>None\<close> is a file that does not exist. A value is
  interpolated when it is read (\<open>BasicInterpolation\<close>): \<open>%%\<close> is a percent sign, \<open>%(key)s\<close> another
  option, and any other percent sign an error.
\<close>

section \<open>The configuration\<close>

definition CONFIG_DEFAULTS :: "(string, string) dict" where
  "CONFIG_DEFAULTS =
     [(''was_url'', ''https://soltrace.mbone.net''),
      (''transfer_log'', ''/usr/service/logs/proftpd/TransferLog''),
      (''extended_log'', ''/usr/service/logs/proftpd/ExtendedAllLog''),
      (''batch_size'', ''200''), (''poll_interval'', ''10''), (''heartbeat_interval'', ''60''),
      (''retry_max'', ''3''), (''retry_delay'', ''10''), (''http_timeout'', ''15''), (''ssl_verify'', ''true''),
      (''update_url'', ''https://raw.githubusercontent.com/juandjoo/soltrace/main/ftp-daemon''),
      (''max_buffer_lines'', ''50000''), (''state_dir'', ''/var/lib/soltrace''),
      (''buffer_file'', ''/var/lib/soltrace/buffer.jsonl''),
      (''log_file'', ''/var/log/soltrace-daemon/daemon.log''), (''log_level'', ''INFO''),
      (''log_max_mb'', ''10''), (''log_backup_count'', ''5''), (''skip_login_logout'', ''false'')]"

definition load_config :: "(string \<times> string) list option \<Rightarrow> (string, string) dict" where
  "load_config conf = (case conf of None \<Rightarrow> CONFIG_DEFAULTS
     | Some opts \<Rightarrow> fold (\<lambda>(k, v). AList.update k v) opts CONFIG_DEFAULTS)"

text \<open>
  The name of a reference: what stands before the first closing parenthesis, which is followed
  by \<open>s\<close>; and what comes after.
\<close>

definition reference :: "string \<Rightarrow> (string \<times> string) option" where
  "reference s =
     (let name = takeWhile (\<lambda>c. c \<noteq> CHR '')'') s; rest = drop (length name) s in
      if name \<noteq> [] \<and> starts_with '')s'' rest then Some (map to_lower name, drop 2 rest) else None)"

lemma reference_shorter: "reference s = Some (name, rest) \<Longrightarrow> length rest < length s"
proof -
  assume "reference s = Some (name, rest)"
  then have n: "takeWhile (\<lambda>c. c \<noteq> CHR '')'') s \<noteq> []"
    and r: "rest = drop 2 (drop (length (takeWhile (\<lambda>c. c \<noteq> CHR '')'') s)) s)"
    by (auto simp: reference_def Let_def split: if_splits)
  from n have "0 < length s" by auto
  with n show ?thesis unfolding r by simp
qed

text \<open>\<open>_interpolate_some\<close>; \<open>depth\<close> is how many references inside references are left.\<close>

definition MAX_INTERPOLATION_DEPTH :: nat where "MAX_INTERPOLATION_DEPTH = 10"

function interpolate :: "(string, string) dict \<Rightarrow> nat \<Rightarrow> string \<Rightarrow> string option" where
  "interpolate cfg depth [] = Some []"
| "interpolate cfg depth (c # s) =
     (if c \<noteq> CHR ''%'' then map_option (\<lambda>t. c # t) (interpolate cfg depth s)
      else (case s of
          [] \<Rightarrow> None
        | d # s' \<Rightarrow>
            if d = CHR ''%'' then map_option (\<lambda>t. CHR ''%'' # t) (interpolate cfg depth s')
            else if d \<noteq> CHR ''('' then None
            else (case reference s' of
                None \<Rightarrow> None
              | Some (name, rest) \<Rightarrow>
                  (case map_of cfg name of
                     None \<Rightarrow> None
                   | Some v \<Rightarrow>
                       (case (if CHR ''%'' \<notin> set v then Some v else if depth = 0 then None else interpolate cfg (depth - 1) v) of
                          None \<Rightarrow> None
                        | Some x \<Rightarrow> map_option (\<lambda>t. x @ t) (interpolate cfg depth rest))))))"
  by pat_completeness auto
termination
  by (relation "measures [\<lambda>(cfg, depth, s). depth, \<lambda>(cfg, depth, s). length s]")
    (auto dest!: reference_shorter)

text \<open>\<open>cfg["daemon"][key]\<close>; every key that is read has a default.\<close>

definition option_value :: "(string, string) dict \<Rightarrow> string \<Rightarrow> string option" where
  "option_value cfg key = (case map_of cfg key of None \<Rightarrow> None | Some v \<Rightarrow> interpolate cfg (MAX_INTERPOLATION_DEPTH - 1) v)"

definition int_option :: "(string, string) dict \<Rightarrow> string \<Rightarrow> int option" where
  "int_option cfg key = Option.bind (option_value cfg key) py_int"

text \<open>\<open>getboolean\<close>.\<close>

definition bool_option :: "(string, string) dict \<Rightarrow> string \<Rightarrow> bool option" where
  "bool_option cfg key = Option.bind (option_value cfg key) (\<lambda>v.
     let l = map to_lower v in
     if List.member [''1'', ''yes'', ''true'', ''on''] l then Some True
     else if List.member [''0'', ''no'', ''false'', ''off''] l then Some False else None)"
section \<open>The settings of a daemon\<close>

record daemon_setup =
  ds_base_url :: string
  ds_http_timeout :: int
  ds_ssl_verify :: bool
  ds_retry_max :: int
  ds_retry_delay :: int
  ds_buffer_file :: string
  ds_max_lines :: int
  ds_batch_size :: int
  ds_poll_interval :: int
  ds_heartbeat_interval :: int
  ds_skip_login_logout :: bool
  ds_state_dir :: string
  ds_transfer_log :: string
  ds_extended_log :: string

text \<open>\<open>None\<close>: one of the readings raises. The client's own minima are in \<open>client_attempts\<close> and in \<open>ds_retry_delay\<close>.\<close>

definition daemon_init :: "(string, string) dict \<Rightarrow> daemon_setup option" where
  "daemon_init cfg =
     Option.bind (option_value cfg ''state_dir'') (\<lambda>state_dir.
     Option.bind (option_value cfg ''was_url'') (\<lambda>url.
     Option.bind (int_option cfg ''http_timeout'') (\<lambda>timeout.
     Option.bind (option_value cfg ''ssl_verify'') (\<lambda>ssl.
     Option.bind (int_option cfg ''retry_max'') (\<lambda>retry_max.
     Option.bind (int_option cfg ''retry_delay'') (\<lambda>retry_delay.
     Option.bind (option_value cfg ''buffer_file'') (\<lambda>buffer_file.
     Option.bind (int_option cfg ''max_buffer_lines'') (\<lambda>max_lines.
     Option.bind (int_option cfg ''batch_size'') (\<lambda>batch.
     Option.bind (int_option cfg ''poll_interval'') (\<lambda>poll.
     Option.bind (int_option cfg ''heartbeat_interval'') (\<lambda>beat.
     Option.bind (bool_option cfg ''skip_login_logout'') (\<lambda>skip.
     Option.bind (option_value cfg ''transfer_log'') (\<lambda>transfer.
     Option.bind (option_value cfg ''extended_log'') (\<lambda>extended.
       Some \<lparr>ds_base_url = rstrip_slash url, ds_http_timeout = timeout,
             ds_ssl_verify = (\<not> List.member [''false'', ''0'', ''no''] (map to_lower ssl)),
             ds_retry_max = max 1 retry_max, ds_retry_delay = max 0 retry_delay, ds_buffer_file = buffer_file,
             ds_max_lines = max_lines, ds_batch_size = batch, ds_poll_interval = poll,
             ds_heartbeat_interval = beat, ds_skip_login_logout = skip, ds_state_dir = state_dir,
             ds_transfer_log = transfer, ds_extended_log = extended\<rparr>))))))))))))))"

text \<open>What the loops of the daemon read.\<close>

definition daemon_config :: "zone \<Rightarrow> daemon_setup \<Rightarrow> config" where
  "daemon_config z ds =
     \<lparr>cf_zone = z, cf_batch = ds_batch_size ds, cf_retry = ds_retry_max ds, cf_poll = ds_poll_interval ds,
      cf_skip_login_logout = ds_skip_login_logout ds\<rparr>"

section \<open>Logging\<close>

text \<open>
  The handlers: the terminal, and a file that is rotated at a size or grows without limit; there
  is only the terminal when the file cannot be opened.
\<close>

datatype log_handler = Stream | Rotating string int int | PlainFile string

record logging =
  lo_level :: string
  lo_handlers :: "log_handler list"
  lo_moved :: "string option"

definition log_level :: "string \<Rightarrow> string" where
  "log_level name = (let u = map (\<lambda>c. let n = (of_char c :: nat) in if 97 \<le> n \<and> n \<le> 122 then char_of (n - 32) else c) name in
     if List.member [''DEBUG'', ''INFO'', ''WARNING'', ''WARN'', ''ERROR'', ''CRITICAL'', ''FATAL'', ''NOTSET''] u then u else ''INFO'')"

definition setup_logging ::
  "(string \<Rightarrow> string) \<Rightarrow> (string \<Rightarrow> bool) \<Rightarrow> (string \<Rightarrow> bool) \<Rightarrow> (string, string) dict \<Rightarrow> logging option" where
  "setup_logging parent writable opens cfg =
     Option.bind (option_value cfg ''log_level'') (\<lambda>level.
     Option.bind (int_option cfg ''log_max_mb'') (\<lambda>max_mb.
     Option.bind (int_option cfg ''log_backup_count'') (\<lambda>backups.
     Option.bind (option_value cfg ''log_file'') (\<lambda>log_file.
     Option.bind (option_value cfg ''state_dir'') (\<lambda>state_dir.
       let rotating = max_mb > 0;
           (path, moved) = resolve_log_path parent writable log_file state_dir rotating;
           handler = (if rotating then Rotating path (max_mb * 1024 * 1024) (max backups 0) else PlainFile path)
       in Some \<lparr>lo_level = log_level level, lo_handlers = [Stream] @ (if opens path then [handler] else []),
                lo_moved = moved\<rparr>)))))"

section \<open>Version file, host names\<close>

definition version_body :: "string \<Rightarrow> string" where
  "version_body started = ''v'' @ DAEMON_VERSION @ [LF] @ ''started: '' @ started @ [LF]"

text \<open>The first of the two places that can be written gets the version.\<close>

fun write_version :: "(string \<Rightarrow> bool) \<Rightarrow> string \<Rightarrow> string list \<Rightarrow> install_dir \<Rightarrow> install_dir" where
  "write_version ok body [] dir = dir"
| "write_version ok body (p # ps) dir = (if ok p then dir(p \<mapsto> body) else write_version ok body ps dir)"

definition write_version_file :: "(string \<Rightarrow> bool) \<Rightarrow> string \<Rightarrow> string \<Rightarrow> string \<Rightarrow> install_dir \<Rightarrow> install_dir" where
  "write_version_file ok base state_dir started dir =
     write_version ok (version_body started) [base @ ''/VERSION'', state_dir @ ''/VERSION''] dir"

definition get_proftpd_version :: "string option \<Rightarrow> string" where
  "get_proftpd_version out = (case out of None \<Rightarrow> ''unknown'' | Some t \<Rightarrow> take 50 (hd (split_on LF (strip t))))"

text \<open>The lines of \<open>/etc/os-release\<close>, \<open>None\<close> when it cannot be read, and the fallback of \<open>platform\<close>.\<close>

definition get_os_pretty_name :: "string list option \<Rightarrow> string \<Rightarrow> string" where
  "get_os_pretty_name lines fallback =
     (case Option.bind lines (List.find (starts_with ''PRETTY_NAME='')) of
        None \<Rightarrow> take 100 fallback
      | Some l \<Rightarrow> take 100 (strip_char DQ (strip (drop (length ''PRETTY_NAME='') l))))"

section \<open>The program\<close>

text \<open>
  The entry point up to \<open>start\<close>: an exception ends the process with exit code 1.
\<close>

definition boot ::
  "(string \<Rightarrow> string) \<Rightarrow> (string \<Rightarrow> bool) \<Rightarrow> (string \<Rightarrow> bool) \<Rightarrow> (string \<times> string) list option \<Rightarrow> int + daemon_setup" where
  "boot parent writable opens conf =
     (let cfg = load_config conf in
      case setup_logging parent writable opens cfg of
        None \<Rightarrow> Inl 1
      | Some _ \<Rightarrow> (case daemon_init cfg of None \<Rightarrow> Inl 1 | Some ds \<Rightarrow> Inr ds))"

section \<open>What a start needs\<close>

definition NUMBERS :: "string list" where
  "NUMBERS = [''http_timeout'', ''retry_max'', ''retry_delay'', ''max_buffer_lines'', ''batch_size'', ''poll_interval'',
     ''heartbeat_interval'', ''log_max_mb'', ''log_backup_count'']"

definition TEXTS :: "string list" where
  "TEXTS = [''state_dir'', ''was_url'', ''ssl_verify'', ''buffer_file'', ''transfer_log'', ''extended_log'', ''log_level'', ''log_file'']"

definition readable :: "(string, string) dict \<Rightarrow> bool" where
  "readable cfg \<longleftrightarrow> list_all (\<lambda>k. int_option cfg k \<noteq> None) NUMBERS \<and> list_all (\<lambda>k. option_value cfg k \<noteq> None) TEXTS
     \<and> bool_option cfg ''skip_login_logout'' \<noteq> None"

lemma load_lookup:
  "map_of (load_config (Some opts)) k = (case map_of (rev opts) k of None \<Rightarrow> map_of CONFIG_DEFAULTS k | Some v \<Rightarrow> Some v)"
proof -
  have "map_of (fold (\<lambda>(k, v). AList.update k v) os d) k = (case map_of (rev os) k of None \<Rightarrow> map_of d k | Some v \<Rightarrow> Some v)" for os d
  proof (induction os arbitrary: d)
    case (Cons x os)
    obtain a v where x: "x = (a, v)" by (cases x)
    show ?case by (simp add: x Cons.IH update_conv' map_add_def split: option.split)
  qed simp
  then show ?thesis by (simp add: load_config_def)
qed

lemma interpolate_plain: "CHR ''%'' \<notin> set v \<Longrightarrow> interpolate cfg depth v = Some v"
  by (induction v) auto

lemma option_plain: "map_of cfg k = Some v \<Longrightarrow> CHR ''%'' \<notin> set v \<Longrightarrow> option_value cfg k = Some v"
  by (simp add: option_value_def interpolate_plain)

lemma bind_None_iff: "Option.bind x f = None \<longleftrightarrow> x = None \<or> (\<exists>a. x = Some a \<and> f a = None)"
  by (cases x) auto

lemma boot_fails: "boot parent writable opens conf = Inl 1 \<longleftrightarrow> \<not> readable (load_config conf)"
proof -
  let ?c = "load_config conf"
  have "daemon_init ?c = None \<or> setup_logging parent writable opens ?c = None \<longleftrightarrow> \<not> readable ?c"
    unfolding readable_def NUMBERS_def TEXTS_def daemon_init_def setup_logging_def bind_None_iff
    by (auto simp: Let_def case_prod_beta)
  then show ?thesis by (auto simp: boot_def Let_def split: option.splits)
qed

lemma default_numbers:
  "py_int ''200'' \<noteq> None" "py_int ''10'' \<noteq> None" "py_int ''60'' \<noteq> None" "py_int ''3'' \<noteq> None" "py_int ''15'' \<noteq> None"
  "py_int ''50000'' \<noteq> None" "py_int ''5'' \<noteq> None"
  by (simp_all add: py_int_def strip_def lstrip_def is_space_def Let_def is_digit_def digit_val_def)

lemma defaults_readable: "readable (load_config None)"
proof -
  have v: "option_value CONFIG_DEFAULTS k = Some v" if "map_of CONFIG_DEFAULTS k = Some v" "CHR ''%'' \<notin> set v" for k v
    using that by (rule option_plain)
  note [simp] = v [unfolded CONFIG_DEFAULTS_def]
  show ?thesis
    unfolding readable_def NUMBERS_def TEXTS_def load_config_def int_option_def bool_option_def CONFIG_DEFAULTS_def
    using default_numbers by (simp add: to_lower_def)
qed

lemma init_minima: "daemon_init cfg = Some ds \<Longrightarrow> 1 \<le> ds_retry_max ds \<and> 0 \<le> ds_retry_delay ds"
  unfolding daemon_init_def bind_eq_Some_conv by auto

text \<open>
  A setting that cannot be read ends the daemon for good. A start succeeds exactly when every
  number of the configuration is one, every value can be interpolated and the switch is a truth
  value; otherwise the process ends with an exit code with which systemd does not start it
  again. Without a file it starts, and a daemon that starts makes at least one attempt for every
  request.
\<close>

theorem unreadable_setting_ends_for_good:
  "(case boot parent writable opens conf of
      Inl status \<Rightarrow> \<not> readable (load_config conf) \<and> \<not> systemd_restarts status
    | Inr ds \<Rightarrow> readable (load_config conf) \<and> daemon_init (load_config conf) = Some ds
        \<and> 1 \<le> ds_retry_max ds \<and> 0 \<le> ds_retry_delay ds)
   \<and> (\<exists>ds. boot parent writable opens None = Inr ds)"
proof
  let ?c = "load_config conf"
  show "case boot parent writable opens conf of
      Inl status \<Rightarrow> \<not> readable ?c \<and> \<not> systemd_restarts status
    | Inr ds \<Rightarrow> readable ?c \<and> daemon_init ?c = Some ds \<and> 1 \<le> ds_retry_max ds \<and> 0 \<le> ds_retry_delay ds"
  proof (cases "boot parent writable opens conf")
    case (Inl status)
    then have "status = 1" by (auto simp: boot_def Let_def split: option.splits)
    then show ?thesis using Inl boot_fails [of parent writable opens conf] by (simp add: systemd_restarts_def)
  next
    case (Inr ds)
    then have "daemon_init ?c = Some ds" by (auto simp: boot_def Let_def split: option.splits)
    then show ?thesis using Inr boot_fails [of parent writable opens conf] init_minima by simp
  qed
  show "\<exists>ds. boot parent writable opens None = Inr ds"
    using boot_fails [of parent writable opens None] defaults_readable
    by (auto simp: boot_def Let_def split: option.splits)
qed

text \<open>
  An option that the file sets has the last value it sets, and one that it does not set the
  default; without a percent sign it is read as it stands.
\<close>

theorem option_of_the_file:
  assumes "CHR ''%'' \<notin> set v" and "(case map_of (rev opts) k of None \<Rightarrow> map_of CONFIG_DEFAULTS k | Some w \<Rightarrow> Some w) = Some v"
  shows "option_value (load_config (Some opts)) k = Some v"
  using assms by (simp add: option_plain load_lookup)

theorem option_of_the_file_witness:
  "option_value (load_config (Some [(''batch_size'', ''100''), (''batch_size'', ''50'')])) ''batch_size'' = Some ''50''"
  by (rule option_of_the_file) simp_all

end
