(* ===== verification/Migrations.thy ===== *)
theory Migrations
  imports Dedup
begin

text \<open>
  \<open>was/app/migrations.py\<close>: the statements that \<open>run_migrations\<close> sends at every start of the server, on
  the catalog of the database (\<open>information_schema.columns\<close>, \<open>pg_indexes\<close>) and the log table.

  A statement that the database refuses (a table or a column that is not there, an index over
  rows that repeat) raises and the server does not start: the result is \<^const>\<open>None\<close>. The kinds of
  the indexes and of the columns are left out.
\<close>

section \<open>The catalog\<close>

record catalog =
  ca_columns :: "(string \<times> string) list"
  ca_indexes :: "string list"

record schema =
  sc_catalog :: catalog
  sc_logs :: log_table

definition has_column :: "string \<Rightarrow> string \<Rightarrow> catalog \<Rightarrow> bool" where
  "has_column tab col ca = List.member (ca_columns ca) (tab, col)"

definition has_table :: "string \<Rightarrow> catalog \<Rightarrow> bool" where
  "has_table tab ca = list_ex (\<lambda>(t, c). t = tab) (ca_columns ca)"

definition rename_column :: "string \<Rightarrow> string \<Rightarrow> string \<Rightarrow> catalog \<Rightarrow> catalog option" where
  "rename_column tab old new ca =
     (if has_column tab old ca \<and> \<not> has_column tab new ca
      then Some (ca\<lparr>ca_columns := map (\<lambda>x. if x = (tab, old) then (tab, new) else x) (ca_columns ca)\<rparr>)
      else Some ca)"

definition create_index :: "string \<Rightarrow> string \<Rightarrow> string list \<Rightarrow> catalog \<Rightarrow> catalog option" where
  "create_index idx tab cols ca =
     (if List.member (ca_indexes ca) idx then Some ca
      else if list_all (\<lambda>c. has_column tab c ca) cols then Some (ca\<lparr>ca_indexes := ca_indexes ca @ [idx]\<rparr>)
      else None)"

definition add_column :: "string \<Rightarrow> string \<Rightarrow> catalog \<Rightarrow> catalog option" where
  "add_column tab col ca =
     (if \<not> has_table tab ca then None
      else if has_column tab col ca then Some ca
      else Some (ca\<lparr>ca_columns := ca_columns ca @ [(tab, col)]\<rparr>))"

text \<open>The statements in their order, up to the one that concerns the rows.\<close>

definition catalog_steps :: "(catalog \<Rightarrow> catalog option) list" where
  "catalog_steps =
     [rename_column ''groups'' ''auth'' ''application'',
      create_index ''idx_ftp_logs_client_ip_trgm'' ''ftp_logs'' [''client_ip''],
      create_index ''idx_ftp_logs_file_path_trgm'' ''ftp_logs'' [''file_path''],
      create_index ''idx_device_groups_group_id'' ''device_groups'' [''group_id''],
      create_index ''idx_service_metrics_device_bucket'' ''service_metrics'' [''device_id'', ''bucket''],
      create_index ''idx_service_alerts_device_created'' ''service_alerts'' [''device_id'', ''created_at''],
      create_index ''idx_service_alerts_notified'' ''service_alerts'' [''notified''],
      add_column ''users'' ''failed_attempts'', add_column ''users'' ''locked_until'', add_column ''users'' ''last_login_at'',
      add_column ''ftp_logs'' ''row_hash'']"

fun run_steps :: "('a \<Rightarrow> 'a option) list \<Rightarrow> 'a \<Rightarrow> 'a option" where
  "run_steps [] s = Some s"
| "run_steps (f # fs) s = Option.bind (f s) (run_steps fs)"

definition run_migrations :: "(string \<Rightarrow> string) \<Rightarrow> (time \<Rightarrow> string) \<Rightarrow> time \<Rightarrow> schema \<Rightarrow> schema option" where
  "run_migrations md5 fmt horizon sc =
     Option.bind (run_steps catalog_steps (sc_catalog sc)) (\<lambda>ca.
     Option.bind (if has_column ''ftp_logs'' ''row_hash'' ca then dedup_migration md5 fmt horizon (sc_logs sc) else None) (\<lambda>t.
       Some (sc\<lparr>sc_catalog := ca, sc_logs := t\<rparr>)))"
section \<open>A second start\<close>

text \<open>
  What a step may do to the catalog: it adds, and never a column \<open>groups.auth\<close>. A step lasts when
  it has nothing left to do once it has run, whatever is added behind it.
\<close>

definition grows :: "catalog \<Rightarrow> catalog \<Rightarrow> bool" where
  "grows ca ca' \<longleftrightarrow> set (ca_columns ca) \<subseteq> set (ca_columns ca') \<and> set (ca_indexes ca) \<subseteq> set (ca_indexes ca')
     \<and> (has_column ''groups'' ''auth'' ca' \<longrightarrow> has_column ''groups'' ''auth'' ca)"

definition lasting :: "(catalog \<Rightarrow> catalog option) \<Rightarrow> bool" where
  "lasting f \<longleftrightarrow> (\<forall>ca ca'. f ca = Some ca' \<longrightarrow> grows ca ca' \<and> (\<forall>ca2. grows ca' ca2 \<longrightarrow> f ca2 = Some ca2))"

lemma grows_refl [simp]: "grows ca ca"
  by (simp add: grows_def)

lemma grows_trans [trans]: "grows a b \<Longrightarrow> grows b c \<Longrightarrow> grows a c"
  by (auto simp: grows_def)

lemma grows_column: "grows ca ca' \<Longrightarrow> has_column tab col ca \<Longrightarrow> has_column tab col ca'"
  by (auto simp: grows_def has_column_def)

lemma grows_table: "grows ca ca' \<Longrightarrow> has_table tab ca \<Longrightarrow> has_table tab ca'"
  by (fastforce simp: grows_def has_table_def list_ex_iff)

lemma grows_index: "grows ca ca' \<Longrightarrow> i \<in> set (ca_indexes ca) \<Longrightarrow> i \<in> set (ca_indexes ca')"
  by (auto simp: grows_def)

lemma lasting_index [simp]: "lasting (create_index idx tab cols)"
  by (auto simp: lasting_def create_index_def grows_def has_column_def split: if_splits)

lemma add_column_ends:
  assumes "add_column tab col ca = Some ca'"
  shows "has_table tab ca' \<and> has_column tab col ca'"
  using assms by (auto simp: add_column_def has_table_def has_column_def split: if_splits)

lemma lasting_column: "(tab, col) \<noteq> (''groups'', ''auth'') \<Longrightarrow> lasting (add_column tab col)"
  unfolding lasting_def
proof (intro allI impI conjI)
  fix ca ca' ca2 assume new: "(tab, col) \<noteq> (''groups'', ''auth'')" and step: "add_column tab col ca = Some ca'"
  show "grows ca ca'" using new step by (auto simp: add_column_def grows_def has_column_def split: if_splits)
  assume "grows ca' ca2"
  then show "add_column tab col ca2 = Some ca2"
    using add_column_ends [OF step] by (simp add: add_column_def grows_column grows_table)
qed

lemma run_steps_Some: "run_steps (f # fs) s = Some s' \<longleftrightarrow> (\<exists>c. f s = Some c \<and> run_steps fs c = Some s')"
  by (cases "f s") simp_all

lemma steps_last:
  "list_all lasting fs \<Longrightarrow> run_steps fs ca = Some ca' \<Longrightarrow>
    grows ca ca' \<and> (\<forall>ca2. grows ca' ca2 \<longrightarrow> run_steps fs ca2 = Some ca2)"
proof (induction fs arbitrary: ca)
  case (Cons f fs)
  have f: "lasting f" "list_all lasting fs" using Cons.prems(1) by simp_all
  obtain c where c: "f ca = Some c" "run_steps fs c = Some ca'" using Cons.prems(2) unfolding run_steps_Some by blast
  have step: "grows ca c" "\<And>ca2. grows c ca2 \<Longrightarrow> f ca2 = Some ca2" using f(1) c(1) unfolding lasting_def by blast+
  have rest: "grows c ca'" "\<And>ca2. grows ca' ca2 \<Longrightarrow> run_steps fs ca2 = Some ca2"
    using Cons.IH [OF f(2) c(2)] by blast+
  show ?case using step rest grows_trans [OF step(1) rest(1)] grows_trans [OF rest(1)] by simp
qed simp

lemma rename_Some: "\<exists>c. rename_column tab old new ca = Some c"
  by (simp add: rename_column_def)

lemma rename_ends: "rename_column tab old new ca = Some ca' \<Longrightarrow> old \<noteq> new \<Longrightarrow> \<not> has_column tab old ca' \<or> has_column tab new ca'"
  by (auto simp: rename_column_def has_column_def split: if_splits)

lemma catalog_steps_split: "catalog_steps = rename_column ''groups'' ''auth'' ''application'' # tl catalog_steps"
  by (simp add: catalog_steps_def)

lemma catalog_stepsE:
  assumes "run_steps catalog_steps ca = Some ca'"
  obtains c where "rename_column ''groups'' ''auth'' ''application'' ca = Some c" "run_steps (tl catalog_steps) c = Some ca'"
proof -
  have "run_steps (rename_column ''groups'' ''auth'' ''application'' # tl catalog_steps) ca = Some ca'"
    using assms by (simp only: catalog_steps_split [symmetric])
  then show ?thesis unfolding run_steps_Some using that by blast
qed

lemma later_steps_last: "list_all lasting (tl catalog_steps)"
  by (simp add: catalog_steps_def lasting_column)

lemma catalog_settles:
  assumes "run_steps catalog_steps ca = Some ca'"
  shows "run_steps catalog_steps ca' = Some ca'"
proof -
  let ?rename = "rename_column ''groups'' ''auth'' ''application''"
  obtain c where c: "?rename ca = Some c" "run_steps (tl catalog_steps) c = Some ca'"
    using assms by (rule catalog_stepsE)
  have later: "grows c ca'" "run_steps (tl catalog_steps) ca' = Some ca'"
    using steps_last [OF later_steps_last c(2)] by simp_all
  have "\<not> has_column ''groups'' ''auth'' ca' \<or> has_column ''groups'' ''application'' ca'"
    using rename_ends [OF c(1)] grows_column [OF later(1)] later(1) unfolding grows_def by auto
  then have "?rename ca' = Some ca'" by (auto simp: rename_column_def)
  then have "run_steps (?rename # tl catalog_steps) ca' = Some ca'" using later(2) by simp
  then show ?thesis by (simp only: catalog_steps_split [symmetric])
qed

text \<open>What the steps leave behind.\<close>

lemma steps_end_in:
  "run_steps fs ca = Some ca' \<Longrightarrow> list_all lasting fs \<Longrightarrow> f \<in> set fs \<Longrightarrow> f ca' = Some ca'"
proof (induction fs arbitrary: ca)
  case (Cons g fs)
  obtain c where c: "g ca = Some c" "run_steps fs c = Some ca'" using Cons.prems(1) unfolding run_steps_Some by blast
  have g: "lasting g" "list_all lasting fs" using Cons.prems(2) by simp_all
  have "grows c ca'" using steps_last [OF g(2) c(2)] by blast
  then have "g ca' = Some ca'" using c(1) g(1) unfolding lasting_def by blast
  then show ?case using Cons.IH [OF c(2) g(2)] Cons.prems(3) by (cases "f = g") simp_all
qed simp

lemma settled_index: "create_index idx tab cols ca = Some ca \<Longrightarrow> idx \<in> set (ca_indexes ca)"
  by (auto simp: create_index_def split: if_splits dest: arg_cong [of _ _ ca_indexes])

lemma settled_column: "add_column tab col ca = Some ca \<Longrightarrow> has_column tab col ca"
  using add_column_ends by blast

definition migrated_indexes :: "string list" where
  "migrated_indexes =
     [''idx_ftp_logs_client_ip_trgm'', ''idx_ftp_logs_file_path_trgm'', ''idx_device_groups_group_id'',
      ''idx_service_metrics_device_bucket'', ''idx_service_alerts_device_created'', ''idx_service_alerts_notified'']"

definition migrated_columns :: "(string \<times> string) list" where
  "migrated_columns = [(''users'', ''failed_attempts''), (''users'', ''locked_until''), (''users'', ''last_login_at''), (''ftp_logs'', ''row_hash'')]"

lemma catalog_migrated:
  assumes "run_steps catalog_steps ca = Some ca'"
  shows "list_all (\<lambda>i. i \<in> set (ca_indexes ca')) migrated_indexes \<and> list_all (\<lambda>(t, c). has_column t c ca') migrated_columns"
proof -
  obtain c where "run_steps (tl catalog_steps) c = Some ca'"
    using assms by (rule catalog_stepsE)
  then have settled: "\<forall>f \<in> set (tl catalog_steps). f ca' = Some ca'"
    using steps_end_in [OF _ later_steps_last] by blast
  show ?thesis unfolding migrated_indexes_def migrated_columns_def
    using settled by (auto simp: catalog_steps_def intro: settled_index settled_column)
qed

text \<open>
  The contract the comment of the module states: a migration that was applied does nothing. What a
  start leaves is left as it is by every later one, at any time, and has the columns and indexes
  the code relies on.
\<close>

theorem second_start_changes_nothing:
  assumes "run_migrations md5 fmt horizon sc = Some sc'"
  shows "run_migrations md5 fmt later sc' = Some sc' \<and> lt_index (sc_logs sc')
    \<and> list_all (\<lambda>i. i \<in> set (ca_indexes (sc_catalog sc'))) migrated_indexes
    \<and> list_all (\<lambda>(t, c). has_column t c (sc_catalog sc')) migrated_columns"
proof -
  let ?ca = "sc_catalog sc'"
  have steps: "run_steps catalog_steps (sc_catalog sc) = Some ?ca" and hash: "has_column ''ftp_logs'' ''row_hash'' ?ca"
    and logs: "dedup_migration md5 fmt horizon (sc_logs sc) = Some (sc_logs sc')"
    using assms by (auto simp: run_migrations_def split: bind_splits if_splits)
  have index: "lt_index (sc_logs sc')" using logs by (auto simp: dedup_migration_def Let_def split: if_splits dest: arg_cong [of _ _ lt_index])
  then have "dedup_migration md5 fmt later (sc_logs sc') = Some (sc_logs sc')" by (simp add: dedup_migration_def)
  then have "run_migrations md5 fmt later sc' = Some sc'"
    using catalog_settles [OF steps] hash by (simp add: run_migrations_def)
  then show ?thesis using index catalog_migrated [OF steps] by blast
qed

text \<open>
  On the tables that \<open>create_all\<close> makes, whatever their age, the statements on the catalog succeed,
  so only the repeated rows can keep the server from starting.
\<close>

definition base_columns :: "(string \<times> string) list" where
  "base_columns =
     [(''ftp_logs'', ''client_ip''), (''ftp_logs'', ''file_path''), (''device_groups'', ''group_id''),
      (''service_metrics'', ''device_id''), (''service_metrics'', ''bucket''),
      (''service_alerts'', ''device_id''), (''service_alerts'', ''created_at''), (''service_alerts'', ''notified''),
      (''users'', ''username'')]"

definition base_tables :: "catalog \<Rightarrow> bool" where
  "base_tables ca \<longleftrightarrow> list_all (\<lambda>(t, c). has_column t c ca) base_columns"

lemma base_tables_grow: "grows ca ca' \<Longrightarrow> base_tables ca \<Longrightarrow> base_tables ca'"
  by (auto simp: base_tables_def list_all_iff intro: grows_column)

lemma base_tables_rename:
  "base_tables ca \<Longrightarrow> rename_column ''groups'' old new ca = Some ca' \<Longrightarrow> base_tables ca'"
  by (force simp: base_tables_def base_columns_def rename_column_def has_column_def split: if_splits)

lemma column_table: "has_column tab col ca \<Longrightarrow> has_table tab ca"
  by (auto simp: has_column_def has_table_def list_ex_iff)

lemma base_step:
  assumes "f \<in> set (tl catalog_steps)" and "base_tables ca"
  shows "f ca \<noteq> None"
  using assms unfolding base_tables_def base_columns_def
  by (auto simp: catalog_steps_def create_index_def add_column_def dest: column_table)

lemma base_steps:
  "set fs \<subseteq> set (tl catalog_steps) \<Longrightarrow> base_tables ca \<Longrightarrow> run_steps fs ca \<noteq> None"
proof (induction fs arbitrary: ca)
  case (Cons f fs)
  have f: "f \<in> set (tl catalog_steps)" "set fs \<subseteq> set (tl catalog_steps)" using Cons.prems(1) by simp_all
  obtain c where c: "f ca = Some c" using base_step [OF f(1) Cons.prems(2)] by blast
  have "lasting f" using later_steps_last f(1) by (simp add: list_all_iff)
  then have "grows ca c" using c unfolding lasting_def by blast
  then show ?case using Cons.IH [OF f(2)] base_tables_grow Cons.prems(2) c by simp
qed simp

theorem only_the_rows_can_stop_a_start:
  assumes "base_tables (sc_catalog sc)"
  shows "run_migrations md5 fmt horizon sc = None \<longleftrightarrow> dedup_migration md5 fmt horizon (sc_logs sc) = None"
proof -
  obtain c where c: "rename_column ''groups'' ''auth'' ''application'' (sc_catalog sc) = Some c"
    using rename_Some by blast
  obtain ca where ca: "run_steps (tl catalog_steps) c = Some ca"
    using base_steps [OF subset_refl base_tables_rename [OF assms c]] by blast
  then have "run_steps (rename_column ''groups'' ''auth'' ''application'' # tl catalog_steps) (sc_catalog sc) = Some ca"
    using c by simp
  then have steps: "run_steps catalog_steps (sc_catalog sc) = Some ca" by (simp only: catalog_steps_split [symmetric])
  then have "has_column ''ftp_logs'' ''row_hash'' ca" using catalog_migrated by (simp add: migrated_columns_def)
  then show ?thesis using steps by (auto simp: run_migrations_def split: bind_splits)
qed

definition first_release :: schema where
  "first_release = \<lparr>sc_catalog = \<lparr>ca_columns = base_columns @ [(''groups'', ''auth'')], ca_indexes = []\<rparr>, sc_logs = unindexed_table\<rparr>"

theorem only_the_rows_can_stop_a_start_witness:
  "run_migrations id show_int 0 first_release = None \<longleftrightarrow> dedup_migration id show_int 0 unindexed_table = None"
  using only_the_rows_can_stop_a_start [of first_release id show_int 0]
  by (simp add: first_release_def base_tables_def base_columns_def has_column_def)

theorem second_start_changes_nothing_witness:
  "\<exists>sc'. run_migrations id show_int 0 first_release = Some sc' \<and> run_migrations id show_int 99 sc' = Some sc'
    \<and> length (lt_rows (sc_logs sc')) = 1"
proof -
  have "map_option (\<lambda>sc'. length (lt_rows (sc_logs sc'))) (run_migrations id show_int 0 first_release) = Some 1"
    by code_simp
  then obtain sc' where sc': "run_migrations id show_int 0 first_release = Some sc'" "length (lt_rows (sc_logs sc')) = 1" by auto
  then show ?thesis using second_start_changes_nothing [OF sc'(1), of 99] by blast
qed

end
