(* ===== verification/SettingsPage.thy ===== *)
theory SettingsPage
  imports Storage Upkeep
begin

text \<open>
  The other routes of \<open>routers/settings.py\<close>: the versions of the deployed repository, the
  change log, the password of the administrator and the addresses that may log in.

  \<open>run\<close> is \<open>git_run\<close>: the exit status and the two outputs of git, \<open>None\<close> when it cannot be run
  or takes too long; git prints ASCII. The change log is given as its lines.
\<close>

section \<open>Versions\<close>

type_synonym git_runner = "string list \<Rightarrow> (int \<times> string \<times> string) option"

definition git :: "git_runner \<Rightarrow> string list \<Rightarrow> string option" where
  "git run args = (case run args of
       Some (returncode, out, err) \<Rightarrow> if returncode = 0 then Some (strip out) else None
     | None \<Rightarrow> None)"

record version_info =
  vi_branch :: "string option"
  vi_commit :: "string option"
  vi_commit_date :: "string option"
  vi_subject :: "string option"
  vi_behind :: "int option"
  vi_update_available :: bool
  vi_checked :: bool
  vi_error :: "string option"

definition deployed :: "git_runner \<Rightarrow> version_info" where
  "deployed run =
     \<lparr>vi_branch = git run [''rev-parse'', ''--abbrev-ref'', ''HEAD''],
      vi_commit = git run [''rev-parse'', ''--short'', ''HEAD''],
      vi_commit_date = git run [''log'', ''-1'', ''--format=%cd'', ''--date=format:%Y-%m-%d %H:%M''],
      vi_subject = git run [''log'', ''-1'', ''--format=%s''],
      vi_behind = None, vi_update_available = False, vi_checked = False, vi_error = None\<rparr>"

definition fetch_failed :: "string \<Rightarrow> string" where
  "fetch_failed err = take 300 (if err = [] then ''git fetch failed'' else err)"

definition git_version_info :: "git_runner \<Rightarrow> bool \<Rightarrow> version_info" where
  "git_version_info run check_remote =
     (let info = deployed run in
      if check_remote \<and> truthy (vi_branch info) then
        (let branch = the (vi_branch info) in
         case run [''fetch'', ''--quiet'', ''origin'', branch] of
           None \<Rightarrow> info\<lparr>vi_error := Some (fetch_failed [])\<rparr>
         | Some (returncode, out, err) \<Rightarrow>
             if returncode \<noteq> 0 then info\<lparr>vi_error := Some (fetch_failed (strip err))\<rparr>
             else (case git run [''rev-list'', ''--count'', ''HEAD..origin/'' @ branch] of
                 None \<Rightarrow> info
               | Some behind \<Rightarrow>
                   if behind \<noteq> [] \<and> list_all is_digit behind
                   then (let n = the (py_int behind) in
                         info\<lparr>vi_behind := Some n, vi_update_available := n > 0, vi_checked := True\<rparr>)
                   else info))
      else info)"

section \<open>The change log\<close>

record changelog_item =
  ci_text :: string
  ci_commit :: "string option"

record changelog_entry =
  ce_date :: string
  ce_items :: "changelog_item list"

definition is_lower_hex :: "char \<Rightarrow> bool" where
  "is_lower_hex c = (let n = (of_char c :: nat) in is_digit c \<or> (97 \<le> n \<and> n \<le> 102))"

text \<open>
  What may follow the text of an item: \<open>(?:\<setminus>s*\<setminus>(`([0-9a-f]{7,40})`\<setminus>))?\<setminus>s*$\<close>. The commit
  when there is one, \<open>Some None\<close> when only white space follows.
\<close>

definition commit_tail :: "string \<Rightarrow> string option" where
  "commit_tail r =
     (let t = dropWhile is_space r in
      if take 2 t = ''(`'' then
        (let h = takeWhile is_lower_hex (drop 2 t); rest = dropWhile is_lower_hex (drop 2 t) in
         if 7 \<le> length h \<and> length h \<le> 40 \<and> take 2 rest = ''`)'' \<and> list_all is_space (drop 2 rest) then Some h else None)
      else None)"

definition item_tail :: "string \<Rightarrow> string option option" where
  "item_tail r =
     (case commit_tail r of
        Some c \<Rightarrow> Some (Some c)
      | None \<Rightarrow> if list_all is_space r then Some None else None)"

text \<open>The lazy text group: the shortest text after which the rest of the pattern matches.\<close>

fun item_text :: "string \<Rightarrow> string \<times> string option" where
  "item_text [] = ([], None)"
| "item_text (x # xs) =
     (case item_tail (x # xs) of
        Some c \<Rightarrow> ([], c)
      | None \<Rightarrow> (let (t, c) = item_text xs in (x # t, c)))"

definition match_item :: "string \<Rightarrow> changelog_item" where
  "match_item line =
     (let (t, c) = item_text (dropWhile is_space (tl line)) in \<lparr>ci_text = t, ci_commit = c\<rparr>)"

text \<open>\<open>^##\<setminus>s+(\<setminus>d{4}-\<setminus>d{2}-\<setminus>d{2})\<setminus>s*$\<close>.\<close>

definition match_date :: "string \<Rightarrow> string option" where
  "match_date line =
     (if take 2 line = ''##'' \<and> drop 2 line \<noteq> [] \<and> is_space (hd (drop 2 line)) then
        (let body = dropWhile is_space (drop 2 line) in
         if shape_ok ''dddd-dd-dd'' (take 10 body) \<and> list_all is_space (drop 10 body) then Some (take 10 body) else None)
      else None)"

fun changelog_loop :: "nat \<Rightarrow> string list \<Rightarrow> changelog_entry list \<Rightarrow> changelog_entry list" where
  "changelog_loop limit [] entries = entries"
| "changelog_loop limit (line # rest) entries =
     (case match_date line of
        Some d \<Rightarrow>
          if length entries \<ge> limit then entries
          else changelog_loop limit rest (entries @ [\<lparr>ce_date = d, ce_items = []\<rparr>])
      | None \<Rightarrow>
          if entries = [] \<or> \<not> starts_with ''- '' line then changelog_loop limit rest entries
          else (let m = match_item line in
            if ci_text m \<noteq> [] then
              changelog_loop limit rest (butlast entries @ [(last entries)\<lparr>ce_items := ce_items (last entries) @ [m]\<rparr>])
            else changelog_loop limit rest entries))"

text \<open>\<open>content\<close> is \<open>None\<close> when the file cannot be read.\<close>

definition get_changelog :: "nat \<Rightarrow> string list option \<Rightarrow> changelog_entry list" where
  "get_changelog limit content = (case content of None \<Rightarrow> [] | Some ls \<Rightarrow> changelog_loop limit ls [])"

section \<open>Password and addresses\<close>

definition change_password ::
  "env \<Rightarrow> nat list \<Rightarrow> principal \<Rightarrow> string \<Rightarrow> string \<Rightarrow> accounts \<Rightarrow> unit http \<times> accounts" where
  "change_password env salt me current new ac =
     (let wrong = Inl (HTTPException 400 ''wrong current password'');
          crash = Inl (HTTPException 500 ''TypeError'')
      in if length new < 8 \<or> length new > 128 then (Inl (HTTPException 422 ''validation''), ac)
         else if new = current then (Inl (HTTPException 400 ''unchanged''), ac)
         else (case get_user (pr_username me) ac of
             None \<Rightarrow>
               (case verify_admin_password env current ac of
                  None \<Rightarrow> (crash, ac)
                | Some False \<Rightarrow> (wrong, ac)
                | Some True \<Rightarrow> (Inr (), set_config ''admin_password_hash'' (hash_password env salt new) ac))
           | Some u \<Rightarrow>
               (case verify_password env current (u_hash u) of
                  None \<Rightarrow> (crash, ac)
                | Some False \<Rightarrow> (wrong, ac)
                | Some True \<Rightarrow> (Inr (), put_user (u\<lparr>u_hash := hash_password env salt new\<rparr>) ac))))"

text \<open>The body of the request is free-form JSON: \<open>None\<close> is an \<open>allowed_ips\<close> that is no list.\<close>

definition update_allowed_ips :: "env \<Rightarrow> string list option \<Rightarrow> accounts \<Rightarrow> accounts http" where
  "update_allowed_ips env ips ac =
     (case ips of
        None \<Rightarrow> Inl (HTTPException 400 ''allowed_ips must be a list'')
      | Some entries \<Rightarrow> (case validate_ip_entries env entries of
            Inl e \<Rightarrow> Inl e
          | Inr valid \<Rightarrow> Inr (set_office_ips valid ac)))"

record security_info =
  se_username :: string
  se_allowed_ips :: "string list"
  se_my_ip :: string

definition get_security :: "string option \<Rightarrow> string option \<Rightarrow> string option \<Rightarrow> principal \<Rightarrow> accounts \<Rightarrow> security_info" where
  "get_security real_ip xff peer me ac =
     \<lparr>se_username = pr_username me, se_allowed_ips = get_office_ips ac,
      se_my_ip = client_ip_from_request real_ip xff peer\<rparr>"

section \<open>What the pages promise\<close>

text \<open>
  The version page never calls a repository up to date or outdated without having fetched: the
  number of missing commits is only shown when git fetched the branch and counted, an update is
  announced exactly when that number is positive, and a fetch that fails gives an error text and
  neither of the two.
\<close>

theorem version_check_is_honest:
  "let v = git_version_info run True; b = the (vi_branch v) in
     vi_branch v = git run [''rev-parse'', ''--abbrev-ref'', ''HEAD'']
     \<and> (vi_checked v \<longleftrightarrow> truthy (vi_branch v)
         \<and> (\<exists>out err. run [''fetch'', ''--quiet'', ''origin'', b] = Some (0, out, err))
         \<and> (\<exists>n. git run [''rev-list'', ''--count'', ''HEAD..origin/'' @ b] = Some n \<and> n \<noteq> [] \<and> list_all is_digit n))
     \<and> (vi_update_available v \<longleftrightarrow> vi_checked v \<and> (\<exists>n > 0. vi_behind v = Some n))
     \<and> (vi_error v \<noteq> None \<longleftrightarrow> truthy (vi_branch v)
         \<and> \<not> (\<exists>out err. run [''fetch'', ''--quiet'', ''origin'', b] = Some (0, out, err)))
     \<and> vi_error v \<noteq> Some []"
  by (cases "truthy (vi_branch (deployed run))")
    (auto simp: git_version_info_def deployed_def fetch_failed_def Let_def split: option.splits prod.splits)

subsection \<open>The change log is read back\<close>

definition render_item :: "changelog_item \<Rightarrow> string" where
  "render_item i = ''- '' @ ci_text i @ (case ci_commit i of None \<Rightarrow> [] | Some c \<Rightarrow> '' (`'' @ c @ ''`)'')"

definition render_entry :: "changelog_entry \<Rightarrow> string list" where
  "render_entry e = (''## '' @ ce_date e) # map render_item (ce_items e)"

definition item_ok :: "changelog_item \<Rightarrow> bool" where
  "item_ok i \<longleftrightarrow> ci_text i \<noteq> [] \<and> \<not> is_space (hd (ci_text i)) \<and> \<not> is_space (last (ci_text i))
     \<and> (case ci_commit i of
          None \<Rightarrow> \<not> ends_with ''`)'' (ci_text i)
        | Some c \<Rightarrow> 7 \<le> length c \<and> length c \<le> 40 \<and> list_all is_lower_hex c)"

definition entry_ok :: "changelog_entry \<Rightarrow> bool" where
  "entry_ok e \<longleftrightarrow> shape_ok ''dddd-dd-dd'' (ce_date e) \<and> list_all item_ok (ce_items e)"

text \<open>The lines the parser looks at; headings of another form and prose are skipped.\<close>

definition relevant :: "string \<Rightarrow> bool" where
  "relevant line \<longleftrightarrow> match_date line \<noteq> None \<or> starts_with ''- '' line"

lemma commit_tailD:
  assumes "commit_tail r = Some c"
  shows "\<exists>sp sp'. r = sp @ ''(`'' @ c @ ''`)'' @ sp' \<and> list_all is_space sp \<and> list_all is_space sp'
    \<and> list_all is_lower_hex c"
proof -
  define t where "t = dropWhile is_space r"
  define rest where "rest = dropWhile is_lower_hex (drop 2 t)"
  have c: "take 2 t = ''(`''" "c = takeWhile is_lower_hex (drop 2 t)" "take 2 rest = ''`)''"
      "list_all is_space (drop 2 rest)"
    using assms by (auto simp: commit_tail_def Let_def t_def rest_def split: if_splits)
  have "r = takeWhile is_space r @ t" by (simp add: t_def)
  moreover have "t = ''(`'' @ drop 2 t" using c(1) by (metis append_take_drop_id)
  moreover have "drop 2 t = c @ rest" by (simp add: c(2) rest_def)
  moreover have "rest = ''`)'' @ drop 2 rest" using c(3) by (metis append_take_drop_id)
  moreover have "list_all is_space (takeWhile is_space r)" by (auto simp: list_all_iff dest: set_takeWhileD)
  moreover have "list_all is_lower_hex c" unfolding c(2) by (auto simp: list_all_iff dest: set_takeWhileD)
  ultimately show ?thesis using c(4) by (metis append_assoc)
qed

lemma commit_tail_match:
  assumes "list_all is_space sp" and "7 \<le> length c" and "length c \<le> 40" and "list_all is_lower_hex c"
  shows "commit_tail (sp @ ''(`'' @ c @ ''`)'') = Some c"
proof -
  have d: "dropWhile is_space (sp @ ''(`'' @ c @ ''`)'') = ''(`'' @ c @ ''`)''"
    using assms(1) by (subst dropWhile_append2) (auto simp: list_all_iff is_space_def)
  have "takeWhile is_lower_hex (c @ ''`)'') = c" "dropWhile is_lower_hex (c @ ''`)'') = ''`)''"
    using assms(4) by (auto simp: list_all_iff takeWhile_append dropWhile_append is_lower_hex_def is_digit_def)
  then show ?thesis using assms(2,3) unfolding commit_tail_def Let_def d by simp
qed

text \<open>While characters of the text remain, the rest of the pattern does not match.\<close>

lemma tail_None_before:
  assumes "s \<noteq> []" and "\<not> is_space (last s)"
    and "u = [] \<and> \<not> ends_with ''`)'' s \<or> u = '' (`'' @ c @ ''`)'' \<and> list_all is_lower_hex c"
  shows "item_tail (s @ u) = None"
proof -
  have "\<not> list_all is_space (s @ u)" using assms(1,2) last_in_set [of s] by (auto simp: list_all_iff)
  moreover have "commit_tail (s @ u) \<noteq> Some h" for h
  proof
    assume "commit_tail (s @ u) = Some h"
    then obtain sp sp' where e: "s @ u = sp @ ''(`'' @ h @ ''`)'' @ sp'" "list_all is_space sp" "list_all is_space sp'"
        "list_all is_lower_hex h"
      using commit_tailD by blast
    have "\<not> is_space (last (s @ u))"
      using assms by (elim disjE) (simp_all add: is_space_def)
    moreover have "last (s @ u) \<in> set sp'" if "sp' \<noteq> []" using that unfolding e(1) by simp
    ultimately have "sp' = []" using e(3) by (auto simp: list_all_iff)
    then have e': "s @ u = sp @ ''(`'' @ h @ ''`)''" using e(1) by simp
    from assms(3) show False
    proof (elim disjE conjE)
      assume "u = []" and n: "\<not> ends_with ''`)'' s"
      then have "s = (sp @ ''(`'' @ h) @ ''`)''" using e' by simp
      with n show False unfolding ends_with_iff by blast
    next
      assume u: "u = '' (`'' @ c @ ''`)''"
      have "dropWhile is_space (s @ u) = dropWhile is_space s @ u"
        using assms(1,2) by (intro dropWhile_append1 [where x = "last s"]) simp_all
      moreover have "dropWhile is_space (s @ u) = ''(`'' @ h @ ''`)''"
        unfolding e' using e(2) by (subst dropWhile_append2) (auto simp: list_all_iff is_space_def)
      ultimately have "CHR '' '' \<in> set (''(`'' @ h @ ''`)'')" using u by (metis Un_iff list.set_intros(1) set_append append_Cons)
      moreover have "\<not> is_lower_hex (CHR '' '')" by (simp add: is_lower_hex_def is_digit_def)
      ultimately show False using e(4) by (auto simp: list_all_iff)
    qed
  qed
  ultimately show ?thesis by (cases "commit_tail (s @ u)") (auto simp: item_tail_def)
qed

lemma item_text_run:
  assumes "\<And>p q. s = p @ q \<Longrightarrow> q \<noteq> [] \<Longrightarrow> item_tail (q @ u) = None" and "item_tail u = Some c" and "u = [] \<Longrightarrow> c = None"
  shows "item_text (s @ u) = (s, c)"
  using assms
proof (induction s)
  case Nil
  then show ?case by (cases u) auto
next
  case (Cons x s)
  have "item_tail ((x # s) @ u) = None" using Cons.prems(1) [of "[]" "x # s"] by simp
  moreover have "item_text (s @ u) = (s, c)"
  proof (rule Cons.IH [OF _ Cons.prems(2,3)])
    fix p q assume "s = p @ q" "q \<noteq> []"
    then show "item_tail (q @ u) = None" using Cons.prems(1) [of "x # p" q] by simp
  qed
  ultimately show ?case by simp
qed

lemma match_rendered: "item_ok i \<Longrightarrow> match_item (render_item i) = i"
proof -
  assume ok: "item_ok i"
  define u where "u = (case ci_commit i of None \<Rightarrow> [] | Some c \<Rightarrow> '' (`'' @ c @ ''`)'')"
  have t: "ci_text i \<noteq> []" "\<not> is_space (hd (ci_text i))" "\<not> is_space (last (ci_text i))"
    using ok by (simp_all add: item_ok_def)
  have body: "dropWhile is_space (tl (render_item i)) = ci_text i @ u"
    using t(1,2) by (cases "ci_text i") (simp_all add: render_item_def u_def is_space_def)
  have "item_text (ci_text i @ u) = (ci_text i, ci_commit i)"
  proof (rule item_text_run)
    fix p q assume "ci_text i = p @ q" "q \<noteq> []"
    then show "item_tail (q @ u) = None"
      using t ok by (intro tail_None_before [where c = "the (ci_commit i)"])
        (auto simp: u_def item_ok_def ends_with_iff split: option.splits)
  next
    show "item_tail u = Some (ci_commit i)"
    proof (cases "ci_commit i")
      case None
      then show ?thesis by (simp add: u_def item_tail_def commit_tail_def)
    next
      case (Some c)
      then have "commit_tail u = Some c"
        using commit_tail_match [of "'' ''" c] ok by (simp add: u_def item_ok_def is_space_def)
      then show ?thesis using Some by (simp add: item_tail_def)
    qed
  qed (simp add: u_def split: option.splits)
  then show ?thesis by (simp add: match_item_def body)
qed

lemma render_item_line: "starts_with ''- '' (render_item i)" "match_date (render_item i) = None"
  by (simp_all add: render_item_def match_date_def starts_with_def)

lemma shape_length: "shape_ok p s \<Longrightarrow> length s = length p"
  by (induction p s rule: shape_ok.induct) auto

lemma match_rendered_date: "shape_ok ''dddd-dd-dd'' d \<Longrightarrow> match_date (''## '' @ d) = Some d"
proof -
  assume d: "shape_ok ''dddd-dd-dd'' d"
  then have n: "length d = 10" using shape_length by fastforce
  then obtain x y where "d = x # y" by (cases d) auto
  then have "\<not> is_space (hd d)" using d by (auto simp: digit_not_space)
  then have "dropWhile is_space d = d" using n by (cases d) auto
  then show ?thesis using d n by (simp add: match_date_def is_space_def)
qed

lemma loop_relevant: "changelog_loop limit (filter relevant ls) es = changelog_loop limit ls es"
  by (induction ls arbitrary: es) (auto simp: relevant_def Let_def split: option.split)

lemma loop_items:
  "list_all item_ok is \<Longrightarrow> es \<noteq> [] \<Longrightarrow>
   changelog_loop limit (map render_item is @ rest) es =
   changelog_loop limit rest (butlast es @ [(last es)\<lparr>ce_items := ce_items (last es) @ is\<rparr>])"
proof (induction "is" arbitrary: es)
  case Nil
  then show ?case by simp
next
  case (Cons i "is")
  have "ci_text i \<noteq> []" using Cons.prems(1) by (simp add: item_ok_def)
  then show ?case using Cons by (simp add: render_item_line match_rendered Let_def)
qed

lemma loop_entries:
  "list_all entry_ok es \<Longrightarrow> length done \<le> limit \<Longrightarrow>
   changelog_loop limit (concat (map render_entry es)) done = take limit (done @ es)"
proof (induction es arbitrary: "done")
  case Nil
  then show ?case by simp
next
  case (Cons e es)
  have d: "match_date (''## '' @ ce_date e) = Some (ce_date e)"
    using Cons.prems(1) by (intro match_rendered_date) (simp add: entry_ok_def)
  show ?case
  proof (cases "length done \<ge> limit")
    case True
    then show ?thesis using Cons.prems(2) d by (simp add: render_entry_def)
  next
    case False
    have eta: "\<lparr>ce_date = ce_date e, ce_items = ce_items e\<rparr> = e" by simp
    have "changelog_loop limit (concat (map render_entry (e # es))) done =
        changelog_loop limit (map render_item (ce_items e) @ concat (map render_entry es)) (done @ [\<lparr>ce_date = ce_date e, ce_items = []\<rparr>])"
      using False d by (simp add: render_entry_def)
    also have "\<dots> = changelog_loop limit (concat (map render_entry es)) (done @ [e])"
      using Cons.prems(1) by (subst loop_items) (simp_all add: entry_ok_def eta)
    also have "\<dots> = take limit (done @ e # es)" using Cons.IH [of "done @ [e]"] Cons.prems False by simp
    finally show ?thesis .
  qed
qed

text \<open>
  A change log written in the documented form is read back as it was meant: when the headings
  and items among its lines are those of the dated entries \<open>es\<close>, whatever prose and blank lines
  stand between them, the page shows the first \<open>limit\<close> entries with all their items, each with
  its text and its commit.
\<close>

theorem changelog_is_read_back:
  assumes "filter relevant lines = concat (map render_entry es)" and "list_all entry_ok es"
  shows "get_changelog limit (Some lines) = take limit es"
  using loop_entries [OF assms(2), of "[]" limit] loop_relevant [of limit lines "[]"] assms(1)
  by (simp add: get_changelog_def)

theorem changelog_is_read_back_witness:
  "get_changelog 1 (Some [''# Changelog'', [], ''## 2026-10-17'', ''- fix (a) (`1ac131d`)'', ''- plain'', [], ''## 2026-10-11'', ''- old'']) =
     [\<lparr>ce_date = ''2026-10-17'', ce_items = [\<lparr>ci_text = ''fix (a)'', ci_commit = Some ''1ac131d''\<rparr>,
        \<lparr>ci_text = ''plain'', ci_commit = None\<rparr>]\<rparr>]"
proof -
  let ?e = "\<lparr>ce_date = ''2026-10-17'', ce_items = [\<lparr>ci_text = ''fix (a)'', ci_commit = Some ''1ac131d''\<rparr>,
        \<lparr>ci_text = ''plain'', ci_commit = None\<rparr>]\<rparr>"
  let ?e' = "\<lparr>ce_date = ''2026-10-11'', ce_items = [\<lparr>ci_text = ''old'', ci_commit = None\<rparr>]\<rparr>"
  let ?ls = "[''# Changelog'', [], ''## 2026-10-17'', ''- fix (a) (`1ac131d`)'', ''- plain'', [], ''## 2026-10-11'', ''- old'']"
  have "filter relevant ?ls = concat (map render_entry [?e, ?e'])" by code_simp
  moreover have "list_all entry_ok [?e, ?e']" by code_simp
  ultimately show ?thesis using changelog_is_read_back [of ?ls "[?e, ?e']" 1] by simp
qed

subsection \<open>The saved addresses are the enforced ones\<close>

lemma split_lines_nonempty: "split_lines x \<noteq> []"
  by (induction x) (auto split: list.split)

lemma split_lines_LF: "split_lines (x @ LF # y) = split_lines x @ split_lines y"
proof (induction x)
  case (Cons c x)
  then show ?case using split_lines_nonempty [of x] by (cases "split_lines x") simp_all
qed (simp add: is_line_end_def)

lemma split_ips_Nil: "split_ips (Some []) = []"
  by (simp add: split_ips_def strip_def lstrip_def)

lemma split_ips_text: "split_ips (Some s) = filter (\<lambda>e. e \<noteq> []) (map strip (split_lines (replace_char (CHR '','') [LF] s)))"
  by (cases s) (simp_all add: split_ips_def)

lemma split_ips_join: "split_ips (Some (join_with LF xs)) = concat (map (\<lambda>x. split_ips (Some x)) xs)"
proof (induction LF xs rule: join_with.induct)
  case (3 x y xs)
  then show ?case by (simp add: split_ips_text replace_char_append replace_char_Cons split_lines_LF)
qed (simp_all add: split_ips_Nil)

text \<open>An address as people write it: no comma and no line end, the separators of the stored list.\<close>

definition one_address :: "string \<Rightarrow> bool" where
  "one_address e \<longleftrightarrow> list_all (\<lambda>c. c \<noteq> CHR '','' \<and> \<not> is_line_end c) e"

lemma split_lines_plain: "\<forall>c \<in> set x. \<not> is_line_end c \<Longrightarrow> split_lines x = [x]"
  by (induction x) auto

lemma replace_free: "c \<notin> set s \<Longrightarrow> replace_char c r s = s"
  by (induction s) (auto simp: replace_char_def)

lemma split_ips_one: "one_address e \<Longrightarrow> split_ips (Some e) = (if strip e = [] then [] else [strip e])"
proof -
  assume "one_address e"
  then have "CHR '','' \<notin> set e" and lines: "split_lines e = [e]"
    by (auto simp: one_address_def list_all_iff split_lines_plain)
  from this(1) have "replace_char (CHR '','') [LF] e = e" by (rule replace_free)
  then show ?thesis by (simp add: split_ips_text lines)
qed

text \<open>
  C32: when the list of addresses is accepted, what is enforced from then on are exactly the pieces
  of its entries at commas and line ends: the login of an administrator is let through from an
  address exactly when there is no piece, or one of them matches it. The list that is shown is the
  same, and nothing else of the configuration changes. When no entry has a separator in it, these
  are the cleaned entries themselves. (That an entry passed the check does not exclude one: see
  below.)
\<close>

theorem saved_addresses_are_enforced:
  assumes "update_allowed_ips env (Some entries) ac = Inr ac'"
  shows "let pieces = concat (map (\<lambda>e. split_ips (Some (strip_input e))) entries) in
    get_office_ips ac' = pieces
    \<and> (check_ip_allowed env ip ac' \<longleftrightarrow> pieces = [] \<or> (\<exists>e \<in> set pieces. ip_matches env ip e))
    \<and> se_allowed_ips (get_security real_ip xff peer me ac') = pieces
    \<and> (if list_all one_address (map strip_input entries) then pieces = filter (\<lambda>e. e \<noteq> []) (map strip_input entries) else True)
    \<and> (\<forall>k. k \<noteq> ''allowed_ips_office'' \<longrightarrow> get_config k ac' = get_config k ac)"
proof -
  let ?es = "filter (\<lambda>e. e \<noteq> []) (map strip_input entries)"
  let ?pieces = "concat (map (\<lambda>e. split_ips (Some (strip_input e))) entries)"
  have valid: "\<forall>e \<in> set ?es. en_valid_net env e" and ac': "ac' = set_office_ips (filter (en_valid_net env) ?es) ac"
    using assms by (auto simp: update_allowed_ips_def validate_ip_entries_def parse_ip_entries_def Let_def
        filter_empty_conv split: if_splits)
  then have ac'': "ac' = set_office_ips ?es ac" by (metis filter_True)
  have stripped: "strip (strip_input e) = strip_input e" for e by (simp add: strip_input_def)
  then have s: "strip e = e" if "e \<in> set ?es" for e using that by auto
  have "filter (\<lambda>ip. strip ip \<noteq> []) ?es = ?es" by (rule filter_True) (use s in auto)
  moreover have "map strip ?es = ?es" by (rule map_idI) (rule s)
  ultimately have "set_office_ips ?es ac = set_config ''allowed_ips_office'' (join_with LF ?es) ac"
    by (simp only: set_office_ips_def)
  moreover have "split_ips (Some (join_with LF ?es)) = ?pieces"
    unfolding split_ips_join by (induction entries) (simp_all add: split_ips_Nil)
  ultimately have ips: "get_office_ips ac' = ?pieces" and rest: "\<forall>k. k \<noteq> ''allowed_ips_office'' \<longrightarrow> get_config k ac' = get_config k ac"
    by (simp_all add: ac'' get_office_ips_def)
  have "?pieces = ?es" if "list_all one_address (map strip_input entries)"
    using that by (induction entries) (simp_all add: split_ips_one stripped)
  with ips rest show ?thesis by (auto simp: check_ip_allowed_def Let_def list_ex_iff get_security_def)
qed

theorem saved_addresses_are_enforced_witness:
  "\<exists>ac'. update_allowed_ips (sample_env\<lparr>en_valid_net := \<lambda>e. e = ''10.0.0.1''\<rparr>) (Some ['' 10.0.0.1 '', []]) sample_accounts = Inr ac'
     \<and> get_office_ips ac' = [''10.0.0.1'']
     \<and> \<not> check_ip_allowed (sample_env\<lparr>en_valid_net := \<lambda>e. e = ''10.0.0.1''\<rparr>) ''10.0.0.2'' ac'"
proof -
  let ?env = "sample_env\<lparr>en_valid_net := \<lambda>e. e = ''10.0.0.1''\<rparr>"
  have st: "strip_input '' 10.0.0.1 '' = ''10.0.0.1''" "strip_input [] = []" by code_simp+
  have one: "split_ips (Some ''10.0.0.1'') = [''10.0.0.1'']" by code_simp
  obtain ac' where ac': "update_allowed_ips ?env (Some ['' 10.0.0.1 '', []]) sample_accounts = Inr ac'"
    by (simp add: update_allowed_ips_def validate_ip_entries_def parse_ip_entries_def st)
  show ?thesis
    using saved_addresses_are_enforced [OF ac', of "''10.0.0.2''"] ac'
    by (simp add: st one split_ips_Nil ip_matches_def sample_env_def Let_def)
qed

text \<open>
  An IPv6 address may carry a scope id after a percent sign, and the library lets any text be one, a comma included. So
  \<open>fe80::1%x,0.0.0.0/0\<close> is accepted as one entry, stored as it is, and enforced as two, the second
  of which is every IPv4 address.
\<close>

definition scoped :: string where "scoped = ''fe80::1%x,0.0.0.0/0''"

theorem scope_id_is_split:
  assumes "en_valid_net env scoped" and "update_allowed_ips env (Some [scoped]) ac = Inr ac'"
    and "en_in_net env ip ''0.0.0.0/0'' = Some True"
  shows "get_office_ips ac' = [''fe80::1%x'', ''0.0.0.0/0''] \<and> check_ip_allowed env ip ac'"
proof -
  have st: "strip_input scoped = scoped" "split_ips (Some scoped) = [''fe80::1%x'', ''0.0.0.0/0'']" "strip scoped = scoped" "scoped \<noteq> []"
    by code_simp+
  have "ac' = set_office_ips [scoped] ac"
    using assms(1,2) by (simp add: update_allowed_ips_def validate_ip_entries_def parse_ip_entries_def st)
  then have "get_office_ips ac' = [''fe80::1%x'', ''0.0.0.0/0'']" by (simp add: set_office_ips_def get_office_ips_def get_config_def set_config_def map_of_alist_update st)
  then show ?thesis using assms(3) by (simp add: check_ip_allowed_def ip_matches_def)
qed

subsection \<open>The password\<close>

lemma find_update_first_other:
  "\<forall>x \<in> set xs. P x \<longrightarrow> \<not> Q x \<and> \<not> Q (f x) \<Longrightarrow> List.find Q (update_first P f xs) = List.find Q xs"
  by (induction xs) auto

lemma get_user_put_other:
  assumes "accounts_ok ac" and "u \<in> set (ac_users ac)" and "u_id u' = u_id u" and "u_username u' = u_username u"
    and "name \<noteq> u_username u"
  shows "get_user name (put_user u' ac) = get_user name ac"
proof -
  have "x = u" if "x \<in> set (ac_users ac)" "u_id x = u_id u" for x
    using assms(1,2) that by (auto simp: accounts_ok_def distinct_map inj_on_def)
  then show ?thesis
    using assms(3,4,5) by (auto simp: get_user_def put_user_def intro!: find_update_first_other)
qed

text \<open>
  A password change of the settings page either fails and changes nothing, or it checked the
  current password and leaves a hash that exactly the new password (up to equal keys) opens; it
  keeps the counter of failed logins, and no other account changes.
\<close>

theorem settings_password_change:
  assumes "accounts_ok ac" and "bytes_ok env" and "\<forall>b \<in> set salt. b < 256"
    and "get_user (pr_username me) ac = Some u" and "change_password env salt me cur new ac = (r, ac')"
  shows "(\<forall>e. r = Inl e \<longrightarrow> ac' = ac)
    \<and> (r = Inr () \<longrightarrow> verify_password env cur (u_hash u) = Some True \<and> 8 \<le> length new \<and> new \<noteq> cur
        \<and> (\<exists>u'. get_user (pr_username me) ac' = Some u' \<and> u_failed u' = u_failed u
            \<and> (\<forall>pw. verify_password env pw (u_hash u') = Some (en_kdf env pw salt ITERATIONS = en_kdf env new salt ITERATIONS)))
        \<and> (\<forall>name. name \<noteq> pr_username me \<longrightarrow> get_user name ac' = get_user name ac))"
proof (intro conjI allI impI)
  fix e assume "r = Inl e"
  then show "ac' = ac"
    using assms(4,5) by (auto simp: change_password_def Let_def split: if_splits option.splits bool.splits)
next
  let ?u = "u\<lparr>u_hash := hash_password env salt new\<rparr>"
  have u: "u \<in> set (ac_users ac)" "u_username u = pr_username me" using get_user_Some [OF assms(4)] by simp_all
  assume "r = Inr ()"
  then have s: "verify_password env cur (u_hash u) = Some True" "8 \<le> length new" "new \<noteq> cur" "ac' = put_user ?u ac"
    using assms(4,5) by (auto simp: change_password_def Let_def split: if_splits option.splits bool.splits)
  then show "verify_password env cur (u_hash u) = Some True" "8 \<le> length new" "new \<noteq> cur" by simp_all
  have "get_user (pr_username me) ac' = Some ?u"
    unfolding s(4) by (rule get_put [OF assms(1,4)]) simp_all
  then show "\<exists>u'. get_user (pr_username me) ac' = Some u' \<and> u_failed u' = u_failed u
      \<and> (\<forall>pw. verify_password env pw (u_hash u') = Some (en_kdf env pw salt ITERATIONS = en_kdf env new salt ITERATIONS))"
    using verify_hash [OF assms(2,3)] by simp
  fix name assume "name \<noteq> pr_username me"
  then show "get_user name ac' = get_user name ac"
    unfolding s(4) using u by (intro get_user_put_other [OF assms(1) u(1)]) simp_all
qed

theorem settings_password_change_witness:
  "let me = \<lparr>pr_username = ''kim'', pr_role = ''admin'', pr_customer = None, pr_via_key = False\<rparr>;
       (r, ac') = change_password sample_env [8] me ''secret-1'' ''secret-2'' sample_accounts
   in r = Inr () \<and> get_user ''admin'' ac' = get_user ''admin'' sample_accounts"
proof -
  let ?me = "\<lparr>pr_username = ''kim'', pr_role = ''admin'', pr_customer = None, pr_via_key = False\<rparr>"
  have "verify_password sample_env ''secret-1'' (hash_password sample_env [7] ''secret-1'') = Some True"
    by (subst verify_hash [OF sample_env_bytes]) simp_all
  then obtain ac' where c: "change_password sample_env [8] ?me ''secret-1'' ''secret-2'' sample_accounts = (Inr (), ac')"
    by (simp add: change_password_def sample_user sample_row_def)
  show ?thesis
    using settings_password_change [OF sample_accounts_ok(1) sample_env_bytes _ _ c] sample_user c by simp
qed

end
