(* ===== verification/Startup.thy ===== *)
theory Startup
  imports Migrations SettingsPage
begin

text \<open>
  The start and the end of a worker of the server: the settings (\<open>config.py\<close>), \<open>lifespan\<close> of
  \<open>main.py\<close> with \<open>init_buffer\<close>, \<open>init_monitor\<close> and their counterparts, composed of the migrations, the
  administrator of the accounts, the partitions and the write buffer.

  The log table occurs twice, as the rows with their hashes (\<open>sv_schema\<close>) and as the partitions
  with the times of their rows (\<open>sv_storage\<close>). The migration keeps one row of each group of
  repetitions, which are of one second, so it does not change of which months the default
  partition has rows, and that is all the start looks at.
\<close>

section \<open>Settings and the page\<close>

definition DEFAULT_SECRET :: string where "DEFAULT_SECRET = ''change-this-secret-key-32chars-min''"

definition DEFAULT_ADMIN :: string where "DEFAULT_ADMIN = ''Admin1234!''"

definition secret_key_not_default :: "string \<Rightarrow> bool" where
  "secret_key_not_default v \<longleftrightarrow> v \<noteq> DEFAULT_SECRET"

definition admin_password_not_default :: "string \<Rightarrow> bool" where
  "admin_password_not_default v \<longleftrightarrow> v \<noteq> DEFAULT_ADMIN"

text \<open>Settings are checked also where they are the defaults, as the settings library does.\<close>

definition load_settings :: "string \<Rightarrow> env \<Rightarrow> bool" where
  "load_settings secret env \<longleftrightarrow> secret_key_not_default secret \<and> admin_password_not_default (en_admin_password env)"

fun put_version :: "string \<Rightarrow> string \<Rightarrow> string" where
  "put_version ver [] = []"
| "put_version ver (c # cs) =
     (if starts_with ''__VER__'' (c # cs) then ver @ put_version ver (drop 6 cs) else c # put_version ver cs)"

definition load_index_html :: "git_runner \<Rightarrow> string option \<Rightarrow> string option" where
  "load_index_html run page =
     (let ver = or_else (git run [''rev-parse'', ''--short'', ''HEAD'']) ''0'' in map_option (put_version ver) page)"

section \<open>The life of a worker\<close>

record server =
  sv_schema :: schema
  sv_accounts :: accounts
  sv_storage :: storage
  sv_buffer :: "log_row wtrace option"
  sv_monitor :: bool
  sv_page :: string

text \<open>
  The steps at which the database can raise. Each is a transaction of its own: one that raises
  changes nothing. \<open>se_create\<close> is \<open>create_all\<close>, \<open>se_file\<close> the content of the page.
\<close>

datatype start_step = Tables | Migrate | Administrator | Partitions

record start_env =
  se_secret :: string
  se_env :: env
  se_alerts :: bool
  se_fails :: "start_step \<Rightarrow> bool"
  se_create :: "schema \<Rightarrow> schema"
  se_md5 :: "string \<Rightarrow> string"
  se_fmt :: "time \<Rightarrow> string"
  se_horizon :: time
  se_salt :: "nat list"
  se_zone :: time
  se_month :: month
  se_git :: git_runner
  se_file :: "string option"

definition init_buffer :: "server \<Rightarrow> server" where
  "init_buffer sv = sv\<lparr>sv_buffer := Some (new_buffer 2000 50000)\<rparr>"

definition init_monitor :: "start_env \<Rightarrow> server \<Rightarrow> server" where
  "init_monitor se sv = sv\<lparr>sv_monitor := se_alerts se\<rparr>"

definition migrate :: "start_env \<Rightarrow> schema \<Rightarrow> schema option" where
  "migrate se sc = (if se_fails se Migrate then None else run_migrations (se_md5 se) (se_fmt se) (se_horizon se) sc)"

text \<open>The part of \<open>lifespan\<close> before \<open>yield\<close>; \<^const>\<open>False\<close>: it raised and the worker ends.\<close>

definition lifespan_up :: "start_env \<Rightarrow> server \<Rightarrow> bool \<times> server" where
  "lifespan_up se sv =
     (if se_fails se Tables then (False, sv)
      else let s1 = sv\<lparr>sv_schema := se_create se (sv_schema sv)\<rparr> in
        case migrate se (sv_schema s1) of
          None \<Rightarrow> (False, s1)
        | Some sc \<Rightarrow>
            let s2 = s1\<lparr>sv_schema := sc\<rparr> in
            if se_fails se Administrator then (False, s2)
            else let s3 = s2\<lparr>sv_accounts := ensure_admin_user (se_env se) (se_salt se) (sv_accounts s2)\<rparr> in
              if se_fails se Partitions then (False, s3)
              else let s4 = s3\<lparr>sv_storage := ensure_partitions (se_zone se) (se_month se) (sv_accounts s3) (sv_storage s3)\<rparr>;
                       s5 = init_monitor se (init_buffer s4) in
                case load_index_html (se_git se) (se_file se) of
                  None \<Rightarrow> (False, s5)
                | Some page \<Rightarrow> (True, s5\<lparr>sv_page := page\<rparr>))"

text \<open>Importing the application reads the settings, before \<open>lifespan\<close>.\<close>

definition start_server :: "start_env \<Rightarrow> server \<Rightarrow> bool \<times> server" where
  "start_server se sv = (if load_settings (se_secret se) (se_env se) then lifespan_up se sv else (False, sv))"

definition shutdown_monitor :: "server \<Rightarrow> server" where
  "shutdown_monitor sv = sv\<lparr>sv_monitor := False\<rparr>"

definition shutdown_buffer :: "(nat \<Rightarrow> log_row list \<Rightarrow> bool) \<Rightarrow> time \<Rightarrow> server \<Rightarrow> server" where
  "shutdown_buffer db now sv = sv\<lparr>sv_buffer := map_option (stop db now) (sv_buffer sv)\<rparr>"

definition lifespan_down :: "(nat \<Rightarrow> log_row list \<Rightarrow> bool) \<Rightarrow> time \<Rightarrow> server \<Rightarrow> server" where
  "lifespan_down db now sv = shutdown_buffer db now (shutdown_monitor sv)"

section \<open>When a start succeeds\<close>

text \<open>What a start that reached its end did.\<close>

lemma start_server_up:
  "fst (start_server se sv) \<longleftrightarrow>
     load_settings (se_secret se) (se_env se) \<and> se_file se \<noteq> None
     \<and> list_all (\<lambda>s. \<not> se_fails se s) [Tables, Migrate, Administrator, Partitions]
     \<and> run_migrations (se_md5 se) (se_fmt se) (se_horizon se) (se_create se (sv_schema sv)) \<noteq> None"
  by (auto simp: start_server_def lifespan_up_def migrate_def load_index_html_def Let_def split: option.splits)

lemma started_parts:
  assumes "start_server se sv = (True, sv')"
  shows "run_migrations (se_md5 se) (se_fmt se) (se_horizon se) (se_create se (sv_schema sv)) = Some (sv_schema sv')"
    and "sv_accounts sv' = ensure_admin_user (se_env se) (se_salt se) (sv_accounts sv)"
    and "sv_storage sv' = ensure_partitions (se_zone se) (se_month se) (sv_accounts sv') (sv_storage sv)"
    and "sv_buffer sv' = Some (new_buffer 2000 50000)" and "sv_monitor sv' = se_alerts se"
  using assms
  by (auto simp: start_server_def lifespan_up_def migrate_def init_monitor_def init_buffer_def Let_def
      split: if_splits option.splits)

text \<open>
  On the tables that \<open>create_all\<close> makes, a worker comes up exactly when both secrets of the settings
  were changed, the page is there, the database answers every step, and the repeated rows can be
  removed so that the unique index can be made.
\<close>

theorem start_succeeds_exactly:
  assumes "base_tables (sc_catalog (se_create se (sv_schema sv)))"
  shows "fst (start_server se sv) \<longleftrightarrow>
     se_secret se \<noteq> DEFAULT_SECRET \<and> en_admin_password (se_env se) \<noteq> DEFAULT_ADMIN \<and> se_file se \<noteq> None
     \<and> list_all (\<lambda>s. \<not> se_fails se s) [Tables, Migrate, Administrator, Partitions]
     \<and> dedup_migration (se_md5 se) (se_fmt se) (se_horizon se) (sc_logs (se_create se (sv_schema sv))) \<noteq> None"
  unfolding start_server_up only_the_rows_can_stop_a_start [OF assms]
  by (auto simp: load_settings_def secret_key_not_default_def admin_password_not_default_def)

section \<open>A second start\<close>

text \<open>Nothing to do for a month: its rows are in the default partition, it has a partition, or a table of its name stands alone.\<close>

definition month_done :: "time \<Rightarrow> month \<Rightarrow> storage \<Rightarrow> int \<Rightarrow> bool" where
  "month_done tz now st k \<longleftrightarrow>
     list_ex (in_range (month_start tz (month_add k now)) (month_start tz (month_add (k + 1) now))) (st_default st)
     \<or> list_ex (\<lambda>p. pt_name p = part_name (month_add k now)) (st_parts st)
     \<or> List.member (st_loose st) (part_name (month_add k now))"

lemma ensure_done: "month_done tz now (ensure_partition tz now k st) k"
  by (auto simp: month_done_def ensure_partition_def Let_def)

lemma done_stays: "month_done tz now st k \<Longrightarrow> month_done tz now (ensure_partition tz now j st) k"
  by (auto simp: month_done_def ensure_partition_def Let_def)

lemma done_same: "month_done tz now st k \<Longrightarrow> ensure_partition tz now k st = st"
  by (auto simp: month_done_def ensure_partition_def Let_def)

lemma fold_done_stays: "month_done tz now st k \<Longrightarrow> month_done tz now (fold (ensure_partition tz now) js st) k"
  by (induction js arbitrary: st) (simp_all add: done_stays)

lemma fold_done: "k \<in> set js \<Longrightarrow> month_done tz now (fold (ensure_partition tz now) js st) k"
  by (induction js arbitrary: st) (auto intro: fold_done_stays ensure_done)

lemma fold_same: "\<forall>k \<in> set js. month_done tz now st k \<Longrightarrow> fold (ensure_partition tz now) js st = st"
  by (induction js) (simp_all add: done_same)

lemma ensure_partition_same [simp]: "st_partitioned (ensure_partition tz now k st) = st_partitioned st"
  by (simp add: ensure_partition_def Let_def)

lemma fold_partitioned: "st_partitioned (fold (ensure_partition tz now) js st) = st_partitioned st"
  by (induction js arbitrary: st) simp_all

lemma ensure_partitions_again: "ensure_partitions tz now ac (ensure_partitions tz now ac st) = ensure_partitions tz now ac st"
  by (simp add: ensure_partitions_def fold_partitioned fold_same fold_done)

lemma ensure_admin_again:
  "ensure_admin_user env salt2 (ensure_admin_user env salt ac) = ensure_admin_user env salt ac"
  by (auto simp: ensure_admin_user_def Let_def)

text \<open>
  C33: a worker that starts on a database on which another one came up in the same month changes
  nothing in it, however its own hashes are salted, at whatever time and in whatever state the
  earlier process was: \<open>create_all\<close> leaves the tables that are there, and no other step has anything
  left to do. So any number of workers may come up after each other.
\<close>

theorem restart_changes_nothing:
  assumes "start_server se sv = (True, sv')" and "se_create se (sv_schema sv') = sv_schema sv'"
  shows "start_server (se\<lparr>se_horizon := later, se_salt := salt\<rparr>) (sv'\<lparr>sv_buffer := b, sv_monitor := m, sv_page := p\<rparr>) = (True, sv')"
proof -
  let ?se = "se\<lparr>se_horizon := later, se_salt := salt\<rparr>" and ?sv = "sv'\<lparr>sv_buffer := b, sv_monitor := m, sv_page := p\<rparr>"
  note parts = started_parts [OF assms(1)]
  have schema: "run_migrations (se_md5 se) (se_fmt se) later (sv_schema sv') = Some (sv_schema sv')"
    using second_start_changes_nothing [OF parts(1)] by blast
  have accounts: "ensure_admin_user (se_env se) salt (sv_accounts sv') = sv_accounts sv'"
    unfolding parts(2) by (rule ensure_admin_again)
  have storage: "ensure_partitions (se_zone se) (se_month se) (sv_accounts sv') (sv_storage sv') = sv_storage sv'"
    unfolding parts(3) by (rule ensure_partitions_again)
  have up: "load_settings (se_secret se) (se_env se)" "\<not> se_fails se Tables" "\<not> se_fails se Migrate"
      "\<not> se_fails se Administrator" "\<not> se_fails se Partitions"
    using start_server_up [of se sv] assms(1) by simp_all
  obtain page where page: "load_index_html (se_git se) (se_file se) = Some page" "sv_page sv' = page"
    using assms(1) by (auto simp: start_server_def lifespan_up_def migrate_def Let_def split: if_splits option.splits)
  have "(sv'\<lparr>sv_buffer := Some (new_buffer 2000 50000), sv_monitor := se_alerts se, sv_page := page\<rparr>) = sv'"
    using parts(4,5) page(2) by (cases sv') simp
  then show ?thesis
    using up page(1) schema accounts storage assms(2)
    by (simp add: start_server_def lifespan_up_def migrate_def init_monitor_def init_buffer_def Let_def)
qed

definition sample_start :: start_env where
  "sample_start =
     \<lparr>se_secret = ''k1'', se_env = sample_env, se_alerts = True, se_fails = (\<lambda>s. False),
      se_create = (\<lambda>sc. if ca_columns (sc_catalog sc) = [] then sc\<lparr>sc_catalog := sc_catalog first_release\<rparr> else sc),
      se_md5 = id, se_fmt = show_int, se_horizon = 0, se_salt = [7], se_zone = 0, se_month = (2026, 9),
      se_git = (\<lambda>args. Some (0, ''abc'', [])), se_file = Some ''app.js?v=__VER__''\<rparr>"

definition new_server :: server where
  "new_server =
     \<lparr>sv_schema = \<lparr>sc_catalog = \<lparr>ca_columns = [], ca_indexes = []\<rparr>, sc_logs = \<lparr>lt_next = 1, lt_rows = [], lt_index = False\<rparr>\<rparr>,
      sv_accounts = sample_accounts, sv_storage = sample_storage, sv_buffer = None, sv_monitor = False, sv_page = []\<rparr>"

lemma new_server_migrates:
  "map_option (\<lambda>sc. ca_columns (sc_catalog sc) = []) (run_migrations id show_int 0 (se_create sample_start (sv_schema new_server)))
    = Some False"
  by code_simp

lemma sample_comes_up:
  obtains sv' where "start_server sample_start new_server = (True, sv')" "se_create sample_start (sv_schema sv') = sv_schema sv'"
proof -
  obtain sc where sc: "run_migrations id show_int 0 (se_create sample_start (sv_schema new_server)) = Some sc"
    "ca_columns (sc_catalog sc) \<noteq> []"
    using new_server_migrates by auto
  have "load_settings (se_secret sample_start) (se_env sample_start)"
    by (simp add: load_settings_def secret_key_not_default_def admin_password_not_default_def DEFAULT_SECRET_def
        DEFAULT_ADMIN_def sample_start_def sample_env_def)
  then have "fst (start_server sample_start new_server)"
    unfolding start_server_up using sc(1) by (simp add: sample_start_def)
  then obtain sv' where sv': "start_server sample_start new_server = (True, sv')" by (cases "start_server sample_start new_server") auto
  have "sv_schema sv' = sc" using started_parts(1) [OF sv'] sc(1) by (simp add: sample_start_def)
  then show ?thesis using sv' sc(2) that by (simp add: sample_start_def)
qed

theorem restart_changes_nothing_witness:
  "\<exists>sv'. start_server sample_start new_server = (True, sv')
    \<and> start_server (sample_start\<lparr>se_horizon := 99, se_salt := [8]\<rparr>) (sv'\<lparr>sv_buffer := None, sv_monitor := False, sv_page := []\<rparr>)
      = (True, sv')"
  using sample_comes_up restart_changes_nothing by metis

theorem start_succeeds_exactly_witness:
  "\<not> fst (start_server (sample_start\<lparr>se_secret := DEFAULT_SECRET\<rparr>) new_server)"
proof -
  have "base_tables (sc_catalog (se_create (sample_start\<lparr>se_secret := DEFAULT_SECRET\<rparr>) (sv_schema new_server)))"
    by (simp add: sample_start_def new_server_def first_release_def base_tables_def base_columns_def has_column_def)
  from start_succeeds_exactly [OF this] show ?thesis by simp
qed

section \<open>A whole life\<close>

text \<open>
  A worker that comes up on sound tables leaves them sound: accounts, partitions and the unique
  index, with every account and every row of the partitions that were there.
\<close>

theorem started_server_is_sound:
  assumes "start_server se sv = (True, sv')" and "accounts_ok (sv_accounts sv)"
    and "storage_ok (se_zone se) (sv_storage sv)" and "month_ok (se_month se)" "12 \<le> fst (se_month se)" "fst (se_month se) \<le> 9998"
  shows "accounts_ok (sv_accounts sv') \<and> storage_ok (se_zone se) (sv_storage sv') \<and> lt_index (sc_logs (sv_schema sv'))
    \<and> set (ac_users (sv_accounts sv)) \<subseteq> set (ac_users (sv_accounts sv'))
    \<and> all_rows (sv_storage sv') = all_rows (sv_storage sv)"
proof -
  note parts = started_parts [OF assms(1)]
  have "accounts_ok (sv_accounts sv')" unfolding parts(2) by (rule ensure_admin_ok [OF assms(2)])
  moreover have "storage_ok (se_zone se) (sv_storage sv')"
    unfolding parts(3) by (rule ensure_partitions_ok [OF assms(3-6)])
  moreover have "lt_index (sc_logs (sv_schema sv'))" using second_start_changes_nothing [OF parts(1)] by blast
  moreover have "set (ac_users (sv_accounts sv)) \<subseteq> set (ac_users (sv_accounts sv'))"
    unfolding parts(2) by (auto simp: ensure_admin_user_def Let_def)
  moreover have "all_rows (sv_storage sv') = all_rows (sv_storage sv)" unfolding parts(3) by (rule rows_ensure_partitions)
  ultimately show ?thesis by blast
qed

text \<open>
  And in an orderly end, whatever its threads did with the buffer before, every row that it
  accepted and did not drop is written, if the database takes the rows by then.
\<close>

theorem orderly_end_writes_every_row:
  assumes "start_server se sv = (True, sv')" and "wb_step\<^sup>*\<^sup>* (the (sv_buffer sv'), {#}) (w, {#})"
    and "\<forall>k \<ge> tr_calls w. \<forall>rs. db k rs"
  shows "\<exists>w'. lifespan_down db now (sv'\<lparr>sv_buffer := Some w\<rparr>) = sv'\<lparr>sv_buffer := Some w', sv_monitor := False\<rparr>
    \<and> mset (tr_accepted w') = mset (tr_written w') + mset (tr_lost w') \<and> tr_lost w' = tr_lost w
    \<and> wb_queue w' = [] \<and> wb_retry w' = []"
proof -
  have "the (sv_buffer sv') = new_buffer 2000 50000" using started_parts(4) [OF assms(1)] by simp
  then have run: "wb_step\<^sup>*\<^sup>* (new_buffer 2000 50000, {#}) (stop db now w, {#})"
    using rtranclp_trans [OF assms(2) stop_run] by simp
  have "wb_ok (stop db now w, {#})" by (rule wb_run_ok [OF run new_buffer_ok])
  then show ?thesis using stop_writes_everything [OF assms(3), of now]
    by (intro exI [of _ "stop db now w"])
       (auto simp: lifespan_down_def shutdown_buffer_def shutdown_monitor_def wb_ok_def places_def Let_def)
qed

end
