(* ===== verification/Rebalance.thy ===== *)
theory Rebalance
  imports PyParse
begin

text \<open>
  \<open>was/app/rebalance.py\<close>: how the SQL script is cut into statements, how a run sends them to the
  database, and the shared state that lets only one run be active.

  A text is a list of characters of which the scanner looks at the rest. The database answers
  each statement with \<open>Inl\<close> the text of an exception or \<open>Inr\<close> the rows of a result, if it has
  any. The messages are replaced by English tags.
\<close>

section \<open>The statements of a script\<close>

abbreviation QUOTE :: char where "QUOTE \<equiv> CHR 0x27"
abbreviation DOLLAR :: char where "DOLLAR \<equiv> CHR 0x24"
abbreviation SEMI :: char where "SEMI \<equiv> CHR '';''"
abbreviation DASH :: char where "DASH \<equiv> CHR ''-''"

text \<open>The rest of a string literal after its opening quote, and what follows it.\<close>

fun quote_span :: "string \<Rightarrow> string \<times> string" where
  "quote_span [] = ([], [])"
| "quote_span (c # cs) =
     (if c = QUOTE then
        (case cs of
           d # ds \<Rightarrow> if d = QUOTE then (let (l, r) = quote_span ds in (c # d # l, r)) else ([c], cs)
         | [] \<Rightarrow> ([c], []))
      else (let (l, r) = quote_span cs in (c # l, r)))"

text \<open>\<open>sql.find(tag, ...)\<close> as the text up to the end of the first occurrence, and what follows.\<close>

fun find_span :: "string \<Rightarrow> string \<Rightarrow> string \<times> string" where
  "find_span tag [] = ([], [])"
| "find_span tag (c # cs) =
     (if starts_with tag (c # cs) then (tag, drop (length tag) (c # cs))
      else (let (l, r) = find_span tag cs in (c # l, r)))"

definition tag_char :: "char \<Rightarrow> bool" where
  "tag_char c = (let n = (of_char c :: nat) in 65 \<le> n \<and> n \<le> 90 \<or> 97 \<le> n \<and> n \<le> 122 \<or> n = 95)"

text \<open>\<open>re.match(r"\$[A-Za-z_]*\$", s)\<close>.\<close>

definition dollar_tag :: "string \<Rightarrow> string option" where
  "dollar_tag s = (case s of
       [] \<Rightarrow> None
     | c # cs \<Rightarrow> (let w = takeWhile tag_char cs in
         if c = DOLLAR \<and> starts_with [DOLLAR] (dropWhile tag_char cs) then Some (DOLLAR # w @ [DOLLAR]) else None))"

lemma quote_span_append: "quote_span s = (l, r) \<Longrightarrow> s = l @ r"
  by (induction s arbitrary: l r rule: quote_span.induct) (auto split: if_splits list.splits prod.splits)

lemma find_span_append: "find_span tag s = (l, r) \<Longrightarrow> s = l @ r"
proof (induction tag s arbitrary: l r rule: find_span.induct)
  case (2 tag c cs)
  then show ?case
    by (auto simp: starts_with_def split: if_splits prod.splits) (metis append_take_drop_id)
qed simp

lemma dollar_tag_SomeD: "dollar_tag s = Some tag \<Longrightarrow> s = tag @ drop (length tag) s \<and> tag \<noteq> []"
proof -
  assume a: "dollar_tag s = Some tag"
  then obtain c cs where s: "s = c # cs" "starts_with [DOLLAR] (dropWhile tag_char cs)"
      "tag = DOLLAR # takeWhile tag_char cs @ [DOLLAR]" "c = DOLLAR"
    by (auto simp: dollar_tag_def Let_def split: list.splits if_splits)
  then obtain ds where "dropWhile tag_char cs = DOLLAR # ds"
    by (cases "dropWhile tag_char cs") (auto simp: starts_with_def)
  then have "cs = takeWhile tag_char cs @ DOLLAR # ds" by (metis takeWhile_dropWhile_id)
  then have "s = tag @ ds" using s(1,3,4) by simp
  then show ?thesis using s(3) by simp
qed

text \<open>The loop of \<open>_statements\<close>: \<open>buf\<close> is the statement so far, the second argument \<open>sql[i:]\<close>.\<close>

function scan_sql :: "string \<Rightarrow> string \<Rightarrow> string list" where
  "scan_sql buf [] = [buf]"
| "scan_sql buf (ch # cs) =
     (if starts_with [DASH, DASH] (ch # cs) then
        scan_sql (buf @ takeWhile (\<lambda>c. c \<noteq> LF) (ch # cs)) (dropWhile (\<lambda>c. c \<noteq> LF) (ch # cs))
      else if ch = QUOTE then (let (l, r) = quote_span cs in scan_sql (buf @ ch # l) r)
      else (case dollar_tag (ch # cs) of
          Some tag \<Rightarrow> (let (l, r) = find_span tag (drop (length tag) (ch # cs)) in scan_sql (buf @ tag @ l) r)
        | None \<Rightarrow> if ch = SEMI then buf # scan_sql [] cs else scan_sql (buf @ [ch]) cs))"
  by pat_completeness auto
termination
proof (relation "measure (\<lambda>(buf, s). length s)", goal_cases)
  case (2 buf ch cs)
  then have "ch \<noteq> LF" by (auto simp: starts_with_def)
  then show ?case using length_dropWhile_le [of "\<lambda>c. c \<noteq> LF" cs] by simp
next
  case (3 buf ch cs x l r)
  then show ?case using quote_span_append [of cs l r] by simp
next
  case (6 buf ch cs tag x l r)
  have "drop (length tag) (ch # cs) = l @ r" using 6 by (intro find_span_append) simp
  moreover have "ch # cs = tag @ drop (length tag) (ch # cs)" "tag \<noteq> []"
    using dollar_tag_SomeD [of "ch # cs" tag] 6 by blast+
  ultimately have "length (ch # cs) = length tag + length (l @ r)" "tag \<noteq> []" by (metis length_append, simp)
  then show ?case by (cases tag) auto
qed auto

text \<open>\<open>re.sub(r"--[^\n]*", "", t)\<close>.\<close>

function strip_comments :: "string \<Rightarrow> string" where
  "strip_comments [] = []"
| "strip_comments (c # cs) =
     (if starts_with [DASH, DASH] (c # cs) then strip_comments (dropWhile (\<lambda>x. x \<noteq> LF) (c # cs))
      else c # strip_comments cs)"
  by pat_completeness auto
termination
proof (relation "measure length", goal_cases)
  case (2 c cs)
  then have "c \<noteq> LF" by (auto simp: starts_with_def)
  then show ?case using length_dropWhile_le [of "\<lambda>c. c \<noteq> LF" cs] by simp
qed auto

definition statements :: "string \<Rightarrow> string list" where
  "statements sql = filter (\<lambda>t. strip (strip_comments t) \<noteq> []) (map strip (scan_sql [] sql))"

section \<open>A run\<close>

text \<open>
  What reading the script gives: its text, an \<open>OSError\<close>, or a text that is not UTF-8, for which
  \<open>read\<close> raises a \<open>UnicodeDecodeError\<close>, that no handler of \<open>_run\<close> catches.
\<close>

datatype script = Script string | NoScript | NotUtf8

type_synonym database = "nat \<Rightarrow> string \<Rightarrow> string + string list option"

text \<open>The statements sent, the notes of the results, and the exception that ended the run.\<close>

fun execute :: "database \<Rightarrow> nat \<Rightarrow> string list \<Rightarrow> string list \<times> string list \<times> string option" where
  "execute db n [] = ([], [], None)"
| "execute db n (stmt # rest) =
     (case db n stmt of
        Inl e \<Rightarrow> ([stmt], [], Some e)
      | Inr res \<Rightarrow>
          (let (sent, msgs, err) = execute db (Suc n) rest;
               note1 = (case res of None \<Rightarrow> [] | Some left \<Rightarrow>
                          if left = [] then [] else [''not attached: '' @ concat left])
           in (stmt # sent, note1 @ msgs, err)))"

text \<open>
  \<open>_run\<close>: what \<open>_finish\<close> is called with (\<open>None\<close> when the thread dies before), and the statements
  sent. \<open>drained\<close> are the notices the driver collected.
\<close>

definition run :: "script \<Rightarrow> database \<Rightarrow> string list \<Rightarrow> (bool \<times> string \<times> string list) option \<times> string list" where
  "run scr db drained =
     (case scr of
        NoScript \<Rightarrow> (Some (False, ''cannot read the script'', []), [])
      | NotUtf8 \<Rightarrow> (None, [])
      | Script sql \<Rightarrow>
          (case execute db 0 (statements sql) of
             (sent, msgs, None) \<Rightarrow> (Some (True, ''done'', drained @ msgs), sent)
           | (sent, msgs, Some e) \<Rightarrow>
               (let first = split_lines (strip e)
                in (Some (False, if strip e = [] then ''failed'' else hd first, drained @ msgs), sent))))"

section \<open>The state\<close>

record rb_state =
  rb_running :: bool
  rb_started :: "time option"
  rb_finished :: "time option"
  rb_ok :: "bool option"
  rb_message :: string
  rb_notices :: "string list"

definition initial_state :: rb_state where
  "initial_state = \<lparr>rb_running = False, rb_started = None, rb_finished = None, rb_ok = None, rb_message = [], rb_notices = []\<rparr>"

definition start_run :: "time \<Rightarrow> rb_state \<Rightarrow> bool \<times> rb_state" where
  "start_run now s =
     (if rb_running s then (False, s)
      else (True, s\<lparr>rb_running := True, rb_ok := None, rb_message := ''running'', rb_notices := [],
                   rb_started := Some now, rb_finished := None\<rparr>))"

definition finish :: "time \<Rightarrow> bool \<Rightarrow> string \<Rightarrow> string list \<Rightarrow> rb_state \<Rightarrow> rb_state" where
  "finish now ok message notices s =
     s\<lparr>rb_running := False, rb_ok := Some ok, rb_message := message, rb_notices := notices,
       rb_finished := Some now\<rparr>"

text \<open>
  The process: the state and the threads that run, each with the number of its request. A request
  of the administrator starts a thread or is refused; a thread ends with \<open>_finish\<close>, or dies.
\<close>

record process =
  ps_state :: rb_state
  ps_threads :: "nat list"
  ps_requests :: nat

inductive rb_step :: "process \<Rightarrow> process \<Rightarrow> bool" where
  request: "start_run now (ps_state p) = (started, s) \<Longrightarrow>
    rb_step p (p\<lparr>ps_state := s, ps_threads := (if started then ps_threads p @ [ps_requests p] else ps_threads p),
                 ps_requests := Suc (ps_requests p)\<rparr>)"
| ends: "t \<in> set (ps_threads p) \<Longrightarrow> run scr db drained = (Some (ok, msg, msgs), sent) \<Longrightarrow>
    rb_step p (p\<lparr>ps_state := finish now ok msg msgs (ps_state p), ps_threads := removeAll t (ps_threads p)\<rparr>)"
| dies: "t \<in> set (ps_threads p) \<Longrightarrow> run scr db drained = (None, sent) \<Longrightarrow>
    rb_step p (p\<lparr>ps_threads := removeAll t (ps_threads p)\<rparr>)"

definition initial_process :: process where
  "initial_process = \<lparr>ps_state = initial_state, ps_threads = [], ps_requests = 0\<rparr>"

inductive_cases rb_stepE: "rb_step p q"

section \<open>Statements and their separators\<close>

lemma scan_sql_nonempty [simp]: "scan_sql buf s \<noteq> []"
  by (induction buf s rule: scan_sql.induct) (auto simp: Let_def split: option.split prod.split)

lemma join_with_Cons: "xs \<noteq> [] \<Longrightarrow> join_with c (x # xs) = x @ c # join_with c xs"
  by (cases xs) auto

text \<open>Nothing is lost: the pieces with a semicolon between them are the script.\<close>

lemma join_scan_sql: "join_with SEMI (scan_sql buf s) = buf @ s"
proof (induction buf s rule: scan_sql.induct)
  case (2 buf ch cs)
  consider "starts_with [DASH, DASH] (ch # cs)" | "\<not> starts_with [DASH, DASH] (ch # cs)" "ch = QUOTE"
    | tag where "\<not> starts_with [DASH, DASH] (ch # cs)" "ch \<noteq> QUOTE" "dollar_tag (ch # cs) = Some tag"
    | "\<not> starts_with [DASH, DASH] (ch # cs)" "ch \<noteq> QUOTE" "dollar_tag (ch # cs) = None" by (cases "dollar_tag (ch # cs)") auto
  then show ?case
  proof cases
    case 1
    then show ?thesis using "2.IH"(1) by simp
  next
    case q: 2
    obtain l r where "quote_span cs = (l, r)" by (cases "quote_span cs") auto
    then show ?thesis using q "2.IH"(2) [OF q refl] quote_span_append [of cs l r] by simp
  next
    case 3
    obtain l r where lr: "find_span tag (drop (length tag) (ch # cs)) = (l, r)"
      by (cases "find_span tag (drop (length tag) (ch # cs))") auto
    have "ch # cs = tag @ l @ r"
      using find_span_append [OF lr] dollar_tag_SomeD [OF 3(3)] by metis
    moreover have "scan_sql buf (ch # cs) = scan_sql (buf @ tag @ l) r" using 3 lr by simp
    ultimately show ?thesis using "2.IH"(5) [OF 3(1,2,3) refl lr [symmetric]] by simp
  next
    case 4
    then show ?thesis using "2.IH"(3,4) by (auto simp: join_with_Cons)
  qed
qed simp

text \<open>
  A script written as a sequence of tokens. A quote inside a literal is written twice, a dollar
  quotation ends at the first occurrence of its tag, a comment at the end of its line.
\<close>

datatype token = Char char | Comment string | Literal string | Dollar string string | Semicolon

fun render :: "token \<Rightarrow> string" where
  "render (Char c) = [c]"
| "render (Comment w) = [DASH, DASH] @ w"
| "render (Literal s) = QUOTE # replace_char QUOTE [QUOTE, QUOTE] s @ [QUOTE]"
| "render (Dollar w body) = (DOLLAR # w @ [DOLLAR]) @ body @ (DOLLAR # w @ [DOLLAR])"
| "render Semicolon = [SEMI]"

abbreviation script_of :: "token list \<Rightarrow> string" where
  "script_of ts \<equiv> concat (map render ts)"

text \<open>The tokens can be told apart: \<open>rest\<close> is the text behind a token.\<close>

fun token_ok :: "token \<Rightarrow> string \<Rightarrow> bool" where
  "token_ok (Char c) rest \<longleftrightarrow> c \<noteq> QUOTE \<and> c \<noteq> SEMI \<and> (c = DASH \<longrightarrow> \<not> starts_with [DASH] rest)
     \<and> (c = DOLLAR \<longrightarrow> dollar_tag (c # rest) = None)"
| "token_ok (Comment w) rest \<longleftrightarrow> LF \<notin> set w \<and> (rest = [] \<or> starts_with [LF] rest)"
| "token_ok (Literal s) rest \<longleftrightarrow> \<not> starts_with [QUOTE] rest"
| "token_ok (Dollar w body) rest \<longleftrightarrow> list_all tag_char w
     \<and> list_all (\<lambda>k. \<not> starts_with (DOLLAR # w @ [DOLLAR]) (drop k (body @ DOLLAR # w @ [DOLLAR]))) [0..<length body]"
| "token_ok Semicolon rest \<longleftrightarrow> True"

fun script_ok :: "token list \<Rightarrow> bool" where
  "script_ok [] = True"
| "script_ok (t # ts) = (token_ok t (script_of ts) \<and> script_ok ts)"

fun split_tokens :: "token list \<Rightarrow> token list list" where
  "split_tokens [] = [[]]"
| "split_tokens (t # ts) =
     (if t = Semicolon then [] # split_tokens ts
      else (case split_tokens ts of g # gs \<Rightarrow> (t # g) # gs | [] \<Rightarrow> [[t]]))"

lemma split_tokens_nonempty [simp]: "split_tokens ts \<noteq> []"
  by (induction ts) (auto split: list.split)

lemma quote_span_literal:
  "\<not> starts_with [QUOTE] rest \<Longrightarrow>
   quote_span (replace_char QUOTE [QUOTE, QUOTE] s @ QUOTE # rest) = (replace_char QUOTE [QUOTE, QUOTE] s @ [QUOTE], rest)"
proof (induction s)
  case Nil
  then show ?case by (cases rest) (auto simp: replace_char_def starts_with_def)
qed (auto simp: replace_char_def)

lemma find_span_first:
  "\<forall>k < length body. \<not> starts_with tag (drop k (body @ tag)) \<Longrightarrow> tag \<noteq> [] \<Longrightarrow>
   find_span tag (body @ tag @ rest) = (body @ tag, rest)"
proof (induction body)
  case Nil
  then show ?case by (cases tag) (simp_all add: starts_with_def)
next
  case (Cons c body)
  have "\<not> starts_with tag (c # body @ tag)" using Cons.prems(1) by fastforce
  moreover have "take (length tag) (c # body @ tag @ rest) = take (length tag) (c # body @ tag)"
    using take_append [of "length tag" "c # body @ tag" rest] by simp
  ultimately have "\<not> starts_with tag (c # body @ tag @ rest)" by (simp add: starts_with_def)
  moreover have "\<forall>k < length body. \<not> starts_with tag (drop k (body @ tag))" using Cons.prems(1) by fastforce
  ultimately show ?case using Cons by simp
qed

lemma tag_char_dollar [simp]: "\<not> tag_char DOLLAR"
  by (simp add: tag_char_def)

lemma dollar_tag_render:
  "list_all tag_char w \<Longrightarrow> dollar_tag (DOLLAR # w @ DOLLAR # rest) = Some (DOLLAR # w @ [DOLLAR])"
  by (simp add: dollar_tag_def starts_with_def list_all_iff)

lemma dollar_tag_other: "c \<noteq> DOLLAR \<Longrightarrow> dollar_tag (c # cs) = None"
  by (simp add: dollar_tag_def Let_def)

lemma scan_token:
  assumes "token_ok t rest"
  shows "scan_sql buf (render t @ rest) = (if t = Semicolon then buf # scan_sql [] rest else scan_sql (buf @ render t) rest)"
proof (cases t)
  case (Char c)
  then have "\<not> starts_with [DASH, DASH] (c # rest)" "dollar_tag (c # rest) = None"
    using assms by (cases "c = DOLLAR"; auto simp: starts_with_def dollar_tag_other)+
  then show ?thesis using Char assms by simp
next
  case (Comment w)
  let ?p = "\<lambda>c. c \<noteq> LF"
  have line: "takeWhile ?p (w @ rest) = w" "dropWhile ?p (w @ rest) = rest"
    using Comment assms by (cases rest; auto simp: starts_with_def takeWhile_append dropWhile_append)+
  have "starts_with [DASH, DASH] ([DASH, DASH] @ w @ rest)" by (simp add: starts_with_def)
  then show ?thesis using Comment line by simp
next
  case (Literal s)
  then show ?thesis using assms quote_span_literal [of rest s] by (simp add: starts_with_def)
next
  case (Dollar w body)
  let ?t = "DOLLAR # w @ [DOLLAR]"
  have "find_span ?t (body @ ?t @ rest) = (body @ ?t, rest)"
    by (rule find_span_first) (use Dollar assms in \<open>auto simp: list_all_iff\<close>)
  moreover have "dollar_tag (?t @ body @ ?t @ rest) = Some ?t"
    using dollar_tag_render [of w "body @ ?t @ rest"] Dollar assms by simp
  ultimately show ?thesis using Dollar by (simp add: starts_with_def)
next
  case Semicolon
  then show ?thesis by (simp add: starts_with_def dollar_tag_other)
qed

lemma scan_script:
  "script_ok ts \<Longrightarrow> scan_sql buf (script_of ts) =
     (case split_tokens ts of g # gs \<Rightarrow> (buf @ script_of g) # map script_of gs | [] \<Rightarrow> [])"
proof (induction ts arbitrary: buf)
  case (Cons t ts)
  then have "scan_sql buf (script_of (t # ts)) =
      (if t = Semicolon then buf # scan_sql [] (script_of ts) else scan_sql (buf @ render t) (script_of ts))"
    by (simp add: scan_token)
  then show ?case using Cons by (auto split: list.split)
qed simp

text \<open>
  Cutting a script at its semicolons loses nothing, and it cuts exactly at the semicolons that
  are tokens of their own: one inside a literal, a dollar quotation or a comment separates
  nothing. Only pieces of comments and blanks are left out.
\<close>

theorem script_cut_at_semicolons:
  assumes "script_ok ts"
  shows "join_with SEMI (scan_sql [] (script_of ts)) = script_of ts
    \<and> statements (script_of ts) =
        filter (\<lambda>t. strip (strip_comments t) \<noteq> []) (map (\<lambda>g. strip (script_of g)) (split_tokens ts))"
proof
  show "join_with SEMI (scan_sql [] (script_of ts)) = script_of ts" by (simp add: join_scan_sql)
  have "scan_sql [] (script_of ts) = map script_of (split_tokens ts)"
    using scan_script [OF assms, of "[]"] by (simp split: list.splits)
  then show "statements (script_of ts) =
      filter (\<lambda>t. strip (strip_comments t) \<noteq> []) (map (\<lambda>g. strip (script_of g)) (split_tokens ts))"
    by (simp add: statements_def comp_def)
qed

theorem script_cut_at_semicolons_witness:
  "statements ''do $x$a;b$x$;-- e;f'' = [''do $x$a;b$x$'']"
proof -
  let ?ts = "[Char CHR ''d'', Char CHR ''o'', Char CHR '' '', Dollar ''x'' ''a;b'', Semicolon, Comment '' e;f'']"
  have "script_ok ?ts" by (simp add: starts_with_def tag_char_def upt_rec)
  from script_cut_at_semicolons [OF this] show ?thesis
    by (simp add: starts_with_def strip_def lstrip_def is_space_def)
qed

section \<open>One run at a time\<close>

lemma execute_sends: "execute db n stmts = (sent, msgs, err) \<Longrightarrow>
    \<exists>rest. stmts = sent @ rest \<and> (err = None \<longrightarrow> rest = [])"
  by (induction db n stmts arbitrary: sent msgs err rule: execute.induct)
    (auto split: sum.splits prod.splits)

definition one_run :: "process \<Rightarrow> bool" where
  "one_run p \<longleftrightarrow> length (ps_threads p) \<le> 1 \<and> (ps_threads p \<noteq> [] \<longrightarrow> rb_running (ps_state p) \<and> rb_ok (ps_state p) = None)
     \<and> (\<not> rb_running (ps_state p) \<longrightarrow> (rb_ok (ps_state p) = None) = (rb_finished (ps_state p) = None))"

lemma only_thread: "length ts \<le> 1 \<Longrightarrow> t \<in> set ts \<Longrightarrow> removeAll t ts = []"
  by (cases ts) auto

lemma one_run_step: "rb_step p q \<Longrightarrow> one_run p \<Longrightarrow> one_run q"
  by (induction rule: rb_step.induct)
    (auto simp: one_run_def start_run_def finish_def only_thread split: if_splits)

lemma one_run_reachable: "rb_step\<^sup>*\<^sup>* initial_process p \<Longrightarrow> one_run p"
proof (induction rule: rtranclp_induct)
  case base
  show ?case by (simp add: one_run_def initial_process_def initial_state_def)
next
  case (step p q)
  then show ?case using one_run_step by blast
qed

text \<open>
  At any time at most one run is active, and while it is, the status says so and every further
  request is refused without a change of the status. A run sends the statements of the script in
  order up to the first that fails, and says that it succeeded only when all were sent.
\<close>

theorem one_rebalance_at_a_time:
  assumes "rb_step\<^sup>*\<^sup>* initial_process p"
  shows "length (ps_threads p) \<le> 1
    \<and> (ps_threads p \<noteq> [] \<longrightarrow> rb_running (ps_state p) \<and> start_run now (ps_state p) = (False, ps_state p))
    \<and> (case run (Script sql) db drained of
         (Some (ok, msg, msgs), sent) \<Rightarrow> (\<exists>rest. statements sql = sent @ rest \<and> (ok \<longrightarrow> rest = []))
       | (None, sent) \<Rightarrow> False)"
proof -
  have "one_run p" using assms by (rule one_run_reachable)
  moreover have "case run (Script sql) db drained of
         (Some (ok, msg, msgs), sent) \<Rightarrow> (\<exists>rest. statements sql = sent @ rest \<and> (ok \<longrightarrow> rest = []))
       | (None, sent) \<Rightarrow> False"
  proof -
    obtain sent msgs err where e: "execute db 0 (statements sql) = (sent, msgs, err)"
      by (cases "execute db 0 (statements sql)") auto
    from execute_sends [OF e] show ?thesis using e by (auto simp: run_def split: option.split)
  qed
  ultimately show ?thesis by (auto simp: one_run_def start_run_def)
qed

definition started_process :: process where
  "started_process = \<lparr>ps_state = snd (start_run 5 initial_state), ps_threads = [0], ps_requests = 1\<rparr>"

lemma started_reachable: "rb_step\<^sup>*\<^sup>* initial_process started_process"
proof -
  have "rb_step initial_process started_process"
    using rb_step.request [of 5 initial_process True "snd (start_run 5 initial_state)"]
    by (simp add: initial_process_def started_process_def start_run_def initial_state_def)
  then show ?thesis by blast
qed

theorem one_rebalance_at_a_time_witness: "start_run 9 (ps_state started_process) = (False, ps_state started_process)"
  using one_rebalance_at_a_time [OF started_reachable, of 9 "[]" "\<lambda>_ _. Inr None" "[]"]
  by (simp add: started_process_def)

lemma stuck_step:
  "rb_step p q \<Longrightarrow> rb_running (ps_state p) \<and> ps_threads p = [] \<Longrightarrow> ps_state q = ps_state p \<and> ps_threads q = []"
  by (induction rule: rb_step.induct) (auto simp: start_run_def)

lemma stuck: "rb_step\<^sup>*\<^sup>* p q \<Longrightarrow> rb_running (ps_state p) \<and> ps_threads p = [] \<Longrightarrow>
    ps_state q = ps_state p \<and> ps_threads q = []"
  by (induction rule: rtranclp_induct) (auto dest: stuck_step)

text \<open>
  A script that cannot be decoded as UTF-8 ends the thread without \<open>_finish\<close>. From then on
  the status says that a run is active, whatever happens, and every request is refused until the
  server is restarted.
\<close>

theorem undecodable_script_blocks:
  assumes "rb_step\<^sup>*\<^sup>* initial_process p" and "ps_threads p = [t]" and "run NotUtf8 db drained = (r, sent)"
    and "rb_step\<^sup>*\<^sup>* (p\<lparr>ps_threads := []\<rparr>) q"
  shows "r = None \<and> rb_step p (p\<lparr>ps_threads := []\<rparr>) \<and> rb_running (ps_state q) \<and> ps_threads q = []
    \<and> start_run now (ps_state q) = (False, ps_state q)"
proof -
  have r: "r = None" "run NotUtf8 db drained = (None, [])" using assms(3) by (simp_all add: run_def)
  have "rb_running (ps_state p)" using one_run_reachable [OF assms(1)] assms(2) by (simp add: one_run_def)
  then have "rb_running (ps_state q) \<and> ps_threads q = []"
    using stuck [OF assms(4)] by simp
  moreover have "rb_step p (p\<lparr>ps_threads := []\<rparr>)"
    using rb_step.dies [of t p NotUtf8 db drained] assms(2) r(2) by simp
  ultimately show ?thesis using r(1) by (simp add: start_run_def)
qed

theorem undecodable_script_blocks_witness:
  "start_run 9 (ps_state (started_process\<lparr>ps_threads := []\<rparr>)) = (False, ps_state started_process)"
  using undecodable_script_blocks [OF started_reachable, of 0 "\<lambda>_ _. Inr None" "[]" None "[]" "started_process\<lparr>ps_threads := []\<rparr>" 9]
  by (simp add: started_process_def run_def)

end
