(* ===== verification/Registry.thy ===== *)
theory Registry
  imports Scope Queries Ingest
begin

text \<open>
  The devices, their groups and the carriers: \<open>routers/devices.py\<close>, \<open>routers/groups.py\<close>,
  \<open>routers/telcos.py\<close> and \<open>daemon_update.py\<close>, on the same device rows as the ingest end points.

  The tables are lists of rows; a foreign key with \<open>ON DELETE CASCADE\<close> and the mapping table of
  a relationship lose the rows that refer to a deleted one. The time a row was created is a
  function of its number. In a request \<open>None\<close> is a field that was not sent.
\<close>

section \<open>The tables\<close>

record group_row = group +
  gr_description :: "string option"
  gr_telco :: "string option"
  gr_domains :: "string option"
  gr_application :: "string option"

record telco =
  tc_id :: nat
  tc_name :: string

record registry =
  re_devices :: "device list"
  re_groups :: "group_row list"
  re_links :: device_groups
  re_ftp :: "ftp_row list"
  re_logs :: "log list"
  re_telcos :: "telco list"
  re_next_device :: nat
  re_next_group :: nat
  re_next_telco :: nat

definition device_by_id :: "nat \<Rightarrow> registry \<Rightarrow> device option" where
  "device_by_id i re = List.find (\<lambda>d. dv_id d = i) (re_devices re)"

definition group_by_id :: "nat \<Rightarrow> registry \<Rightarrow> group_row option" where
  "group_by_id i re = List.find (\<lambda>g. gr_id g = i) (re_groups re)"

definition group_named :: "string \<Rightarrow> registry \<Rightarrow> group_row option" where
  "group_named n re = List.find (\<lambda>g. gr_name g = n) (re_groups re)"

abbreviation device_ids :: "registry \<Rightarrow> nat list" where
  "device_ids re \<equiv> map dv_id (re_devices re)"

abbreviation group_ids :: "registry \<Rightarrow> nat list" where
  "group_ids re \<equiv> map gr_id (re_groups re)"

abbreviation not_found :: "string \<Rightarrow> 'a http" where
  "not_found what \<equiv> Inl (HTTPException 404 what)"

abbreviation conflict :: "string \<Rightarrow> 'a http" where
  "conflict what \<equiv> Inl (HTTPException 409 what)"

section \<open>Update requests\<close>

text \<open>\<open>_flag\<close>: one UPDATE on the rows that the condition selects, and how many they were.\<close>

definition flag :: "(device \<Rightarrow> bool) \<Rightarrow> registry \<Rightarrow> nat \<times> registry" where
  "flag cond re =
     (length (filter cond (re_devices re)),
      re\<lparr>re_devices := map (\<lambda>d. if cond d then d\<lparr>dv_update_requested := True\<rparr> else d) (re_devices re)\<rparr>)"

definition for_devices :: "nat list \<Rightarrow> registry \<Rightarrow> nat \<times> registry" where
  "for_devices ids re =
     (let ids = remdups ids in
      if ids = [] then (0, re) else flag (\<lambda>d. List.member ids (dv_id d)) re)"

definition for_groups :: "nat list \<Rightarrow> registry \<Rightarrow> nat \<times> registry" where
  "for_groups gids re =
     (let gids = remdups gids in
      if gids = [] then (0, re)
      else let member_ids = [d. (g, d) \<leftarrow> re_links re, List.member gids g] in
        flag (\<lambda>d. List.member member_ids (dv_id d)) re)"

section \<open>Devices\<close>

definition list_devices :: "(nat \<Rightarrow> time) \<Rightarrow> nat list option \<Rightarrow> string option \<Rightarrow> registry \<Rightarrow> device list" where
  "list_devices created scope status_filter re =
     sort_key (\<lambda>d. - created (dv_id d))
       (filter (\<lambda>d. (case scope of None \<Rightarrow> True | Some ids \<Rightarrow> List.member ids (dv_id d))
                  \<and> (truthy status_filter \<longrightarrow> dv_state d = the status_filter)) (re_devices re))"

definition get_device :: "nat \<Rightarrow> registry \<Rightarrow> device http" where
  "get_device i re = (case device_by_id i re of None \<Rightarrow> not_found ''device'' | Some d \<Rightarrow> Inr d)"

text \<open>\<open>DeviceConfirm\<close> admits three values; anything else ends with 422.\<close>

definition update_device_status :: "nat \<Rightarrow> string \<Rightarrow> registry \<Rightarrow> registry http" where
  "update_device_status i st re =
     (if \<not> List.member [''confirmed'', ''disabled'', ''pending''] st then Inl (HTTPException 422 ''status'')
      else case device_by_id i re of
        None \<Rightarrow> not_found ''device''
      | Some d \<Rightarrow> Inr (re\<lparr>re_devices := update_first (\<lambda>d. dv_id d = i) (\<lambda>d. d\<lparr>dv_state := st\<rparr>) (re_devices re)\<rparr>))"

definition assign_groups :: "nat \<Rightarrow> nat list \<Rightarrow> registry \<Rightarrow> registry http" where
  "assign_groups i gids re =
     (case device_by_id i re of
        None \<Rightarrow> not_found ''device''
      | Some d \<Rightarrow>
          if gids \<noteq> [] \<and> length (filter (\<lambda>g. List.member gids (gr_id g)) (re_groups re)) \<noteq> length gids
          then bad_request ''some group ids not found''
          else Inr (re\<lparr>re_links := filter (\<lambda>(g, d). d \<noteq> i) (re_links re) @ map (\<lambda>g. (g, i)) gids\<rparr>))"

definition request_daemon_update :: "nat \<Rightarrow> registry \<Rightarrow> registry http" where
  "request_daemon_update i re =
     (case device_by_id i re of None \<Rightarrow> not_found ''device'' | Some d \<Rightarrow> Inr (snd (for_devices [i] re)))"

definition delete_device :: "nat \<Rightarrow> registry \<Rightarrow> registry http" where
  "delete_device i re =
     (case device_by_id i re of
        None \<Rightarrow> not_found ''device''
      | Some d \<Rightarrow> Inr (re\<lparr>re_devices := filter (\<lambda>d. dv_id d \<noteq> i) (re_devices re),
                        re_links := filter (\<lambda>(g, d). d \<noteq> i) (re_links re),
                        re_logs := filter (\<lambda>x. lg_device x \<noteq> i) (re_logs re)\<rparr>))"

section \<open>Groups\<close>

record group_create =
  gc_name :: string
  gc_description :: "string option"
  gc_telco :: "string option"
  gc_customer :: "string option"
  gc_domains :: "string option"
  gc_application :: "string option"

text \<open>A field of \<open>GroupUpdate\<close> can be left out, or be set to a value, also to \<open>null\<close>.\<close>

record group_update =
  gu_name :: "string option option"
  gu_description :: "string option option"
  gu_telco :: "string option option"
  gu_customer :: "string option option"
  gu_domains :: "string option option"
  gu_application :: "string option option"

definition new_group :: "nat \<Rightarrow> group_create \<Rightarrow> group_row" where
  "new_group i b =
     \<lparr>gr_id = i, gr_name = gc_name b, gr_customer = gc_customer b, gr_description = gc_description b,
      gr_telco = gc_telco b, gr_domains = gc_domains b, gr_application = gc_application b\<rparr>"

definition create_group :: "group_create \<Rightarrow> registry \<Rightarrow> registry http" where
  "create_group body re =
     (if group_named (gc_name body) re \<noteq> None then conflict ''group name already exists''
      else Inr (re\<lparr>re_groups := re_groups re @ [new_group (re_next_group re) body],
                  re_next_group := re_next_group re + 1\<rparr>))"

fun set_field :: "'a option \<Rightarrow> 'a \<Rightarrow> 'a" where
  "set_field None old = old"
| "set_field (Some new) old = new"

definition set_group :: "group_update \<Rightarrow> group_row \<Rightarrow> group_row" where
  "set_group b g =
     g\<lparr>gr_name := (case gu_name b of Some (Some n) \<Rightarrow> n | _ \<Rightarrow> gr_name g),
       gr_description := set_field (gu_description b) (gr_description g),
       gr_telco := set_field (gu_telco b) (gr_telco g),
       gr_customer := set_field (gu_customer b) (gr_customer g),
       gr_domains := set_field (gu_domains b) (gr_domains g),
       gr_application := set_field (gu_application b) (gr_application g)\<rparr>"

text \<open>
  \<open>update_group\<close>: a new name must be free. A name set to \<open>null\<close> passes the checks of the
  handler and then violates the \<open>NOT NULL\<close> of the column.
\<close>

definition new_name :: "group_update \<Rightarrow> string" where
  "new_name b = (case gu_name b of Some (Some n) \<Rightarrow> n | _ \<Rightarrow> [])"

definition update_group :: "nat \<Rightarrow> group_update \<Rightarrow> registry \<Rightarrow> registry http" where
  "update_group i body re =
     (case group_by_id i re of
        None \<Rightarrow> not_found ''group''
      | Some g \<Rightarrow>
          if new_name body \<noteq> [] \<and> new_name body \<noteq> gr_name g \<and> group_named (new_name body) re \<noteq> None
          then conflict ''group name already exists''
          else if gu_name body = Some None then Inl (HTTPException 500 ''IntegrityError'')
          else if gu_name body = Some (Some []) then Inl (HTTPException 422 ''name'')
          else Inr (re\<lparr>re_groups := update_first (\<lambda>g. gr_id g = i) (set_group body) (re_groups re)\<rparr>))"

definition assign_devices :: "nat \<Rightarrow> nat list \<Rightarrow> registry \<Rightarrow> registry http" where
  "assign_devices i dids re =
     (case group_by_id i re of
        None \<Rightarrow> not_found ''group''
      | Some g \<Rightarrow>
          let ids = rev (remdups (rev dids)) in
          if ids \<noteq> [] \<and> length (filter (\<lambda>d. List.member ids (dv_id d)) (re_devices re)) \<noteq> length ids
          then bad_request ''some device ids not found''
          else Inr (re\<lparr>re_links := filter (\<lambda>(g, d). g \<noteq> i) (re_links re) @ map (\<lambda>d. (i, d)) ids\<rparr>))"

definition request_group_daemon_update :: "nat \<Rightarrow> registry \<Rightarrow> (nat \<times> registry) http" where
  "request_group_daemon_update i re =
     (case group_by_id i re of None \<Rightarrow> not_found ''group'' | Some g \<Rightarrow> Inr (for_groups [i] re))"

definition delete_group :: "nat \<Rightarrow> registry \<Rightarrow> registry http" where
  "delete_group i re =
     (case group_by_id i re of
        None \<Rightarrow> not_found ''group''
      | Some g \<Rightarrow> Inr (re\<lparr>re_groups := filter (\<lambda>g. gr_id g \<noteq> i) (re_groups re),
                        re_links := filter (\<lambda>(g, d). g \<noteq> i) (re_links re),
                        re_ftp := filter (\<lambda>r. fr_group r \<noteq> i) (re_ftp re)\<rparr>))"

definition device_count :: "group_row \<Rightarrow> registry \<Rightarrow> nat" where
  "device_count g re = length (filter (\<lambda>(gid, d). gid = gr_id g) (re_links re))"

text \<open>\<open>ORDER BY telco NULLS LAST, name\<close>, with the number of devices of each group.\<close>

definition list_groups :: "principal \<Rightarrow> registry \<Rightarrow> (group_row \<times> nat) list" where
  "list_groups p re =
     (let gs = (if is_admin p then re_groups re
                else filter (\<lambda>g. gr_customer g = Some (or_else (pr_customer p) [])) (re_groups re));
          sorted_gs = sort_key (\<lambda>g. (if gr_telco g = None then 1 else 0 :: nat))
            (sort_key (\<lambda>g. or_else (gr_telco g) []) (sort_key gr_name gs))
      in map (\<lambda>g. (g, device_count g re)) sorted_gs)"

section \<open>Carriers\<close>

definition list_telcos :: "registry \<Rightarrow> telco list" where
  "list_telcos re = sort_key tc_name (re_telcos re)"

definition create_telco :: "string \<Rightarrow> registry \<Rightarrow> registry http" where
  "create_telco raw re =
     (let name = strip raw in
      if list_ex (\<lambda>t. tc_name t = name) (re_telcos re) then conflict ''carrier already exists''
      else Inr (re\<lparr>re_telcos := re_telcos re @ [\<lparr>tc_id = re_next_telco re, tc_name = name\<rparr>],
                  re_next_telco := re_next_telco re + 1\<rparr>))"

definition delete_telco :: "nat \<Rightarrow> registry \<Rightarrow> registry http" where
  "delete_telco i re =
     (if \<not> list_ex (\<lambda>t. tc_id t = i) (re_telcos re) then not_found ''carrier''
      else Inr (re\<lparr>re_telcos := filter (\<lambda>t. tc_id t \<noteq> i) (re_telcos re)\<rparr>))"

section \<open>All operations on the tables\<close>

datatype registry_op =
    Register registration time | Beat beat time
  | SetStatus nat string | AssignGroups nat "nat list" | RequestUpdate nat | RequestUpdates "nat list" | DeleteDevice nat
  | CreateGroup group_create | UpdateGroup nat group_update | AssignDevices nat "nat list"
  | RequestGroupUpdate nat | RequestGroupUpdates "nat list" | DeleteGroup nat
  | CreateTelco string | DeleteTelco nat

definition or_unchanged :: "registry http \<Rightarrow> registry \<Rightarrow> registry" where
  "or_unchanged r re = (case r of Inl e \<Rightarrow> re | Inr re' \<Rightarrow> re')"

fun run_registry :: "registry_op \<Rightarrow> registry \<Rightarrow> registry" where
  "run_registry (Register req now) re =
     re\<lparr>re_devices := snd (register_device (re_next_device re) req now (re_devices re)),
        re_next_device := re_next_device re + 1\<rparr>"
| "run_registry (Beat req now) re = re\<lparr>re_devices := snd (heartbeat req now (re_devices re))\<rparr>"
| "run_registry (SetStatus i st) re = or_unchanged (update_device_status i st re) re"
| "run_registry (AssignGroups i gids) re = or_unchanged (assign_groups i gids re) re"
| "run_registry (RequestUpdate i) re = or_unchanged (request_daemon_update i re) re"
| "run_registry (RequestUpdates ids) re = snd (for_devices ids re)"
| "run_registry (DeleteDevice i) re = or_unchanged (delete_device i re) re"
| "run_registry (CreateGroup b) re = or_unchanged (create_group b re) re"
| "run_registry (UpdateGroup i b) re = or_unchanged (update_group i b re) re"
| "run_registry (AssignDevices i ids) re = or_unchanged (assign_devices i ids re) re"
| "run_registry (RequestGroupUpdate i) re =
     (case request_group_daemon_update i re of Inl e \<Rightarrow> re | Inr (n, re') \<Rightarrow> re')"
| "run_registry (RequestGroupUpdates gids) re = snd (for_groups gids re)"
| "run_registry (DeleteGroup i) re = or_unchanged (delete_group i re) re"
| "run_registry (CreateTelco raw) re = or_unchanged (create_telco raw re) re"
| "run_registry (DeleteTelco i) re = or_unchanged (delete_telco i re) re"

section \<open>The tables stay consistent\<close>

definition groups_ok :: "registry \<Rightarrow> bool" where
  "groups_ok re \<longleftrightarrow> distinct (group_ids re) \<and> distinct (map gr_name (re_groups re))
     \<and> list_all (\<lambda>i. i < re_next_group re) (group_ids re)"

definition telcos_ok :: "registry \<Rightarrow> bool" where
  "telcos_ok re \<longleftrightarrow> distinct (map tc_id (re_telcos re)) \<and> distinct (map tc_name (re_telcos re))
     \<and> list_all (\<lambda>t. tc_id t < re_next_telco re) (re_telcos re)"

definition refs_ok :: "registry \<Rightarrow> bool" where
  "refs_ok re \<longleftrightarrow> distinct (re_links re)
     \<and> list_all (\<lambda>(g, d). g \<in> set (group_ids re) \<and> d \<in> set (device_ids re)) (re_links re)
     \<and> list_all (\<lambda>r. fr_group r \<in> set (group_ids re)) (re_ftp re)
     \<and> list_all (\<lambda>x. lg_device x \<in> set (device_ids re)) (re_logs re)"

definition registry_ok :: "registry \<Rightarrow> bool" where
  "registry_ok re \<longleftrightarrow> table_ok (re_devices re) \<and> list_all (\<lambda>i. i < re_next_device re) (device_ids re)
     \<and> groups_ok re \<and> telcos_ok re \<and> refs_ok re"

named_theorems op_defs
named_theorems ok_defs

declare or_unchanged_def [op_defs] update_device_status_def [op_defs] assign_groups_def [op_defs]
  delete_device_def [op_defs] create_group_def [op_defs] update_group_def [op_defs] assign_devices_def [op_defs]
  delete_group_def [op_defs] create_telco_def [op_defs] delete_telco_def [op_defs]

declare registry_ok_def [ok_defs] groups_ok_def [ok_defs] telcos_ok_def [ok_defs] refs_ok_def [ok_defs] table_ok_def [ok_defs]

lemma set_devices_ok:
  assumes "registry_ok re" "map dv_id ds = device_ids re" "map dv_key ds = map dv_key (re_devices re)"
  shows "registry_ok (re\<lparr>re_devices := ds\<rparr>)"
  using assms(1) unfolding ok_defs
  by (simp add: assms(2,3))

lemma flag_devices: "snd (flag c re) = re\<lparr>re_devices := map (\<lambda>d. if c d then d\<lparr>dv_update_requested := True\<rparr> else d) (re_devices re)\<rparr>"
  by (simp add: flag_def)

lemma flag_ok: "registry_ok re \<Longrightarrow> registry_ok (snd (flag c re))"
  unfolding flag_devices by (rule set_devices_ok) (auto simp: comp_def)

lemma for_devices_ok: "registry_ok re \<Longrightarrow> registry_ok (snd (for_devices ids re))"
  by (simp add: for_devices_def Let_def flag_ok)

lemma for_groups_ok: "registry_ok re \<Longrightarrow> registry_ok (snd (for_groups ids re))"
  by (simp add: for_groups_def Let_def flag_ok)

lemma register_ids:
  "set (map dv_id ds) \<subseteq> set (map dv_id (snd (register_device n req now ds)))"
  "set (map dv_id (snd (register_device n req now ds))) \<subseteq> insert n (set (map dv_id ds))"
  unfolding register_device_def
  by (auto simp: update_first_keys refresh_def new_device_def simp flip: set_map split: option.split)

lemma register_ok:
  assumes "registry_ok re"
  shows "registry_ok (run_registry (Register req now) re)"
proof -
  let ?ds = "snd (register_device (re_next_device re) req now (re_devices re))"
  have less: "\<forall>d \<in> set (re_devices re). dv_id d < re_next_device re"
    using assms by (simp add: registry_ok_def list_all_iff)
  then have "table_ok ?ds" using assms by (intro register_device_ok) (simp_all add: registry_ok_def)
  moreover have "list_all (\<lambda>i. i < re_next_device re + 1) (map dv_id ?ds)"
    using register_ids(2) [of "re_next_device re" req now "re_devices re"] less by (fastforce simp: list_all_iff)
  moreover have "set (device_ids re) \<subseteq> set (map dv_id ?ds)" by (rule register_ids)
  ultimately show ?thesis
    using assms by (auto simp: registry_ok_def groups_ok_def telcos_ok_def refs_ok_def list_all_iff subset_iff)
qed

lemma beat_ok: "registry_ok re \<Longrightarrow> registry_ok (run_registry (Beat req now) re)"
  unfolding run_registry.simps
  by (rule set_devices_ok) (auto simp: heartbeat_def update_first_keys beat_device_def split: option.split)

lemma status_ok: "registry_ok re \<Longrightarrow> registry_ok (run_registry (SetStatus i st) re)"
  by (auto simp: op_defs update_first_keys split: option.split intro!: set_devices_ok)

lemma request_update_ok: "registry_ok re \<Longrightarrow> registry_ok (run_registry (RequestUpdate i) re)"
  by (auto simp: or_unchanged_def request_daemon_update_def for_devices_ok split: option.split)

lemma request_group_update_ok: "registry_ok re \<Longrightarrow> registry_ok (run_registry (RequestGroupUpdate i) re)"
  using for_groups_ok [of re "[i]"]
  by (auto simp: request_group_daemon_update_def split: option.split sum.split prod.split)

lemma delete_device_ok: "registry_ok re \<Longrightarrow> registry_ok (run_registry (DeleteDevice i) re)"
  by (auto simp: op_defs ok_defs list_all_iff distinct_map split: option.split intro: inj_on_subset)

lemma delete_group_ok: "registry_ok re \<Longrightarrow> registry_ok (run_registry (DeleteGroup i) re)"
  by (auto simp: op_defs ok_defs list_all_iff distinct_map split: option.split intro: inj_on_subset)

lemma create_group_ok: "registry_ok re \<Longrightarrow> registry_ok (run_registry (CreateGroup b) re)"
  by (auto simp: op_defs ok_defs list_all_iff new_group_def group_named_def find_None_iff_all)

lemma telco_ok:
  "registry_ok re \<Longrightarrow> registry_ok (run_registry (CreateTelco raw) re)"
  "registry_ok re \<Longrightarrow> registry_ok (run_registry (DeleteTelco i) re)"
  by (auto simp: op_defs ok_defs Let_def list_all_iff list_ex_iff distinct_map intro: inj_on_subset)

lemma all_found:
  assumes "distinct xs" and "length (filter (\<lambda>x. x \<in> set ys) xs) = length ys"
  shows "distinct ys \<and> set ys \<subseteq> set xs"
proof -
  let ?f = "filter (\<lambda>x. x \<in> set ys) xs"
  have "card (set ?f) = length ?f" by (rule distinct_card) (simp add: assms(1))
  then have "card (set ?f) = length ys" by (simp only: assms(2))
  moreover have sub: "set ?f \<subseteq> set ys" by auto
  ultimately have "card (set ys) = length ys" "card (set ?f) = card (set ys)"
    using card_mono [OF _ sub] card_length [of ys] by simp_all
  then have "distinct ys" "set ?f = set ys" using card_subset_eq [OF _ sub] by (simp_all add: card_distinct)
  then show ?thesis by auto
qed

lemma assign_groups_ok: "registry_ok re \<Longrightarrow> registry_ok (run_registry (AssignGroups i gids) re)"
proof -
  assume ok: "registry_ok re"
  show ?thesis
  proof (cases "assign_groups i gids re")
    case (Inr re')
    then have re': "re' = re\<lparr>re_links := filter (\<lambda>(g, d). d \<noteq> i) (re_links re) @ map (\<lambda>g. (g, i)) gids\<rparr>"
      and i: "i \<in> set (device_ids re)"
      and n: "gids = [] \<or> length (filter (\<lambda>g. List.member gids (gr_id g)) (re_groups re)) = length gids"
      by (auto simp: assign_groups_def device_by_id_def bad_request_def dest: find_Some_iff_mem
          split: option.splits if_splits)
    have "distinct gids \<and> set gids \<subseteq> set (group_ids re)"
    proof (cases "gids = []")
      case False
      then have "length (filter (\<lambda>g. g \<in> set gids) (group_ids re)) = length gids"
        using n by (simp add: filter_map comp_def)
      then show ?thesis using ok by (intro all_found) (simp_all add: registry_ok_def groups_ok_def)
    qed simp
    then show ?thesis
      using ok i Inr unfolding re'
      by (auto simp: or_unchanged_def ok_defs list_all_iff distinct_map inj_on_def)
  qed (simp add: or_unchanged_def ok)
qed

lemma assign_devices_ok: "registry_ok re \<Longrightarrow> registry_ok (run_registry (AssignDevices i dids) re)"
proof -
  assume ok: "registry_ok re"
  let ?ids = "rev (remdups (rev dids))"
  show ?thesis
  proof (cases "assign_devices i dids re")
    case (Inr re')
    then have re': "re' = re\<lparr>re_links := filter (\<lambda>(g, d). g \<noteq> i) (re_links re) @ map (\<lambda>d. (i, d)) ?ids\<rparr>"
      and i: "i \<in> set (group_ids re)"
      and n: "?ids = [] \<or> length (filter (\<lambda>d. List.member ?ids (dv_id d)) (re_devices re)) = length ?ids"
      by (auto simp: assign_devices_def group_by_id_def bad_request_def Let_def dest: find_Some_iff_mem
          split: option.splits if_splits)
    have "distinct ?ids \<and> set ?ids \<subseteq> set (device_ids re)"
    proof (cases "?ids = []")
      case False
      then have "length (filter (\<lambda>d. d \<in> set ?ids) (device_ids re)) = length ?ids"
        using n by (simp add: filter_map comp_def)
      then show ?thesis using ok by (intro all_found) (simp_all add: registry_ok_def table_ok_def)
    qed simp
    then show ?thesis
      using ok i Inr unfolding re'
      by (auto simp: or_unchanged_def ok_defs list_all_iff distinct_map inj_on_def)
  qed (simp add: or_unchanged_def ok)
qed

lemma set_group_id [simp]: "gr_id (set_group b g) = gr_id g"
  by (simp add: set_group_def)

lemma update_group_ok: "registry_ok re \<Longrightarrow> registry_ok (run_registry (UpdateGroup i b) re)"
proof -
  assume ok: "registry_ok re"
  show ?thesis
  proof (cases "update_group i b re")
    case (Inr re')
    let ?gs = "update_first (\<lambda>g. gr_id g = i) (set_group b) (re_groups re)"
    obtain g where g: "group_by_id i re = Some g" and re': "re' = re\<lparr>re_groups := ?gs\<rparr>"
      and free: "new_name b = [] \<or> new_name b = gr_name g \<or> group_named (new_name b) re = None"
      and b: "gu_name b \<noteq> Some None" "gu_name b \<noteq> Some (Some [])"
      using Inr by (auto simp: update_group_def bad_request_def split: option.splits if_splits)
    have mem: "g \<in> set (re_groups re)" "gr_id g = i" using g by (auto simp: group_by_id_def dest: find_Some_iff_mem)
    have ids: "map gr_id ?gs = group_ids re" by (rule update_first_keys) simp
    have name: "gr_name (set_group b g) = (if new_name b = [] then gr_name g else new_name b)" for g
      using b by (auto simp: set_group_def new_name_def split: option.split)
    have "distinct (map gr_name ?gs)"
    proof -
      obtain us vs where l: "re_groups re = us @ g # vs" "\<forall>x \<in> set us. gr_id x \<noteq> i"
        using split_list_first_prop [of "re_groups re" "\<lambda>x. gr_id x = i"] mem ok
        by (metis (mono_tags, lifting) find_Some_iff_mem group_by_id_def g distinct_map inj_onD registry_ok_def groups_ok_def in_set_conv_decomp)
      have "update_first P f (us @ x # vs) = us @ f x # vs" if "\<forall>x \<in> set us. \<not> P x" "P x" for P f x us vs
        using that by (induction us) auto
      then have gs: "?gs = us @ set_group b g # vs" using l mem(2) by simp
      have "distinct (map gr_name (us @ g # vs))" using ok l(1) by (simp add: registry_ok_def groups_ok_def)
      moreover from this have other: "gr_name g \<notin> gr_name ` set (us @ vs)" by auto
      moreover have "new_name b \<noteq> [] \<longrightarrow> new_name b \<notin> gr_name ` set (us @ vs)"
        using free l(1) other by (auto simp: group_named_def find_None_iff_all)
      ultimately show ?thesis unfolding gs by (cases "new_name b = []") (simp_all add: name image_Un)
    qed
    then have "groups_ok re'" "group_ids re' = group_ids re" using ok ids by (simp_all add: re' registry_ok_def groups_ok_def)
    then show ?thesis using ok Inr unfolding run_registry.simps
      by (simp add: or_unchanged_def registry_ok_def refs_ok_def telcos_ok_def re' flip: set_map)
  qed (simp add: or_unchanged_def ok)
qed

text \<open>
  C21: every operation keeps the tables consistent: numbers, device keys and names are unique, and
  every mapping, FTP account and log row refers to a device and a group that exist.
\<close>

theorem registry_stays_consistent:
  "registry_ok re \<Longrightarrow> registry_ok (fold run_registry ops re)"
proof (induction ops arbitrary: re)
  case (Cons x xs)
  then have "registry_ok (run_registry x re)"
    by (cases x) (simp_all only: register_ok beat_ok status_ok assign_groups_ok request_update_ok delete_device_ok
        create_group_ok update_group_ok assign_devices_ok request_group_update_ok delete_group_ok telco_ok
        run_registry.simps(6) [symmetric] run_registry.simps(12) [symmetric],
        simp_all add: for_devices_ok for_groups_ok)
  then show ?case using Cons.IH by simp
qed simp

definition sample_registry :: registry where
  "sample_registry = \<lparr>re_devices = [new_device 1 \<lparr>rg_key = ''k1'', rg_hostname = ''h1'', rg_ip = None, rg_os = None,
       rg_kernel = None, rg_proftpd = None, rg_version = None\<rparr> 0],
     re_groups = [new_group 1 \<lparr>gc_name = ''g1'', gc_description = None, gc_telco = None, gc_customer = Some ''acme'',
       gc_domains = None, gc_application = None\<rparr>],
     re_links = [(1, 1)], re_ftp = [\<lparr>fr_user = 2, fr_group = 1, fr_name = ''ftp1''\<rparr>], re_logs = [], re_telcos = [],
     re_next_device = 2, re_next_group = 2, re_next_telco = 1\<rparr>"

lemma sample_registry_ok: "registry_ok sample_registry"
  by (simp add: ok_defs sample_registry_def new_device_def new_group_def)

theorem registry_stays_consistent_witness:
  "registry_ok (run_registry (DeleteGroup 1) (run_registry (AssignDevices 1 [1, 1]) sample_registry))"
  using registry_stays_consistent [OF sample_registry_ok, of "[AssignDevices 1 [1, 1], DeleteGroup 1]"] by simp

section \<open>An update request arrives once\<close>

definition member_of :: "nat list \<Rightarrow> registry \<Rightarrow> device \<Rightarrow> bool" where
  "member_of gids re d = list_ex (\<lambda>(g, i). List.member gids g \<and> i = dv_id d) (re_links re)"

definition beats :: "(beat \<times> time) list \<Rightarrow> device list \<Rightarrow> device list" where
  "beats bs ds = fold (\<lambda>(b, t) ds. snd (heartbeat b t ds)) bs ds"

lemma for_groups_flag:
  "for_groups gids re = (length (filter (member_of gids re) (re_devices re)),
     re\<lparr>re_devices := map (\<lambda>d. if member_of gids re d then d\<lparr>dv_update_requested := True\<rparr> else d) (re_devices re)\<rparr>)"
proof (cases "gids = []")
  case True
  then have "member_of gids re d = False" for d by (auto simp: member_of_def list_ex_iff)
  then show ?thesis using True by (simp add: for_groups_def)
next
  case False
  have m: "(\<lambda>d. List.member [d. (g, d) \<leftarrow> re_links re, List.member (remdups gids) g] (dv_id d)) = member_of gids re"
    by (rule ext) (auto simp: member_of_def list_ex_iff)
  show ?thesis using False by (simp only: for_groups_def Let_def remdups_eq_nil_iff if_False m) (simp only: flag_def)
qed

lemma find_device_mem: "distinct (map dv_key ds) \<Longrightarrow> d \<in> set ds \<Longrightarrow> find_device (dv_key d) ds = Some d"
  by (induction ds) (auto simp: find_device_def with_key_def)

lemma find_device_beat:
  "hb_key b = k \<Longrightarrow> find_device k (snd (heartbeat b t ds)) = map_option (beat_device b t) (find_device k ds)"
proof -
  assume k: "hb_key b = k"
  have "find_device k (update_first (with_key k) (beat_device b t) ds) = map_option (beat_device b t) (find_device k ds)"
    unfolding find_device_def by (rule update_first_find) (simp add: with_key_def beat_device_def)
  then show ?thesis using k by (auto simp: heartbeat_def split: option.split)
qed

lemma find_device_beats_other:
  "\<forall>(b, t) \<in> set bs. hb_key b \<noteq> k \<Longrightarrow> find_device k (beats bs ds) = find_device k ds"
proof (induction bs arbitrary: ds)
  case (Cons x bs)
  obtain b t where x: "x = (b, t)" by (cases x)
  have "find_device k (snd (heartbeat b t ds)) = find_device k ds"
    using Cons.prems unfolding heartbeat_def find_device_def x
    by (auto simp: with_key_def beat_device_def intro!: update_first_other split: option.split)
  then show ?case using Cons by (simp add: beats_def x)
qed (simp add: beats_def)

text \<open>
  C30: a request for the daemons of some groups sets the flag of every device in at least one of them
  and counts each once. Whatever other devices report in between, the next heartbeat of such a
  device is told to update, and the one after it is not.
\<close>

theorem update_request_arrives_once:
  assumes "registry_ok re" and "d \<in> set (re_devices re)"
    and "\<forall>(b, t) \<in> set before \<union> set between. hb_key b \<noteq> dv_key d"
    and "hb_key b1 = dv_key d" and "hb_key b2 = dv_key d"
  shows "fst (for_groups gids re) = length (filter (member_of gids re) (re_devices re))
    \<and> (let (answer, ds) = heartbeat b1 t1 (beats before (re_devices (snd (for_groups gids re)))) in
        answer = Inr (dv_state d, dv_update_requested d \<or> member_of gids re d)
        \<and> fst (heartbeat b2 t2 (beats between ds)) = Inr (dv_state d, False))"
proof -
  let ?f = "\<lambda>d. if member_of gids re d then d\<lparr>dv_update_requested := True\<rparr> else d"
  have ds: "re_devices (snd (for_groups gids re)) = map ?f (re_devices re)" by (simp add: for_groups_flag)
  have "find_device (dv_key (?f d)) (map ?f (re_devices re)) = Some (?f d)"
  proof (rule find_device_mem)
    have "map dv_key (map ?f (re_devices re)) = map dv_key (re_devices re)" by simp
    then show "distinct (map dv_key (map ?f (re_devices re)))"
      using assms(1) by (simp only: registry_ok_def table_ok_def)
  qed (use assms(2) in simp)
  then have "find_device (dv_key d) (map ?f (re_devices re)) = Some (?f d)" by (simp split: if_splits)
  then have 1: "find_device (dv_key d) (beats before (map ?f (re_devices re))) = Some (?f d)"
    using assms(3) find_device_beats_other [of before "dv_key d"] by auto
  then have a: "fst (heartbeat b1 t1 (beats before (map ?f (re_devices re))))
      = Inr (dv_state d, dv_update_requested d \<or> member_of gids re d)"
    using assms(4) by (simp add: heartbeat_def)
  have "find_device (dv_key d) (beats between (snd (heartbeat b1 t1 (beats before (map ?f (re_devices re))))))
      = Some (beat_device b1 t1 (?f d))"
    using assms(3,4) 1 find_device_beats_other [of between "dv_key d"] by (simp add: find_device_beat ball_Un)
  then have "fst (heartbeat b2 t2 (beats between (snd (heartbeat b1 t1 (beats before (map ?f (re_devices re)))))))
      = Inr (dv_state d, False)"
    using assms(5) by (simp add: heartbeat_def beat_device_def)
  with a show ?thesis unfolding ds by (simp add: for_groups_flag case_prod_beta Let_def)
qed

definition sample_beat :: beat where
  "sample_beat = \<lparr>hb_key = ''k1'', hb_hostname = None, hb_ip = None, hb_fields = []\<rparr>"

theorem update_request_arrives_once_witness:
  "fst (heartbeat sample_beat 9 (beats [] (re_devices (snd (for_groups [1] sample_registry))))) = Inr (''pending'', True)"
proof -
  have d: "hd (re_devices sample_registry) \<in> set (re_devices sample_registry)" by (simp add: sample_registry_def)
  have "hb_key sample_beat = dv_key (hd (re_devices sample_registry))"
    by (simp add: sample_beat_def sample_registry_def new_device_def)
  from update_request_arrives_once [OF sample_registry_ok d, of "[]" "[]" sample_beat sample_beat "[1]" 9 10] this
  show ?thesis by (simp add: case_prod_beta Let_def)
    (simp add: sample_registry_def new_device_def member_of_def)
qed

end
