(* ===== verification/Exports.thy ===== *)
theory Exports
  imports Registry
begin

text \<open>
  The exports of \<open>routers/logs.py\<close>: the selected rows, joined with their devices and newest
  first, as a CSV text and as the rows of a sheet.

  \<open>csv_field\<close> and \<open>csv_row\<close> are \<open>csv.writer\<close> of Python's library in its default dialect (quotes
  only where they are needed, doubled inside, lines end with CR LF) for rows of at least two
  fields. \<open>read_csv\<close> is the reader that a recipient uses (RFC 4180). The texts of a time
  (\<open>isofmt\<close>) and of a float (\<open>repr\<close>) are parameters, as is the reading of a time without its zone
  (\<open>naive\<close>), which depends on the time zone of the database session.
\<close>

section \<open>CSV\<close>

abbreviation CR :: char where "CR \<equiv> CHR 0x0D"
abbreviation COMMA :: char where "COMMA \<equiv> CHR '',''"

definition needs_quotes :: "string \<Rightarrow> bool" where
  "needs_quotes s = list_ex (\<lambda>c. c = COMMA \<or> c = DQ \<or> c = CR \<or> c = LF) s"

fun double_quotes :: "string \<Rightarrow> string" where
  "double_quotes [] = []"
| "double_quotes (c # s) = (if c = DQ then [DQ, DQ] else [c]) @ double_quotes s"

definition csv_field :: "string \<Rightarrow> string" where
  "csv_field s = (if needs_quotes s then DQ # double_quotes s @ [DQ] else s)"

definition csv_row :: "string list \<Rightarrow> string" where
  "csv_row cells = join_with COMMA (map csv_field cells) @ [CR, LF]"

section \<open>The exports\<close>

definition EXPORT_HEADER :: "string list" where
  "EXPORT_HEADER = [''id'', ''device'', ''log_time'', ''client_ip'', ''username'', ''action'', ''file_path'',
     ''file_size'', ''transfer_time'', ''status'']"

definition host_of :: "registry \<Rightarrow> log_item \<Rightarrow> device option" where
  "host_of re r = List.find (\<lambda>d. dv_id d = lg_device (li_log r)) (re_devices re)"

definition export_rows :: "registry \<Rightarrow> device_groups \<Rightarrow> accounts \<Rightarrow> time \<Rightarrow> principal \<Rightarrow> filters \<Rightarrow> log_item list \<Rightarrow> log_item list" where
  "export_rows re dgs ac now p f rows =
     newest_first (filter (\<lambda>r. host_of re r \<noteq> None) (apply_filters dgs ac now p f rows))"

definition host_name :: "registry \<Rightarrow> log_item \<Rightarrow> string" where
  "host_name re r = (case host_of re r of None \<Rightarrow> [] | Some d \<Rightarrow> dv_hostname d)"

definition csv_cells :: "(time \<Rightarrow> string) \<Rightarrow> (real \<Rightarrow> string) \<Rightarrow> registry \<Rightarrow> log_item \<Rightarrow> string list" where
  "csv_cells isofmt repr re r =
     (let x = li_log r in
      [show_nat (li_id r), host_name re r, isofmt (lg_time x), or_else (li_ip r) [], or_else (lg_username x) [],
       lg_action x, or_else (lg_path x) [], show_nat (lg_size x), repr (lg_secs x), lg_status x])"

definition export_csv ::
  "(time \<Rightarrow> string) \<Rightarrow> (real \<Rightarrow> string) \<Rightarrow> registry \<Rightarrow> device_groups \<Rightarrow> accounts \<Rightarrow> time \<Rightarrow> principal \<Rightarrow> filters \<Rightarrow>
   log_item list \<Rightarrow> string" where
  "export_csv isofmt repr re dgs ac now p f rows =
     concat (csv_row EXPORT_HEADER # map (\<lambda>r. csv_row (csv_cells isofmt repr re r)) (export_rows re dgs ac now p f rows))"

datatype sheet_cell = CellInt nat | CellFloat real | CellText string | CellTime civil

definition xlsx_row :: "(time \<Rightarrow> civil) \<Rightarrow> registry \<Rightarrow> log_item \<Rightarrow> sheet_cell list" where
  "xlsx_row naive re r =
     (let x = li_log r in
      [CellInt (li_id r), CellText (host_name re r), CellTime (naive (lg_time x)),
       CellText (or_else (li_ip r) []), CellText (or_else (lg_username x) []), CellText (lg_action x),
       CellText (or_else (lg_path x) []), CellInt (lg_size x), CellFloat (lg_secs x), CellText (lg_status x)])"

definition export_xlsx ::
  "(time \<Rightarrow> civil) \<Rightarrow> sheet_cell list \<Rightarrow> registry \<Rightarrow> device_groups \<Rightarrow> accounts \<Rightarrow> time \<Rightarrow> principal \<Rightarrow> filters \<Rightarrow>
   log_item list \<Rightarrow> sheet_cell list list" where
  "export_xlsx naive headers re dgs ac now p f rows =
     headers # map (xlsx_row naive re) (export_rows re dgs ac now p f rows)"

section \<open>A reader\<close>

datatype csv_state = FieldStart | Unquoted | Quoted | QuoteInQuoted | RecordEnd

type_synonym csv_reader = "csv_state \<times> string \<times> string list \<times> string list list"

text \<open>Between fields and after a quotation.\<close>

definition csv_plain :: "char \<Rightarrow> string \<Rightarrow> string list \<Rightarrow> string list list \<Rightarrow> csv_reader" where
  "csv_plain c f r out =
     (if c = COMMA then (FieldStart, [], r @ [f], out)
      else if c = CR then (RecordEnd, [], r @ [f], out)
      else if c = LF then (FieldStart, [], [], out @ [r @ [f]])
      else (Unquoted, f @ [c], r, out))"

fun read_char :: "char \<Rightarrow> csv_reader \<Rightarrow> csv_reader" where
  "read_char c (FieldStart, f, r, out) = (if c = DQ then (Quoted, [], r, out) else csv_plain c f r out)"
| "read_char c (Unquoted, f, r, out) = csv_plain c f r out"
| "read_char c (Quoted, f, r, out) = (if c = DQ then (QuoteInQuoted, f, r, out) else (Quoted, f @ [c], r, out))"
| "read_char c (QuoteInQuoted, f, r, out) = (if c = DQ then (Quoted, f @ [c], r, out) else csv_plain c f r out)"
| "read_char c (RecordEnd, f, r, out) =
     (if c = LF then (FieldStart, [], [], out @ [r]) else csv_plain c [] [] (out @ [r]))"

definition read_csv :: "string \<Rightarrow> string list list option" where
  "read_csv s = (case fold read_char s (FieldStart, [], [], []) of (FieldStart, [], [], out) \<Rightarrow> Some out | _ \<Rightarrow> None)"

section \<open>What is exported is read back\<close>

text \<open>The reader after a field: only the next comma or line end closes it.\<close>

definition after_field :: "string \<Rightarrow> string list \<Rightarrow> string list list \<Rightarrow> csv_reader \<Rightarrow> bool" where
  "after_field s r out st \<longleftrightarrow>
     st = (FieldStart, s, r, out) \<or> st = (Unquoted, s, r, out) \<or> st = (QuoteInQuoted, s, r, out)"

lemma fold_quoted: "fold read_char (double_quotes s) (Quoted, f, r, out) = (Quoted, f @ s, r, out)"
  by (induction s arbitrary: f) simp_all

lemma fold_unquoted:
  "\<not> needs_quotes s \<Longrightarrow> fold read_char s (Unquoted, f, r, out) = (Unquoted, f @ s, r, out)"
  by (induction s arbitrary: f) (simp_all add: needs_quotes_def csv_plain_def)

lemma fold_field: "after_field s r out (fold read_char (csv_field s) (FieldStart, [], r, out))"
proof (cases "needs_quotes s")
  case True
  then show ?thesis by (simp add: csv_field_def after_field_def fold_quoted)
next
  case False
  then show ?thesis
  proof (cases s)
    case (Cons c t)
    with False have "c \<noteq> COMMA" "c \<noteq> DQ" "c \<noteq> CR" "c \<noteq> LF" "\<not> needs_quotes t" by (simp_all add: needs_quotes_def)
    with False Cons show ?thesis
      by (simp add: csv_field_def after_field_def fold_unquoted csv_plain_def)
  qed (simp add: csv_field_def after_field_def)
qed

lemma read_after_field:
  "after_field s r out st \<Longrightarrow> read_char COMMA st = (FieldStart, [], r @ [s], out)"
  "after_field s r out st \<Longrightarrow> read_char CR st = (RecordEnd, [], r @ [s], out)"
  by (auto simp: after_field_def csv_plain_def)

lemma fold_fields:
  "cells \<noteq> [] \<Longrightarrow> fold read_char (csv_row cells) (FieldStart, [], r, out) = (FieldStart, [], [], out @ [r @ cells])"
proof (induction cells arbitrary: r)
  case (Cons s ss)
  show ?case
  proof (cases ss)
    case Nil
    then show ?thesis by (simp add: csv_row_def read_after_field(2) [OF fold_field])
  next
    case (Cons t ts)
    then have "csv_row (s # ss) = csv_field s @ COMMA # csv_row ss" by (simp add: csv_row_def)
    then show ?thesis using Cons.IH Cons by (simp add: read_after_field(1) [OF fold_field])
  qed
qed simp

lemma fold_rows:
  "list_all (\<lambda>r. r \<noteq> []) rows \<Longrightarrow>
   fold read_char (concat (map csv_row rows)) (FieldStart, [], [], out) = (FieldStart, [], [], out @ rows)"
  by (induction rows arbitrary: out) (simp_all add: fold_fields)

lemma read_rows: "list_all (\<lambda>r. r \<noteq> []) rows \<Longrightarrow> read_csv (concat (map csv_row rows)) = Some rows"
  by (simp add: read_csv_def fold_rows)

text \<open>
  C36: a reader gets from the CSV export exactly the header and the cells of the exported rows,
  whatever quotes, commas and line ends the names and paths hold. The exported rows are those
  that the pages of the list show to the same caller with the same filters, in the same order,
  and the sheet has the same rows.
\<close>

theorem export_shows_what_the_list_shows:
  "let es = export_rows re dgs ac now p f rows;
       pages = concat (map (\<lambda>k. query_logs dgs ac (map dv_id (re_devices re)) now p f (Suc k) n rows) [0..<m])
   in read_csv (export_csv isofmt repr re dgs ac now p f rows) = Some (EXPORT_HEADER # map (csv_cells isofmt repr re) es)
      \<and> pages = take (m * n) es
      \<and> export_xlsx naive headers re dgs ac now p f rows = headers # map (xlsx_row naive re) es"
proof -
  let ?es = "export_rows re dgs ac now p f rows"
  have known: "host_of re r \<noteq> None \<longleftrightarrow> lg_device (li_log r) \<in> set (map dv_id (re_devices re))" for r
    by (force simp: host_of_def find_None_iff)
  have "export_csv isofmt repr re dgs ac now p f rows = concat (map csv_row (EXPORT_HEADER # map (csv_cells isofmt repr re) ?es))"
    by (simp add: export_csv_def comp_def)
  moreover have "list_all (\<lambda>r. r \<noteq> []) (EXPORT_HEADER # map (csv_cells isofmt repr re) ?es)"
    by (simp add: list_all_iff EXPORT_HEADER_def csv_cells_def Let_def)
  ultimately have "read_csv (export_csv isofmt repr re dgs ac now p f rows) = Some (EXPORT_HEADER # map (csv_cells isofmt repr re) ?es)"
    by (simp only: read_rows)
  moreover have "concat (map (\<lambda>k. query_logs dgs ac (map dv_id (re_devices re)) now p f (Suc k) n rows) [0..<m]) = take (m * n) ?es"
    unfolding query_logs_def export_rows_def known by (simp add: pages_take)
  ultimately show ?thesis by (simp add: export_xlsx_def)
qed

end
