(* ===== verification/Bulk.thy ===== *)
theory Bulk
  imports Tailer LogParse WasLink "HOL-Library.Char_ord" "HOL-Library.List_Lexorder"
begin

text \<open>
  \<open>ftp-daemon/soltrace_bulk.py\<close>: reading whole log files for a period and sending their entries to
  the server in batches.

  The file system is two parameters: \<open>globbing\<close>, the paths a pattern matches, and \<open>files\<close>, which is
  \<^const>\<open>None\<close> for a path that does not exist and otherwise the lines that can be read with
  whether the end of the file was reached; it is not when opening, reading or unpacking raises. The network is the function of the number of the request that the daemon's
  client uses. An entry carries its time as a number, so the fallback for a time that
  \<open>fromisoformat\<close> refuses has no counterpart. An exception that leaves \<open>run_bulk\<close> sets \<open>bk_dead\<close>.
\<close>

section \<open>Reading\<close>

text \<open>\<open>strptime(s, "%Y-%m-%d")\<close>, taken as local time; \<open>Inl\<close> is the \<open>ValueError\<close>.\<close>

definition parse_date :: "zone \<Rightarrow> string \<Rightarrow> string + time option" where
  "parse_date zone s =
     (if s = [] then Inr None
      else case split_on (CHR ''-'') s of
        [y, m, d] \<Rightarrow>
          (case (num4 y, num12 m, num12 d) of
             (Some y, Some m, Some d) \<Rightarrow>
               (case make_civil y m d 0 0 0 of None \<Rightarrow> Inl ''date'' | Some c \<Rightarrow> Inr (Some (zone c)))
           | _ \<Rightarrow> Inl ''date'')
      | _ \<Rightarrow> Inl ''date'')"

definition in_period :: "time option \<Rightarrow> time option \<Rightarrow> log_entry \<Rightarrow> bool" where
  "in_period date_from date_to e =
     (\<not> (case date_from of None \<Rightarrow> False | Some t \<Rightarrow> e_log_time e < t)
      \<and> \<not> (case date_to of None \<Rightarrow> False | Some t \<Rightarrow> t < e_log_time e))"

fun iter_lines :: "('p, log_entry) parser \<Rightarrow> time option \<Rightarrow> time option \<Rightarrow> 'p \<Rightarrow> string list \<Rightarrow> log_entry list \<times> 'p" where
  "iter_lines f date_from date_to p [] = ([], p)"
| "iter_lines f date_from date_to p (line # rest) =
     (let (entry, p1) = f p line; (es, p2) = iter_lines f date_from date_to p1 rest in
      case entry of
        None \<Rightarrow> (es, p2)
      | Some e \<Rightarrow> ((if in_period date_from date_to e then e # es else es), p2))"

type_synonym file_system = "string \<Rightarrow> (string list \<times> bool) option"

text \<open>The entries yielded, whether the end was reached, and the state of the parser.\<close>

definition iter_file ::
  "file_system \<Rightarrow> ('p, log_entry) parser \<Rightarrow> time option \<Rightarrow> time option \<Rightarrow> string \<Rightarrow> 'p \<Rightarrow> log_entry list \<times> bool \<times> 'p" where
  "iter_file files f date_from date_to path p =
     (case files path of
        None \<Rightarrow> ([], True, p)
      | Some (lines, at_end) \<Rightarrow> (let (es, p1) = iter_lines f date_from date_to p lines in (es, at_end, p1)))"

fun iter_paths ::
  "file_system \<Rightarrow> ('p, log_entry) parser \<Rightarrow> time option \<Rightarrow> time option \<Rightarrow> string list \<Rightarrow> 'p \<Rightarrow> log_entry list \<times> bool \<times> 'p" where
  "iter_paths files f date_from date_to [] p = ([], True, p)"
| "iter_paths files f date_from date_to (path # paths) p =
     (let (es, at_end, p1) = iter_file files f date_from date_to path p in
      if \<not> at_end then (es, False, p1)
      else let (es', at_end', p2) = iter_paths files f date_from date_to paths p1 in (es @ es', at_end', p2))"

definition iter_files ::
  "(string \<Rightarrow> string list) \<Rightarrow> file_system \<Rightarrow> ('p, log_entry) parser \<Rightarrow> time option \<Rightarrow> time option \<Rightarrow> string \<Rightarrow> 'p \<Rightarrow>
   log_entry list \<times> bool \<times> 'p" where
  "iter_files globbing files f date_from date_to pattern p =
     (let matched = sort (globbing pattern) in
      if matched = [] then iter_file files f date_from date_to pattern p
      else iter_paths files f date_from date_to matched p)"

section \<open>Sending\<close>

text \<open>
  One request: \<open>Some True\<close> when the server accepted, \<open>Some False\<close> for a \<open>RequestException\<close> (also an
  error status, or a body that is not JSON), \<open>None\<close> when \<open>data.get\<close> raises on another JSON value.
\<close>

definition batch_answer :: "attempt \<Rightarrow> bool option" where
  "batch_answer a =
     (case a of
        RequestException \<Rightarrow> Some False
      | Status c b \<Rightarrow>
          if 400 \<le> c \<and> c < 600 then Some False
          else (case b of NoText \<Rightarrow> Some False | BadJson \<Rightarrow> Some False | JsonNull \<Rightarrow> None | JsonObj r \<Rightarrow> Some True))"

text \<open>
  The counters of \<open>run_bulk\<close> and what happened: \<open>bk_log\<close> holds the batches in order, each with the
  answer of its last request, \<open>bk_calls\<close> the number of requests.
\<close>

record bulk =
  bk_batch :: "log_entry list"
  bk_sent :: int
  bk_failed :: int
  bk_calls :: nat
  bk_log :: "(bool \<times> log_entry list) list"
  bk_dead :: bool

definition send_batch :: "net \<Rightarrow> bulk \<Rightarrow> bool option \<times> bulk" where
  "send_batch net s = (batch_answer (net (bk_calls s)), s\<lparr>bk_calls := bk_calls s + 1\<rparr>)"

definition flush_batch :: "bool \<Rightarrow> net \<Rightarrow> bulk \<Rightarrow> bulk" where
  "flush_batch dry net s =
     (let b = bk_batch s; n = int (length b) in
      if b = [] then s
      else if dry then s\<lparr>bk_sent := bk_sent s + n, bk_log := bk_log s @ [(True, b)], bk_batch := []\<rparr>
      else case send_batch net s of
        (None, s1) \<Rightarrow> s1\<lparr>bk_dead := True\<rparr>
      | (Some True, s1) \<Rightarrow> s1\<lparr>bk_sent := bk_sent s1 + n, bk_log := bk_log s1 @ [(True, b)], bk_batch := []\<rparr>
      | (Some False, s1) \<Rightarrow>
          (let s2 = s1\<lparr>bk_failed := bk_failed s1 + n\<rparr> in
           case send_batch net s2 of
             (None, s3) \<Rightarrow> s3\<lparr>bk_dead := True\<rparr>
           | (Some True, s3) \<Rightarrow>
               s3\<lparr>bk_sent := bk_sent s3 + n, bk_failed := bk_failed s3 - n, bk_log := bk_log s3 @ [(True, b)], bk_batch := []\<rparr>
           | (Some False, s3) \<Rightarrow> s3\<lparr>bk_log := bk_log s3 @ [(False, b)], bk_batch := []\<rparr>))"

definition push_entry :: "nat \<Rightarrow> bool \<Rightarrow> net \<Rightarrow> log_entry \<Rightarrow> bulk \<Rightarrow> bulk" where
  "push_entry limit dry net e s =
     (if bk_dead s then s
      else let s1 = s\<lparr>bk_batch := bk_batch s @ [e]\<rparr> in
        if limit \<le> length (bk_batch s1) then flush_batch dry net s1 else s1)"

text \<open>The loop over the entries of one log; a file that raises ends it before the last batch is sent.\<close>

definition send_entries :: "nat \<Rightarrow> bool \<Rightarrow> net \<Rightarrow> log_entry list \<times> bool \<Rightarrow> bulk \<Rightarrow> bulk" where
  "send_entries limit dry net r s =
     (let s1 = fold (push_entry limit dry net) (fst r) s in
      if bk_dead s1 then s1 else if \<not> snd r then s1\<lparr>bk_dead := True\<rparr> else flush_batch dry net s1)"

text \<open>The options of the command line, after the defaults from the configuration file.\<close>

record bulk_args =
  ba_transfer :: string
  ba_extended :: string
  ba_from :: "time option"
  ba_to :: "time option"
  ba_batch :: int
  ba_dry :: bool
  ba_no_extended :: bool
  ba_no_transfer :: bool

definition batch_size :: "bulk_args \<Rightarrow> nat" where
  "batch_size args = nat (max 1 (min (ba_batch args) MAX_BATCH))"

definition transfer_read :: "zone \<Rightarrow> (string \<Rightarrow> string list) \<Rightarrow> file_system \<Rightarrow> bulk_args \<Rightarrow> log_entry list \<times> bool" where
  "transfer_read zone globbing files args =
     (if \<not> ba_no_transfer args \<and> ba_transfer args \<noteq> []
      then let (es, at_end, p) = iter_files globbing files (plain (parse_transfer_log zone)) (ba_from args) (ba_to args) (ba_transfer args) ()
           in (es, at_end)
      else ([], True))"

definition extended_read ::
  "zone \<Rightarrow> time \<Rightarrow> sessions \<Rightarrow> (string \<Rightarrow> string list) \<Rightarrow> file_system \<Rightarrow> bulk_args \<Rightarrow> log_entry list \<times> bool" where
  "extended_read zone clock ss globbing files args =
     (if \<not> ba_no_extended args \<and> ba_extended args \<noteq> []
      then let (es, at_end, p) = iter_files globbing files (parse_extended_log zone clock) (ba_from args) (ba_to args) (ba_extended args) ss
           in (es, at_end)
      else ([], True))"

abbreviation transfer_entries :: "zone \<Rightarrow> (string \<Rightarrow> string list) \<Rightarrow> file_system \<Rightarrow> bulk_args \<Rightarrow> log_entry list" where
  "transfer_entries zone globbing files args \<equiv> fst (transfer_read zone globbing files args)"

abbreviation extended_entries ::
  "zone \<Rightarrow> time \<Rightarrow> sessions \<Rightarrow> (string \<Rightarrow> string list) \<Rightarrow> file_system \<Rightarrow> bulk_args \<Rightarrow> log_entry list" where
  "extended_entries zone clock ss globbing files args \<equiv> fst (extended_read zone clock ss globbing files args)"

text \<open>
  \<open>run_bulk\<close>, with what it returns (\<open>None\<close> when an exception leaves it). The registration is the
  first request unless it is a dry run; its answer is not used.
\<close>

definition run_bulk ::
  "zone \<Rightarrow> time \<Rightarrow> sessions \<Rightarrow> (string \<Rightarrow> string list) \<Rightarrow> file_system \<Rightarrow> net \<Rightarrow> bulk_args \<Rightarrow> bool option \<times> bulk" where
  "run_bulk zone clock ss globbing files net args =
     (let s0 = \<lparr>bk_batch = [], bk_sent = 0, bk_failed = 0, bk_calls = (if ba_dry args then 0 else 1), bk_log = [], bk_dead = False\<rparr>;
          send = send_entries (batch_size args) (ba_dry args) net;
          s1 = send (transfer_read zone globbing files args) s0;
          s2 = (if bk_dead s1 then s1 else send (extended_read zone clock ss globbing files args) s1)
      in (if bk_dead s2 then None else Some (bk_failed s2 = 0), s2))"

section \<open>Every entry is accounted for\<close>

definition entries_where :: "bool \<Rightarrow> bulk \<Rightarrow> nat" where
  "entries_where ok s = sum_list (map (length \<circ> snd) (filter (\<lambda>x. fst x = ok) (bk_log s)))"

text \<open>\<open>es\<close> are the entries that were read so far.\<close>

definition bulk_ok :: "nat \<Rightarrow> log_entry list \<Rightarrow> bulk \<Rightarrow> bool" where
  "bulk_ok limit es s \<longleftrightarrow> concat (map snd (bk_log s)) @ bk_batch s = es
     \<and> bk_sent s = int (entries_where True s) \<and> bk_failed s = int (entries_where False s)
     \<and> list_all (\<lambda>(ok, b). b \<noteq> [] \<and> length b \<le> limit) (bk_log s)"

lemmas bulk_defs = bulk_ok_def entries_where_def

lemma flush_batch_ok:
  assumes "bulk_ok limit es s" "length (bk_batch s) \<le> limit" "\<not> bk_dead (flush_batch dry net s)"
  shows "bulk_ok limit es (flush_batch dry net s) \<and> bk_batch (flush_batch dry net s) = []"
proof (cases "bk_batch s = []")
  case True
  then show ?thesis using assms(1) by (simp add: flush_batch_def)
next
  case False
  consider "dry" | "\<not> dry" "batch_answer (net (bk_calls s)) = None" | "\<not> dry" "batch_answer (net (bk_calls s)) = Some True"
    | "\<not> dry" "batch_answer (net (bk_calls s)) = Some False" "batch_answer (net (bk_calls s + 1)) = None"
    | "\<not> dry" "batch_answer (net (bk_calls s)) = Some False" "batch_answer (net (bk_calls s + 1)) = Some True"
    | "\<not> dry" "batch_answer (net (bk_calls s)) = Some False" "batch_answer (net (bk_calls s + 1)) = Some False"
    by (metis (full_types) option.exhaust)
  then show ?thesis
    using False assms by cases (auto simp: flush_batch_def send_batch_def bulk_defs Let_def)
qed

lemma flush_batch_alive: "\<not> bk_dead (flush_batch dry net s) \<Longrightarrow> \<not> bk_dead s"
  by (auto simp: flush_batch_def send_batch_def Let_def split: option.splits bool.splits if_splits)

lemma push_entry_ok:
  assumes "0 < limit" "bulk_ok limit es s" "length (bk_batch s) < limit" "\<not> bk_dead (push_entry limit dry net e s)"
  shows "bulk_ok limit (es @ [e]) (push_entry limit dry net e s) \<and> length (bk_batch (push_entry limit dry net e s)) < limit"
proof -
  let ?s1 = "s\<lparr>bk_batch := bk_batch s @ [e]\<rparr>"
  have s: "bulk_ok limit (es @ [e]) ?s1" "length (bk_batch ?s1) \<le> limit" using assms(2,3) by (auto simp: bulk_defs)
  have p: "push_entry limit dry net e s = (if bk_dead s then s else if limit \<le> length (bk_batch ?s1) then flush_batch dry net ?s1 else ?s1)"
    by (simp add: push_entry_def Let_def)
  show ?thesis using flush_batch_ok [OF s, of dry net] s assms(1,4) unfolding p by (auto split: if_splits)
qed

lemma push_entry_alive: "\<not> bk_dead (push_entry limit dry net e s) \<Longrightarrow> \<not> bk_dead s"
  by (auto simp: push_entry_def)

lemma push_entries_ok:
  assumes "0 < limit"
  shows "bulk_ok limit es0 s \<Longrightarrow> length (bk_batch s) < limit \<Longrightarrow> \<not> bk_dead (fold (push_entry limit dry net) es s) \<Longrightarrow>
    bulk_ok limit (es0 @ es) (fold (push_entry limit dry net) es s)
    \<and> length (bk_batch (fold (push_entry limit dry net) es s)) < limit"
proof (induction es arbitrary: es0 s)
  case (Cons e es)
  let ?s1 = "push_entry limit dry net e s"
  have "\<not> bk_dead (fold (push_entry limit dry net) xs t) \<Longrightarrow> \<not> bk_dead t" for xs t
    by (induction xs arbitrary: t) (auto dest: push_entry_alive)
  then have "\<not> bk_dead ?s1" using Cons.prems(3) by simp
  then have "bulk_ok limit (es0 @ [e]) ?s1 \<and> length (bk_batch ?s1) < limit"
    by (rule push_entry_ok [OF assms Cons.prems(1,2)])
  then show ?case using Cons.IH [of "es0 @ [e]" ?s1] Cons.prems(3) by simp
qed simp

lemma send_entries_ok:
  assumes "0 < limit" "bulk_ok limit es0 s" "bk_batch s = []" "\<not> bk_dead (send_entries limit dry net r s)"
  shows "bulk_ok limit (es0 @ fst r) (send_entries limit dry net r s) \<and> bk_batch (send_entries limit dry net r s) = []"
proof -
  let ?s1 = "fold (push_entry limit dry net) (fst r) s"
  have alive: "\<not> bk_dead ?s1" "snd r" using assms(4) by (auto simp: send_entries_def Let_def split: if_splits)
  then have "bulk_ok limit (es0 @ fst r) ?s1 \<and> length (bk_batch ?s1) < limit"
    using assms by (intro push_entries_ok) simp_all
  then show ?thesis using flush_batch_ok [of limit "es0 @ fst r" ?s1 dry net] assms(4) alive
    by (simp add: send_entries_def Let_def)
qed

lemma iter_lines_period: "e \<in> set (fst (iter_lines f from_t to_t p ls)) \<Longrightarrow> in_period from_t to_t e"
  by (induction ls arbitrary: p) (auto simp: case_prod_beta Let_def split: option.splits if_splits)

lemma iter_files_period: "e \<in> set (fst (iter_files globbing files f from_t to_t pat p)) \<Longrightarrow> in_period from_t to_t e"
proof -
  have one: "e \<in> set (fst (iter_file files f from_t to_t path p)) \<Longrightarrow> in_period from_t to_t e" for path p
    using iter_lines_period by (auto simp: iter_file_def case_prod_beta Let_def split: option.splits)
  have "e \<in> set (fst (iter_paths files f from_t to_t paths p)) \<Longrightarrow> in_period from_t to_t e" for paths p
    by (induction paths arbitrary: p) (auto simp: case_prod_beta Let_def dest: one split: if_splits)
  then show "e \<in> set (fst (iter_files globbing files f from_t to_t pat p)) \<Longrightarrow> ?thesis"
    using one by (auto simp: iter_files_def Let_def split: if_splits)
qed

lemma dry_calls: "ba_dry args \<Longrightarrow> bk_calls (snd (run_bulk zone clock ss globbing files net args)) = 0"
proof -
  have "bk_calls (flush_batch True net s) = bk_calls s" for s by (simp add: flush_batch_def Let_def)
  then have "bk_calls (push_entry n True net e s) = bk_calls s" for n e s by (simp add: push_entry_def Let_def)
  then have "bk_calls (fold (push_entry n True net) es s) = bk_calls s" for n es s by (induction es arbitrary: s) auto
  then have "bk_calls (send_entries n True net r s) = bk_calls s" for n r s
    using \<open>\<And>s. bk_calls (flush_batch True net s) = bk_calls s\<close> by (simp add: send_entries_def Let_def)
  then show "ba_dry args \<Longrightarrow> ?thesis" by (simp add: run_bulk_def Let_def)
qed

text \<open>
  C28: a run that ends accounts for every entry of the period: the batches, in the order of the files
  and none longer than the server takes, are exactly the selected entries; those of the accepted
  batches are counted as sent, the others as failed, and the run reports success when none
  failed. A dry run sends no request.
\<close>

theorem bulk_accounts_for_every_entry:
  assumes "run_bulk zone clock ss globbing files net args = (Some ok, s)"
  shows "let es = transfer_entries zone globbing files args @ extended_entries zone clock ss globbing files args in
      concat (map snd (bk_log s)) = es
    \<and> bk_sent s = int (entries_where True s) \<and> bk_failed s = int (entries_where False s)
    \<and> bk_sent s + bk_failed s = int (length es)
    \<and> (ok \<longleftrightarrow> list_all fst (bk_log s))
    \<and> list_all (\<lambda>(ok, b). b \<noteq> [] \<and> length b \<le> 500) (bk_log s)
    \<and> list_all (in_period (ba_from args) (ba_to args)) es
    \<and> (ba_dry args \<longrightarrow> bk_calls s = 0)"
proof -
  let ?n = "batch_size args" and ?t = "transfer_entries zone globbing files args"
    and ?e = "extended_entries zone clock ss globbing files args"
  let ?s0 = "\<lparr>bk_batch = [], bk_sent = 0, bk_failed = 0, bk_calls = (if ba_dry args then 0 else 1), bk_log = [], bk_dead = False\<rparr>"
  let ?s1 = "send_entries ?n (ba_dry args) net (transfer_read zone globbing files args) ?s0"
  have n: "0 < ?n" "?n \<le> 500" by (simp_all add: batch_size_def MAX_BATCH_def)
  have alive: "\<not> bk_dead ?s1" "s = send_entries ?n (ba_dry args) net (extended_read zone clock ss globbing files args) ?s1" "\<not> bk_dead s" "ok = (bk_failed s = 0)"
    using assms by (auto simp: run_bulk_def Let_def split: if_splits)
  have "bulk_ok ?n [] ?s0" by (simp add: bulk_defs)
  from send_entries_ok [OF n(1) this _ alive(1)] have "bulk_ok ?n ?t ?s1" "bk_batch ?s1 = []" by simp_all
  from send_entries_ok [OF n(1) this, of "ba_dry args" net "extended_read zone clock ss globbing files args"] have s: "bulk_ok ?n (?t @ ?e) s" "bk_batch s = []"
    using alive(2,3) by simp_all
  have count: "length (concat (map snd l)) = sum_list (map (length \<circ> snd) (filter (\<lambda>x. fst x) l))
      + sum_list (map (length \<circ> snd) (filter (\<lambda>x. \<not> fst x) l))" for l :: "(bool \<times> log_entry list) list"
    by (induction l) auto
  have none: "list_all (\<lambda>(ok, b). b \<noteq> [] \<and> length b \<le> k) l \<Longrightarrow>
      sum_list (map (length \<circ> snd) (filter (\<lambda>x. \<not> fst x) l)) = 0 \<longleftrightarrow> list_all fst l" for l :: "(bool \<times> log_entry list) list" and k
    by (induction l) auto
  have "concat (map snd (bk_log s)) = ?t @ ?e" using s by (simp add: bulk_ok_def)
  moreover have "list_all (\<lambda>(ok, b). b \<noteq> [] \<and> length b \<le> 500) (bk_log s)"
    using s(1) n(2) by (auto simp: bulk_ok_def list_all_iff)
  moreover have "list_all (in_period (ba_from args) (ba_to args)) (?t @ ?e)"
    by (auto simp: list_all_iff transfer_read_def extended_read_def case_prod_beta Let_def dest: iter_files_period split: if_splits)
  moreover have "ba_dry args \<longrightarrow> bk_calls s = 0"
    using dry_calls [of args zone clock ss globbing files net] assms by simp
  ultimately show ?thesis
    using s count [of "bk_log s"] none [of ?n "bk_log s"] alive(4) by (simp add: bulk_defs Let_def)
qed

text \<open>
  The help says that the end date is included, but \<open>date_to\<close> is its midnight: every entry of that
  day later than midnight is left out.
\<close>

lemma last_day_left_out:
  "parse_date zone s = Inr (Some t) \<Longrightarrow> t < e_log_time e \<Longrightarrow> \<not> in_period date_from (Some t) e"
  by (simp add: in_period_def)

text \<open>A run ends with a result when every file is read to its end and every answer is JSON as the server writes it.\<close>

lemma iter_files_whole:
  assumes "\<forall>path lines at_end. files path = Some (lines, at_end) \<longrightarrow> at_end"
  shows "fst (snd (iter_files globbing files f from_t to_t pat p))"
proof -
  have one: "fst (snd (iter_file files f from_t to_t path p))" for path p
    using assms by (auto simp: iter_file_def case_prod_beta Let_def split: option.split)
  then have "fst (snd (iter_paths files f from_t to_t paths p))" for paths p
    by (induction paths arbitrary: p) (simp_all add: case_prod_beta Let_def)
  then show ?thesis using one by (simp add: iter_files_def Let_def)
qed

lemma run_bulk_ends:
  assumes "\<forall>n. batch_answer (net n) \<noteq> None" and "\<forall>path lines at_end. files path = Some (lines, at_end) \<longrightarrow> at_end"
  shows "\<exists>ok. fst (run_bulk zone clock ss globbing files net args) = Some ok"
proof -
  have flush: "bk_dead (flush_batch dry net s) = bk_dead s" for dry s
  proof -
    obtain x y where "batch_answer (net (bk_calls s)) = Some x" "batch_answer (net (bk_calls s + 1)) = Some y"
      using assms(1) by (metis option.exhaust)
    then show ?thesis by (auto simp: flush_batch_def send_batch_def Let_def split: bool.split)
  qed
  then have "bk_dead (push_entry n dry net e s) = bk_dead s" for n dry e s by (simp add: push_entry_def Let_def)
  then have "bk_dead (fold (push_entry n dry net) es s) = bk_dead s" for n dry es s by (induction es arbitrary: s) auto
  then have "snd r \<Longrightarrow> bk_dead (send_entries n dry net r s) = bk_dead s" for n dry r s
    using flush by (simp add: send_entries_def Let_def)
  moreover have "snd (transfer_read zone globbing files args)" "snd (extended_read zone clock ss globbing files args)"
    by (simp_all add: transfer_read_def extended_read_def case_prod_beta Let_def iter_files_whole [OF assms(2)])
  ultimately show ?thesis by (simp add: run_bulk_def Let_def)
qed

definition sample_args :: bulk_args where
  "sample_args = \<lparr>ba_transfer = ''t'', ba_extended = [], ba_from = None, ba_to = None, ba_batch = 2, ba_dry = False,
     ba_no_extended = True, ba_no_transfer = False\<rparr>"

definition sample_line :: string where
  "sample_line = ''Mon Jan  5 10:00:00 2026 1 10.0.0.9 12 /a.txt b _ i r kim ftp 0 * c'' @ [LF]"

definition sample_files :: file_system where
  "sample_files path = (if path = ''t'' then Some ([sample_line, sample_line, sample_line], True) else None)"

definition flaky :: net where
  "flaky n = (if n = 2 then Status 200 (JsonObj []) else RequestException)"

theorem bulk_accounts_for_every_entry_witness:
  "let s = snd (run_bulk (\<lambda>_. 0) 0 no_sessions (\<lambda>_. []) sample_files flaky sample_args) in
   concat (map snd (bk_log s)) = List.map_filter (parse_transfer_log (\<lambda>_. 0)) [sample_line, sample_line, sample_line]
   \<and> list_all (\<lambda>(ok, b). length b \<le> 500) (bk_log s)"
proof -
  let ?run = "run_bulk (\<lambda>_. 0) 0 no_sessions (\<lambda>_. []) sample_files flaky sample_args"
  have "\<forall>n. batch_answer (flaky n) \<noteq> None" by (auto simp: flaky_def batch_answer_def)
  moreover have "\<forall>path lines at_end. sample_files path = Some (lines, at_end) \<longrightarrow> at_end" by (simp add: sample_files_def)
  ultimately obtain ok where "fst ?run = Some ok" using run_bulk_ends by blast
  then have run: "?run = (Some ok, snd ?run)" by (simp add: prod_eq_iff)
  have all: "fst (iter_lines (plain g) None None () ls) = List.map_filter g ls" for g ls
    by (induction ls) (auto simp: plain_def in_period_def List.map_filter_simps case_prod_beta split: option.split)
  have es: "transfer_entries (\<lambda>_. 0) (\<lambda>_. []) sample_files sample_args
      = List.map_filter (parse_transfer_log (\<lambda>_. 0)) [sample_line, sample_line, sample_line]"
    "extended_entries (\<lambda>_. 0) 0 no_sessions (\<lambda>_. []) sample_files sample_args = []"
    by (simp_all add: transfer_read_def extended_read_def sample_args_def iter_files_def iter_file_def
        sample_files_def all case_prod_beta Let_def del: iter_lines.simps)
  show ?thesis using bulk_accounts_for_every_entry [OF run] unfolding es by (auto simp: Let_def list_all_iff)
qed

end
