(* ===== verification/Appearance.thy ===== *)
theory Appearance
  imports Storage "HOL-Library.Word"
begin

text \<open>
  The login screen: \<open>login_config.py\<close> and its routes in \<open>routers/settings.py\<close>. Everybody
  sees this screen before the login, so what an administrator may put on it is checked: the
  lengths of the texts, the form of the colour, and the size and the format of the images.

  An image is a list of bytes and is kept in the configuration table as a data URI, with the
  Base64 encoding of the standard library. \<open>dsub\<close> is the default of the line below the title,
  whose Korean letters the model's characters do not have. A \<open>ValueError\<close> is \<open>Inl\<close> with a tag
  for its text.
\<close>

section \<open>Base64\<close>

definition B64 :: string where
  "B64 = ''ABCDEFGHIJKLMNOPQRSTUVWXYZabcdefghijklmnopqrstuvwxyz0123456789+/''"

definition b64_char :: "nat \<Rightarrow> char" where
  "b64_char n = B64 ! n"

fun b64encode :: "8 word list \<Rightarrow> string" where
  "b64encode [] = []"
| "b64encode [a] = [b64_char (unat a div 4), b64_char (unat a mod 4 * 16), CHR ''='', CHR ''='']"
| "b64encode [a, b] = [b64_char (unat a div 4), b64_char (unat a mod 4 * 16 + unat b div 16),
     b64_char (unat b mod 16 * 4), CHR ''='']"
| "b64encode (a # b # c # rest) =
     b64_char (unat a div 4) # b64_char (unat a mod 4 * 16 + unat b div 16)
     # b64_char (unat b mod 16 * 4 + unat c div 64) # b64_char (unat c mod 64) # b64encode rest"

section \<open>Images\<close>

record image_kind =
  ik_key :: string
  ik_max_bytes :: nat

definition IMAGE_KINDS :: "(string, image_kind) dict" where
  "IMAGE_KINDS = [(''bg'', \<lparr>ik_key = ''login_bg_image'', ik_max_bytes = 2 * 1024 * 1024\<rparr>),
                  (''logo'', \<lparr>ik_key = ''login_logo_image'', ik_max_bytes = 512 * 1024\<rparr>)]"

definition MAGIC :: "(8 word list \<times> string) list" where
  "MAGIC = [([0xFF, 0xD8, 0xFF], ''image/jpeg''),
            ([0x89, 0x50, 0x4E, 0x47, 0x0D, 0x0A, 0x1A, 0x0A], ''image/png''),
            ([0x47, 0x49, 0x46, 0x38, 0x37, 0x61], ''image/gif''),
            ([0x47, 0x49, 0x46, 0x38, 0x39, 0x61], ''image/gif'')]"

text \<open>The format is read from the first bytes; WebP is \<open>RIFF\<close>, four bytes of length, \<open>WEBP\<close>.\<close>

definition sniff_image :: "8 word list \<Rightarrow> string + string" where
  "sniff_image data =
     (case List.find (\<lambda>(magic, mime). take (length magic) data = magic) MAGIC of
        Some (magic, mime) \<Rightarrow> Inr mime
      | None \<Rightarrow>
          if take 4 data = [0x52, 0x49, 0x46, 0x46] \<and> take 4 (drop 8 data) = [0x57, 0x45, 0x42, 0x50]
          then Inr ''image/webp''
          else Inl ''only jpg, png, gif and webp'')"

definition to_data_uri :: "8 word list \<Rightarrow> string + string" where
  "to_data_uri data =
     (case sniff_image data of
        Inl e \<Rightarrow> Inl e
      | Inr mime \<Rightarrow> Inr (''data:'' @ mime @ '';base64,'' @ b64encode data))"

definition validate_image :: "string \<Rightarrow> 8 word list \<Rightarrow> string + string" where
  "validate_image kind data =
     (case map_of IMAGE_KINDS kind of
        None \<Rightarrow> Inl ''unknown kind of image''
      | Some spec \<Rightarrow>
          if data = [] then Inl ''empty file''
          else if length data > ik_max_bytes spec then Inl ''image too large''
          else to_data_uri data)"

section \<open>Texts\<close>

definition TITLE_KEY :: string where "TITLE_KEY = ''login_title''"
definition SUBTITLE_KEY :: string where "SUBTITLE_KEY = ''login_subtitle''"
definition WARNING_KEY :: string where "WARNING_KEY = ''login_warning''"
definition BG_COLOR_KEY :: string where "BG_COLOR_KEY = ''login_bg_color''"
definition DEFAULT_TITLE :: string where "DEFAULT_TITLE = ''SolTrace''"
definition MAX_TITLE :: nat where "MAX_TITLE = 40"
definition MAX_SUBTITLE :: nat where "MAX_SUBTITLE = 120"
definition MAX_WARNING :: nat where "MAX_WARNING = 2000"

definition is_hex :: "char \<Rightarrow> bool" where
  "is_hex c = (let n = (of_char c :: nat) in is_digit c \<or> (65 \<le> n \<and> n \<le> 70) \<or> (97 \<le> n \<and> n \<le> 102))"

text \<open>\<open>^#[0-9A-Fa-f]{6}$\<close>, where \<open>$\<close> also matches before a line feed at the end.\<close>

definition is_hex_color :: "string \<Rightarrow> bool" where
  "is_hex_color s =
     (let t = (if s \<noteq> [] \<and> last s = LF then butlast s else s) in
      length t = 7 \<and> hd t = CHR ''#'' \<and> list_all is_hex (tl t))"

record screen_text =
  sx_title :: string
  sx_subtitle :: string
  sx_warning :: string
  sx_bg_color :: string

definition normalize_text :: "string \<Rightarrow> string \<Rightarrow> string \<Rightarrow> string \<Rightarrow> string + screen_text" where
  "normalize_text title subtitle warning bg_color =
     (let title = strip_input title; subtitle = strip_input subtitle;
          warning = strip_input warning; bg_color = strip_input bg_color in
      if length title > MAX_TITLE then Inl ''title too long''
      else if length subtitle > MAX_SUBTITLE then Inl ''subtitle too long''
      else if length warning > MAX_WARNING then Inl ''warning too long''
      else if bg_color \<noteq> [] \<and> \<not> is_hex_color bg_color then Inl ''colour is not #RRGGBB''
      else Inr \<lparr>sx_title = title, sx_subtitle = subtitle, sx_warning = warning, sx_bg_color = map to_lower bg_color\<rparr>)"

section \<open>Loading and saving\<close>

record login_screen = screen_text +
  ls_bg_image :: string
  ls_logo_image :: string

definition load_screen :: "string \<Rightarrow> accounts \<Rightarrow> login_screen" where
  "load_screen dsub ac =
     \<lparr>sx_title = or_else (get_config TITLE_KEY ac) DEFAULT_TITLE,
      sx_subtitle = or_else (get_config SUBTITLE_KEY ac) dsub,
      sx_warning = or_else (get_config WARNING_KEY ac) [],
      sx_bg_color = or_else (get_config BG_COLOR_KEY ac) [],
      ls_bg_image = or_else (get_config ''login_bg_image'' ac) [],
      ls_logo_image = or_else (get_config ''login_logo_image'' ac) []\<rparr>"

definition save_text :: "string \<Rightarrow> string \<Rightarrow> string \<Rightarrow> string \<Rightarrow> accounts \<Rightarrow> string + accounts" where
  "save_text title subtitle warning bg_color ac =
     (case normalize_text title subtitle warning bg_color of
        Inl e \<Rightarrow> Inl e
      | Inr v \<Rightarrow> Inr (set_config BG_COLOR_KEY (sx_bg_color v) (set_config WARNING_KEY (sx_warning v)
                  (set_config SUBTITLE_KEY (sx_subtitle v) (set_config TITLE_KEY (sx_title v) ac)))))"

text \<open>An unknown kind is a \<open>KeyError\<close> in \<open>save_image\<close>; its caller has excluded it.\<close>

definition save_image :: "string \<Rightarrow> 8 word list \<Rightarrow> accounts \<Rightarrow> string + accounts" where
  "save_image kind data ac =
     (case map_of IMAGE_KINDS kind of
        None \<Rightarrow> Inl ''KeyError''
      | Some spec \<Rightarrow> (case validate_image kind data of
            Inl e \<Rightarrow> Inl e
          | Inr uri \<Rightarrow> Inr (set_config (ik_key spec) uri ac)))"

definition clear_image :: "string \<Rightarrow> accounts \<Rightarrow> string + accounts" where
  "clear_image kind ac =
     (case map_of IMAGE_KINDS kind of
        None \<Rightarrow> Inl ''unknown kind of image''
      | Some spec \<Rightarrow> Inr (set_config (ik_key spec) [] ac))"

section \<open>The routes\<close>

definition save_login_config :: "string \<Rightarrow> string \<Rightarrow> string \<Rightarrow> string \<Rightarrow> accounts \<Rightarrow> accounts http" where
  "save_login_config title subtitle warning bg_color ac = or_422 (save_text title subtitle warning bg_color ac)"

text \<open>The upload reads one byte more than is allowed, which is enough to see that it is too large.\<close>

definition upload_login_image :: "string \<Rightarrow> 8 word list \<Rightarrow> accounts \<Rightarrow> accounts http" where
  "upload_login_image kind content ac =
     (case map_of IMAGE_KINDS kind of
        None \<Rightarrow> Inl (HTTPException 404 ''unknown kind of image'')
      | Some spec \<Rightarrow> or_422 (save_image kind (take (ik_max_bytes spec + 1) content) ac))"

definition delete_login_image :: "string \<Rightarrow> accounts \<Rightarrow> accounts http" where
  "delete_login_image kind ac =
     (case clear_image kind ac of Inl e \<Rightarrow> Inl (HTTPException 404 e) | Inr ac' \<Rightarrow> Inr ac')"

datatype screen_request =
    SaveText string string string string
  | UploadImage string "8 word list"
  | DeleteImage string

fun handle_screen :: "screen_request \<Rightarrow> accounts \<Rightarrow> accounts http" where
  "handle_screen (SaveText t s w c) ac = save_login_config t s w c ac"
| "handle_screen (UploadImage kind content) ac = upload_login_image kind content ac"
| "handle_screen (DeleteImage kind) ac = delete_login_image kind ac"

definition serve_screen :: "screen_request \<Rightarrow> accounts \<Rightarrow> accounts" where
  "serve_screen r ac = (case handle_screen r ac of Inl e \<Rightarrow> ac | Inr ac' \<Rightarrow> ac')"

definition serve_screens :: "screen_request list \<Rightarrow> accounts \<Rightarrow> accounts" where
  "serve_screens rs ac = fold serve_screen rs ac"

section \<open>Base64 loses nothing\<close>

text \<open>What a browser does with the text: it reads it back four characters at a time.\<close>

definition b64_value :: "char \<Rightarrow> nat" where
  "b64_value c = length (takeWhile ((\<noteq>) c) B64)"

fun b64decode :: "string \<Rightarrow> 8 word list" where
  "b64decode (p # q # r # s # rest) =
     (let a = b64_value p; b = b64_value q; c = b64_value r; d = b64_value s in
      if r = CHR ''='' then [of_nat (a * 4 + b div 16)]
      else if s = CHR ''='' then [of_nat (a * 4 + b div 16), of_nat (b mod 16 * 16 + c div 4)]
      else of_nat (a * 4 + b div 16) # of_nat (b mod 16 * 16 + c div 4) # of_nat (c mod 4 * 64 + d) # b64decode rest)"
| "b64decode _ = []"

lemma b64_table: "list_all (\<lambda>n. b64_value (b64_char n) = n \<and> b64_char n \<in> set B64) [0..<64]"
  by code_simp

lemma b64_char_facts:
  assumes "n < 64"
  shows "b64_value (b64_char n) = n" and "b64_char n \<in> set B64" and "b64_char n \<noteq> CHR ''=''"
proof -
  show "b64_value (b64_char n) = n" and m: "b64_char n \<in> set B64"
    using b64_table assms by (simp_all add: list_all_iff)
  have "CHR ''='' \<notin> set B64" by (simp add: B64_def)
  then show "b64_char n \<noteq> CHR ''=''" using m by metis
qed

lemma byte_lt: "unat (a :: 8 word) < 256"
  using unsigned_less [of a] by simp

lemma byte_back: "of_nat (unat a) = (a :: 8 word)"
  by simp

lemma sextets [simp]:
  fixes a b :: "8 word"
  shows "unat a div 4 < 64" "unat a mod 4 * 16 + unat b div 16 < 64" "unat a mod 16 * 4 + unat b div 64 < 64"
    "unat a mod 64 < 64" "unat a mod 4 * 16 < 64" "unat a mod 16 * 4 < 64"
proof -
  have "unat a div 4 < 64" "unat b div 16 < 16" "unat b div 64 < 4"
    using byte_lt [of a] byte_lt [of b] by (simp_all add: less_mult_imp_div_less)
  moreover have "unat a mod 4 < 4" "unat a mod 16 < 16" "unat a mod 64 < 64" by simp_all
  ultimately show "unat a div 4 < 64" "unat a mod 4 * 16 + unat b div 16 < 64"
    "unat a mod 16 * 4 + unat b div 64 < 64" "unat a mod 64 < 64"
    "unat a mod 4 * 16 < 64" "unat a mod 16 * 4 < 64" by linarith+
qed

lemma octets:
  fixes x y :: nat
  assumes "y < 256"
  shows "x div 4 * 4 + (x mod 4 * 16 + y div 16) div 16 = x"
    and "(x mod 4 * 16 + y div 16) mod 16 * 16 + (y mod 16 * 4 + z div 64) div 4 = y \<or> z \<ge> 256"
proof -
  have y: "y div 16 < 16" using assms by simp
  show "x div 4 * 4 + (x mod 4 * 16 + y div 16) div 16 = x" using y by simp
  have "z div 64 < 4 \<or> z \<ge> 256" by auto
  then show "(x mod 4 * 16 + y div 16) mod 16 * 16 + (y mod 16 * 4 + z div 64) div 4 = y \<or> z \<ge> 256"
    using y by auto
qed

lemma octet_last: "(z :: nat) < 256 \<Longrightarrow> (y * 4 + z div 64) mod 4 * 64 + z mod 64 = z"
proof -
  assume "z < 256"
  then have "z div 64 < 4" by simp
  then have "(y * 4 + z div 64) mod 4 = z div 64" by simp
  then show ?thesis by simp
qed

lemma b64_roundtrip: "b64decode (b64encode data) = data"
proof (induction data rule: b64encode.induct)
  case 1
  then show ?case by simp
next
  case (2 a)
  have o: "unat a div 4 * 4 + unat a mod 4 * 16 div 16 = unat a"
    using octets(1) [where y = 0 and x = "unat a"] by simp
  show ?case
    by (simp only: b64encode.simps b64decode.simps Let_def b64_char_facts sextets o if_True refl byte_back)
next
  case (3 a b)
  have o: "unat a div 4 * 4 + (unat a mod 4 * 16 + unat b div 16) div 16 = unat a"
      "(unat a mod 4 * 16 + unat b div 16) mod 16 * 16 + unat b mod 16 * 4 div 4 = unat b"
    using octets(1) [OF byte_lt] octets(2) [OF byte_lt, where x = "unat a" and z = 0] by simp_all
  show ?case
    by (simp only: b64encode.simps b64decode.simps Let_def b64_char_facts sextets o if_False if_True refl byte_back)
next
  case (4 a b c rest)
  have o: "unat a div 4 * 4 + (unat a mod 4 * 16 + unat b div 16) div 16 = unat a"
      "(unat a mod 4 * 16 + unat b div 16) mod 16 * 16 + (unat b mod 16 * 4 + unat c div 64) div 4 = unat b"
      "(unat b mod 16 * 4 + unat c div 64) mod 4 * 64 + unat c mod 64 = unat c"
    using octets(1) [OF byte_lt] octets(2) [OF byte_lt, where x = "unat a" and z = "unat c"] byte_lt [of c]
      octet_last [OF byte_lt] by simp_all
  show ?case
    by (simp only: b64encode.simps b64decode.simps Let_def b64_char_facts sextets o if_False refl byte_back 4)
qed

lemma b64_alphabet: "set (b64encode data) \<subseteq> insert (CHR ''='') (set B64)"
proof (induction data rule: b64encode.induct)
  case (2 a)
  show ?case by (simp add: b64_char_facts)
next
  case (3 a b)
  show ?case by (simp add: b64_char_facts)
next
  case (4 a b c rest)
  then show ?case by (simp add: b64_char_facts)
qed simp

section \<open>The screen shows what was accepted last\<close>

definition mime_types :: "string list" where
  "mime_types = [''image/jpeg'', ''image/png'', ''image/gif'', ''image/webp'']"

definition accepted_text :: "string \<Rightarrow> screen_request \<Rightarrow> screen_text option" where
  "accepted_text dsub r = (case r of
       SaveText t s w c \<Rightarrow> (case normalize_text t s w c of
           Inl e \<Rightarrow> None
         | Inr v \<Rightarrow> Some (v\<lparr>sx_title := if sx_title v = [] then DEFAULT_TITLE else sx_title v,
                            sx_subtitle := if sx_subtitle v = [] then dsub else sx_subtitle v\<rparr>))
     | _ \<Rightarrow> None)"

definition accepted_image :: "string \<Rightarrow> screen_request \<Rightarrow> string option" where
  "accepted_image kind r = (case r of
       UploadImage k data \<Rightarrow>
         if k = kind then (case validate_image kind data of Inl e \<Rightarrow> None | Inr uri \<Rightarrow> Some uri) else None
     | DeleteImage k \<Rightarrow> if k = kind then Some [] else None
     | _ \<Rightarrow> None)"

lemmas screen_keys = TITLE_KEY_def SUBTITLE_KEY_def WARNING_KEY_def BG_COLOR_KEY_def

lemma kinds [simp]:
  "map_of IMAGE_KINDS kind = (if kind = ''bg'' then Some \<lparr>ik_key = ''login_bg_image'', ik_max_bytes = 2097152\<rparr>
     else if kind = ''logo'' then Some \<lparr>ik_key = ''login_logo_image'', ik_max_bytes = 524288\<rparr> else None)"
  by (simp add: IMAGE_KINDS_def)

lemma or_else_if: "or_else (Some s) d = (if s = [] then d else s)"
  by simp

lemma validate_prefix:
  "map_of IMAGE_KINDS kind = Some spec \<Longrightarrow>
   validate_image kind (take (ik_max_bytes spec + 1) data) = validate_image kind data"
proof -
  assume spec: "map_of IMAGE_KINDS kind = Some spec"
  show ?thesis
  proof (cases "length data \<le> ik_max_bytes spec")
    case True
    then show ?thesis by simp
  next
    case False
    then have "take (ik_max_bytes spec + 1) data \<noteq> []" "data \<noteq> []"
      "length (take (ik_max_bytes spec + 1) data) > ik_max_bytes spec" by auto
    then show ?thesis using False spec unfolding validate_image_def by simp
  qed
qed

lemma serve_upload:
  "serve_screen (UploadImage kind data) ac =
     (case map_of IMAGE_KINDS kind of None \<Rightarrow> ac | Some spec \<Rightarrow>
        (case validate_image kind data of Inl e \<Rightarrow> ac | Inr uri \<Rightarrow> set_config (ik_key spec) uri ac))"
proof (cases "map_of IMAGE_KINDS kind")
  case None
  then show ?thesis by (simp only: serve_screen_def handle_screen.simps upload_login_image_def option.case sum.case)
next
  case (Some spec)
  then show ?thesis using validate_prefix [OF Some, of data]
    by (simp only: serve_screen_def handle_screen.simps upload_login_image_def save_image_def or_422_def option.case)
      (cases "validate_image kind data"; simp)
qed

lemma serve_delete:
  "serve_screen (DeleteImage kind) ac =
     (case map_of IMAGE_KINDS kind of None \<Rightarrow> ac | Some spec \<Rightarrow> set_config (ik_key spec) [] ac)"
  by (simp add: serve_screen_def delete_login_image_def clear_image_def)

lemma serve_text:
  "serve_screen (SaveText t s w c) ac =
     (case normalize_text t s w c of Inl e \<Rightarrow> ac
      | Inr v \<Rightarrow> set_config BG_COLOR_KEY (sx_bg_color v) (set_config WARNING_KEY (sx_warning v)
                  (set_config SUBTITLE_KEY (sx_subtitle v) (set_config TITLE_KEY (sx_title v) ac))))"
  by (simp add: serve_screen_def save_login_config_def save_text_def or_422_def split: sum.split)

definition texts_of :: "string \<Rightarrow> accounts \<Rightarrow> screen_text" where
  "texts_of dsub ac = screen_text.truncate (load_screen dsub ac)"

lemma texts_of_eq:
  "texts_of dsub ac = \<lparr>sx_title = or_else (get_config TITLE_KEY ac) DEFAULT_TITLE,
      sx_subtitle = or_else (get_config SUBTITLE_KEY ac) dsub,
      sx_warning = or_else (get_config WARNING_KEY ac) [],
      sx_bg_color = or_else (get_config BG_COLOR_KEY ac) []\<rparr>"
  by (simp add: texts_of_def load_screen_def screen_text.truncate_def)

interpretation screen_texts: setting "texts_of dsub" serve_screen "accepted_text dsub" for dsub
proof
  fix r v s assume "accepted_text dsub r = Some v"
  then show "texts_of dsub (serve_screen r s) = v"
    by (cases r) (auto simp: accepted_text_def serve_text texts_of_eq screen_keys split: sum.splits)
next
  fix r s assume "accepted_text dsub r = None"
  then show "texts_of dsub (serve_screen r s) = texts_of dsub s"
    by (cases r) (auto simp: accepted_text_def serve_text serve_upload serve_delete texts_of_eq screen_keys
        split: sum.splits option.splits)
qed

interpretation screen_bg: setting "\<lambda>ac. ls_bg_image (load_screen dsub ac)" serve_screen "accepted_image ''bg''" for dsub
proof
  fix r v s assume "accepted_image ''bg'' r = Some v"
  then show "ls_bg_image (load_screen dsub (serve_screen r s)) = v"
    by (cases r) (auto simp: accepted_image_def serve_upload serve_delete load_screen_def split: sum.splits if_splits)
next
  fix r s assume "accepted_image ''bg'' r = None"
  then show "ls_bg_image (load_screen dsub (serve_screen r s)) = ls_bg_image (load_screen dsub s)"
    by (cases r) (auto simp: accepted_image_def serve_text serve_upload serve_delete load_screen_def screen_keys
        split: sum.splits if_splits)
qed

interpretation screen_logo: setting "\<lambda>ac. ls_logo_image (load_screen dsub ac)" serve_screen "accepted_image ''logo''" for dsub
proof
  fix r v s assume "accepted_image ''logo'' r = Some v"
  then show "ls_logo_image (load_screen dsub (serve_screen r s)) = v"
    by (cases r) (auto simp: accepted_image_def serve_upload serve_delete load_screen_def split: sum.splits if_splits)
next
  fix r s assume "accepted_image ''logo'' r = None"
  then show "ls_logo_image (load_screen dsub (serve_screen r s)) = ls_logo_image (load_screen dsub s)"
    by (cases r) (auto simp: accepted_image_def serve_text serve_upload serve_delete load_screen_def screen_keys
        split: sum.splits if_splits)
qed

lemma shows_last:
  "texts_of dsub (serve_screens rs ac) = last (texts_of dsub ac # List.map_filter (accepted_text dsub) rs)"
  "ls_bg_image (load_screen dsub (serve_screens rs ac)) =
     last (ls_bg_image (load_screen dsub ac) # List.map_filter (accepted_image ''bg'') rs)"
  "ls_logo_image (load_screen dsub (serve_screens rs ac)) =
     last (ls_logo_image (load_screen dsub ac) # List.map_filter (accepted_image ''logo'') rs)"
  unfolding serve_screens_def
  by (rule screen_texts.load_fold, rule screen_bg.load_fold, rule screen_logo.load_fold)

section \<open>What can be on the screen\<close>

definition color_ok :: "string \<Rightarrow> bool" where
  "color_ok c \<longleftrightarrow> length c = 7 \<and> hd c = CHR ''#'' \<and> list_all (\<lambda>x. is_hex x \<and> to_lower x = x) (tl c)"

definition no_markup :: "string \<Rightarrow> bool" where
  "no_markup u \<longleftrightarrow> list_all (\<lambda>c. c \<notin> set ''<>&'' \<and> c \<noteq> DQ \<and> c \<noteq> CHR 0x27) u"

definition image_ok :: "string \<Rightarrow> string \<Rightarrow> bool" where
  "image_ok kind u \<longleftrightarrow> u = [] \<or> no_markup u \<and> (\<exists>mime \<in> set mime_types. \<exists>data spec.
     map_of IMAGE_KINDS kind = Some spec \<and> data \<noteq> [] \<and> length data \<le> ik_max_bytes spec
     \<and> u = ''data:'' @ mime @ '';base64,'' @ b64encode data)"

definition text_ok :: "string \<Rightarrow> screen_text \<Rightarrow> bool" where
  "text_ok dsub x \<longleftrightarrow> sx_title x \<noteq> [] \<and> length (sx_title x) \<le> 40
     \<and> (length (sx_subtitle x) \<le> 120 \<or> sx_subtitle x = dsub) \<and> length (sx_warning x) \<le> 2000
     \<and> (sx_bg_color x = [] \<or> color_ok (sx_bg_color x))"

definition screen_ok :: "string \<Rightarrow> login_screen \<Rightarrow> bool" where
  "screen_ok dsub s \<longleftrightarrow> text_ok dsub (screen_text.truncate s)
     \<and> image_ok ''bg'' (ls_bg_image s) \<and> image_ok ''logo'' (ls_logo_image s)"

lemma to_lower_idem [simp]: "to_lower (to_lower c) = to_lower c"
  by (simp add: to_lower_def Let_def)

lemma is_hex_lower: "is_hex c \<Longrightarrow> is_hex (to_lower c)"
  by (auto simp: is_hex_def to_lower_def is_digit_def Let_def split: if_splits)

lemma color_ok_lower: "is_hex_color (strip_input s) \<Longrightarrow> strip_input s \<noteq> [] \<Longrightarrow> color_ok (map to_lower (strip_input s))"
proof -
  assume h: "is_hex_color (strip_input s)" and ne: "strip_input s \<noteq> []"
  have sp: "is_space LF" by (simp add: is_space_def)
  have "last (strip_input s) \<noteq> LF"
    using strip_last ne sp unfolding strip_input_def by metis
  then have t: "length (strip_input s) = 7" "hd (strip_input s) = CHR ''#''" "list_all is_hex (tl (strip_input s))"
    using h by (simp_all add: is_hex_color_def Let_def)
  have hash: "to_lower (CHR ''#'') = CHR ''#''" by (simp add: to_lower_def)
  show ?thesis using t hash ne is_hex_lower
    by (auto simp: color_ok_def hd_map map_tl [symmetric] list_all_iff)
qed

lemma normalize_ok:
  assumes "normalize_text t s w c = Inr v"
  shows "length (sx_title v) \<le> 40 \<and> length (sx_subtitle v) \<le> 120 \<and> length (sx_warning v) \<le> 2000
    \<and> (sx_bg_color v = [] \<or> color_ok (sx_bg_color v))"
  using assms color_ok_lower [of c]
  by (cases "strip_input c = []")
    (auto simp: normalize_text_def Let_def MAX_TITLE_def MAX_SUBTITLE_def MAX_WARNING_def split: if_splits)

lemma accepted_text_ok: "accepted_text dsub r = Some x \<Longrightarrow> text_ok dsub x"
  by (cases r) (auto simp: accepted_text_def text_ok_def DEFAULT_TITLE_def dest: normalize_ok split: sum.splits if_splits)

lemma sniff_mime: "sniff_image data = Inr mime \<Longrightarrow> mime \<in> set mime_types"
  by (auto simp: sniff_image_def MAGIC_def mime_types_def split: if_splits)

lemma uri_no_markup:
  assumes "mime \<in> set mime_types"
  shows "no_markup (''data:'' @ mime @ '';base64,'' @ b64encode data)"
proof -
  have tab: "no_markup (CHR ''='' # B64)" by code_simp
  have "no_markup (b64encode data)"
    using b64_alphabet [of data] tab unfolding no_markup_def list_all_iff by auto
  moreover have "no_markup ''data:''" "no_markup '';base64,''" "no_markup mime"
    using assms by (auto simp: no_markup_def mime_types_def)
  ultimately show ?thesis unfolding no_markup_def list_all_append by simp
qed

lemma validate_iff:
  "validate_image kind data = Inr uri \<longleftrightarrow>
   (\<exists>spec mime. map_of IMAGE_KINDS kind = Some spec \<and> data \<noteq> [] \<and> length data \<le> ik_max_bytes spec
      \<and> sniff_image data = Inr mime \<and> uri = ''data:'' @ mime @ '';base64,'' @ b64encode data)"
  by (auto simp: validate_image_def to_data_uri_def split: option.split sum.split)

lemma accepted_image_ok: "accepted_image kind r = Some u \<Longrightarrow> image_ok kind u"
proof (cases r)
  case (UploadImage k data)
  assume "accepted_image kind r = Some u"
  then have "validate_image kind data = Inr u"
    using UploadImage by (auto simp: accepted_image_def split: if_splits sum.splits)
  then obtain spec mime where v: "map_of IMAGE_KINDS kind = Some spec" "data \<noteq> []"
      "length data \<le> ik_max_bytes spec" "sniff_image data = Inr mime"
      "u = ''data:'' @ mime @ '';base64,'' @ b64encode data"
    unfolding validate_iff by blast
  then show ?thesis unfolding image_ok_def using sniff_mime [OF v(4)] uri_no_markup by blast
qed (auto simp: accepted_image_def image_ok_def split: if_splits)

lemma serve_screen_frame:
  "k \<notin> {''login_title'', ''login_subtitle'', ''login_warning'', ''login_bg_color'', ''login_bg_image'', ''login_logo_image''}
   \<Longrightarrow> get_config k (serve_screen r ac) = get_config k ac"
  "ac_users (serve_screen r ac) = ac_users ac" "ac_keys (serve_screen r ac) = ac_keys ac"
  by (cases r; simp add: serve_text serve_upload serve_delete screen_keys split: sum.split option.split;
      simp add: set_config_def)+

lemma serve_screens_frame:
  "k \<notin> {''login_title'', ''login_subtitle'', ''login_warning'', ''login_bg_color'', ''login_bg_image'', ''login_logo_image''}
   \<Longrightarrow> get_config k (serve_screens rs ac) = get_config k ac"
  "ac_users (serve_screens rs ac) = ac_users ac" "ac_keys (serve_screens rs ac) = ac_keys ac"
  unfolding serve_screens_def by (induction rs arbitrary: ac) (simp_all add: serve_screen_frame)

text \<open>
  C31: whatever is sent to the three routes, refused or accepted, in any order, the screen stays
  within its rules: a title of 1 to 40 characters, the other texts within their limits, no
  colour or one of the form \<open>#rrggbb\<close>, and each image absent or a data URI of one of the four
  formats that encodes at most the allowed number of bytes and holds no character that ends an
  attribute or starts a tag. Nothing else of the configuration, no account and no key changes.
\<close>

theorem login_screen_stays_sound:
  assumes "screen_ok dsub (load_screen dsub ac)"
  shows "screen_ok dsub (load_screen dsub (serve_screens rs ac))
    \<and> ac_users (serve_screens rs ac) = ac_users ac \<and> ac_keys (serve_screens rs ac) = ac_keys ac
    \<and> (k \<notin> {''login_title'', ''login_subtitle'', ''login_warning'', ''login_bg_color'', ''login_bg_image'', ''login_logo_image''}
       \<longrightarrow> get_config k (serve_screens rs ac) = get_config k ac)"
proof -
  let ?s = "load_screen dsub ac" and ?s' = "load_screen dsub (serve_screens rs ac)"
  have t: "screen_text.truncate ?s' = texts_of dsub (serve_screens rs ac)" by (simp add: texts_of_def)
  have "text_ok dsub (texts_of dsub (serve_screens rs ac))"
    unfolding shows_last using last_in_filter [of "texts_of dsub ac" "accepted_text dsub" rs] accepted_text_ok assms
    by (auto simp: screen_ok_def texts_of_def)
  moreover have "image_ok ''bg'' (ls_bg_image ?s')"
    unfolding shows_last using last_in_filter [of "ls_bg_image ?s" "accepted_image ''bg''" rs] accepted_image_ok assms
    by (auto simp: screen_ok_def)
  moreover have "image_ok ''logo'' (ls_logo_image ?s')"
    unfolding shows_last using last_in_filter [of "ls_logo_image ?s" "accepted_image ''logo''" rs] accepted_image_ok assms
    by (auto simp: screen_ok_def)
  ultimately show ?thesis using serve_screens_frame by (simp add: screen_ok_def t)
qed

lemma fresh_screen_ok: "ac_config ac = [] \<Longrightarrow> length dsub \<le> 120 \<Longrightarrow> screen_ok dsub (load_screen dsub ac)"
  by (simp add: screen_ok_def load_screen_def get_config_def text_ok_def image_ok_def DEFAULT_TITLE_def
      screen_text.truncate_def)

definition sample_png :: "8 word list" where
  "sample_png = [0x89, 0x50, 0x4E, 0x47, 0x0D, 0x0A, 0x1A, 0x0A]"

definition sample_screen_requests :: "screen_request list" where
  "sample_screen_requests = [SaveText '' FTP '' ''hello'' [] ''#0D1B2A'', UploadImage ''bg'' sample_png,
     UploadImage ''bg'' [0x3C, 0x73], SaveText ''x'' [] [] ''red'', DeleteImage ''logo'']"

theorem login_screen_stays_sound_witness:
  "screen_ok ''Log in.'' (load_screen ''Log in.'' (serve_screens sample_screen_requests
      \<lparr>ac_users = [], ac_config = [(''retention_months'', ''12'')], ac_ftp = [], ac_groups = [], ac_keys = [], ac_next = 0\<rparr>))
   \<and> get_config ''retention_months'' (serve_screens sample_screen_requests
      \<lparr>ac_users = [], ac_config = [(''retention_months'', ''12'')], ac_ftp = [], ac_groups = [], ac_keys = [], ac_next = 0\<rparr>)
     = Some ''12''"
proof -
  let ?ac = "\<lparr>ac_users = [], ac_config = [(''retention_months'', ''12'')], ac_ftp = [], ac_groups = [], ac_keys = [], ac_next = 0\<rparr>"
  have "screen_ok ''Log in.'' (load_screen ''Log in.'' ?ac)"
    by (simp add: screen_ok_def load_screen_def get_config_def text_ok_def image_ok_def DEFAULT_TITLE_def
        screen_text.truncate_def screen_keys)
  from login_screen_stays_sound [OF this, of sample_screen_requests "''retention_months''"]
  show ?thesis by (simp add: get_config_def)
qed

lemma handle_upload:
  "handle_screen (UploadImage kind data) ac =
      (case map_of IMAGE_KINDS kind of None \<Rightarrow> Inl (HTTPException 404 ''unknown kind of image'')
       | Some spec \<Rightarrow> (case validate_image kind data of
             Inl e \<Rightarrow> Inl (HTTPException 422 e) | Inr uri \<Rightarrow> Inr (set_config (ik_key spec) uri ac)))"
proof (cases "map_of IMAGE_KINDS kind")
  case (Some spec)
  then show ?thesis using validate_prefix [OF Some, of data]
    by (simp only: handle_screen.simps upload_login_image_def save_image_def or_422_def option.case)
      (cases "validate_image kind data"; simp)
qed (simp only: handle_screen.simps upload_login_image_def option.case)

text \<open>
  An upload is accepted exactly when the kind is known, the file is not empty, has at most the
  allowed size and starts like one of the four formats. Then the screen holds it with the
  format its own bytes tell, every byte can be read back from the text, and the other entries
  of the configuration are as they were.
\<close>

theorem uploaded_image_is_kept:
  "((\<exists>ac'. handle_screen (UploadImage kind data) ac = Inr ac') \<longleftrightarrow>
     (\<exists>spec mime. map_of IMAGE_KINDS kind = Some spec \<and> data \<noteq> [] \<and> length data \<le> ik_max_bytes spec
       \<and> sniff_image data = Inr mime))
   \<and> (handle_screen (UploadImage kind data) ac = Inr ac' \<longrightarrow>
     (\<exists>spec mime text. map_of IMAGE_KINDS kind = Some spec \<and> sniff_image data = Inr mime
       \<and> get_config k ac' = (if k = ik_key spec then Some (''data:'' @ mime @ '';base64,'' @ text) else get_config k ac)
       \<and> b64decode text = data))"
proof (intro conjI impI)
  show "(\<exists>ac'. handle_screen (UploadImage kind data) ac = Inr ac') \<longleftrightarrow>
     (\<exists>spec mime. map_of IMAGE_KINDS kind = Some spec \<and> data \<noteq> [] \<and> length data \<le> ik_max_bytes spec
       \<and> sniff_image data = Inr mime)"
    unfolding handle_upload using validate_iff [of kind data]
    by (cases "map_of IMAGE_KINDS kind"; cases "validate_image kind data") (auto simp del: kinds)
  assume "handle_screen (UploadImage kind data) ac = Inr ac'"
  then obtain spec uri where s: "map_of IMAGE_KINDS kind = Some spec" "validate_image kind data = Inr uri"
      "ac' = set_config (ik_key spec) uri ac"
    unfolding handle_upload by (auto simp del: kinds split: option.splits sum.splits)
  then show "\<exists>spec mime text. map_of IMAGE_KINDS kind = Some spec \<and> sniff_image data = Inr mime
       \<and> get_config k ac' = (if k = ik_key spec then Some (''data:'' @ mime @ '';base64,'' @ text) else get_config k ac)
       \<and> b64decode text = data"
    unfolding validate_iff using b64_roundtrip [of data] by (auto simp del: kinds simp: app_config.get_put)
qed

theorem uploaded_image_is_kept_witness:
  "\<exists>text. get_config ''login_bg_image'' (serve_screen (UploadImage ''bg'' sample_png) (sample_accounts\<lparr>ac_config := []\<rparr>))
     = Some (''data:image/png;base64,'' @ text) \<and> b64decode text = sample_png"
proof -
  let ?ac = "sample_accounts\<lparr>ac_config := []\<rparr>"
  have m: "sniff_image sample_png = Inr ''image/png''" by code_simp
  have "\<exists>spec mime. map_of IMAGE_KINDS ''bg'' = Some spec \<and> sample_png \<noteq> [] \<and> length sample_png \<le> ik_max_bytes spec
      \<and> sniff_image sample_png = Inr mime"
    by (simp add: m) (simp add: sample_png_def)
  then obtain ac' where h: "handle_screen (UploadImage ''bg'' sample_png) ?ac = Inr ac'"
    using uploaded_image_is_kept [of "''bg''" sample_png ?ac] by blast
  then have "serve_screen (UploadImage ''bg'' sample_png) ?ac = ac'" by (simp add: serve_screen_def)
  then show ?thesis
    using uploaded_image_is_kept [of "''bg''" sample_png ?ac ac' "''login_bg_image''"] h m by auto
qed

end
