(* ===== verification/Views.thy ===== *)
theory Views
  imports Registry Episodes AlertConfig
begin

text \<open>
  The other views of \<open>routers/dashboard.py\<close>: the hourly series of the groups and of the busiest
  FTP users, the state of the service and the failed directory changes.

  A query is a function on the rows of the log, of the buckets, of the alerts and of the
  episodes. Times are UTC, buckets are given by their start. \<open>vw_scope\<close> and \<open>vw_user\<close> are what
  \<open>device_scope\<close> and \<open>ftp_scope\<close> give for the caller.
\<close>

record view =
  vw_since :: time
  vw_until :: time
  vw_device :: "nat option"
  vw_scope :: "nat list option"
  vw_user :: "string option"

definition scope_ok :: "nat list option \<Rightarrow> nat \<Rightarrow> bool" where
  "scope_ok scope dev = (case scope of None \<Rightarrow> True | Some ids \<Rightarrow> List.member ids dev)"

definition device_ok :: "view \<Rightarrow> nat \<Rightarrow> bool" where
  "device_ok v dev = ((given (vw_device v) \<longrightarrow> dev = the (vw_device v)) \<and> scope_ok (vw_scope v) dev)"

definition in_period :: "view \<Rightarrow> log \<Rightarrow> bool" where
  "in_period v x = (vw_since v \<le> lg_time x \<and> lg_time x \<le> vw_until v)"

text \<open>The condition on the log rows of the two series, and of the two failure views.\<close>

definition series_row :: "registry \<Rightarrow> accounts \<Rightarrow> view \<Rightarrow> log \<Rightarrow> bool" where
  "series_row re ac v x = (in_period v x \<and> isolated (re_links re) ac (vw_scope v) (vw_user v) x)"

definition fail_row :: "registry \<Rightarrow> accounts \<Rightarrow> view \<Rightarrow> log \<Rightarrow> bool" where
  "fail_row re ac v x = (in_period v x \<and> device_ok v (lg_device x)
     \<and> ftp_scope_ok (re_links re) (vw_user v) ac (lg_device x) (lg_username x))"

section \<open>Hourly series\<close>

definition date_trunc :: "string \<Rightarrow> time \<Rightarrow> time" where
  "date_trunc bucket t = (let unit = (if bucket = ''day'' then days 1 else sec 3600) in t div unit * unit)"

record hourly_point =
  hp_bucket :: time
  hp_uploads :: nat
  hp_downloads :: nat
  hp_in :: nat
  hp_out :: nat
  hp_deletes :: nat
  hp_del :: nat

record group_series =
  gs_group :: nat
  gs_name :: string
  gs_telco :: "string option"
  gs_data :: "hourly_point list"

record user_series =
  us_username :: string
  us_data :: "hourly_point list"

definition group_point :: "time \<times> log list \<Rightarrow> hourly_point" where
  "group_point = (\<lambda>(b, rows). \<lparr>hp_bucket = b, hp_uploads = actions ''upload'' rows, hp_downloads = actions ''download'' rows,
     hp_in = bytes_of ''upload'' rows, hp_out = bytes_of ''download'' rows, hp_deletes = 0, hp_del = 0\<rparr>)"

definition user_point :: "time \<times> log list \<Rightarrow> hourly_point" where
  "user_point = (\<lambda>(b, rows). \<lparr>hp_bucket = b, hp_uploads = actions ''upload'' rows, hp_downloads = actions ''download'' rows,
     hp_in = bytes_of ''upload'' rows, hp_out = bytes_of ''download'' rows,
     hp_deletes = actions ''delete'' rows, hp_del = bytes_of ''delete'' rows\<rparr>)"

text \<open>The rows grouped by key and bucket, ordered by the key and the bucket; one series per key.\<close>

definition series :: "(time \<Rightarrow> time) \<Rightarrow> (time \<times> log list \<Rightarrow> hourly_point) \<Rightarrow> log list \<Rightarrow> hourly_point list" where
  "series trunc point rows = map point (sort_key fst (group_by (\<lambda>x. trunc (lg_time x)) rows))"

definition group_rows :: "registry \<Rightarrow> log list \<Rightarrow> group_row \<Rightarrow> log list" where
  "group_rows re rows g =
     [x. x \<leftarrow> rows, d \<leftarrow> re_devices re, dv_id d = lg_device x, (gid, dev) \<leftarrow> re_links re, dev = dv_id d \<and> gid = gr_id g]"

definition get_hourly :: "registry \<Rightarrow> accounts \<Rightarrow> view \<Rightarrow> log list \<Rightarrow> group_series list" where
  "get_hourly re ac v logs =
     (let rows = filter (series_row re ac v) logs in
      [\<lparr>gs_group = gr_id g, gs_name = gr_name g, gs_telco = gr_telco g,
        gs_data = series (date_trunc ''hour'') group_point (group_rows re rows g)\<rparr>.
       g \<leftarrow> sort_key gr_name (re_groups re), group_rows re rows g \<noteq> []])"

text \<open>The ten users with the most bytes, then the series of each of them.\<close>

definition top_users :: "log list \<Rightarrow> string list" where
  "top_users rows =
     take 10 (map fst (sort_key (\<lambda>(u, xs). - int (sum_list (map lg_size xs)))
       (group_by (\<lambda>x. the (lg_username x)) (filter (\<lambda>x. lg_username x \<noteq> None) rows))))"

definition get_users_hourly :: "registry \<Rightarrow> accounts \<Rightarrow> view \<Rightarrow> string \<Rightarrow> log list \<Rightarrow> user_series list" where
  "get_users_hourly re ac v bucket logs =
     (let rows = filter (series_row re ac v) logs in
      map (\<lambda>u. \<lparr>us_username = u,
          us_data = series (date_trunc bucket) user_point (filter (\<lambda>x. lg_username x = Some u) rows)\<rparr>)
        (sort (top_users rows)))"

section \<open>The state of the service\<close>

definition MB :: real where "MB = 1024 * 1024"

definition ratio :: "real \<Rightarrow> real \<Rightarrow> real option" where
  "ratio num den = (if den \<noteq> 0 then Some (num / den) else None)"

record alert_item = alert_row +
  ai_message :: "string option"
  ai_created :: time

record health_alert =
  ha_row :: alert_item
  ha_hostname :: string

definition health_alerts :: "registry \<Rightarrow> view \<Rightarrow> alert_item list \<Rightarrow> health_alert list" where
  "health_alerts re v alerts =
     take 200 (sort_key (\<lambda>h. - ai_created (ha_row h))
       [\<lparr>ha_row = a, ha_hostname = dv_hostname d\<rparr>. a \<leftarrow> alerts, d \<leftarrow> re_devices re,
          dv_id d = al_device (ar_alert a) \<and> vw_since v \<le> ai_created a \<and> device_ok v (al_device (ar_alert a))])"

text \<open>The open episodes of a device, the most recent problem first.\<close>

definition open_episodes :: "view \<Rightarrow> (ep_key, episode) dict \<Rightarrow> nat \<Rightarrow> (ep_key \<times> episode) list" where
  "open_episodes v eps dev =
     sort_key (\<lambda>(k, e). - ep_last e) (filter (\<lambda>((d, m), e). d = dev \<and> ep_resolved e = None \<and> device_ok v d) eps)"

definition sev_rank :: "string \<Rightarrow> nat" where
  "sev_rank s = (if s = ''critical'' then 2 else 1)"

definition daemon_sev :: "string option \<Rightarrow> nat" where
  "daemon_sev s = (if List.member [''degraded'', ''error'', ''disabled''] (or_else s []) then 1 else 0)"

definition rank_status :: "nat \<Rightarrow> string" where
  "rank_status n = (if n = 0 then ''ok'' else if n = 1 then ''warning'' else ''critical'')"

definition snapshot :: "view \<Rightarrow> metrics list \<Rightarrow> nat \<Rightarrow> metrics option" where
  "snapshot v ms dev =
     (case sort_key (\<lambda>m. - m_bucket m) (filter (\<lambda>m. m_device m = dev \<and> vw_since v \<le> m_bucket m \<and> device_ok v dev) ms) of
        [] \<Rightarrow> None | m # _ \<Rightarrow> Some m)"

record health_device =
  hd_device :: nat
  hd_hostname :: string
  hd_status :: string
  hd_bucket :: "time option"
  hd_fail_rate :: "real option"
  hd_throughput :: "real option"
  hd_login_fail_rate :: "real option"
  hd_open :: nat
  hd_metrics :: "string list"

definition daemon_status :: "device \<Rightarrow> string option" where
  "daemon_status d = (case map_of (dv_fields d) ''daemon_status'' of Some (VStr s) \<Rightarrow> Some s | _ \<Rightarrow> None)"

definition health_device_of ::
  "view \<Rightarrow> (ep_key, episode) dict \<Rightarrow> metrics list \<Rightarrow> device \<Rightarrow> health_device" where
  "health_device_of v eps ms d =
     (let eps' = open_episodes v eps (dv_id d);
          sev = max (fold (\<lambda>(k, e). max (sev_rank (ep_severity e))) eps' 0) (daemon_sev (daemon_status d));
          snap = snapshot v ms (dv_id d)
      in \<lparr>hd_device = dv_id d, hd_hostname = dv_hostname d, hd_status = rank_status sev,
          hd_bucket = map_option m_bucket snap,
          hd_fail_rate = Option.bind snap (\<lambda>m. ratio (real (m_transfer_fails m)) (real (m_transfers m))),
          hd_throughput = map_option (\<lambda>x. x / MB) (Option.bind snap (\<lambda>m. ratio (real (m_bytes m)) (m_transfer_secs m))),
          hd_login_fail_rate = Option.bind snap (\<lambda>m. ratio (real (m_login_fails m)) (real (m_login_attempts m))),
          hd_open = length eps', hd_metrics = map (\<lambda>((dev, m), e). m) eps'\<rparr>)"

definition worst_first :: "health_device \<Rightarrow> int \<times> real" where
  "worst_first d =
     (if hd_status d = ''critical'' then -2 else if hd_status d = ''warning'' then -1 else 0,
      - (case hd_fail_rate d of None \<Rightarrow> 0 | Some r \<Rightarrow> r))"

definition health_devices ::
  "registry \<Rightarrow> view \<Rightarrow> (ep_key, episode) dict \<Rightarrow> metrics list \<Rightarrow> health_device list" where
  "health_devices re v eps ms =
     sort_key worst_first (map (health_device_of v eps ms)
       (sort_key dv_id (filter (\<lambda>d. dv_state d = ''confirmed'' \<and> device_ok v (dv_id d)) (re_devices re))))"

record trend_point =
  tr_bucket :: time
  tr_fail_rate :: "real option"
  tr_throughput :: "real option"
  tr_login_fail_rate :: "real option"
  tr_cwd_fails :: nat

definition total_of :: "(metrics \<Rightarrow> real) \<Rightarrow> metrics list \<Rightarrow> real" where
  "total_of f ms = sum_list (map f ms)"

definition health_trend :: "view \<Rightarrow> metrics list \<Rightarrow> trend_point list" where
  "health_trend v ms =
     map (\<lambda>(b, rows).
        \<lparr>tr_bucket = b,
         tr_fail_rate = ratio (total_of (\<lambda>m. real (m_transfer_fails m)) rows) (total_of (\<lambda>m. real (m_transfers m)) rows),
         tr_throughput = map_option (\<lambda>x. x / MB)
           (ratio (total_of (\<lambda>m. real (m_bytes m)) rows) (total_of m_transfer_secs rows)),
         tr_login_fail_rate = ratio (total_of (\<lambda>m. real (m_login_fails m)) rows) (total_of (\<lambda>m. real (m_login_attempts m)) rows),
         tr_cwd_fails = sum_list (map m_cwd_fails rows)\<rparr>)
       (sort_key fst (group_by m_bucket (filter (\<lambda>m. vw_since v \<le> m_bucket m \<and> device_ok v (m_device m)) ms)))"

section \<open>Failures\<close>

fun text_of :: "setting_value \<Rightarrow> string" where
  "text_of (SetStr s) = s"
| "text_of v = []"

record fail_totals =
  ft_transfer_fails :: nat
  ft_xfer_ignored :: nat
  ft_login_fails :: nat
  ft_cwd_fails :: nat
  ft_cwd_ignored :: nat

definition count_rows :: "('a \<Rightarrow> bool) \<Rightarrow> 'a list \<Rightarrow> nat" where
  "count_rows P rows = length (filter P rows)"

text \<open>The two exclusion lists come from the thresholds that \<open>alert_settings.load\<close> gives.\<close>

definition health_totals ::
  "(string, setting_value) dict \<Rightarrow> registry \<Rightarrow> accounts \<Rightarrow> view \<Rightarrow> log list \<Rightarrow> fail_totals" where
  "health_totals acfg re ac v logs =
     (let cwd_ignore = like_patterns (text_of (read acfg ''cwd_ignore_paths''));
          xfer_ignore = like_patterns (text_of (read acfg ''xfer_ignore_accounts''));
          rows = filter (fail_row re ac v) logs;
          failed = (\<lambda>x. is_transfer x \<and> lg_status x = ''fail'')
      in \<lparr>ft_transfer_fails = count_rows (\<lambda>x. failed x \<and> \<not> like_any xfer_ignore (lg_username x)) rows,
          ft_xfer_ignored = count_rows (\<lambda>x. failed x \<and> like_any xfer_ignore (lg_username x)) rows,
          ft_login_fails = count_rows (\<lambda>x. lg_action x = ''login'' \<and> lg_status x = ''fail'') rows,
          ft_cwd_fails = count_rows (\<lambda>x. lg_action x = ''cwd_fail''
              \<and> cwd_real_fail cwd_ignore logs (vw_since v) (vw_until v) x) rows,
          ft_cwd_ignored = count_rows (\<lambda>x. lg_action x = ''cwd_fail'' \<and> like_any cwd_ignore (lg_path x)) rows\<rparr>)"

record service_health =
  sh_devices :: "health_device list"
  sh_alerts :: "health_alert list"
  sh_trend :: "trend_point list"
  sh_totals :: fail_totals

definition get_service_health ::
  "(string, setting_value) dict \<Rightarrow> registry \<Rightarrow> accounts \<Rightarrow> view \<Rightarrow> alert_item list
     \<Rightarrow> (ep_key, episode) dict \<Rightarrow> metrics list \<Rightarrow> log list \<Rightarrow> service_health" where
  "get_service_health acfg re ac v alerts eps ms logs =
     \<lparr>sh_devices = health_devices re v eps ms, sh_alerts = health_alerts re v alerts,
      sh_trend = health_trend v ms, sh_totals = health_totals acfg re ac v logs\<rparr>"

section \<open>Failed directory changes\<close>

record fail_path =
  fp_path :: "string option"
  fp_count :: nat
  fp_users :: nat
  fp_ips :: nat
  fp_last :: time
  fp_ignored :: bool

record fail_user =
  fu_username :: "string option"
  fu_count :: nat
  fu_paths :: nat

record cwd_breakdown =
  cb_total :: nat
  cb_ignored :: nat
  cb_probes :: nat
  cb_distinct :: nat
  cb_top_share :: real
  cb_paths :: "fail_path list"
  cb_users :: "fail_user list"
  cb_patterns :: "string list"

definition CWD_TOP_N :: nat where "CWD_TOP_N = 3"

text \<open>\<open>COUNT(DISTINCT c)\<close> does not count \<open>NULL\<close>.\<close>

definition count_distinct :: "('a \<Rightarrow> 'b option) \<Rightarrow> 'a list \<Rightarrow> nat" where
  "count_distinct f rows = length (remdups (List.map_filter f rows))"

definition fail_path_of :: "string list \<Rightarrow> string option \<times> log_item list \<Rightarrow> fail_path" where
  "fail_path_of cwd_ignore = (\<lambda>(path, rows).
     \<lparr>fp_path = path, fp_count = length rows, fp_users = count_distinct (\<lambda>r. lg_username (li_log r)) rows,
      fp_ips = count_distinct li_ip rows, fp_last = Max (set (map (\<lambda>r. lg_time (li_log r)) rows)),
      fp_ignored = like_any cwd_ignore path\<rparr>)"

definition get_cwd_fail_breakdown ::
  "(string, setting_value) dict \<Rightarrow> registry \<Rightarrow> accounts \<Rightarrow> view \<Rightarrow> nat \<Rightarrow> log_item list \<Rightarrow> cwd_breakdown" where
  "get_cwd_fail_breakdown acfg re ac v limit found =
     (let ignore_raw = text_of (read acfg ''cwd_ignore_paths'');
          cwd_ignore = like_patterns ignore_raw;
          ignored = (\<lambda>r. like_any cwd_ignore (lg_path (li_log r)));
          real_fail = (\<lambda>r. cwd_real_fail cwd_ignore (map li_log found) (vw_since v) (vw_until v) (li_log r));
          period = filter (\<lambda>r. lg_action (li_log r) = ''cwd_fail'' \<and> fail_row re ac v (li_log r)) found;
          per_path = map (fail_path_of cwd_ignore)
            (group_by (\<lambda>r. lg_path (li_log r)) (filter (\<lambda>r. real_fail r \<or> ignored r) period));
          paths = take limit (sort_key (\<lambda>p. - int (fp_count p)) per_path);
          listed = sum_list (map fp_count (filter (\<lambda>p. \<not> fp_ignored p) paths));
          users = map (\<lambda>(u, rows). \<lparr>fu_username = u, fu_count = length rows,
              fu_paths = count_distinct (\<lambda>r. lg_path (li_log r)) rows\<rparr>)
            (group_by (\<lambda>r. lg_username (li_log r)) (filter real_fail period))
      in \<lparr>cb_total = length period, cb_ignored = count_rows ignored period,
          cb_probes = count_rows (\<lambda>r. \<not> ignored r \<and> \<not> real_fail r) period,
          cb_distinct = (if paths = [] then 0 else length per_path),
          cb_top_share = (if listed \<noteq> 0
             then real (sum_list (map fp_count (filter (\<lambda>p. \<not> fp_ignored p) (take CWD_TOP_N paths)))) / real listed else 0),
          cb_paths = paths, cb_users = take limit (sort_key (\<lambda>u. - int (fu_count u)) users),
          cb_patterns = (if vw_scope v = None
             then filter (\<lambda>p. p \<noteq> []) (map strip (split_lines ignore_raw)) else [])\<rparr>)"

section \<open>The state of a device is its present state\<close>

lemma fold_max_ge: "k \<le> fold (\<lambda>x. max (f x)) xs n \<longleftrightarrow> k \<le> n \<or> (\<exists>x \<in> set xs. k \<le> f x)" for n :: nat
  by (induction xs arbitrary: n) (auto simp: le_max_iff_disj)

lemma rank_status_iff:
  "rank_status n = ''critical'' \<longleftrightarrow> 2 \<le> n" "rank_status n = ''warning'' \<longleftrightarrow> n = 1" "rank_status n = ''ok'' \<longleftrightarrow> n = 0"
  by (auto simp: rank_status_def)

lemma sev_rank_iff: "2 \<le> sev_rank s \<longleftrightarrow> s = ''critical''" "1 \<le> sev_rank s"
  by (simp_all add: sev_rank_def)

lemma severity_max:
  "2 \<le> max (fold (\<lambda>x. max (sev_rank (f x))) xs 0) (daemon_sev s) \<longleftrightarrow> (\<exists>x \<in> set xs. f x = ''critical'')"
  "max (fold (\<lambda>x. max (sev_rank (f x))) xs 0) (daemon_sev s) = 0 \<longleftrightarrow> xs = [] \<and> daemon_sev s = 0"
proof -
  have "\<not> 2 \<le> daemon_sev s" by (simp add: daemon_sev_def)
  then show "2 \<le> max (fold (\<lambda>x. max (sev_rank (f x))) xs 0) (daemon_sev s) \<longleftrightarrow> (\<exists>x \<in> set xs. f x = ''critical'')"
    unfolding le_max_iff_disj fold_max_ge sev_rank_iff by simp
  have zero: "n = 0 \<longleftrightarrow> \<not> 1 \<le> n" for n :: nat by auto
  show "max (fold (\<lambda>x. max (sev_rank (f x))) xs 0) (daemon_sev s) = 0 \<longleftrightarrow> xs = [] \<and> daemon_sev s = 0"
    unfolding zero le_max_iff_disj fold_max_ge using sev_rank_iff(2) by (cases xs) auto
qed

lemma open_episodes_set:
  "set (open_episodes v eps dev) = {((d, m), e). ((d, m), e) \<in> set eps \<and> d = dev \<and> ep_resolved e = None \<and> device_ok v d}"
  by (auto simp: open_episodes_def)

text \<open>The open problems of a device, and the status that they and the daemon's report give.\<close>

definition problems :: "(ep_key, episode) dict \<Rightarrow> nat \<Rightarrow> (ep_key \<times> episode) list" where
  "problems eps dev = filter (\<lambda>(k, e). fst k = dev \<and> ep_resolved e = None) eps"

definition present_status :: "(ep_key, episode) dict \<Rightarrow> device \<Rightarrow> string" where
  "present_status eps d =
     (if list_ex (\<lambda>(k, e). ep_severity e = ''critical'') (problems eps (dv_id d)) then ''critical''
      else if problems eps (dv_id d) \<noteq> [] \<or> daemon_sev (daemon_status d) = 1 then ''warning'' else ''ok'')"

lemma health_device_status:
  assumes "device_ok v (dv_id d)"
  shows "hd_device (health_device_of v eps ms d) = dv_id d
    \<and> hd_open (health_device_of v eps ms d) = length (problems eps (dv_id d))
    \<and> hd_status (health_device_of v eps ms d) = present_status eps d"
proof -
  let ?p = "problems eps (dv_id d)"
  let ?o = "sort_key (\<lambda>(k, e). - ep_last e) ?p"
  let ?n = "max (fold (\<lambda>(k, e). max (sev_rank (ep_severity e))) ?o 0) (daemon_sev (daemon_status d))"
  have o: "open_episodes v eps (dv_id d) = ?o"
    using assms by (auto simp: open_episodes_def problems_def intro!: arg_cong [where f = "sort_key _"] filter_cong)
  have n: "?n = max (fold (\<lambda>x. max (sev_rank (ep_severity (snd x)))) ?o 0) (daemon_sev (daemon_status d))"
    by (simp add: case_prod_unfold)
  have c: "2 \<le> ?n \<longleftrightarrow> list_ex (\<lambda>(k, e). ep_severity e = ''critical'') ?p"
    unfolding n severity_max(1) by (force simp: list_ex_iff)
  have z: "?n = 0 \<longleftrightarrow> ?p = [] \<and> daemon_sev (daemon_status d) = 0"
    unfolding n severity_max(2) by (metis length_0_conv length_sort)
  have "hd_status (health_device_of v eps ms d) = rank_status ?n" "hd_open (health_device_of v eps ms d) = length ?p"
      "hd_device (health_device_of v eps ms d) = dv_id d"
    by (simp_all add: health_device_of_def Let_def o)
  moreover have "daemon_sev (daemon_status d) \<noteq> 0 \<longleftrightarrow> daemon_sev (daemon_status d) = 1" by (simp add: daemon_sev_def)
  ultimately show ?thesis using c z by (auto simp: rank_status_def present_status_def)
qed

text \<open>
  The service view has exactly one row for each confirmed device the caller may see, and a
  caller with a restricted scope gets no row and no alert of another device. The status is the
  present one, whatever period is chosen: critical exactly when a critical problem is open,
  warning when only lesser problems are open or the daemon reports trouble, and ok when there is
  neither; the number of open problems is shown with it, and the worst devices come first.
\<close>

theorem health_status_is_current:
  "let s = get_service_health acfg re ac v alerts eps ms logs;
       shown = filter (\<lambda>d. dv_state d = ''confirmed'' \<and> device_ok v (dv_id d)) (re_devices re)
   in mset (map (\<lambda>h. (hd_device h, hd_open h, hd_status h)) (sh_devices s)) =
        mset (map (\<lambda>d. (dv_id d, length (problems eps (dv_id d)), present_status eps d)) shown)
      \<and> sorted (map worst_first (sh_devices s))
      \<and> list_all (\<lambda>h. scope_ok (vw_scope v) (hd_device h)) (sh_devices s)
      \<and> list_all (\<lambda>h. scope_ok (vw_scope v) (al_device (ar_alert (ha_row h)))) (sh_alerts s)"
proof -
  let ?ds = "filter (\<lambda>d. dv_state d = ''confirmed'' \<and> device_ok v (dv_id d)) (re_devices re)"
  have devs: "mset (health_devices re v eps ms) = mset (map (health_device_of v eps ms) ?ds)"
    by (simp add: health_devices_def)
  have "mset (map (\<lambda>h. (hd_device h, hd_open h, hd_status h)) (health_devices re v eps ms)) =
      mset (map (\<lambda>d. (dv_id d, length (problems eps (dv_id d)), present_status eps d)) ?ds)"
    unfolding mset_map devs unfolding mset_map [symmetric] map_map o_def
    by (rule arg_cong [where f = mset], rule map_cong) (auto simp: health_device_status)
  moreover have "sorted (map worst_first (health_devices re v eps ms))" by (simp add: health_devices_def)
  moreover have "list_all (\<lambda>h. scope_ok (vw_scope v) (hd_device h)) (health_devices re v eps ms)"
    by (auto simp: list_all_iff mset_eq_setD [OF devs] health_device_status device_ok_def)
  moreover have "list_all (\<lambda>h. scope_ok (vw_scope v) (al_device (ar_alert (ha_row h)))) (health_alerts re v alerts)"
    by (auto simp: list_all_iff health_alerts_def device_ok_def dest!: in_set_takeD)
  ultimately show ?thesis by (simp add: get_service_health_def Let_def)
qed

section \<open>The views count alike\<close>

text \<open>Inside the period the bounds of the search for later rows say nothing more.\<close>

lemma cwd_probe_period:
  assumes "lo \<le> lg_time x" "lg_time x \<le> hi" "lo' \<le> lg_time x" "lg_time x \<le> hi'"
  shows "cwd_probe logs lo hi x = cwd_probe logs lo' hi' x"
proof -
  have "CWD_PROBE_WINDOW > 0" "CWD_CLOCK_SKEW > 0" by (simp_all add: CWD_PROBE_WINDOW_def CWD_CLOCK_SKEW_def)
  then show ?thesis using assms unfolding cwd_probe_def list_ex_iff by (intro arg_cong2 [where f = "(\<or>)"] bex_cong) auto
qed

lemma count_rows_append: "count_rows P (filter Q xs) = count_rows (\<lambda>x. Q x \<and> P x) xs"
  by (simp add: count_rows_def)

lemma bin_iff:
  assumes "0 < iv" and "date_bin iv b = b"
  shows "date_bin iv t = b \<longleftrightarrow> b \<le> t \<and> t \<le> b + iv - 1"
proof -
  define q where "q = (b - EPOCH) div iv"
  have b: "b = EPOCH + q * iv" using assms(2) by (simp add: date_bin_def q_def)
  have "date_bin iv t = b \<longleftrightarrow> (t - EPOCH) div iv = q" using assms(1) by (simp add: date_bin_def b)
  also have "\<dots> \<longleftrightarrow> q * iv \<le> t - EPOCH \<and> t - EPOCH < q * iv + iv"
  proof
    assume q': "(t - EPOCH) div iv = q"
    have "t - EPOCH = q * iv + (t - EPOCH) mod iv" unfolding q' [symmetric] by simp
    then show "q * iv \<le> t - EPOCH \<and> t - EPOCH < q * iv + iv"
      using pos_mod_sign [OF assms(1), of "t - EPOCH"] pos_mod_bound [OF assms(1), of "t - EPOCH"] by linarith
  next
    assume "q * iv \<le> t - EPOCH \<and> t - EPOCH < q * iv + iv"
    then show "(t - EPOCH) div iv = q"
      by (intro int_div_pos_eq [where r = "t - EPOCH - q * iv"]) (simp_all add: mult.commute)
  qed
  finally show ?thesis unfolding b by auto
qed

text \<open>
  C34: the screen and the alerts count the same failures, where they look at the same rows. For one
  bucket of one device that lies in the window of a roll-up, the failed transfers, logins and
  directory changes that the service view of an administrator shows for exactly the period of the
  bucket are the numbers that roll-up stores for it and the detection judges. (A later roll-up
  that sees only the end of the bucket stores less: \<open>final_count_is_partial\<close>.)
\<close>

theorem screen_counts_what_alerts_count:
  fixes logs :: "log list"
  assumes "rc_cwd_ignore c = like_patterns (text_of (read acfg ''cwd_ignore_paths''))"
    and "rc_xfer_ignore c = like_patterns (text_of (read acfg ''xfer_ignore_accounts''))"
    and "0 < rc_bucket c" and "date_bin (rc_bucket c) b = b" and "lo \<le> b" and "b + rc_bucket c \<le> hi"
    and "given (Some dev)"
  defines "v \<equiv> \<lparr>vw_since = b, vw_until = b + rc_bucket c - 1, vw_device = Some dev, vw_scope = None, vw_user = None\<rparr>"
    and "m \<equiv> aggregate c logs lo hi dev b (filter (in_bucket c dev b) logs)"
  shows "let t = health_totals acfg re ac v logs in
    ft_transfer_fails t = m_transfer_fails m \<and> ft_login_fails t = m_login_fails m \<and> ft_cwd_fails t = m_cwd_fails m
    \<and> ft_transfer_fails t + ft_xfer_ignored t = count_rows (\<lambda>x. is_transfer x \<and> lg_status x = ''fail'') (filter (in_bucket c dev b) logs)"
proof -
  have bin: "date_bin (rc_bucket c) t = b \<longleftrightarrow> b \<le> t \<and> t \<le> b + rc_bucket c - 1" for t by (rule bin_iff [OF assms(3,4)])
  have rows: "filter (fail_row re ac v) logs = filter (in_bucket c dev b) logs"
    using assms(7) by (intro filter_cong) (auto simp: fail_row_def in_period_def device_ok_def scope_ok_def v_def
        in_bucket_def bin ftp_scope_ok_def)
  have probe: "cwd_probe logs b (b + rc_bucket c - 1) x = cwd_probe logs lo hi x" if "in_bucket c dev b x" for x
    using that assms(5,6) by (intro cwd_probe_period) (simp_all add: in_bucket_def bin)
  have cwd: "count_rows (\<lambda>x. lg_action x = ''cwd_fail'' \<and> cwd_real_fail (rc_cwd_ignore c) logs b (b + rc_bucket c - 1) x)
        (filter (in_bucket c dev b) logs)
      = count_rows (\<lambda>x. lg_action x = ''cwd_fail'' \<and> cwd_real_fail (rc_cwd_ignore c) logs lo hi x) (filter (in_bucket c dev b) logs)"
    unfolding count_rows_def filter_filter by (intro arg_cong [where f = length] filter_cong) (auto simp: cwd_real_fail_def probe)
  have split: "count_rows (\<lambda>x. P x \<and> \<not> Q x) xs + count_rows (\<lambda>x. P x \<and> Q x) xs = count_rows P xs" for P Q and xs :: "log list"
    unfolding count_rows_def by (induction xs) auto
  show ?thesis
    unfolding Let_def health_totals_def m_def aggregate_def rows assms(1,2) [symmetric]
    using cwd split [where P = "\<lambda>x. is_transfer x \<and> lg_status x = ''fail''" and Q = "\<lambda>x. like_any (rc_xfer_ignore c) (lg_username x)"
        and xs = "filter (in_bucket c dev b) logs"]
    by (simp add: v_def count_rows_def conj_ac)
qed

definition sample_acfg :: "(string, setting_value) dict" where
  "sample_acfg = [(''cwd_ignore_paths'', SetStr ''/tmp/*''), (''xfer_ignore_accounts'', SetStr [])]"

definition sample_rc :: rollup_cfg where
  "sample_rc = \<lparr>rc_bucket = minutes 5, rc_large = 100, rc_cwd_ignore = like_patterns ''/tmp/*'', rc_xfer_ignore = like_patterns []\<rparr>"

definition sample_fail :: "time \<Rightarrow> string \<Rightarrow> log" where
  "sample_fail t p = \<lparr>lg_device = 7, lg_time = t, lg_username = Some ''u'', lg_action = ''cwd_fail'', lg_path = Some p,
     lg_size = 0, lg_secs = 0, lg_status = ''fail''\<rparr>"

theorem screen_counts_what_alerts_count_witness:
  "ft_cwd_fails (health_totals sample_acfg sample_registry sample_accounts
      \<lparr>vw_since = EPOCH, vw_until = EPOCH + minutes 5 - 1, vw_device = Some 7, vw_scope = None, vw_user = None\<rparr>
      [sample_fail EPOCH ''/a'', sample_fail EPOCH ''/tmp/x'', sample_fail 0 ''/a''])
   = m_cwd_fails (aggregate sample_rc [sample_fail EPOCH ''/a'', sample_fail EPOCH ''/tmp/x'', sample_fail 0 ''/a'']
      EPOCH (EPOCH + sec 7200) 7 EPOCH
      (filter (in_bucket sample_rc 7 EPOCH) [sample_fail EPOCH ''/a'', sample_fail EPOCH ''/tmp/x'', sample_fail 0 ''/a'']))"
proof -
  have "rc_cwd_ignore sample_rc = like_patterns (text_of (read sample_acfg ''cwd_ignore_paths''))"
    "rc_xfer_ignore sample_rc = like_patterns (text_of (read sample_acfg ''xfer_ignore_accounts''))"
    "0 < rc_bucket sample_rc" "date_bin (rc_bucket sample_rc) EPOCH = EPOCH" "EPOCH \<le> EPOCH"
    "EPOCH + rc_bucket sample_rc \<le> EPOCH + sec 7200" "given (Some 7)"
    by (simp_all add: sample_rc_def sample_acfg_def read_def date_bin_def given_def)
  from screen_counts_what_alerts_count [OF this, of sample_registry sample_accounts] show ?thesis by (simp add: sample_rc_def Let_def)
qed

lemma count_split: "count_rows P xs + count_rows (\<lambda>x. \<not> P x) xs = length xs"
  unfolding count_rows_def by (rule sum_length_filter_compl)

lemma sum_groups_length: "sum_list (map (\<lambda>(k, rs). length rs) (group_by key rows)) = length rows"
  by (rule groups_add_up [OF length_sum])

lemma sum_filtered_groups:
  "sum_list (map (\<lambda>(k, rs). length rs) (filter (\<lambda>(k, rs). P k) (group_by key rows))) = count_rows (\<lambda>x. P (key x)) rows"
proof -
  have "filter (\<lambda>(k, rs). P k) (group_by key rows) = group_by key (filter (\<lambda>x. P (key x)) rows)"
    unfolding group_by_def filter_map comp_def
    by (auto simp: remdups_filter [symmetric] filter_map comp_def intro!: map_cong filter_cong)
  then show ?thesis by (simp only: sum_groups_length count_rows_def)
qed

lemma mset_key_sum:
  "mset xs = mset ys \<Longrightarrow> sum_list (map f (filter P xs)) = (sum_list (map f (filter P ys)) :: nat)"
proof -
  assume "mset xs = mset ys"
  then have "mset (map f (filter P xs)) = mset (map f (filter P ys))" by simp
  then show ?thesis by (metis sum_mset_sum_list)
qed

definition real_of_view :: "(string, setting_value) dict \<Rightarrow> view \<Rightarrow> log_item list \<Rightarrow> log_item \<Rightarrow> bool" where
  "real_of_view acfg v found r = cwd_real_fail (like_patterns (text_of (read acfg ''cwd_ignore_paths'')))
     (map li_log found) (vw_since v) (vw_until v) (li_log r)"

definition ignored_of :: "(string, setting_value) dict \<Rightarrow> log_item \<Rightarrow> bool" where
  "ignored_of acfg r = like_any (like_patterns (text_of (read acfg ''cwd_ignore_paths''))) (lg_path (li_log r))"

definition fails_of :: "registry \<Rightarrow> accounts \<Rightarrow> view \<Rightarrow> log_item list \<Rightarrow> log_item list" where
  "fails_of re ac v found = filter (\<lambda>r. lg_action (li_log r) = ''cwd_fail'' \<and> fail_row re ac v (li_log r)) found"

definition paths_of :: "(string, setting_value) dict \<Rightarrow> registry \<Rightarrow> accounts \<Rightarrow> view \<Rightarrow> log_item list \<Rightarrow> fail_path list" where
  "paths_of acfg re ac v found = map (fail_path_of (like_patterns (text_of (read acfg ''cwd_ignore_paths''))))
     (group_by (\<lambda>r. lg_path (li_log r))
       (filter (\<lambda>r. real_of_view acfg v found r \<or> ignored_of acfg r) (fails_of re ac v found)))"

lemma breakdown_fields:
  fixes acfg re ac v limit found
  defines "c \<equiv> get_cwd_fail_breakdown acfg re ac v limit found"
  shows "cb_total c = length (fails_of re ac v found)"
    and "cb_ignored c = count_rows (ignored_of acfg) (fails_of re ac v found)"
    and "cb_probes c = count_rows (\<lambda>r. \<not> ignored_of acfg r \<and> \<not> real_of_view acfg v found r) (fails_of re ac v found)"
    and "cb_paths c = take limit (sort_key (\<lambda>p. - int (fp_count p)) (paths_of acfg re ac v found))"
    and "cb_distinct c = (if cb_paths c = [] then 0 else length (paths_of acfg re ac v found))"
    and "cb_top_share c = (let n = sum_list (map fp_count (filter (\<lambda>p. \<not> fp_ignored p) (cb_paths c))) in
      if n \<noteq> 0 then real (sum_list (map fp_count (filter (\<lambda>p. \<not> fp_ignored p) (take CWD_TOP_N (cb_paths c))))) / real n else 0)"
  unfolding c_def get_cwd_fail_breakdown_def Let_def cwd_breakdown.select_convs
    real_of_view_def ignored_of_def fails_of_def paths_of_def
  by (rule refl)+

lemma all_paths:
  assumes "1 \<le> limit" and "cb_distinct (get_cwd_fail_breakdown acfg re ac v limit found) \<le> limit"
  shows "mset (cb_paths (get_cwd_fail_breakdown acfg re ac v limit found)) = mset (paths_of acfg re ac v found)"
proof (cases "cb_paths (get_cwd_fail_breakdown acfg re ac v limit found) = []")
  case True
  then have "sort_key (\<lambda>p. - int (fp_count p)) (paths_of acfg re ac v found) = []"
    using assms(1) unfolding breakdown_fields(4) take_eq_Nil by (metis not_one_le_zero)
  then have "paths_of acfg re ac v found = []" by (metis length_0_conv length_sort)
  with True show ?thesis by simp
next
  case False
  then have "length (paths_of acfg re ac v found) \<le> limit" using assms(2) unfolding breakdown_fields(5) by simp
  then show ?thesis unfolding breakdown_fields(4) by simp
qed

lemma path_sums:
  "sum_list (map fp_count (filter (\<lambda>p. fp_ignored p = b) (paths_of acfg re ac v found))) =
    count_rows (\<lambda>r. ignored_of acfg r = b)
      (filter (\<lambda>r. real_of_view acfg v found r \<or> ignored_of acfg r) (fails_of re ac v found))"
proof -
  let ?ign = "like_patterns (text_of (read acfg ''cwd_ignore_paths''))"
  let ?g = "group_by (\<lambda>r. lg_path (li_log r)) (filter (\<lambda>r. real_of_view acfg v found r \<or> ignored_of acfg r) (fails_of re ac v found))"
  have f: "fp_count (fail_path_of ?ign p) = length (snd p)" "fp_ignored (fail_path_of ?ign p) = like_any ?ign (fst p)" for p
    by (simp_all add: fail_path_of_def case_prod_unfold)
  have "sum_list (map fp_count (filter (\<lambda>p. fp_ignored p = b) (map (fail_path_of ?ign) ?g)))
      = sum_list (map (\<lambda>(k, rs). length rs) (filter (\<lambda>(k, rs). like_any ?ign k = b) ?g))"
    unfolding filter_map map_map comp_def f by (simp only: case_prod_unfold)
  also have "\<dots> = count_rows (\<lambda>r. like_any ?ign (lg_path (li_log r)) = b)
      (filter (\<lambda>r. real_of_view acfg v found r \<or> ignored_of acfg r) (fails_of re ac v found))"
    by (rule sum_filtered_groups)
  finally show ?thesis unfolding paths_of_def ignored_of_def .
qed

lemma count_rows_map: "count_rows P (map f xs) = count_rows (\<lambda>x. P (f x)) xs"
  by (simp add: count_rows_def filter_map comp_def)

lemma count_cong: "(\<And>x. x \<in> set xs \<Longrightarrow> P x = Q x) \<Longrightarrow> count_rows P xs = count_rows Q xs"
  unfolding count_rows_def by (metis (mono_tags, lifting) filter_cong)

lemma count_three:
  "(\<And>r. R r \<Longrightarrow> \<not> I r) \<Longrightarrow> count_rows (\<lambda>r. \<not> I r) xs = count_rows R xs + count_rows (\<lambda>r. \<not> I r \<and> \<not> R r) xs"
  unfolding count_rows_def by (induction xs) auto

lemma real_not_ignored: "real_of_view acfg v found r \<Longrightarrow> \<not> ignored_of acfg r"
  by (simp add: real_of_view_def ignored_of_def cwd_real_fail_def)

lemma totals_fields:
  "ft_cwd_fails (health_totals acfg re ac v (map li_log found)) = count_rows (real_of_view acfg v found) (fails_of re ac v found)"
  "ft_cwd_ignored (health_totals acfg re ac v (map li_log found)) = count_rows (ignored_of acfg) (fails_of re ac v found)"
  unfolding health_totals_def Let_def fail_totals.select_convs fails_of_def count_rows_append count_rows_map
    real_of_view_def ignored_of_def by (auto intro!: count_cong)

lemma sum_take_filter_le: "sum_list (map f (filter P (take n xs))) \<le> (sum_list (map f (filter P xs)) :: nat)"
proof -
  have "sum_list (map f (filter P xs)) = sum_list (map f (filter P (take n xs @ drop n xs)))" by simp
  also have "\<dots> = sum_list (map f (filter P (take n xs))) + sum_list (map f (filter P (drop n xs)))"
    unfolding filter_append map_append sum_list_append by (rule refl)
  finally show ?thesis by simp
qed

text \<open>
  The two failure views of a period agree, number by number. Every failed directory change is
  ignored by the configured patterns, or was only a probe, or is one of the real failures the
  service view counts; and when the list is long enough to show all paths, its rows add up to
  these real failures and to the ignored ones. The share of the top paths is a share.
\<close>

theorem fail_views_agree:
  assumes "1 \<le> limit" and "cb_distinct (get_cwd_fail_breakdown acfg re ac v limit found) \<le> limit"
  shows "let c = get_cwd_fail_breakdown acfg re ac v limit found; t = health_totals acfg re ac v (map li_log found) in
    cb_total c = cb_ignored c + cb_probes c + ft_cwd_fails t \<and> cb_ignored c = ft_cwd_ignored t
    \<and> sum_list (map fp_count (filter (\<lambda>p. \<not> fp_ignored p) (cb_paths c))) = ft_cwd_fails t
    \<and> sum_list (map fp_count (filter fp_ignored (cb_paths c))) = cb_ignored c
    \<and> 0 \<le> cb_top_share c \<and> cb_top_share c \<le> 1"
proof -
  let ?c = "get_cwd_fail_breakdown acfg re ac v limit found"
  let ?t = "health_totals acfg re ac v (map li_log found)"
  let ?p = "fails_of re ac v found"
  have total: "cb_total ?c = cb_ignored ?c + cb_probes ?c + ft_cwd_fails ?t"
    unfolding breakdown_fields(1-3) totals_fields
    using count_split [of "ignored_of acfg" ?p] count_three [where R = "real_of_view acfg v found" and I = "ignored_of acfg" and xs = ?p, OF real_not_ignored]
    by simp
  have lists: "sum_list (map fp_count (filter (\<lambda>p. fp_ignored p = b) (cb_paths ?c))) =
      count_rows (\<lambda>r. (real_of_view acfg v found r \<or> ignored_of acfg r) \<and> ignored_of acfg r = b) ?p" for b
    unfolding mset_key_sum [OF all_paths [OF assms]] path_sums count_rows_append by (rule refl)
  have real: "sum_list (map fp_count (filter (\<lambda>p. \<not> fp_ignored p) (cb_paths ?c))) = ft_cwd_fails ?t"
    using lists [of False] real_not_ignored unfolding totals_fields by (auto intro!: count_cong)
  have ign: "sum_list (map fp_count (filter fp_ignored (cb_paths ?c))) = cb_ignored ?c"
    using lists [of True] unfolding breakdown_fields(2) by (auto intro!: count_cong)
  have "0 \<le> cb_top_share ?c \<and> cb_top_share ?c \<le> 1"
    unfolding breakdown_fields(6)
    using sum_take_filter_le [of fp_count "\<lambda>p. \<not> fp_ignored p" CWD_TOP_N "cb_paths ?c"]
    by (simp only: Let_def) (simp add: divide_le_eq)
  then show ?thesis using total real ign unfolding Let_def breakdown_fields(2) totals_fields(2) by blast
qed

definition sample_item :: "nat \<Rightarrow> log \<Rightarrow> log_item" where
  "sample_item i x = \<lparr>li_id = i, li_ip = Some ''10.0.0.1'', li_log = x\<rparr>"

definition sample_view :: view where
  "sample_view = \<lparr>vw_since = 0, vw_until = EPOCH, vw_device = None, vw_scope = None, vw_user = None\<rparr>"

lemma length_group_by: "length (group_by key rows) \<le> length rows"
  by (simp add: group_by_def) (metis length_map length_remdups_leq)

lemma distinct_le: "cb_distinct (get_cwd_fail_breakdown acfg re ac v limit found) \<le> length found"
proof -
  have "length (paths_of acfg re ac v found) \<le> length (fails_of re ac v found)"
    unfolding paths_of_def length_map by (rule order_trans [OF length_group_by length_filter_le])
  also have "\<dots> \<le> length found" by (simp add: fails_of_def)
  finally show ?thesis unfolding breakdown_fields(5) by simp
qed

theorem fail_views_agree_witness:
  "let found = [sample_item 1 (sample_fail 5 ''/a''), sample_item 2 (sample_fail 6 ''/tmp/x'')];
       c = get_cwd_fail_breakdown sample_acfg sample_registry sample_accounts sample_view 15 found in
    cb_total c = 2 \<and> 2 = cb_ignored c + cb_probes c + ft_cwd_fails (health_totals sample_acfg sample_registry sample_accounts sample_view (map li_log found))"
proof -
  let ?found = "[sample_item 1 (sample_fail 5 ''/a''), sample_item 2 (sample_fail 6 ''/tmp/x'')]"
  have "length (fails_of sample_registry sample_accounts sample_view ?found) = 2"
    by (simp add: fails_of_def fail_row_def in_period_def device_ok_def scope_ok_def ftp_scope_ok_def sample_view_def
        sample_item_def sample_fail_def given_def EPOCH_def)
  then have "cb_total (get_cwd_fail_breakdown sample_acfg sample_registry sample_accounts sample_view 15 ?found) = 2"
    unfolding breakdown_fields(1) .
  moreover have "cb_distinct (get_cwd_fail_breakdown sample_acfg sample_registry sample_accounts sample_view 15 ?found) \<le> 15"
    using distinct_le [of sample_acfg sample_registry sample_accounts sample_view 15 ?found] by simp
  ultimately show ?thesis
    using fail_views_agree [of 15 sample_acfg sample_registry sample_accounts sample_view ?found] by (simp add: Let_def)
qed

section \<open>The busiest users\<close>

lemma point_sums:
  assumes "\<And>b rs. f (point (b, rs)) = h rs" and "\<And>rs. h rs = (sum_list (map w rs) :: nat)"
  shows "sum_list (map f (series trunc point rows)) = h rows"
proof -
  let ?g = "group_by (\<lambda>x. trunc (lg_time x)) rows"
  have "sum_list (map f (series trunc point rows)) = sum_list (map (\<lambda>(b, rs). h rs) (sort_key fst ?g))"
    unfolding series_def map_map by (intro arg_cong [where f = sum_list] map_cong) (auto simp: assms(1))
  also have "\<dots> = sum_list (map (\<lambda>(b, rs). h rs) ?g)" by (rule sum_list_sort_key)
  also have "\<dots> = h rows" by (rule groups_add_up [OF assms(2)])
  finally show ?thesis .
qed

lemma fst_group_by: "map fst (group_by key rows) = remdups (map key rows)"
  by (simp add: group_by_def comp_def)

lemma distinct_sort_key: "distinct (map g xs) \<Longrightarrow> distinct (map g (sort_key f xs))"
proof -
  have "mset (map g (sort_key f xs)) = mset (map g xs)" by simp
  then show "distinct (map g xs) \<Longrightarrow> ?thesis" by (rule mset_eq_imp_distinct_iff [THEN iffD2])
qed

lemma sorted_distinct_fst: "distinct (map fst gs) \<Longrightarrow> sorted_wrt (<) (map fst (sort_key fst gs))"
proof -
  assume "distinct (map fst gs)"
  then have "distinct (map fst (sort_key fst gs))" by (rule distinct_sort_key)
  then show ?thesis using sorted_sort_key [of fst gs] by (simp add: strict_sorted_iff)
qed

lemma series_buckets:
  assumes "\<And>b rs. hp_bucket (point (b, rs)) = b"
  shows "sorted_wrt (<) (map hp_bucket (series trunc point rows))"
proof -
  let ?g = "group_by (\<lambda>x. trunc (lg_time x)) rows"
  have "map hp_bucket (series trunc point rows) = map fst (sort_key fst ?g)"
    unfolding series_def map_map by (intro map_cong) (auto simp: assms)
  moreover have "distinct (map fst ?g)" unfolding fst_group_by by simp
  ultimately show ?thesis using sorted_distinct_fst by metis
qed

definition bytes_by :: "log list \<Rightarrow> string \<Rightarrow> nat" where
  "bytes_by rows u = sum_list (map lg_size (filter (\<lambda>x. lg_username x = Some u) rows))"

lemma sort_take_le:
  assumes "x \<in> set (take n (sort_key f xs))" and "y \<in> set xs" and "y \<notin> set (take n (sort_key f xs))"
  shows "f x \<le> f y"
proof -
  have "y \<in> set (drop n (sort_key f xs))"
    using assms(2,3) by (metis Un_iff append_take_drop_id set_append set_sort)
  moreover have "sorted (map f (take n (sort_key f xs)) @ map f (drop n (sort_key f xs)))"
    by (metis append_take_drop_id map_append sorted_sort_key)
  ultimately show ?thesis using assms(1) by (auto simp: sorted_append)
qed

definition user_groups :: "log list \<Rightarrow> (string \<times> log list) list" where
  "user_groups rows = sort_key (\<lambda>(u, xs). - int (sum_list (map lg_size xs)))
     (group_by (\<lambda>x. the (lg_username x)) (filter (\<lambda>x. lg_username x \<noteq> None) rows))"

lemma top_users_alt: "top_users rows = map fst (take 10 (user_groups rows))"
  unfolding top_users_def user_groups_def by (rule take_map)

lemma own_rows:
  "filter (\<lambda>x. the (lg_username x) = k) (filter (\<lambda>x. lg_username x \<noteq> None) rows) = filter (\<lambda>x. lg_username x = Some k) rows"
  by (induction rows) auto

lemma user_groups_mem:
  "(k, xs) \<in> set (user_groups rows) \<longleftrightarrow> xs = filter (\<lambda>x. lg_username x = Some k) rows \<and> (\<exists>x \<in> set rows. lg_username x = Some k)"
proof -
  have "(k, xs) \<in> set (user_groups rows) \<longleftrightarrow>
      xs = filter (\<lambda>x. the (lg_username x) = k) (filter (\<lambda>x. lg_username x \<noteq> None) rows)
      \<and> k \<in> (\<lambda>x. the (lg_username x)) ` set (filter (\<lambda>x. lg_username x \<noteq> None) rows)"
    unfolding user_groups_def set_sort group_by_def by auto
  then show ?thesis unfolding own_rows by force
qed

lemma distinct_user_groups: "distinct (map fst (user_groups rows))"
proof -
  have "distinct (map fst (group_by (\<lambda>x. the (lg_username x)) (filter (\<lambda>x. lg_username x \<noteq> None) rows)))"
    unfolding fst_group_by by (rule distinct_remdups)
  then show ?thesis unfolding user_groups_def by (rule distinct_sort_key)
qed

lemma top_users_facts:
  "length (top_users rows) \<le> 10" "distinct (top_users rows)"
  "u \<in> set (top_users rows) \<Longrightarrow> \<exists>x \<in> set rows. lg_username x = Some u"
proof -
  show "length (top_users rows) \<le> 10" by (simp add: top_users_alt)
  show "distinct (top_users rows)"
    unfolding top_users_alt take_map [symmetric] by (rule distinct_take) (rule distinct_user_groups)
  assume "u \<in> set (top_users rows)"
  then obtain xs where "(u, xs) \<in> set (user_groups rows)" by (auto simp: top_users_alt dest!: in_set_takeD)
  then show "\<exists>x \<in> set rows. lg_username x = Some u" unfolding user_groups_mem by simp
qed

lemma top_users_most:
  assumes u: "u \<in> set (top_users rows)" and x: "x \<in> set rows" "lg_username x = Some w" and w: "w \<notin> set (top_users rows)"
  shows "bytes_by rows w \<le> bytes_by rows u"
proof -
  let ?f = "\<lambda>(u :: string, xs). - int (sum_list (map lg_size xs))"
  let ?own = "\<lambda>k. filter (\<lambda>x. lg_username x = Some k) rows"
  obtain xs where xs: "(u, xs) \<in> set (take 10 (user_groups rows))"
    using u unfolding top_users_alt set_map by (metis imageE prod.collapse)
  have m: "(w, ?own w) \<in> set (user_groups rows)" unfolding user_groups_mem using x by blast
  have n: "(w, ?own w) \<notin> set (take 10 (user_groups rows))"
  proof
    assume "(w, ?own w) \<in> set (take 10 (user_groups rows))"
    then have "fst (w, ?own w) \<in> set (map fst (take 10 (user_groups rows)))" unfolding set_map by (rule imageI)
    then show False using w unfolding top_users_alt by simp
  qed
  have "?f (u, xs) \<le> ?f (w, ?own w)"
    by (rule sort_take_le [OF xs [unfolded user_groups_def] m [unfolded user_groups_def set_sort] n [unfolded user_groups_def]])
  then have "bytes_by rows w \<le> sum_list (map lg_size xs)" unfolding bytes_by_def prod.case by linarith
  moreover have "xs = ?own u" using in_set_takeD [OF xs] unfolding user_groups_mem by (rule conjunct1)
  ultimately show ?thesis unfolding bytes_by_def by (simp only:)
qed

text \<open>
  The hourly view of the users shows at most ten of them, each once and in order, all with rows
  the caller may see; nobody left out transferred more bytes than one that is shown. Each series
  goes forward in time and adds up to the uploads, downloads, deletions and bytes of its user.
\<close>

theorem busiest_users_series:
  "let out = get_users_hourly re ac v bucket logs; rows = filter (series_row re ac v) logs in
     length out \<le> 10 \<and> sorted_wrt (<) (map us_username out)
     \<and> list_all (\<lambda>s. let own = filter (\<lambda>x. lg_username x = Some (us_username s)) rows in
         own \<noteq> [] \<and> sorted_wrt (<) (map hp_bucket (us_data s))
         \<and> sum_list (map hp_uploads (us_data s)) = actions ''upload'' own
         \<and> sum_list (map hp_downloads (us_data s)) = actions ''download'' own
         \<and> sum_list (map hp_deletes (us_data s)) = actions ''delete'' own
         \<and> sum_list (map hp_in (us_data s)) = bytes_of ''upload'' own
         \<and> list_all (\<lambda>x. List.member (map us_username out) (the (lg_username x))
              \<or> bytes_by rows (the (lg_username x)) \<le> bytes_by rows (us_username s))
             (filter (\<lambda>x. lg_username x \<noteq> None) rows)) out"
proof -
  let ?rows = "filter (series_row re ac v) logs"
  let ?out = "get_users_hourly re ac v bucket logs"
  have names: "map us_username ?out = sort (top_users ?rows)"
    by (simp add: get_users_hourly_def Let_def comp_def)
  have "length ?out \<le> 10" using top_users_facts(1) [of ?rows] by (simp add: get_users_hourly_def Let_def)
  moreover have "sorted_wrt (<) (map us_username ?out)"
    unfolding names using top_users_facts(2) [of ?rows] by (simp add: strict_sorted_iff)
  moreover have "let own = filter (\<lambda>x. lg_username x = Some (us_username s)) ?rows in
         own \<noteq> [] \<and> sorted_wrt (<) (map hp_bucket (us_data s))
         \<and> sum_list (map hp_uploads (us_data s)) = actions ''upload'' own
         \<and> sum_list (map hp_downloads (us_data s)) = actions ''download'' own
         \<and> sum_list (map hp_deletes (us_data s)) = actions ''delete'' own
         \<and> sum_list (map hp_in (us_data s)) = bytes_of ''upload'' own
         \<and> list_all (\<lambda>x. List.member (map us_username ?out) (the (lg_username x))
              \<or> bytes_by ?rows (the (lg_username x)) \<le> bytes_by ?rows (us_username s))
             (filter (\<lambda>x. lg_username x \<noteq> None) ?rows)" if "s \<in> set ?out" for s
  proof -
    obtain u where u: "u \<in> set (top_users ?rows)" and s: "us_username s = u"
        "us_data s = series (date_trunc bucket) user_point (filter (\<lambda>x. lg_username x = Some u) ?rows)"
      using \<open>s \<in> set ?out\<close> by (auto simp: get_users_hourly_def Let_def)
    have sums: "sum_list (map f (us_data s)) = h (filter (\<lambda>x. lg_username x = Some u) ?rows)"
      if "\<And>b rs. f (user_point (b, rs)) = h rs" "\<And>rs. h rs = (sum_list (map w rs) :: nat)" for f h w
      unfolding s by (rule point_sums [OF that])
    have "filter (\<lambda>x. lg_username x = Some u) ?rows \<noteq> []"
      using top_users_facts(3) [OF u] by (auto simp: filter_empty_conv)
    moreover have "sorted_wrt (<) (map hp_bucket (us_data s))"
      unfolding s by (rule series_buckets) (simp add: user_point_def)
    moreover have "list_all (\<lambda>x. List.member (map us_username ?out) (the (lg_username x))
              \<or> bytes_by ?rows (the (lg_username x)) \<le> bytes_by ?rows u) (filter (\<lambda>x. lg_username x \<noteq> None) ?rows)"
      unfolding list_all_iff
    proof
      fix x assume "x \<in> set (filter (\<lambda>x. lg_username x \<noteq> None) ?rows)"
      then obtain w where x: "x \<in> set ?rows" "lg_username x = Some w" by auto
      show "List.member (map us_username ?out) (the (lg_username x))
              \<or> bytes_by ?rows (the (lg_username x)) \<le> bytes_by ?rows u"
        using top_users_most [OF u x] x(2) unfolding names by auto
    qed
    ultimately show ?thesis unfolding Let_def s(1)
      by (intro conjI sums [OF _ actions_sum] sums [OF _ bytes_sum]) (simp_all add: user_point_def)
  qed
  ultimately show ?thesis unfolding Let_def list_all_iff by blast
qed

end
