(* ===== verification/Spec2Isabelle.thy ===== *)
theory Spec2Isabelle
  imports Daemon Dedup Monitor Routes Directory DaemonSetup Startup Episodes Queries Storage Rebalance Registry Exports Notifier Bulk Upkeep Appearance AlertConfig SettingsPage Views
begin

text \<open>
  \<^bold>\<open>SolTrace\<close> collects the logs of FTP servers. On every server a daemon
  (\<open>ftp-daemon/soltrace_daemon.py\<close>) follows the two log files of proftpd, parses their lines and
  posts the entries in batches to a web application (\<open>was/app\<close>, FastAPI with PostgreSQL). The
  application stores them through a write buffer, rolls them up into buckets, judges the buckets,
  keeps episodes of ongoing problems and sends notifications; administrators and customers search
  the logs and look at the dashboard within the scope of their account. This development models
  both programs and what runs between them; the theories follow the files of the source.

  \<^bold>\<open>The daemon.\<close>
  \<^item> \<open>PyParse\<close> and \<open>SolTrace_Prelude\<close>: the string, number and date operations of Python that the
    source uses (\<open>strip\<close>, \<open>split\<close>, \<open>int\<close>, \<open>float\<close>, \<open>strptime\<close>), the regular expression as a matcher in
    continuation style, dictionaries as association lists, times as microseconds, and the lemmas
    and collections (\<open>keeps\<close>) that the other theories share.
  \<^item> \<open>Tailer\<close>: \<open>FileTailer\<close>, its position, inode and pending position, and the state file. A poll
    reads complete lines in blocks; \<open>commit\<close>, \<open>rollback\<close> and \<open>advance_pending\<close> move the position.
    \<open>tail_exactly_once\<close> shows that the delivered lines are those between two committed positions.
  \<^item> \<open>LogParse\<close>: both parsers with the session memory that joins a \<open>USER\<close> command with the
    rejected password after it.
  \<^item> \<open>DiskBuf\<close>: \<open>DiskBuffer\<close>. \<open>WasLink\<close>: \<open>WasClient\<close>, with the network as a function from the number
    of a request to its outcome. \<open>DaemonStatus\<close>: \<open>_collect_status\<close>.
  \<^item> \<open>Daemon\<close>: the daemon's state and one iteration of each thread (\<open>sender_iter\<close>,
    \<open>heartbeat_iter\<close>), start-up, shutdown. A run interleaves iterations of the two threads.
    \<open>no_line_lost\<close> accounts for every line, \<open>outage_backoff\<close> shows what an outage does.
  \<^item> \<open>DaemonSetup\<close>: the configuration with its defaults and interpolation, logging, and what a start
    needs. \<open>Upkeep\<close>: the process (start, registration, signals), self-update, log path, device key.
    \<open>Bulk\<close>: the import of old files (\<open>soltrace_bulk.py\<close>).

  \<^bold>\<open>The server: logs.\<close>
  \<^item> \<open>WriteBuf\<close>: \<open>WriteBuffer\<close> as sequential operations and as the step relation \<open>wb_step\<close> of the
    sections under its lock; \<open>operations_are_runs\<close> connects the two, \<open>rows_conserved\<close> is the
    invariant of all interleavings. The insert of the database is a parameter that sees the rows.
  \<^item> \<open>Ingest\<close>: the end points of the daemons (\<open>routers/ingest.py\<close>), composed with the client
    (\<open>delivered_is_in_the_books\<close>) and the status collection (\<open>server_row_close\<close>).
    \<open>Columns\<close>: the types of the entries from the parsers to the columns of \<open>models.FtpLog\<close>.
    \<open>Dedup\<close>: the unique index of the log table and the migration of \<open>migrations.py\<close> that makes it
    possible; \<open>resent_entries_are_stored_once\<close> composes it with the end point. \<open>Migrations\<close>: all
    statements of \<open>run_migrations\<close>, on the catalog of the database.
  \<^item> \<open>Rollup\<close>, \<open>Detect\<close>, \<open>Episodes\<close>: the parts of \<open>service_monitor.py\<close>. The SQL is a function on lists
    of rows; order statistics are on reals.
  \<^item> \<open>AlertConfig\<close>: the thresholds of the detection; \<open>detection_gets_sane_thresholds\<close> composes
    saving them with judging. \<open>Notifier\<close>: texts, mails and channels of \<open>notifier.py\<close>.
  \<^item> \<open>Monitor\<close>: a whole cycle (\<open>run_once\<close>) over all of these and the disk guard, with the places
    where it can raise; \<open>waiting_alert_is_kept_or_delivered\<close> follows an alert through any number of
    cycles to the network, \<open>cycle_refines_the_tables\<close> connects the cycle with \<open>Episodes\<close>.
  \<^item> \<open>Queries\<close> and \<open>Views\<close>: the log search (\<open>routers/logs.py\<close>) and the screens of
    \<open>routers/dashboard.py\<close>; \<open>screen_counts_what_alerts_count\<close> composes the screen with the roll-up.
    \<open>Exports\<close>: the CSV file and the sheet, with a reader of CSV to state what a file says.
  \<^item> \<open>Storage\<close>: the monthly partitions, retention, the disk guard and their routes. \<open>Rebalance\<close>: the
    script that moves rows out of the default partition.

  \<^bold>\<open>The server: people and devices.\<close>
  \<^item> \<open>Accounts\<close>: passwords, the login lock, login and the administration of accounts
    (\<open>security.py\<close>, \<open>routers/auth.py\<close>, \<open>routers/users.py\<close>). \<open>Scope\<close>: API keys and what a caller may see
    (\<open>api_keys.py\<close>, \<open>deps.py\<close>). \<open>Directory\<close>: the pages that list accounts and keys, and that they
    tell what an account sees and a key may do.
  \<^item> \<open>Routes\<close>: the routes of all routers with their guards, the page for other paths (\<open>main.py\<close>) and
    the headers of the responses; \<open>who_reaches_which_handler\<close> is the table of access.
  \<^item> \<open>Startup\<close>: the settings that are refused, \<open>lifespan\<close> of \<open>main.py\<close> and the end of a worker, composed
    of \<open>Migrations\<close>, \<open>Accounts\<close>, \<open>Storage\<close> and \<open>WriteBuf\<close>; \<open>start_succeeds_exactly\<close> says when a worker
    comes up, \<open>restart_changes_nothing\<close> that the next one finds nothing to do.
  \<^item> \<open>Registry\<close>: devices, groups, mappings and carriers with their routes and the cascades of the
    database, and the update requests to daemons.
  \<^item> \<open>Appearance\<close> and \<open>SettingsPage\<close>: the login screen, version and change log, password and
    address settings.

  \<^bold>\<open>Interfaces.\<close> A locale states what a client needs of a provider, and an interpretation in the
  provider's theory discharges it for the model of the code: \<open>row_store\<close> (a buffer that keeps
  what it accepted), \<open>setting\<close> and \<open>setting_on\<close> (a stored value holds the last accepted one), the
  dictionary of \<open>app_config\<close>, and the others named in their theories. The properties are stated
  outside the locales, on the definitions of the model.

  \<^bold>\<open>State, effects and errors.\<close> Objects are records that operations return updated; threads are
  interleavings of steps; an \<open>HTTPException\<close> is the left side of a sum, and so is an error the
  handler does not catch. Tables are lists of records, so order and duplicates are explicit.
  Loops are structural recursions, except the attempts of \<open>_post\<close>, which recurse on the number of
  attempts left, as many as the code makes. The depth of an interpolation is the bound of the
  library. No other definition uses fuel: every function is total, and \<open>post_first_answer\<close> states what ends the retries.

  \<^bold>\<open>Parameters.\<close> What is not code of the repository is an argument: the network, the file system
  and clock readings, the answers of the database to an insert, key derivation, MD5 and SHA-256,
  the arithmetic on IP networks, the time zone of a host, the formatting of a time, \<open>str\<close> of a
  float, git. The properties name what they rely on (for instance that \<open>float\<close> reads back what
  \<open>str\<close> wrote), and their witnesses give concrete functions.

  \<^bold>\<open>Not modelled.\<close> The creation of tables and extensions and the text of the SQL script (declarations that
  the database runs), the types of columns and the kinds of indexes; the connection pool; the life
  cycle of the threads, which is an interleaving of their steps; the HTML and JavaScript of the pages and the script that builds the demonstration; log lines and
  argument parsing (output and input without a decision). JSON is the datatype of the values
  that travel, not a text. Characters are Latin-1 code points, as the daemon reads its files; case
  folding is that of ASCII, and the Korean texts of messages are given in English. Floating point
  is exact: a measurement is a real number, NaN or infinite. Requests are
  taken as atomic; where the code takes no lock and that matters, a theorem says so
  (\<open>concurrent_failures_count_once\<close>). The storage operations leave out the moves of the rebalance
  and the rows that the deletion of a device takes with it.
\<close>

end
